(* ===== verification/Go_Prelude.thy ===== *)
theory Go_Prelude
  imports Main "HOL-Library.State_Monad" "HOL-Library.Sublist" "HOL-Library.Code_Target_Nat"
begin

text \<open>
  What every component of the model shares: Go's error values, durations and times, the
  functions of the standard library packages \<open>strings\<close> and \<open>strconv\<close> that the program
  calls, and generic lemmas on lists and maps.

  A Go string is a sequence of bytes, which is what \<^typ>\<open>string\<close> is here, so
  \<open>len(s)\<close> is \<^const>\<open>length\<close>. \<open>strings.ToLower\<close> and \<open>strings.TrimSpace\<close> are
  modelled on ASCII: bytes of multi-byte UTF-8 characters are left alone.
\<close>

named_theorems trace_rules \<comment> \<open>introduction rules for predicates on effectful programs\<close>
named_theorems label_simps \<comment> \<open>normal forms of runner labels\<close>

section \<open>Errors, durations and times\<close>

text \<open>
  An \<open>error\<close> is its message; \<open>fmt.Errorf("...: %w", err)\<close> prefixes the message of the
  wrapped error. \<open>nil\<close> is \<open>None\<close> where a function returns an error only, and a result
  with an error is a sum, \<open>Inl\<close> the error.
\<close>

type_synonym gerror = string
type_synonym 'a result = "gerror + 'a"

text \<open>A \<open>time.Duration\<close> counts nanoseconds in 64 bits, a \<open>time.Time\<close> is the number of
  nanoseconds since Go's zero time, so that \<open>IsZero\<close> is equality with 0.\<close>

type_synonym duration = int
type_synonym gotime = int

definition second :: duration where "second = 1000000000"
definition minute :: duration where "minute = 60 * second"
definition hour :: duration where "hour = 60 * minute"

definition minDuration :: duration where "minDuration = - (2 ^ 63)"
definition maxDuration :: duration where "maxDuration = 2 ^ 63 - 1"

abbreviation (input) isZero :: "gotime \<Rightarrow> bool" where "isZero t \<equiv> t = 0"

text \<open>\<open>t.Sub(u)\<close> saturates at the bounds of \<open>Duration\<close>.\<close>

definition time_sub :: "gotime \<Rightarrow> gotime \<Rightarrow> duration" where
  "time_sub t u = max minDuration (min maxDuration (t - u))"

lemma time_sub_self [simp]: "time_sub t t = 0"
  by (simp add: time_sub_def minDuration_def maxDuration_def)

lemma time_sub_less_iff:
  "minDuration < d \<Longrightarrow> d \<le> maxDuration \<Longrightarrow> time_sub t u < d \<longleftrightarrow> t - u < d"
  by (auto simp: time_sub_def)

lemma time_sub_nonneg: "u \<le> t \<Longrightarrow> 0 \<le> time_sub t u"
  by (simp add: time_sub_def maxDuration_def)

lemma time_sub_mono: "t \<le> t' \<Longrightarrow> time_sub t u \<le> time_sub t' u"
  by (auto simp: time_sub_def)

text \<open>Integer division of Go truncates towards zero.\<close>

definition go_div :: "int \<Rightarrow> int \<Rightarrow> int" where
  "go_div a b = sgn a * sgn b * (\<bar>a\<bar> div \<bar>b\<bar>)"

section \<open>Package strings\<close>

definition has_prefix :: "string \<Rightarrow> string \<Rightarrow> bool" where
  "has_prefix s p \<longleftrightarrow> take (length p) s = p"

definition has_suffix :: "string \<Rightarrow> string \<Rightarrow> bool" where
  "has_suffix s p \<longleftrightarrow> length p \<le> length s \<and> drop (length s - length p) s = p"

definition trim_prefix :: "string \<Rightarrow> string \<Rightarrow> string" where
  "trim_prefix s p = (if has_prefix s p then drop (length p) s else s)"

definition trim_suffix :: "string \<Rightarrow> string \<Rightarrow> string" where
  "trim_suffix s p = (if has_suffix s p then take (length s - length p) s else s)"

fun contains :: "string \<Rightarrow> string \<Rightarrow> bool" where
  "contains [] sub = (sub = [])"
| "contains (c # s) sub = (has_prefix (c # s) sub \<or> contains s sub)"

definition lower_char :: "char \<Rightarrow> char" where
  "lower_char c = (let n = (of_char c :: nat) in if 65 \<le> n \<and> n \<le> 90 then char_of (n + 32) else c)"

definition upper_char :: "char \<Rightarrow> char" where
  "upper_char c = (let n = (of_char c :: nat) in if 97 \<le> n \<and> n \<le> 122 then char_of (n - 32) else c)"

definition to_lower :: "string \<Rightarrow> string" where
  "to_lower s = map lower_char s"

definition to_upper :: "string \<Rightarrow> string" where
  "to_upper s = map upper_char s"

definition equal_fold :: "string \<Rightarrow> string \<Rightarrow> bool" where
  "equal_fold s t \<longleftrightarrow> to_lower s = to_lower t"

definition is_space :: "char \<Rightarrow> bool" where
  "is_space c = (let n = (of_char c :: nat) in n = 32 \<or> (9 \<le> n \<and> n \<le> 13))"

definition trim_space :: "string \<Rightarrow> string" where
  "trim_space s = rev (dropWhile is_space (rev (dropWhile is_space s)))"

text \<open>\<open>strings.Split(s, sep)\<close> for a one-byte separator.\<close>

fun split_on :: "char \<Rightarrow> string \<Rightarrow> string list" where
  "split_on c [] = [[]]"
| "split_on c (x # s) =
     (if x = c then [] # split_on c s
      else (case split_on c s of [] \<Rightarrow> [[x]] | w # ws \<Rightarrow> (x # w) # ws))"

text \<open>\<open>strings.Cut(s, sep)\<close> for a one-byte separator: before, after, found.\<close>

definition cut :: "string \<Rightarrow> char \<Rightarrow> string \<times> string \<times> bool" where
  "cut s c = (if c \<in> set s then (takeWhile (\<lambda>x. x \<noteq> c) s, tl (dropWhile (\<lambda>x. x \<noteq> c) s), True)
              else (s, [], False))"

fun join :: "string \<Rightarrow> string list \<Rightarrow> string" where
  "join sep [] = []"
| "join sep [s] = s"
| "join sep (s # t # ts) = s @ sep @ join sep (t # ts)"

text \<open>\<open>strings.ReplaceAll(s, old, new)\<close> for a one-byte \<open>old\<close>.\<close>

definition replace_char :: "string \<Rightarrow> char \<Rightarrow> string \<Rightarrow> string" where
  "replace_char s c new = concat (map (\<lambda>x. if x = c then new else [x]) s)"

text \<open>\<open>errors.Join\<close> puts the messages of its non-nil errors on lines of their own.\<close>

definition join_errors :: "gerror list \<Rightarrow> gerror" where
  "join_errors es = join [CHR 0x0A] es"

lemma has_prefix_append [simp]: "has_prefix (p @ s) p"
  by (simp add: has_prefix_def)

lemma has_prefix_refl [simp]: "has_prefix p p"
  by (simp add: has_prefix_def)

lemma has_prefix_iff_prefix: "has_prefix s p \<longleftrightarrow> prefix p s"
  by (metis append_eq_conv_conj has_prefix_def prefix_def append_take_drop_id)

lemma has_prefix_trans: "has_prefix s q \<Longrightarrow> has_prefix q p \<Longrightarrow> has_prefix s p"
  by (auto simp: has_prefix_iff_prefix dest: prefix_order.trans)

lemma has_prefix_Nil [simp]: "has_prefix s []"
  by (simp add: has_prefix_def)

lemma contains_iff_sublist: "contains s sub \<longleftrightarrow> sublist sub s"
  by (induction s) (auto simp: has_prefix_iff_prefix sublist_Cons_right)

lemma split_on_nonempty [simp]: "split_on c s \<noteq> []"
  by (induction s) (auto split: list.splits)

lemma split_on_no_sep: "w \<in> set (split_on c s) \<Longrightarrow> c \<notin> set w"
  by (induction s arbitrary: w) (auto split: list.splits if_splits)

lemma split_on_join: "join [c] (split_on c s) = s"
proof (induction s)
  case (Cons x s)
  obtain w ws where w: "split_on c s = w # ws"
    by (cases "split_on c s") auto
  then show ?case using Cons by (cases ws) auto
qed simp

lemma split_on_append_line:
  "c \<notin> set l \<Longrightarrow> split_on c (l @ c # s) = l # split_on c s"
  by (induction l) auto

lemma split_on_lines:
  "\<forall>l \<in> set ls. c \<notin> set l \<Longrightarrow> split_on c (concat (map (\<lambda>l. l @ [c]) ls)) = ls @ [[]]"
  by (induction ls) (auto simp: split_on_append_line)

section \<open>Package strconv\<close>

definition digit_char :: "nat \<Rightarrow> char" where
  "digit_char d = char_of (48 + d)"

fun nat_dec :: "nat \<Rightarrow> string" where
  "nat_dec n = (if n < 10 then [digit_char n] else nat_dec (n div 10) @ [digit_char (n mod 10)])"

declare nat_dec.simps [simp del]

text \<open>\<open>strconv.FormatInt(i, 10)\<close>, and \<open>%d\<close>.\<close>

definition itoa :: "int \<Rightarrow> string" where
  "itoa i = (if i < 0 then CHR ''-'' # nat_dec (nat (- i)) else nat_dec (nat i))"

fun parse_digits :: "nat \<Rightarrow> string \<Rightarrow> nat option" where
  "parse_digits acc [] = Some acc"
| "parse_digits acc (c # s) =
     (let n = (of_char c :: nat) in
      if 48 \<le> n \<and> n \<le> 57 then parse_digits (acc * 10 + (n - 48)) s else None)"

text \<open>\<open>strconv.ParseInt(s, 10, 64)\<close>: an optional sign, at least one digit, the value within
  64 bits. \<open>None\<close> is the error.\<close>

definition parse_int :: "string \<Rightarrow> int option" where
  "parse_int s =
     (let (neg, ds) = (case s of [] \<Rightarrow> (False, [])
                       | c # t \<Rightarrow> if c = CHR ''-'' then (True, t)
                                  else if c = CHR ''+'' then (False, t) else (False, s))
      in if ds = [] then None
         else case parse_digits 0 ds of
                None \<Rightarrow> None
              | Some n \<Rightarrow> (let i = (if neg then - int n else int n) in
                          if - (2 ^ 63) \<le> i \<and> i < 2 ^ 63 then Some i else None))"

lemma of_char_digit: "d < 10 \<Longrightarrow> (of_char (digit_char d) :: nat) = 48 + d"
  by (simp add: digit_char_def)

lemma parse_digits_append:
  "parse_digits acc (s @ t) = Option.bind (parse_digits acc s) (\<lambda>a. parse_digits a t)"
  by (induction s arbitrary: acc) (auto simp: Let_def)

lemma parse_digits_nat_dec: "parse_digits 0 (nat_dec n) = Some n"
proof (induction n rule: nat_dec.induct)
  case (1 n)
  show ?case
  proof (cases "n < 10")
    case True
    then show ?thesis by (subst nat_dec.simps) (simp add: of_char_digit)
  next
    case False
    with 1 show ?thesis
      by (subst nat_dec.simps) (simp add: parse_digits_append of_char_digit)
  qed
qed

lemma nat_dec_inj: "nat_dec m = nat_dec n \<longleftrightarrow> m = n"
  by (metis option.inject parse_digits_nat_dec)

lemma nat_dec_digits: "c \<in> set (nat_dec n) \<Longrightarrow> 48 \<le> (of_char c :: nat) \<and> (of_char c :: nat) \<le> 57"
proof (induction n rule: nat_dec.induct)
  case (1 n)
  then show ?case
    by (subst (asm) (2) nat_dec.simps) (auto split: if_splits simp: of_char_digit)
qed

lemma nat_dec_nonempty [simp]: "nat_dec n \<noteq> []"
  by (subst nat_dec.simps) simp

lemma nat_dec_no_char:
  "(of_char c :: nat) < 48 \<or> 57 < (of_char c :: nat) \<Longrightarrow> c \<notin> set (nat_dec n)"
  using nat_dec_digits by fastforce

lemma parse_int_itoa: "- (2 ^ 63) \<le> i \<Longrightarrow> i < 2 ^ 63 \<Longrightarrow> parse_int (itoa i) = Some i"
proof -
  assume b: "- (2 ^ 63) \<le> i" "i < 2 ^ 63"
  show ?thesis
  proof (cases "i < 0")
    case True
    with b show ?thesis
      by (simp add: parse_int_def itoa_def parse_digits_nat_dec)
  next
    case False
    obtain c t where ct: "nat_dec (nat i) = c # t"
      by (cases "nat_dec (nat i)") auto
    then have "c \<noteq> CHR ''-''" and "c \<noteq> CHR ''+''"
      using nat_dec_digits [of c "nat i"] by auto
    with False b ct show ?thesis
      using parse_digits_nat_dec [of "nat i"] by (simp add: parse_int_def itoa_def)
  qed
qed

lemma itoa_inj_nat: "0 \<le> i \<Longrightarrow> 0 \<le> j \<Longrightarrow> itoa i = itoa j \<longleftrightarrow> i = j"
  by (auto simp: itoa_def nat_dec_inj)

definition hexLower :: "nat \<Rightarrow> char" where
  "hexLower n = char_of (if n < 10 then 48 + n else 87 + n)"

text \<open>\<open>strconv.Quote\<close>, for \<open>%q\<close>; bytes of multi-byte characters are copied.\<close>

definition quoteChar :: "char \<Rightarrow> string" where
  "quoteChar c =
     (let n = (of_char c :: nat) in
      if n = 34 \<or> n = 92 then [CHR 0x5C, c]
      else if n = 7 then [CHR 0x5C, CHR ''a''] else if n = 8 then [CHR 0x5C, CHR ''b'']
      else if n = 12 then [CHR 0x5C, CHR ''f''] else if n = 10 then [CHR 0x5C, CHR ''n'']
      else if n = 13 then [CHR 0x5C, CHR ''r''] else if n = 9 then [CHR 0x5C, CHR ''t'']
      else if n = 11 then [CHR 0x5C, CHR ''v'']
      else if n < 32 \<or> n = 127 then [CHR 0x5C, CHR ''x'', hexLower (n div 16), hexLower (n mod 16)]
      else [c])"

definition quoted :: "string \<Rightarrow> string" where
  "quoted s = CHR 0x22 # concat (map quoteChar s) @ [CHR 0x22]"

section \<open>Lists\<close>

lemma sum_list_filter_le: "length (filter P xs) \<le> length xs"
  by (rule length_filter_le)

lemma dropWhile_hd: "dropWhile P s \<noteq> [] \<Longrightarrow> \<not> P (hd (dropWhile P s))"
  by (rule hd_dropWhile)

lemma dropWhile_id: "s = [] \<or> \<not> P (hd s) \<Longrightarrow> dropWhile P s = s"
  by (cases s) auto

lemma takeWhile_upto_char: "c \<notin> set m \<Longrightarrow> takeWhile (\<lambda>y. y \<noteq> c) (m @ c # x) = m"
  by (induction m) auto

lemma append_char_inj:
  assumes "c \<notin> set m" and "c \<notin> set n" and "m @ c # x = n @ c # y"
  shows "m = n"
  using assms takeWhile_upto_char by metis

lemma trim_space_ends:
  "trim_space s = [] \<or> (\<not> is_space (hd (trim_space s)) \<and> \<not> is_space (last (trim_space s)))"
proof -
  let ?l = "dropWhile is_space s"
  let ?r = "dropWhile is_space (rev ?l)"
  have "?r \<noteq> [] \<Longrightarrow> \<not> is_space (last (rev ?r))"
    using dropWhile_hd [of is_space "rev ?l"] by (simp add: last_rev)
  moreover have "?r \<noteq> [] \<Longrightarrow> \<not> is_space (hd (rev ?r))"
  proof -
    assume ne: "?r \<noteq> []"
    obtain zs where zs: "rev ?l = zs @ ?r"
      by (metis takeWhile_dropWhile_id)
    then have l: "?l = rev ?r @ rev zs"
      by (metis rev_append rev_rev_ident)
    then have "?l \<noteq> []"
      using ne by (metis append_is_Nil_conv rev_is_Nil_conv)
    moreover have "hd ?l = hd (rev ?r)"
      using l ne by (metis hd_append2 rev_is_Nil_conv)
    ultimately show ?thesis using dropWhile_hd [of is_space s] by metis
  qed
  ultimately show ?thesis by (auto simp: trim_space_def)
qed

lemma trim_space_id:
  "s = [] \<or> (\<not> is_space (hd s) \<and> \<not> is_space (last s)) \<Longrightarrow> trim_space s = s"
  by (auto simp: trim_space_def dropWhile_id hd_rev)

lemma trim_space_idem [label_simps]: "trim_space (trim_space s) = trim_space s"
  by (rule trim_space_id) (rule trim_space_ends)

lemma lower_char_idem: "lower_char (lower_char c) = lower_char c"
  by (simp add: lower_char_def Let_def)

lemma to_lower_idem [label_simps]: "to_lower (to_lower s) = to_lower s"
  by (simp add: to_lower_def lower_char_idem)

end
