(* ===== verification/Scaler_Domain.thy ===== *)
theory Scaler_Domain
  imports Go_Prelude Complex_Main
begin

text \<open>
  The value types of \<open>internal/domain/types.go\<close>. Structs are records; the fields carry a
  short prefix where several structs share a field name (\<open>c_Name\<close>, \<open>r_Name\<close>).
  \<open>float64\<close> fields are rational numbers: rounding is not modelled. A nil pointer is
  \<open>None\<close>; a nil slice and an empty one are both \<open>[]\<close>.
\<close>

record cachePrunePolicy =
  cp_Enabled :: bool
  cp_Interval :: duration
  cp_MaxAge :: duration
  cp_TempMaxAge :: duration
  cp_Paths :: "string list"

datatype containerStatus = StatusUnknown | StatusRunning | StatusStopped

fun containerStatus_String :: "containerStatus \<Rightarrow> string" where
  "containerStatus_String StatusRunning = ''running''"
| "containerStatus_String StatusStopped = ''stopped''"
| "containerStatus_String StatusUnknown = ''unknown''"

record container =
  c_Name :: string
  c_Status :: containerStatus

record runner =
  r_ID :: int
  r_Name :: string
  r_Status :: string
  r_Busy :: bool
  r_Labels :: "string list"
  r_IsAuto :: bool

record runnerSnapshot =
  rs_Total :: int
  rs_Busy :: int
  rs_Idle :: int
  rs_Online :: int
  rs_Offline :: int
  rs_Auto :: int
  rs_Permanent :: int
  rs_Runners :: "runner list"

datatype webhookEventType =
  EventUnknown | EventJobQueued | EventJobInProgress | EventJobCompleted | EventPush

record queuedJob =
  q_ID :: int
  q_Repo :: string
  q_Labels :: "string list"
  q_QueuedAt :: gotime

record capacityDemand =
  d_QueuedJobs :: int
  d_OldestAge :: duration

record webhookEvent =
  w_Type :: webhookEventType
  w_EventType :: string
  w_Action :: string
  w_Repo :: string
  w_Ref :: string
  w_DefaultBranch :: string
  w_Branch :: string
  w_Commit :: string
  w_Workflow :: string
  w_Job :: string
  w_JobID :: int
  w_Runner :: string
  w_Status :: string
  w_Conclusion :: string
  w_RunID :: int
  w_RunAttempt :: int
  w_Detail :: string
  w_Labels :: "string list"

record runnerDetail =
  rd_Name :: string
  rd_Status :: string
  rd_Busy :: bool
  rd_IsAuto :: bool

record RunnerInventoryMeta =
  im_Stale :: bool
  im_AgeS :: int
  im_FetchedAt :: string
  im_Error :: string

record workflowMetrics =
  wm_RunID :: int
  wm_RunAttempt :: int
  wm_Repo :: string
  wm_Workflow :: string
  wm_Conclusion :: string
  wm_DurationS :: int
  wm_RunNumber :: int
  wm_Event :: string
  wm_Branch :: string
  wm_CompletedAt :: string
  wm_FailedJob :: string
  wm_FailedStep :: string
  wm_FailureReason :: string

record lifecycleMetrics =
  lm_WindowStart :: string
  lm_WindowEnd :: string
  lm_QueueWaitSamples :: int
  lm_AvgQueueWaitS :: rat
  lm_P95QueueWaitS :: rat
  lm_LifecycleSamples :: int
  lm_AvgJobsPerLifecycle :: rat
  lm_ReusedLifecyclePct :: rat
  lm_ScaleDownToScaleUpSamples :: int
  lm_AvgScaleDownToScaleUpS :: rat

record containerState =
  cs_Name :: string
  cs_LastActive :: gotime

text \<open>The structured log entry persisted for the \<open>/logs\<close> endpoint.\<close>

record logEntry =
  le_Time :: gotime
  le_Level :: string
  le_Message :: string
  le_Component :: string
  le_EventType :: string
  le_Action :: string
  le_Repo :: string
  le_Workflow :: string
  le_Job :: string
  le_JobID :: int
  le_Runner :: string
  le_Container :: string
  le_Commit :: string
  le_Branch :: string
  le_Status :: string
  le_Conclusion :: string
  le_Detail :: string
  le_CachePath :: string
  le_RunID :: int
  le_RunAttempt :: int
  le_Error :: string
  le_Attributes :: "(string \<times> string) list"

end
