(* ===== verification/Runner_Labels.thy ===== *)
theory Runner_Labels
  imports Scaler_Domain
begin

text \<open>
  Runner labels and capacity counting (\<open>internal/engine/reconciler.go\<close>), and the routing of
  webhook events to runner groups (\<open>internal/daemon/webhook.go\<close>). Go's set idiom
  \<open>map[string]struct{}\<close> is a set.
\<close>

section \<open>Labels of the engine\<close>

definition normLabel :: "string \<Rightarrow> string" where
  "normLabel l = to_lower (trim_space l)"

definition labelsSet :: "string \<Rightarrow> string set" where
  "labelsSet labels = set (filter (\<lambda>l. l \<noteq> []) (map normLabel (split_on (CHR '','') labels)))"

definition runnerHasLabels :: "runner \<Rightarrow> string set \<Rightarrow> bool" where
  "runnerHasLabels runner required =
     (if required = {} then True
      else if r_Labels runner = [] then False
      else (let available = set (filter (\<lambda>l. l \<noteq> []) (map normLabel (r_Labels runner)))
            in required \<subseteq> available))"

fun AvailableRunnerCount :: "runner list \<Rightarrow> int" where
  "AvailableRunnerCount [] = 0"
| "AvailableRunnerCount (r # rs) =
     (if r_Status r = ''online'' \<and> \<not> r_Busy r then 1 else 0) + AvailableRunnerCount rs"

fun availableCount :: "string set \<Rightarrow> runner list \<Rightarrow> int" where
  "availableCount required [] = 0"
| "availableCount required (r # rs) =
     (if r_Status r = ''online'' \<and> \<not> r_Busy r \<and> runnerHasLabels r required then 1 else 0)
     + availableCount required rs"

definition AvailableRunnerCountForLabels :: "runner list \<Rightarrow> string \<Rightarrow> int" where
  "AvailableRunnerCountForLabels runners labels = availableCount (labelsSet labels) runners"

lemma availableCount_filter:
  "availableCount req rs =
     int (length (filter (\<lambda>r. r_Status r = ''online'' \<and> \<not> r_Busy r \<and> runnerHasLabels r req) rs))"
  by (induction rs) auto

lemma AvailableRunnerCount_filter:
  "AvailableRunnerCount rs = int (length (filter (\<lambda>r. r_Status r = ''online'' \<and> \<not> r_Busy r) rs))"
  by (induction rs) auto

lemma availableCount_nonneg [simp]: "0 \<le> availableCount req rs"
  by (simp add: availableCount_filter)

lemma runnerHasLabels_iff:
  "runnerHasLabels r req \<longleftrightarrow> req \<subseteq> normLabel ` set (r_Labels r) - {[]} \<or> req = {}"
  by (auto simp: runnerHasLabels_def)

lemma runnerHasLabels_antimono: "req \<subseteq> req' \<Longrightarrow> runnerHasLabels r req' \<Longrightarrow> runnerHasLabels r req"
  by (auto simp: runnerHasLabels_iff)

lemma availableCount_antimono: "req \<subseteq> req' \<Longrightarrow> availableCount req' rs \<le> availableCount req rs"
  by (induction rs) (auto dest: runnerHasLabels_antimono)

section \<open>Snapshot of the pool\<close>

fun snapshotFrom :: "runnerSnapshot \<Rightarrow> string \<Rightarrow> runner list \<Rightarrow> runnerSnapshot" where
  "snapshotFrom snap pfx [] = snap"
| "snapshotFrom snap pfx (r # rs) =
     (let s1 = (if r_Busy r then snap\<lparr>rs_Busy := rs_Busy snap + 1\<rparr> else snap);
          s2 = (if r_Status r = ''online'' then s1\<lparr>rs_Online := rs_Online s1 + 1\<rparr> else s1);
          s3 = (if has_prefix (r_Name r) pfx then s2\<lparr>rs_Auto := rs_Auto s2 + 1\<rparr> else s2)
      in snapshotFrom s3 pfx rs)"

definition buildSnapshot :: "runner list \<Rightarrow> string \<Rightarrow> runnerSnapshot" where
  "buildSnapshot runners pfx =
     (let snap = snapshotFrom
        \<lparr>rs_Total = int (length runners), rs_Busy = 0, rs_Idle = 0, rs_Online = 0, rs_Offline = 0,
         rs_Auto = 0, rs_Permanent = 0, rs_Runners = runners\<rparr> pfx runners
      in snap\<lparr>rs_Idle := rs_Total snap - rs_Busy snap,
              rs_Offline := rs_Total snap - rs_Online snap,
              rs_Permanent := rs_Total snap - rs_Auto snap\<rparr>)"

lemma snapshotFrom_counts:
  "rs_Total (snapshotFrom s p rs) = rs_Total s \<and>
   rs_Runners (snapshotFrom s p rs) = rs_Runners s \<and>
   rs_Busy (snapshotFrom s p rs) = rs_Busy s + int (length (filter r_Busy rs)) \<and>
   rs_Online (snapshotFrom s p rs) = rs_Online s + int (length (filter (\<lambda>r. r_Status r = ''online'') rs)) \<and>
   rs_Auto (snapshotFrom s p rs) = rs_Auto s + int (length (filter (\<lambda>r. has_prefix (r_Name r) p) rs))"
  by (induction rs arbitrary: s) (auto simp: Let_def)

lemma length_filter_compl: "int (length xs) - int (length (filter P xs)) = int (length (filter (\<lambda>x. \<not> P x) xs))"
  by (induction xs) auto

definition findRunner :: "string \<Rightarrow> runner list \<Rightarrow> runner option" where
  "findRunner containerName runners = find (\<lambda>r. r_Name r = containerName) runners"

lemma findRunner_SomeD: "findRunner n rs = Some r \<Longrightarrow> r \<in> set rs \<and> r_Name r = n"
  by (auto simp: findRunner_def find_Some_iff)

section \<open>Labels of the webhook router\<close>

text \<open>The part of a \<open>RunnerGroup\<close> that routing looks at.\<close>

record runnerGroup =
  g_ID :: string
  g_Target :: string
  g_RepoScoped :: bool
  g_Prefix :: string
  g_MatchLabels :: "string list"
  g_BaselineName :: string

definition groupMatchesRepo :: "runnerGroup \<Rightarrow> string \<Rightarrow> bool" where
  "groupMatchesRepo g repo0 =
     (let target = to_lower (trim_space (g_Target g));
          repo = to_lower (trim_space repo0)
      in if target = [] \<or> repo = [] then True
         else if g_RepoScoped g then repo = target
         else (let (owner, rest, ok) = cut repo (CHR ''/'') in ok \<and> owner = target))"

definition labelsMatch :: "string list \<Rightarrow> string list \<Rightarrow> bool" where
  "labelsMatch jobLabels groupLabels =
     (if groupLabels = [] then True
      else (let seen = set (map normLabel jobLabels)
            in list_all (\<lambda>l. normLabel l = [] \<or> normLabel l \<in> seen) groupLabels))"

definition groupsForRepo :: "runnerGroup list \<Rightarrow> string \<Rightarrow> runnerGroup list" where
  "groupsForRepo groups repo =
     (if trim_space repo = [] then groups else filter (\<lambda>g. groupMatchesRepo g repo) groups)"

text \<open>The event is \<open>None\<close> for a nil pointer.\<close>

definition groupsForEvent :: "runnerGroup list \<Rightarrow> webhookEvent option \<Rightarrow> runnerGroup list" where
  "groupsForEvent dgroups ev =
     (case ev of None \<Rightarrow> dgroups
      | Some event \<Rightarrow>
         (let candidates = groupsForRepo dgroups (w_Repo event) in
          if candidates = [] then []
          else if w_Labels event = [] then candidates
          else (let groups = filter (\<lambda>g. labelsMatch (w_Labels event) (g_MatchLabels g)) candidates
                in if groups = [] then candidates else groups)))"

lemma labelsMatch_mono: "set js \<subseteq> set js' \<Longrightarrow> labelsMatch js gs \<Longrightarrow> labelsMatch js' gs"
  by (auto simp: labelsMatch_def list_all_iff) blast

lemma groupsForRepo_matches: "g \<in> set (groupsForRepo gs repo) \<longleftrightarrow> g \<in> set gs \<and> groupMatchesRepo g repo"
  by (auto simp: groupsForRepo_def groupMatchesRepo_def to_lower_def)

lemma groupsForEvent_subset:
  "set (groupsForEvent gs (Some e)) \<subseteq> {g \<in> set gs. groupMatchesRepo g (w_Repo e)}"
  by (auto simp: groupsForEvent_def Let_def groupsForRepo_matches split: if_splits)

end
