(* ===== verification/Effects.thy ===== *)
theory Effects
  imports Scaler_Domain
begin

text \<open>
  Programs with effects. The reconciler talks to a CI platform, a container runtime, a cache
  manager, a state store, the clock and the log through the interfaces of
  \<open>internal/iface\<close>. Each call appends an event with its arguments and its answer to a
  trace, and the answer is given by an environment that sees the whole trace so far: any
  behaviour of the services, failures included, is the behaviour of some environment.

  A program is a state transformer over the trace (\<open>HOL-Library.State_Monad\<close>).
  \<open>emits \<phi> m\<close> says that every event of \<open>m\<close> satisfies \<open>\<phi>\<close>; \<open>yields m Q\<close>
  relates the result of \<open>m\<close> to the events it adds. The rules for both are collected in
  \<open>trace_rules\<close> and \<open>yields_rules\<close>.
\<close>

section \<open>Events and environments\<close>

datatype logLevel = LevelDebug | LevelInfo | LevelWarn | LevelError

text \<open>The levels of \<open>log/slog\<close> are ordered by severity.\<close>

fun levelRank :: "logLevel \<Rightarrow> int" where
  "levelRank LevelDebug = -4"
| "levelRank LevelInfo = 0"
| "levelRank LevelWarn = 4"
| "levelRank LevelError = 8"

lemma levelRank_inj: "levelRank a = levelRank b \<longleftrightarrow> a = b"
  by (cases a; cases b) auto

instantiation logLevel :: linorder
begin

definition less_eq_logLevel :: "logLevel \<Rightarrow> logLevel \<Rightarrow> bool" where
  "less_eq_logLevel a b \<longleftrightarrow> levelRank a \<le> levelRank b"

definition less_logLevel :: "logLevel \<Rightarrow> logLevel \<Rightarrow> bool" where
  "less_logLevel a b \<longleftrightarrow> levelRank a < levelRank b"

instance
  by standard (auto simp: less_eq_logLevel_def less_logLevel_def levelRank_inj)

end

datatype logVal = LStr string | LInt int | LBool bool | LDur duration

type_synonym logAttrs = "(string \<times> logVal) list"

datatype event =
    EvListRunners "runner list result"
  | EvRegistrationToken "string result"
  | EvRemoveToken "string result"
  | EvDeleteRunner int "gerror option"
  | EvSuspendInventory
  | EvResumeInventory
  | EvClone string "gerror option"
  | EvStart string "gerror option"
  | EvStop string "gerror option"
  | EvDelete string "gerror option"
  | EvExec string "string list" "string result"
  | EvWaitReady string "string list" duration "gerror option"
  | EvListContainers string "container list result"
  | EvStatus string "containerStatus result"
  | EvAttachCache string "gerror option"
  | EvCacheSymlinks string "gerror option"
  | EvPruneCache string cachePrunePolicy "gerror option"
  | EvGetLastActive string "gotime result"
  | EvSetLastActive string gotime "gerror option"
  | EvCreateState string "gerror option"
  | EvDeleteState string "gerror option"
  | EvNow gotime
  | EvNewRequest string "gerror option"
  | EvHttpGet string "int result"
  | EvTimer duration "gerror option"
  | EvLog logLevel string logAttrs

type_synonym trace = "event list"

text \<open>The answers of the services, and \<open>RegistrationURL\<close>, which is a constant of the CI
  provider. \<open>EvTimer\<close> is a wait on a timer and on the context: an error when the context
  is done first.\<close>

record env =
  e_ListRunners :: "trace \<Rightarrow> runner list result"
  e_GetRegistrationToken :: "trace \<Rightarrow> string result"
  e_GetRemoveToken :: "trace \<Rightarrow> string result"
  e_DeleteRunner :: "trace \<Rightarrow> int \<Rightarrow> gerror option"
  e_RegistrationURL :: string
  e_CloneFromTemplate :: "trace \<Rightarrow> string \<Rightarrow> gerror option"
  e_StartContainer :: "trace \<Rightarrow> string \<Rightarrow> gerror option"
  e_StopContainer :: "trace \<Rightarrow> string \<Rightarrow> gerror option"
  e_DeleteContainer :: "trace \<Rightarrow> string \<Rightarrow> gerror option"
  e_ExecCommand :: "trace \<Rightarrow> string \<Rightarrow> string list \<Rightarrow> string result"
  e_WaitForReady :: "trace \<Rightarrow> string \<Rightarrow> string list \<Rightarrow> duration \<Rightarrow> gerror option"
  e_ListContainers :: "trace \<Rightarrow> string \<Rightarrow> container list result"
  e_GetContainerStatus :: "trace \<Rightarrow> string \<Rightarrow> containerStatus result"
  e_AttachCache :: "trace \<Rightarrow> string \<Rightarrow> gerror option"
  e_SetupCacheSymlinks :: "trace \<Rightarrow> string \<Rightarrow> gerror option"
  e_PruneCache :: "trace \<Rightarrow> string \<Rightarrow> cachePrunePolicy \<Rightarrow> gerror option"
  e_GetLastActive :: "trace \<Rightarrow> string \<Rightarrow> gotime result"
  e_SetLastActive :: "trace \<Rightarrow> string \<Rightarrow> gotime \<Rightarrow> gerror option"
  e_CreateState :: "trace \<Rightarrow> string \<Rightarrow> gerror option"
  e_DeleteState :: "trace \<Rightarrow> string \<Rightarrow> gerror option"
  e_Now :: "trace \<Rightarrow> gotime"
  e_NewRequest :: "trace \<Rightarrow> string \<Rightarrow> gerror option"
  e_HttpGet :: "trace \<Rightarrow> string \<Rightarrow> int result"
  e_Timer :: "trace \<Rightarrow> duration \<Rightarrow> gerror option"

section \<open>Programs\<close>

type_synonym 'a prog = "(trace, 'a) state"

abbreviation ret :: "'a \<Rightarrow> 'a prog" where "ret \<equiv> State_Monad.return"

definition call :: "(trace \<Rightarrow> 'a) \<Rightarrow> ('a \<Rightarrow> event) \<Rightarrow> 'a prog" where
  "call ask ev = State (\<lambda>tr. let x = ask tr in (x, tr @ [ev x]))"

lemma run_call [simp]: "run_state (call ask ev) tr = (ask tr, tr @ [ev (ask tr)])"
  by (simp add: call_def Let_def)

definition logp :: "logLevel \<Rightarrow> string \<Rightarrow> logAttrs \<Rightarrow> unit prog" where
  "logp lvl msg attrs = call (\<lambda>_. ()) (\<lambda>_. EvLog lvl msg attrs)"

abbreviation "ListRunners E \<equiv> call (e_ListRunners E) EvListRunners"
abbreviation "GetRegistrationToken E \<equiv> call (e_GetRegistrationToken E) EvRegistrationToken"
abbreviation "GetRemoveToken E \<equiv> call (e_GetRemoveToken E) EvRemoveToken"
abbreviation "DeleteRunner E i \<equiv> call (\<lambda>tr. e_DeleteRunner E tr i) (EvDeleteRunner i)"
abbreviation "CloneFromTemplate E n \<equiv> call (\<lambda>tr. e_CloneFromTemplate E tr n) (EvClone n)"
abbreviation "StartContainer E n \<equiv> call (\<lambda>tr. e_StartContainer E tr n) (EvStart n)"
abbreviation "StopContainer E n \<equiv> call (\<lambda>tr. e_StopContainer E tr n) (EvStop n)"
abbreviation "DeleteContainer E n \<equiv> call (\<lambda>tr. e_DeleteContainer E tr n) (EvDelete n)"
abbreviation "ExecCommand E n cmd \<equiv> call (\<lambda>tr. e_ExecCommand E tr n cmd) (EvExec n cmd)"
abbreviation "WaitForReady E n chk t \<equiv> call (\<lambda>tr. e_WaitForReady E tr n chk t) (EvWaitReady n chk t)"
abbreviation "ListContainers E p \<equiv> call (\<lambda>tr. e_ListContainers E tr p) (EvListContainers p)"
abbreviation "GetContainerStatus E n \<equiv> call (\<lambda>tr. e_GetContainerStatus E tr n) (EvStatus n)"
abbreviation "AttachCache E n \<equiv> call (\<lambda>tr. e_AttachCache E tr n) (EvAttachCache n)"
abbreviation "SetupCacheSymlinks E n \<equiv> call (\<lambda>tr. e_SetupCacheSymlinks E tr n) (EvCacheSymlinks n)"
abbreviation "PruneCache E n p \<equiv> call (\<lambda>tr. e_PruneCache E tr n p) (EvPruneCache n p)"
abbreviation "GetLastActive E n \<equiv> call (\<lambda>tr. e_GetLastActive E tr n) (EvGetLastActive n)"
abbreviation "SetLastActive E n t \<equiv> call (\<lambda>tr. e_SetLastActive E tr n t) (EvSetLastActive n t)"
abbreviation "CreateState E n \<equiv> call (\<lambda>tr. e_CreateState E tr n) (EvCreateState n)"
abbreviation "DeleteState E n \<equiv> call (\<lambda>tr. e_DeleteState E tr n) (EvDeleteState n)"
abbreviation "Now E \<equiv> call (e_Now E) EvNow"

section \<open>Reasoning about programs\<close>

definition yields :: "'a prog \<Rightarrow> ('a \<Rightarrow> trace \<Rightarrow> bool) \<Rightarrow> bool" where
  "yields m Q \<longleftrightarrow> (\<forall>tr. \<exists>es. snd (run_state m tr) = tr @ es \<and> Q (fst (run_state m tr)) es)"

definition emits :: "(event \<Rightarrow> bool) \<Rightarrow> 'a prog \<Rightarrow> bool" where
  "emits \<phi> m \<longleftrightarrow> yields m (\<lambda>_ es. list_all \<phi> es)"

lemma yieldsD:
  assumes "yields m Q" and "run_state m tr = (a, tr')"
  obtains es where "tr' = tr @ es" and "Q a es"
proof -
  from assms(1) obtain es where "snd (run_state m tr) = tr @ es" "Q (fst (run_state m tr)) es"
    unfolding yields_def by blast
  with assms(2) have "tr' = tr @ es" "Q a es" by simp_all
  then show thesis by (rule that)
qed

lemma yields_runD: "yields m Q \<Longrightarrow> run_state m tr = (a, tr @ es) \<Longrightarrow> Q a es"
  by (erule yieldsD) auto

lemma yields_run: "yields m Q \<Longrightarrow> run_state m [] = (a, es) \<Longrightarrow> Q a es"
  by (erule yieldsD) auto

lemma yields_mono: "yields m P \<Longrightarrow> (\<And>a es. P a es \<Longrightarrow> Q a es) \<Longrightarrow> yields m Q"
  unfolding yields_def by blast

lemma yields_conj: "yields m P \<Longrightarrow> yields m Q \<Longrightarrow> yields m (\<lambda>a es. P a es \<and> Q a es)"
  unfolding yields_def by (metis same_append_eq)

lemma yields_return: "Q a [] \<Longrightarrow> yields (ret a) Q"
  by (simp add: yields_def)

lemma yields_call: "(\<And>tr. Q (ask tr) [ev (ask tr)]) \<Longrightarrow> yields (call ask ev) Q"
  by (simp add: yields_def)

lemma yields_logp: "Q () [EvLog lvl msg attrs] \<Longrightarrow> yields (logp lvl msg attrs) Q"
  by (simp add: logp_def yields_call)

lemma yields_bind:
  assumes "yields m (\<lambda>a es. yields (f a) (\<lambda>b es'. Q b (es @ es')))"
  shows "yields (m \<bind> f) Q"
  unfolding yields_def
proof
  fix tr
  obtain a tr1 where m: "run_state m tr = (a, tr1)" by force
  obtain b tr2 where f: "run_state (f a) tr1 = (b, tr2)" by force
  from assms m obtain es where es: "tr1 = tr @ es" and y: "yields (f a) (\<lambda>b es'. Q b (es @ es'))"
    by (rule yieldsD)
  from y f obtain es' where "tr2 = tr1 @ es'" and "Q b (es @ es')"
    by (rule yieldsD)
  with m f es show "\<exists>es. snd (run_state (m \<bind> f) tr) = tr @ es \<and> Q (fst (run_state (m \<bind> f) tr)) es"
    by simp
qed

lemma yields_bind2:
  assumes "yields m P" and "\<And>a. yields (f a) (R a)"
    and "\<And>a es b es'. P a es \<Longrightarrow> R a b es' \<Longrightarrow> Q b (es @ es')"
  shows "yields (m \<bind> f) Q"
  by (rule yields_bind, rule yields_mono [OF assms(1)], rule yields_mono [OF assms(2)])
     (rule assms(3))

lemma yields_if: "(c \<Longrightarrow> yields m Q) \<Longrightarrow> (\<not> c \<Longrightarrow> yields n Q) \<Longrightarrow> yields (if c then m else n) Q"
  by simp

lemma yields_sum:
  "(\<And>e. x = Inl e \<Longrightarrow> yields (f e) Q) \<Longrightarrow> (\<And>v. x = Inr v \<Longrightarrow> yields (g v) Q) \<Longrightarrow>
   yields (case x of Inl e \<Rightarrow> f e | Inr v \<Rightarrow> g v) Q"
  by (cases x) auto

lemma yields_option:
  "(x = None \<Longrightarrow> yields f Q) \<Longrightarrow> (\<And>v. x = Some v \<Longrightarrow> yields (g v) Q) \<Longrightarrow>
   yields (case x of None \<Rightarrow> f | Some v \<Rightarrow> g v) Q"
  by (cases x) auto

lemma yields_prod: "(\<And>a b. x = (a, b) \<Longrightarrow> yields (f a b) Q) \<Longrightarrow> yields (case x of (a, b) \<Rightarrow> f a b) Q"
  by (cases x) auto

lemma yields_let: "yields (f x) Q \<Longrightarrow> yields (Let x f) Q"
  by (simp add: Let_def)

lemmas yields_rules =
  yields_bind yields_return yields_call yields_logp yields_if yields_sum yields_option yields_prod yields_let

lemma emits_return [trace_rules]: "emits \<phi> (ret a)"
  by (simp add: emits_def yields_return)

lemma emits_call [trace_rules]: "(\<And>tr. \<phi> (ev (ask tr))) \<Longrightarrow> emits \<phi> (call ask ev)"
  by (simp add: emits_def yields_call)

lemma emits_logp [trace_rules]: "\<phi> (EvLog lvl msg attrs) \<Longrightarrow> emits \<phi> (logp lvl msg attrs)"
  by (simp add: emits_def yields_logp)

lemma emits_bind [trace_rules]: "emits \<phi> m \<Longrightarrow> (\<And>a. emits \<phi> (f a)) \<Longrightarrow> emits \<phi> (m \<bind> f)"
  unfolding emits_def by (erule yields_bind2) auto

lemma emits_if [trace_rules]: "(c \<Longrightarrow> emits \<phi> m) \<Longrightarrow> (\<not> c \<Longrightarrow> emits \<phi> n) \<Longrightarrow> emits \<phi> (if c then m else n)"
  by simp

lemma emits_sum [trace_rules]:
  "(\<And>e. x = Inl e \<Longrightarrow> emits \<phi> (f e)) \<Longrightarrow> (\<And>v. x = Inr v \<Longrightarrow> emits \<phi> (g v)) \<Longrightarrow>
   emits \<phi> (case x of Inl e \<Rightarrow> f e | Inr v \<Rightarrow> g v)"
  by (cases x) auto

lemma emits_option [trace_rules]:
  "(x = None \<Longrightarrow> emits \<phi> f) \<Longrightarrow> (\<And>v. x = Some v \<Longrightarrow> emits \<phi> (g v)) \<Longrightarrow>
   emits \<phi> (case x of None \<Rightarrow> f | Some v \<Rightarrow> g v)"
  by (cases x) auto

lemma emits_prod [trace_rules]: "(\<And>a b. x = (a, b) \<Longrightarrow> emits \<phi> (f a b)) \<Longrightarrow> emits \<phi> (case x of (a, b) \<Rightarrow> f a b)"
  by (cases x) auto

lemma emits_let [trace_rules]: "emits \<phi> (f x) \<Longrightarrow> emits \<phi> (Let x f)"
  by (simp add: Let_def)

lemma emits_mono: "emits \<phi> m \<Longrightarrow> (\<And>e. \<phi> e \<Longrightarrow> \<psi> e) \<Longrightarrow> emits \<psi> m"
  unfolding emits_def by (erule yields_mono) (auto simp: list_all_iff)

lemma emitsD: "emits \<phi> m \<Longrightarrow> run_state m [] = (a, es) \<Longrightarrow> e \<in> set es \<Longrightarrow> \<phi> e"
  unfolding emits_def by (drule (1) yields_run) (auto simp: list_all_iff)

end
