(* ===== verification/Runner_Obs.thy ===== *)
theory Runner_Obs
  imports Effects
begin

text \<open>
  Per-runner log delivery (\<open>internal/runnerobs\<close>): the Promtail configuration, the
  preflight probe with its bounded exponential backoff, and the bootstrapper that installs
  the configuration in a container. \<open>base64\<close> is the standard encoding with padding.
\<close>

section \<open>Rendering the configuration (render.go)\<close>

record obsConfig =
  oc_PushURL :: string
  oc_MaxRetries :: int

record obsRunner =
  or_GroupID :: string
  or_Container :: string
  or_Target :: string

datatype failureClass = Permanent | Transient

definition ClassifyStatus :: "int \<Rightarrow> failureClass" where
  "ClassifyStatus status = (if status = 429 \<or> status \<ge> 500 then Transient else Permanent)"

definition hasNewline :: "string \<Rightarrow> bool" where
  "hasNewline s \<longleftrightarrow> list_ex (\<lambda>c. c = CHR 0x0A \<or> c = CHR 0x0D) s"

definition configLines :: "obsConfig \<Rightarrow> obsRunner \<Rightarrow> string list" where
  "configLines cfg runner =
    [''server:'',
     ''  http_listen_port: 9080'',
     ''  grpc_listen_port: 0'',
     ''positions:'',
     ''  filename: /var/lib/promtail/positions.yaml'',
     ''clients:'',
     ''  - url: '' @ oc_PushURL cfg,
     ''    backoff_config:'',
     ''      min_period: 1s'',
     ''      max_period: 1m'',
     ''      max_retries: '' @ itoa (oc_MaxRetries cfg),
     ''scrape_configs:'',
     ''  - job_name: github-actions-runner'',
     ''    static_configs:'',
     ''      - targets: [localhost]'',
     ''        labels:'',
     ''          job: github-actions'',
     ''          runner_group: '' @ or_GroupID runner,
     ''          runner: '' @ or_Container runner,
     ''          repo: '' @ or_Target runner,
     ''          log_kind: diagnostics'',
     ''          __path__: /home/runner/_diag/Runner_*.log'',
     ''      - targets: [localhost]'',
     ''        labels:'',
     ''          job: github-actions'',
     ''          runner_group: '' @ or_GroupID runner,
     ''          runner: '' @ or_Container runner,
     ''          repo: '' @ or_Target runner,
     ''          log_kind: diagnostics'',
     ''          __path__: /home/runner/_diag/Worker_*.log'',
     ''  - job_name: github-actions-jobs'',
     ''    static_configs:'',
     ''      - targets: [localhost]'',
     ''        labels:'',
     ''          job: github-actions'',
     ''          runner_group: '' @ or_GroupID runner,
     ''          runner: '' @ or_Container runner,
     ''          repo: '' @ or_Target runner,
     ''          log_kind: job'',
     ''          __path__: /home/runner/_work/**/*.log'']"

definition RenderConfig :: "obsConfig \<Rightarrow> obsRunner \<Rightarrow> string result" where
  "RenderConfig cfg runner =
     (if oc_PushURL cfg = [] \<or> or_GroupID runner = [] \<or> or_Container runner = [] \<or> or_Target runner = []
      then Inl ''runner log configuration requires endpoint and runner identity''
      else if list_ex hasNewline [oc_PushURL cfg, or_GroupID runner, or_Container runner, or_Target runner]
      then Inl ''runner log configuration contains a newline''
      else Inr (concat (map (\<lambda>l. l @ [CHR 0x0A]) (configLines cfg runner))))"

lemma itoa_no_newline: "CHR 0x0A \<notin> set (itoa i)"
  by (auto simp: itoa_def nat_dec_no_char)

lemma configLines_no_newline:
  assumes "\<not> list_ex hasNewline [oc_PushURL cfg, or_GroupID r, or_Container r, or_Target r]"
  shows "\<forall>l \<in> set (configLines cfg r). CHR 0x0A \<notin> set l"
proof -
  have "CHR 0x0A \<notin> set s" if "s \<in> set [oc_PushURL cfg, or_GroupID r, or_Container r, or_Target r]" for s
    using that assms by (auto simp: hasNewline_def list_ex_iff)
  then show ?thesis
    by (auto simp: configLines_def itoa_no_newline)
qed

section \<open>base64\<close>

definition b64_char :: "nat \<Rightarrow> char" where
  "b64_char n =
     (if n < 26 then char_of (65 + n) else if n < 52 then char_of (71 + n)
      else if n < 62 then char_of (n - 4) else if n = 62 then CHR ''+'' else CHR ''/'')"

definition b64_val :: "char \<Rightarrow> nat option" where
  "b64_val c =
     (let n = (of_char c :: nat) in
      if 65 \<le> n \<and> n \<le> 90 then Some (n - 65) else if 97 \<le> n \<and> n \<le> 122 then Some (n - 71)
      else if 48 \<le> n \<and> n \<le> 57 then Some (n + 4) else if n = 43 then Some 62
      else if n = 47 then Some 63 else None)"

fun base64_encode :: "string \<Rightarrow> string" where
  "base64_encode [] = []"
| "base64_encode [a] =
     (let x = (of_char a :: nat) in
      [b64_char (x div 4), b64_char (x mod 4 * 16), CHR ''='', CHR ''=''])"
| "base64_encode [a, b] =
     (let x = (of_char a :: nat); y = (of_char b :: nat) in
      [b64_char (x div 4), b64_char (x mod 4 * 16 + y div 16), b64_char (y mod 16 * 4), CHR ''=''])"
| "base64_encode (a # b # c # s) =
     (let x = (of_char a :: nat); y = (of_char b :: nat); z = (of_char c :: nat) in
      b64_char (x div 4) # b64_char (x mod 4 * 16 + y div 16) # b64_char (y mod 16 * 4 + z div 64)
      # b64_char (z mod 64) # base64_encode s)"

text \<open>What \<open>base64 -d\<close> computes in the container: the specification of the round trip.\<close>

fun base64_decode :: "string \<Rightarrow> string option" where
  "base64_decode [] = Some []"
| "base64_decode (p # q # r # s # rest) =
     (case (b64_val p, b64_val q) of
        (Some i, Some j) \<Rightarrow>
          (if r = CHR ''='' \<and> s = CHR ''='' \<and> rest = [] then Some [char_of (i * 4 + j div 16)]
           else (case b64_val r of
               None \<Rightarrow> None
             | Some k \<Rightarrow>
                (if s = CHR ''='' \<and> rest = []
                 then Some [char_of (i * 4 + j div 16), char_of (j mod 16 * 16 + k div 4)]
                 else (case (b64_val s, base64_decode rest) of
                     (Some m, Some t) \<Rightarrow>
                        Some (char_of (i * 4 + j div 16) # char_of (j mod 16 * 16 + k div 4)
                              # char_of (k mod 4 * 64 + m) # t)
                   | _ \<Rightarrow> None))))
      | _ \<Rightarrow> None)"
| "base64_decode _ = None"

lemma b64_val_char: "n < 64 \<Longrightarrow> b64_val (b64_char n) = Some n"
proof -
  assume n: "n < 64"
  consider "n < 26" | "26 \<le> n" "n < 52" | "52 \<le> n" "n < 62" | "n = 62" | "n = 63"
    using n by linarith
  then show ?thesis
  proof cases
    case 3
    then have "48 \<le> n - 4 \<and> n - 4 \<le> 57" and "n - 4 + 4 = n" by auto
    with 3 show ?thesis by (simp add: b64_char_def b64_val_def Let_def)
  qed (simp_all add: b64_char_def b64_val_def Let_def)
qed

lemma of_char_less: "(of_char c :: nat) < 256"
  by simp

lemma b64_char_neq_pad: "n < 64 \<Longrightarrow> b64_char n \<noteq> CHR ''=''"
  using b64_val_char [of n] by (auto simp: b64_val_def)

lemma b64_char_neq_quote: "n < 64 \<Longrightarrow> CHR 0x27 \<noteq> b64_char n"
proof -
  assume "n < 64"
  then have "b64_val (b64_char n) \<noteq> None" by (simp add: b64_val_char)
  moreover have "b64_val (CHR 0x27) = None" by (simp add: b64_val_def)
  ultimately show ?thesis by metis
qed

lemma div_mod_pack:
  fixes a b k :: nat
  assumes "b < k"
  shows "(a * k + b) div k = a" and "(a * k + b) mod k = b"
  using assms by auto

text \<open>The four six-bit indices of three bytes, and the bytes they stand for.\<close>

lemma b64_indices:
  fixes x y z :: nat
  assumes "x < 256" "y < 256" "z < 256"
  shows "x div 4 < 64" "x mod 4 * 16 + y div 16 < 64" "y mod 16 * 4 + z div 64 < 64" "z mod 64 < 64"
    and "x mod 4 * 16 < 64" "y mod 16 * 4 < 64"
proof -
  have "y div 16 < 16" "z div 64 < 4" "x mod 4 < 4" "y mod 16 < 16" "x div 4 < 64"
    using assms by auto
  then show "x div 4 < 64" "x mod 4 * 16 + y div 16 < 64" "y mod 16 * 4 + z div 64 < 64" "z mod 64 < 64"
    "x mod 4 * 16 < 64" "y mod 16 * 4 < 64"
    by (linarith | simp)+
qed

lemma b64_bytes:
  fixes x y z :: nat
  assumes "x < 256" "y < 256" "z < 256"
  shows "x div 4 * 4 + (x mod 4 * 16 + y div 16) div 16 = x"
    and "(x mod 4 * 16 + y div 16) mod 16 * 16 + (y mod 16 * 4 + z div 64) div 4 = y"
    and "(y mod 16 * 4 + z div 64) mod 4 * 64 + z mod 64 = z"
proof -
  have "y div 16 < 16" "z div 64 < 4"
    using assms by auto
  note p = div_mod_pack [OF this(1), of "x mod 4"] div_mod_pack [OF this(2), of "y mod 16"]
  show "x div 4 * 4 + (x mod 4 * 16 + y div 16) div 16 = x"
    unfolding p by (rule div_mult_mod_eq)
  show "(x mod 4 * 16 + y div 16) mod 16 * 16 + (y mod 16 * 4 + z div 64) div 4 = y"
    unfolding p by (rule div_mult_mod_eq)
  show "(y mod 16 * 4 + z div 64) mod 4 * 64 + z mod 64 = z"
    unfolding p by (rule div_mult_mod_eq)
qed

lemma base64_roundtrip: "base64_decode (base64_encode s) = Some s"
proof (induction s rule: base64_encode.induct)
  case (2 a)
  define i where "i = (of_char a :: nat) div 4"
  define j where "j = (of_char a :: nat) mod 4 * 16"
  have "i < 64" "j < 64" "i * 4 + j div 16 = of_char a"
    using b64_indices [of "of_char a" 0 0] b64_bytes [of "of_char a" 0 0] of_char_less [of a]
    unfolding i_def j_def by (simp_all del: mult.commute)
  then show ?case
    by (simp add: Let_def b64_val_char flip: i_def j_def)
next
  case (3 a b)
  define i where "i = (of_char a :: nat) div 4"
  define j where "j = (of_char a :: nat) mod 4 * 16 + (of_char b :: nat) div 16"
  define k where "k = (of_char b :: nat) mod 16 * 4"
  note z = of_char_less [of a] of_char_less [of b] zero_less_numeral
  have "i < 64" "j < 64" "k < 64"
    unfolding i_def j_def k_def by (rule b64_indices z)+
  moreover have "i * 4 + j div 16 = of_char a" "j mod 16 * 16 + k div 4 = of_char b"
    using b64_bytes(1,2) [OF z] unfolding i_def j_def k_def by (simp_all only: div_0 add_0_right)
  ultimately show ?case
    by (simp add: Let_def b64_val_char b64_char_neq_pad flip: i_def j_def k_def)
next
  case (4 a b c s)
  define i where "i = (of_char a :: nat) div 4"
  define j where "j = (of_char a :: nat) mod 4 * 16 + (of_char b :: nat) div 16"
  define k where "k = (of_char b :: nat) mod 16 * 4 + (of_char c :: nat) div 64"
  define m where "m = (of_char c :: nat) mod 64"
  have "i < 64" "j < 64" "k < 64" "m < 64" "i * 4 + j div 16 = of_char a"
    "j mod 16 * 16 + k div 4 = of_char b" "k mod 4 * 64 + m = of_char c"
    unfolding i_def j_def k_def m_def
    by (rule b64_indices b64_bytes of_char_less)+
  with "4.IH" show ?case
    by (simp add: Let_def b64_val_char b64_char_neq_pad flip: i_def j_def k_def m_def)
qed simp

lemma base64_no_quote: "CHR 0x27 \<notin> set (base64_encode s)"
proof (induction s rule: base64_encode.induct)
  case (2 a)
  show ?case
    using b64_indices [of "of_char a" 0 0] of_char_less [of a]
    by (simp add: Let_def b64_char_neq_quote)
next
  case (3 a b)
  show ?case
    using b64_indices [of "of_char a" "of_char b" 0] of_char_less [of a] of_char_less [of b]
    by (simp add: Let_def b64_char_neq_quote)
next
  case (4 a b c s)
  then show ?case
    using b64_indices [of "of_char a" "of_char b" "of_char c", OF of_char_less of_char_less of_char_less]
    by (simp add: Let_def b64_char_neq_quote)
qed simp

section \<open>Preflight (bootstrap.go)\<close>

definition statusError :: "int \<Rightarrow> gerror" where
  "statusError code = ''runner log endpoint returned HTTP '' @ itoa code"

abbreviation "NewRequest E url \<equiv> call (\<lambda>tr. e_NewRequest E tr url) (EvNewRequest url)"
abbreviation "HttpGet E url \<equiv> call (\<lambda>tr. e_HttpGet E tr url) (EvHttpGet url)"
abbreviation "Timer E d \<equiv> call (\<lambda>tr. e_Timer E tr d) (EvTimer d)"

text \<open>The delay of the next attempt.\<close>

definition nextDelay :: "duration \<Rightarrow> duration \<Rightarrow> duration" where
  "nextDelay maximum delay = (if delay < go_div maximum 2 then delay * 2 else maximum)"

text \<open>The retry loop: \<open>last\<close> is the error of the last attempt, \<open>None\<close> before the first.\<close>

function preflightLoop ::
  "env \<Rightarrow> string \<Rightarrow> int \<Rightarrow> duration \<Rightarrow> int \<Rightarrow> duration \<Rightarrow> gerror option \<Rightarrow> gerror option prog" where
  "preflightLoop E endpoint retries maximum attempt delay lastErr =
     (let giveUp = (\<lambda>l :: gerror option. ''runner log endpoint unavailable after '' @ itoa retries @ '' retries: ''
            @ (case l of None \<Rightarrow> ''%!w(<nil>)'' | Some e \<Rightarrow> e)) in
      if attempt \<le> retries then do {
        reqErr \<leftarrow> NewRequest E endpoint;
        (case reqErr of
           Some err \<Rightarrow> ret (Some err)
         | None \<Rightarrow> do {
             resp \<leftarrow> HttpGet E endpoint;
             (case resp of
                Inr code \<Rightarrow>
                  (if 200 \<le> code \<and> code < 300 then ret None
                   else if ClassifyStatus code = Permanent then ret (Some (statusError code))
                   else if attempt = retries then ret (Some (giveUp (Some (statusError code))))
                   else do {
                     ctxErr \<leftarrow> Timer E delay;
                     (case ctxErr of
                        Some e \<Rightarrow> ret (Some e)
                      | None \<Rightarrow> preflightLoop E endpoint retries maximum (attempt + 1)
                                 (nextDelay maximum delay) (Some (statusError code)))
                   })
              | Inl requestErr \<Rightarrow>
                  (if attempt = retries then ret (Some (giveUp (Some requestErr)))
                   else do {
                     ctxErr \<leftarrow> Timer E delay;
                     (case ctxErr of
                        Some e \<Rightarrow> ret (Some e)
                      | None \<Rightarrow> preflightLoop E endpoint retries maximum (attempt + 1)
                                 (nextDelay maximum delay) (Some requestErr))
                   }))
           })
      }
      else ret (Some (giveUp lastErr)))"
  by pat_completeness auto
termination
  by (relation "measure (\<lambda>(E, ep, retries, m, attempt, d, l). nat (retries - attempt + 1))") auto

declare preflightLoop.simps [simp del]

definition Preflight :: "env \<Rightarrow> string \<Rightarrow> int \<Rightarrow> duration \<Rightarrow> duration \<Rightarrow> gerror option prog" where
  "Preflight E endpoint retries initial maximum =
     (if endpoint = [] then ret (Some ''runner log health endpoint is empty'')
      else preflightLoop E endpoint retries maximum 0 initial None)"

section \<open>The bootstrapper (bootstrap.go)\<close>

record bootstrapper =
  b_HasExecutor :: bool
  b_Config :: obsConfig
  b_HealthURL :: string
  b_GroupID :: string
  b_Target :: string

definition installScript :: "string \<Rightarrow> string" where
  "installScript payload =
     ''install -d -m 0755 /etc/gh-runner-observability /var/lib/promtail; printf %s ''
     @ [CHR 0x27] @ payload @ [CHR 0x27]
     @ '' | base64 -d > /etc/gh-runner-observability/promtail.yml''"

definition Prepare :: "env \<Rightarrow> bootstrapper \<Rightarrow> string \<Rightarrow> gerror option prog" where
  "Prepare E b container =
     (if \<not> b_HasExecutor b then ret (Some ''runner log bootstrapper has no container executor'')
      else do {
        preErr \<leftarrow> Preflight E (b_HealthURL b) (oc_MaxRetries (b_Config b)) second minute;
        (case preErr of
           Some err \<Rightarrow> ret (Some err)
         | None \<Rightarrow>
             (case RenderConfig (b_Config b)
                 \<lparr>or_GroupID = b_GroupID b, or_Container = container, or_Target = b_Target b\<rparr> of
                Inl err \<Rightarrow> ret (Some err)
              | Inr contents \<Rightarrow> do {
                  w \<leftarrow> ExecCommand E container [''bash'', ''-ceu'', installScript (base64_encode contents)];
                  (case w of
                     Inl err \<Rightarrow> ret (Some (''installing runner log config: '' @ err))
                   | Inr out \<Rightarrow> do {
                       s \<leftarrow> ExecCommand E container [''systemctl'', ''enable'', ''--now'', ''promtail.service''];
                       (case s of
                          Inl err \<Rightarrow> ret (Some (''starting runner log shipper: '' @ err))
                        | Inr out2 \<Rightarrow> ret None)
                     })
                }))
      })"

text \<open>Every probe and every wait of the loop: at most one request per attempt, and no wait
  longer than the maximum.\<close>

definition preflightEvent :: "string \<Rightarrow> duration \<Rightarrow> event \<Rightarrow> bool" where
  "preflightEvent endpoint bound e \<longleftrightarrow>
     (\<exists>r. e = EvNewRequest endpoint r) \<or> (\<exists>r. e = EvHttpGet endpoint r) \<or> (\<exists>d r. e = EvTimer d r \<and> d \<le> bound)"

fun isProbe :: "event \<Rightarrow> bool" where
  "isProbe (EvHttpGet u r) = True"
| "isProbe _ = False"

lemma nextDelay_le: "0 \<le> m \<Longrightarrow> 0 \<le> d \<Longrightarrow> nextDelay m d \<le> m \<and> 0 \<le> nextDelay m d"
  by (cases "m = 0") (auto simp: nextDelay_def go_div_def sgn_if split: if_splits)

lemma preflightLoop_spec:
  assumes "0 \<le> d" "d \<le> m"
  shows "yields (preflightLoop E ep retries m attempt d lastErr)
    (\<lambda>r es. list_all (preflightEvent ep m) es \<and>
            int (length (filter isProbe es)) \<le> max 0 (retries - attempt + 1))"
  using assms
proof (induction E ep retries m attempt d lastErr rule: preflightLoop.induct)
  case (1 E ep retries m attempt d lastErr)
  have d': "0 \<le> nextDelay m d" "nextDelay m d \<le> m"
    using nextDelay_le [of m d] 1 by auto
  show ?case
    using d' "1.prems"
    by (subst preflightLoop.simps, intro yields_rules)
       (auto simp: preflightEvent_def intro!: yields_mono [OF "1.IH"(1)] yields_mono [OF "1.IH"(2)])
qed

section \<open>Properties of log delivery\<close>

text \<open>A preflight sends at most one probe more than the allowed retries, only to its
  endpoint, and never waits longer than the maximal delay between two probes.\<close>

theorem preflight_bounded:
  assumes "0 \<le> initial" and "initial \<le> maximum"
    and "run_state (Preflight E endpoint retries initial maximum) [] = (res, es)"
  shows "int (length (filter isProbe es)) \<le> max 0 (retries + 1) \<and> list_all (preflightEvent endpoint maximum) es"
proof -
  have "yields (Preflight E endpoint retries initial maximum)
    (\<lambda>_ es. list_all (preflightEvent endpoint maximum) es \<and> int (length (filter isProbe es)) \<le> max 0 (retries + 1))"
    unfolding Preflight_def
    using preflightLoop_spec [OF assms(1,2), of E endpoint retries 0 None] by (simp add: yields_return)
  from yields_run [OF this assms(3)] show ?thesis by simp
qed

definition unreachableEnv :: env where
  "unreachableEnv =
     \<lparr>e_ListRunners = (\<lambda>_. Inr []), e_GetRegistrationToken = (\<lambda>_. Inr []), e_GetRemoveToken = (\<lambda>_. Inr []),
      e_DeleteRunner = (\<lambda>_ _. None), e_RegistrationURL = [],
      e_CloneFromTemplate = (\<lambda>_ _. None), e_StartContainer = (\<lambda>_ _. None), e_StopContainer = (\<lambda>_ _. None),
      e_DeleteContainer = (\<lambda>_ _. None), e_ExecCommand = (\<lambda>_ _ _. Inr []), e_WaitForReady = (\<lambda>_ _ _ _. None),
      e_ListContainers = (\<lambda>_ _. Inr []), e_GetContainerStatus = (\<lambda>_ _. Inr StatusRunning),
      e_AttachCache = (\<lambda>_ _. None), e_SetupCacheSymlinks = (\<lambda>_ _. None), e_PruneCache = (\<lambda>_ _ _. None),
      e_GetLastActive = (\<lambda>_ _. Inr 0), e_SetLastActive = (\<lambda>_ _ _. None), e_CreateState = (\<lambda>_ _. None),
      e_DeleteState = (\<lambda>_ _. None), e_Now = (\<lambda>_. 0), e_NewRequest = (\<lambda>_ _. None),
      e_HttpGet = (\<lambda>_ _. Inr 503), e_Timer = (\<lambda>_ _. None)\<rparr>"

theorem preflight_bounded_witness:
  "length (filter isProbe (snd (run_state (Preflight unreachableEnv ''u'' 2 second minute) []))) = 3 \<and>
   list_all (preflightEvent ''u'' minute) (snd (run_state (Preflight unreachableEnv ''u'' 2 second minute) []))"
proof
  show "length (filter isProbe (snd (run_state (Preflight unreachableEnv ''u'' 2 second minute) []))) = 3"
    by code_simp
  obtain res es where run: "run_state (Preflight unreachableEnv ''u'' 2 second minute) [] = (res, es)" by force
  then show "list_all (preflightEvent ''u'' minute) (snd (run_state (Preflight unreachableEnv ''u'' 2 second minute) []))"
    using preflight_bounded [OF _ _ run] by (simp add: second_def minute_def)
qed

text \<open>The rendered Promtail configuration has exactly the lines of the template, whatever
  the identity of the runner and the endpoint are: no value can add a line to it.\<close>

theorem render_config_lines:
  assumes "RenderConfig cfg runner = Inr contents"
  shows "split_on (CHR 0x0A) contents = configLines cfg runner @ [[]]"
proof -
  have "\<not> list_ex hasNewline [oc_PushURL cfg, or_GroupID runner, or_Container runner, or_Target runner]"
    and "contents = concat (map (\<lambda>l. l @ [CHR 0x0A]) (configLines cfg runner))"
    using assms by (auto simp: RenderConfig_def split: if_splits)
  then show ?thesis using split_on_lines [OF configLines_no_newline] by simp
qed

theorem render_config_lines_witness:
  "\<exists>contents. RenderConfig \<lparr>oc_PushURL = ''http://loki'', oc_MaxRetries = 3\<rparr>
       \<lparr>or_GroupID = ''g'', or_Container = ''ci-1'', or_Target = ''o/r''\<rparr> = Inr contents \<and>
     length (split_on (CHR 0x0A) contents) = 41"
proof -
  let ?c = "\<lparr>oc_PushURL = ''http://loki'', oc_MaxRetries = 3\<rparr>"
    and ?r = "\<lparr>or_GroupID = ''g'', or_Container = ''ci-1'', or_Target = ''o/r''\<rparr>"
  obtain contents where r: "RenderConfig ?c ?r = Inr contents"
    by (simp add: RenderConfig_def hasNewline_def)
  then show ?thesis using render_config_lines [OF r] by (simp add: configLines_def)
qed

text \<open>The shell command that installs a configuration carries it as one single-quoted word
  without a quote in it, and decoding the word gives back the configuration byte for byte.\<close>

theorem install_script_carries_config:
  "\<exists>payload before after. installScript (base64_encode contents) = before @ [CHR 0x27] @ payload @ [CHR 0x27] @ after \<and>
     CHR 0x27 \<notin> set before \<and> CHR 0x27 \<notin> set payload \<and> CHR 0x27 \<notin> set after \<and>
     base64_decode payload = Some contents"
  unfolding installScript_def
  by (rule exI [of _ "base64_encode contents"],
      rule exI [of _ "''install -d -m 0755 /etc/gh-runner-observability /var/lib/promtail; printf %s ''"],
      rule exI [of _ "'' | base64 -d > /etc/gh-runner-observability/promtail.yml''"])
     (simp add: base64_no_quote base64_roundtrip)

end
