(* ===== verification/Reconciler.thy ===== *)
theory Reconciler
  imports Runner_Labels Runner_Obs
begin

text \<open>
  The scaling engine, \<open>internal/engine/reconciler.go\<close>: every method of \<open>Reconciler\<close> as
  a program over the trace, with the source's calls, guards and early returns in order.
  \<open>removed\<close>, a \<open>map[string]bool\<close> whose values are all true, is the set of its keys.
  The attributes a logger adds with \<open>With\<close> are not repeated in the log events.
\<close>

section \<open>Configuration and names\<close>

definition runnerAvailabilityGrace :: duration where
  "runnerAvailabilityGrace = 2 * minute"

definition runnerInstallDir :: string where
  "runnerInstallDir = ''/home/runner/actions-runner/current''"

record reconcilerConfig =
  rc_Prefix :: string
  rc_Baseline :: bool
  rc_BaselineName :: string
  rc_MaxAutoRunners :: int
  rc_IdleTimeout :: duration
  rc_Labels :: string
  rc_RunnerWorkDir :: string
  rc_CacheEnabled :: bool
  rc_CachePrune :: cachePrunePolicy
  rc_ReadyCheck :: "string list"
  rc_ReadyTimeout :: duration
  rc_Observability :: "bootstrapper option"

text \<open>\<open>hasCache\<close>: \<open>r.cache\<close> is not nil. \<open>ciSuspends\<close>: the CI provider implements the
  optional methods \<open>SuspendRunnerInventoryCache\<close> and \<open>ResumeRunnerInventoryCache\<close>.\<close>

record reconciler =
  cfg :: reconcilerConfig
  hasCache :: bool
  ciSuspends :: bool

record reconcilePass =
  removeToken :: string
  removeTokenFetched :: bool

record scaleDownResult =
  deleted :: bool
  sd_err :: "gerror option"

definition newPass :: reconcilePass where
  "newPass = \<lparr>removeToken = [], removeTokenFetched = False\<rparr>"

definition isContainerNameConflict :: "gerror option \<Rightarrow> bool" where
  "isContainerNameConflict err =
     (case err of None \<Rightarrow> False
      | Some e \<Rightarrow> (let msg = to_lower e in contains msg ''already exists'' \<or> contains msg ''conflict''))"

definition autoName :: "string \<Rightarrow> int \<Rightarrow> string" where
  "autoName pfx i = pfx @ ''-'' @ itoa i"

lemma autoName_inj: "0 \<le> i \<Longrightarrow> 0 \<le> j \<Longrightarrow> autoName p i = autoName p j \<longleftrightarrow> i = j"
  by (simp add: autoName_def itoa_inj_nat)

text \<open>The unbounded search of \<open>nextName\<close>: it stops because fewer and fewer of the used names
  have an index that is still to be tried.\<close>

function nextNameFrom :: "string \<Rightarrow> string list \<Rightarrow> nat \<Rightarrow> string" where
  "nextNameFrom pfx used i =
     (if autoName pfx (int i) \<in> set used then nextNameFrom pfx used (Suc i) else autoName pfx (int i))"
  by pat_completeness auto
termination
proof (relation "measure (\<lambda>(pfx, used, i). card {n \<in> set used. \<exists>j \<ge> i. n = autoName pfx (int j)})")
  fix pfx :: string and used :: "string list" and i :: nat
  assume a: "autoName pfx (int i) \<in> set used"
  let ?S = "\<lambda>k. {n \<in> set used. \<exists>j \<ge> k. n = autoName pfx (int j)}"
  have "autoName pfx (int i) \<notin> ?S (Suc i)"
    by (auto simp: autoName_inj)
  moreover have "autoName pfx (int i) \<in> ?S i" using a by auto
  moreover have "?S (Suc i) \<subseteq> ?S i" by (auto intro: Suc_leD)
  ultimately have "card (?S (Suc i)) < card (?S i)"
    by (intro psubset_card_mono) auto
  then show "((pfx, used, Suc i), (pfx, used, i)) \<in>
      measure (\<lambda>(pfx, used, i). card {n \<in> set used. \<exists>j \<ge> i. n = autoName pfx (int j)})"
    by simp
qed simp

declare nextNameFrom.simps [simp del]

definition nextName :: "reconciler \<Rightarrow> container list \<Rightarrow> string" where
  "nextName r existing = nextNameFrom (rc_Prefix (cfg r)) (map c_Name existing) 1"

definition pendingAvailabilityGrace :: "reconciler \<Rightarrow> duration" where
  "pendingAvailabilityGrace r =
     (if rc_IdleTimeout (cfg r) > 0 \<and> rc_IdleTimeout (cfg r) < runnerAvailabilityGrace
      then rc_IdleTimeout (cfg r) else runnerAvailabilityGrace)"

definition pendingRunnerCapacity ::
  "containerStatus \<Rightarrow> runner \<Rightarrow> string \<Rightarrow> duration \<Rightarrow> duration \<Rightarrow> bool" where
  "pendingRunnerCapacity status runner labels idleDur grace =
     (if status \<noteq> StatusRunning \<or> r_Busy runner \<or> r_Status runner = ''online'' then False
      else if grace \<le> 0 \<or> idleDur > grace then False
      else runnerHasLabels runner (labelsSet labels))"

definition filterRemovedContainers :: "container list \<Rightarrow> string set \<Rightarrow> container list" where
  "filterRemovedContainers containers removed =
     (if removed = {} then containers else filter (\<lambda>c. c_Name c \<notin> removed) containers)"

text \<open>\<open>Duration.Round\<close>: to the nearest multiple, half away from zero, saturating.\<close>

definition dur_round :: "duration \<Rightarrow> duration \<Rightarrow> duration" where
  "dur_round d m =
     (if m \<le> 0 then d
      else let r = \<bar>d\<bar> mod m in
        if d < 0 then (if 2 * r < m then d + r else max minDuration (d - m + r))
        else (if 2 * r < m then d - r else min maxDuration (d + m - r)))"

section \<open>Optional methods of the CI provider\<close>

definition suspendRunnerInventoryCache :: "reconciler \<Rightarrow> unit prog" where
  "suspendRunnerInventoryCache r =
     (if ciSuspends r then call (\<lambda>_. ()) (\<lambda>_. EvSuspendInventory) else ret ())"

definition resumeRunnerInventoryCache :: "reconciler \<Rightarrow> unit prog" where
  "resumeRunnerInventoryCache r =
     (if ciSuspends r then call (\<lambda>_. ()) (\<lambda>_. EvResumeInventory) else ret ())"

text \<open>\<open>getRemoveToken\<close> writes through its pointer argument: the pass is returned too.\<close>

definition getRemoveToken ::
  "env \<Rightarrow> reconcilePass option \<Rightarrow> (string result \<times> reconcilePass option) prog" where
  "getRemoveToken E pass =
     (case pass of
        None \<Rightarrow> do { tok \<leftarrow> GetRemoveToken E; ret (tok, None) }
      | Some p \<Rightarrow>
          (if removeTokenFetched p then ret (Inr (removeToken p), pass)
           else do {
             tok \<leftarrow> GetRemoveToken E;
             (case tok of
                Inl err \<Rightarrow> ret (Inl err, pass)
              | Inr t \<Rightarrow> ret (Inr t, Some (p\<lparr>removeToken := t, removeTokenFetched := True\<rparr>)))
           }))"

section \<open>Failure of a scale-up\<close>

definition cleanupFailedScaleUp :: "env \<Rightarrow> string \<Rightarrow> bool \<Rightarrow> gerror option prog" where
  "cleanupFailedScaleUp E name attemptStop = do {
     errs1 \<leftarrow> (if attemptStop then do {
                 e \<leftarrow> StopContainer E name;
                 ret (case e of None \<Rightarrow> [] | Some err \<Rightarrow> [''stop container: '' @ err])
               } else ret []);
     e \<leftarrow> DeleteContainer E name;
     let errs = errs1 @ (case e of None \<Rightarrow> [] | Some err \<Rightarrow> [''delete container: '' @ err]);
     ret (if errs = [] then None else Some (join_errors errs))
   }"

definition scaleUpFailureError :: "string \<Rightarrow> gerror \<Rightarrow> gerror option \<Rightarrow> gerror" where
  "scaleUpFailureError action err cleanupErr =
     (case cleanupErr of
        None \<Rightarrow> action @ '': '' @ err
      | Some ce \<Rightarrow> join_errors [action @ '': '' @ err, ''cleanup after '' @ action @ '': '' @ ce])"

text \<open>The argument \<open>r.cleanupFailedScaleUp(...)\<close> of \<open>r.scaleUpFailure\<close> is evaluated before
  the call.\<close>

definition scaleUpFailure :: "env \<Rightarrow> string \<Rightarrow> string \<Rightarrow> gerror \<Rightarrow> bool \<Rightarrow> gerror prog" where
  "scaleUpFailure E name action err attemptStop = do {
     cleanupErr \<leftarrow> cleanupFailedScaleUp E name attemptStop;
     let combined = scaleUpFailureError action err cleanupErr;
     logp LevelError ''scale-up stage failed''
       [(''event_type'', LStr ''scale_up''), (''action'', LStr ''failed''), (''container'', LStr name),
        (''runner'', LStr name), (''detail'', LStr action), (''error'', LStr combined)];
     ret combined
   }"

section \<open>Scale up\<close>

definition configCommand :: "env \<Rightarrow> reconciler \<Rightarrow> string \<Rightarrow> string \<Rightarrow> bool \<Rightarrow> string list" where
  "configCommand E r name token ephemeral =
     [''su'', ''-'', ''runner'', ''-c'',
      ''cd '' @ runnerInstallDir @ '' && ./config.sh --url '' @ e_RegistrationURL E
      @ '' --token '' @ [CHR 0x27] @ token @ [CHR 0x27] @ '' --name '' @ [CHR 0x27] @ name @ [CHR 0x27]
      @ '' --labels '' @ [CHR 0x27] @ rc_Labels (cfg r) @ [CHR 0x27]
      @ '' --work '' @ rc_RunnerWorkDir (cfg r) @ '' --unattended''
      @ (if ephemeral then '' --ephemeral'' else []) @ '' --disableupdate --replace'']"

definition serviceStartCommand :: "string list" where
  "serviceStartCommand =
     [''bash'', ''-c'', ''cd '' @ runnerInstallDir @ '' && ./svc.sh install runner && ./svc.sh start'']"

text \<open>The optional cache steps before the start and after the boot.\<close>

definition attachCacheStep :: "env \<Rightarrow> reconciler \<Rightarrow> string \<Rightarrow> unit prog" where
  "attachCacheStep E r name =
     (if hasCache r \<and> rc_CacheEnabled (cfg r) then do {
        e \<leftarrow> AttachCache E name;
        (case e of
           None \<Rightarrow> ret ()
         | Some err \<Rightarrow> logp LevelWarn ''cache attach failed'' [(''container'', LStr name), (''error'', LStr err)])
      } else ret ())"

definition cacheSymlinkStep :: "env \<Rightarrow> reconciler \<Rightarrow> string \<Rightarrow> unit prog" where
  "cacheSymlinkStep E r name =
     (if hasCache r \<and> rc_CacheEnabled (cfg r) then do {
        e \<leftarrow> SetupCacheSymlinks E name;
        (case e of
           Some err \<Rightarrow> logp LevelWarn ''cache symlink setup failed'' [(''container'', LStr name), (''error'', LStr err)]
         | None \<Rightarrow> do {
             e2 \<leftarrow> PruneCache E name (rc_CachePrune (cfg r));
             (case e2 of
                None \<Rightarrow> ret ()
              | Some err \<Rightarrow> logp LevelWarn ''cache prune failed'' [(''container'', LStr name), (''error'', LStr err)])
           })
      } else ret ())"

definition observabilityStep :: "env \<Rightarrow> reconciler \<Rightarrow> string \<Rightarrow> unit prog" where
  "observabilityStep E r name =
     (case rc_Observability (cfg r) of
        None \<Rightarrow> ret ()
      | Some b \<Rightarrow> do {
          e \<leftarrow> Prepare E b name;
          (case e of
             None \<Rightarrow> ret ()
           | Some err \<Rightarrow> logp LevelWarn ''runner log delivery disabled''
               [(''event_type'', LStr ''runner_log_delivery''), (''action'', LStr ''disabled''),
                (''container'', LStr name), (''runner'', LStr name), (''error'', LStr err)])
        })"

definition readyCheckOf :: "reconciler \<Rightarrow> string list" where
  "readyCheckOf r = (if rc_ReadyCheck (cfg r) = [] then [''test'', ''-x'', runnerInstallDir @ ''/config.sh'']
                     else rc_ReadyCheck (cfg r))"

definition readyTimeoutOf :: "reconciler \<Rightarrow> duration" where
  "readyTimeoutOf r = (if rc_ReadyTimeout (cfg r) = 0 then 90 * second else rc_ReadyTimeout (cfg r))"

definition configureClonedRunner ::
  "env \<Rightarrow> reconciler \<Rightarrow> string \<Rightarrow> string \<Rightarrow> bool \<Rightarrow> gerror option prog" where
  "configureClonedRunner E r name token ephemeral = do {
     logp LevelInfo ''scaling up'' [(''event_type'', LStr ''scale_up''), (''action'', LStr ''started''),
       (''container'', LStr name), (''runner'', LStr name)];
     attachCacheStep E r name;
     startErr \<leftarrow> StartContainer E name;
     (case startErr of
        Some err \<Rightarrow> do { f \<leftarrow> scaleUpFailure E name ''starting container'' err False; ret (Some f) }
      | None \<Rightarrow> do {
          readyErr \<leftarrow> WaitForReady E name (readyCheckOf r) (readyTimeoutOf r);
          (case readyErr of
             Some err \<Rightarrow> do { f \<leftarrow> scaleUpFailure E name ''container not ready'' err True; ret (Some f) }
           | None \<Rightarrow> do {
               cacheSymlinkStep E r name;
               confRes \<leftarrow> ExecCommand E name (configCommand E r name token ephemeral);
               (case confRes of
                  Inl err \<Rightarrow> do { f \<leftarrow> scaleUpFailure E name ''runner config failed'' err True; ret (Some f) }
                | Inr _ \<Rightarrow> do {
                    observabilityStep E r name;
                    svcRes \<leftarrow> ExecCommand E name serviceStartCommand;
                    (case svcRes of
                       Inl err \<Rightarrow> do { f \<leftarrow> scaleUpFailure E name ''runner service start failed'' err True; ret (Some f) }
                     | Inr _ \<Rightarrow> do {
                         stErr \<leftarrow> CreateState E name;
                         (case stErr of
                            None \<Rightarrow> ret ()
                          | Some err \<Rightarrow> logp LevelWarn ''failed to create state''
                              [(''container'', LStr name), (''error'', LStr err)]);
                         logp LevelInfo ''scaled up'' [(''event_type'', LStr ''scale_up''),
                           (''action'', LStr ''completed''), (''container'', LStr name), (''runner'', LStr name)];
                         ret None
                       })
                  })
             })
        })
   }"

text \<open>\<open>cloneWithFreshName\<close>: at most three attempts; \<open>left\<close> counts those that remain.\<close>

fun cloneAttempts :: "env \<Rightarrow> reconciler \<Rightarrow> nat \<Rightarrow> container list \<Rightarrow> string result prog" where
  "cloneAttempts E r 0 snapshot = ret (Inl ''cloning template: exhausted unique name retries'')"
| "cloneAttempts E r (Suc left) snapshot = do {
     let name = nextName r snapshot;
     cloneErr \<leftarrow> CloneFromTemplate E name;
     (case cloneErr of
        None \<Rightarrow> ret (Inr name)
      | Some err \<Rightarrow>
          (if \<not> isContainerNameConflict (Some err) then ret (Inl (''cloning template: '' @ err))
           else do {
             listed \<leftarrow> ListContainers E (rc_Prefix (cfg r));
             (case listed of
                Inl listErr \<Rightarrow> ret (Inl (''cloning template: '' @ err @ '' (refreshing names: '' @ listErr @ '')''))
              | Inr latest \<Rightarrow>
                  (if int (length latest) \<ge> rc_MaxAutoRunners (cfg r)
                   then ret (Inl ''cloning template: max auto runners reached during concurrent scale-up'')
                   else do {
                     logp LevelWarn ''container name conflict during clone, retrying''
                       [(''event_type'', LStr ''scale_up''), (''action'', LStr ''retry''),
                        (''attempt'', LInt (3 - int left)), (''error'', LStr err)];
                     cloneAttempts E r left latest
                   }))
           }))
   }"

definition cloneWithFreshName :: "env \<Rightarrow> reconciler \<Rightarrow> container list \<Rightarrow> string result prog" where
  "cloneWithFreshName E r existing = cloneAttempts E r 3 existing"

definition scaleUp :: "env \<Rightarrow> reconciler \<Rightarrow> container list \<Rightarrow> string result prog" where
  "scaleUp E r existing = do {
     suspendRunnerInventoryCache r;
     tok \<leftarrow> GetRegistrationToken E;
     (case tok of
        Inl err \<Rightarrow> do {
          resumeRunnerInventoryCache r;
          ret (Inl (''getting registration token: '' @ err))
        }
      | Inr token \<Rightarrow> do {
          cloned \<leftarrow> cloneWithFreshName E r existing;
          res \<leftarrow> (case cloned of
                   Inl err \<Rightarrow> ret (Inl err)
                 | Inr name \<Rightarrow> do {
                     confErr \<leftarrow> configureClonedRunner E r name token True;
                     ret (case confErr of Some err \<Rightarrow> Inl err | None \<Rightarrow> Inr name)
                   });
          resumeRunnerInventoryCache r;
          ret res
        })
   }"

section \<open>Scale down\<close>

definition serviceCommand :: "string \<Rightarrow> string list" where
  "serviceCommand verb = [''bash'', ''-c'', ''cd '' @ runnerInstallDir @ '' && ./svc.sh '' @ verb]"

definition removeCommand :: "string \<Rightarrow> string list" where
  "removeCommand token =
     [''su'', ''-'', ''runner'', ''-c'',
      ''cd '' @ runnerInstallDir @ '' && ./config.sh remove --token '' @ [CHR 0x27] @ token @ [CHR 0x27]]"

definition execErrors :: "string \<Rightarrow> 'a result \<Rightarrow> gerror list" where
  "execErrors what res = (case res of Inl err \<Rightarrow> [what @ '': '' @ err] | Inr _ \<Rightarrow> [])"

definition optErrors :: "string \<Rightarrow> gerror option \<Rightarrow> gerror list" where
  "optErrors what e = (case e of Some err \<Rightarrow> [what @ '': '' @ err] | None \<Rightarrow> [])"

text \<open>Stop the service, and uninstall it when it stopped.\<close>

definition stopServiceStep :: "env \<Rightarrow> string \<Rightarrow> gerror list prog" where
  "stopServiceStep E name = do {
     stopRes \<leftarrow> ExecCommand E name (serviceCommand ''stop'');
     (case stopRes of
        Inl err \<Rightarrow> ret [''stop runner service: '' @ err]
      | Inr _ \<Rightarrow> do {
          unRes \<leftarrow> ExecCommand E name (serviceCommand ''uninstall'');
          ret (execErrors ''uninstall runner service'' unRes)
        })
   }"

definition deregisterStep ::
  "env \<Rightarrow> string \<Rightarrow> reconcilePass option \<Rightarrow> (gerror list \<times> reconcilePass option) prog" where
  "deregisterStep E name pass = do {
     (tok, pass') \<leftarrow> getRemoveToken E pass;
     (case tok of
        Inl err \<Rightarrow> ret ([''get remove token: '' @ err], pass')
      | Inr removeTok \<Rightarrow>
          (if removeTok = [] then ret ([], pass')
           else do {
             res \<leftarrow> ExecCommand E name (removeCommand removeTok);
             ret (execErrors ''runner config remove'' res, pass')
           }))
   }"

text \<open>Delete the runner of this name through the API, unless it is busy.\<close>

definition apiDeleteStep :: "env \<Rightarrow> string \<Rightarrow> runner list \<Rightarrow> unit prog" where
  "apiDeleteStep E name runners =
     (case findRunner name runners of
        None \<Rightarrow> ret ()
      | Some runner \<Rightarrow>
          (if r_Busy runner
           then logp LevelInfo ''skipping API runner delete because runner is busy''
                  [(''container'', LStr name), (''id'', LInt (r_ID runner))]
           else do {
             e \<leftarrow> DeleteRunner E (r_ID runner);
             (case e of
                Some err \<Rightarrow> logp LevelWarn ''API runner delete failed''
                  [(''container'', LStr name), (''error'', LStr err)]
              | None \<Rightarrow> logp LevelInfo ''deleted runner from CI platform''
                  [(''container'', LStr name), (''id'', LInt (r_ID runner))])
           }))"

definition scaleDown ::
  "env \<Rightarrow> reconciler \<Rightarrow> string \<Rightarrow> runner list \<Rightarrow> reconcilePass option
   \<Rightarrow> (scaleDownResult \<times> reconcilePass option) prog" where
  "scaleDown E r name runners pass = do {
     suspendRunnerInventoryCache r;
     logp LevelInfo ''scaling down'' [(''event_type'', LStr ''scale_down''), (''action'', LStr ''started''),
       (''container'', LStr name), (''runner'', LStr name)];
     errs1 \<leftarrow> stopServiceStep E name;
     (errs2, pass') \<leftarrow> deregisterStep E name pass;
     apiDeleteStep E name runners;
     stopErr \<leftarrow> StopContainer E name;
     delErr \<leftarrow> DeleteContainer E name;
     stErr \<leftarrow> DeleteState E name;
     let errs = errs1 @ errs2 @ optErrors ''stop container'' stopErr
                @ optErrors ''delete container'' delErr @ optErrors ''delete state'' stErr;
     res \<leftarrow> (if errs \<noteq> [] then do {
               logp LevelWarn ''scaled down with cleanup errors''
                 [(''event_type'', LStr ''scale_down''), (''action'', LStr ''failed''),
                  (''container'', LStr name), (''runner'', LStr name), (''error'', LStr (join_errors errs))];
               ret \<lparr>deleted = (delErr = None),
                    sd_err = Some (''scale-down '' @ name @ '': '' @ join_errors errs)\<rparr>
             } else do {
               logp LevelInfo ''scaled down'' [(''event_type'', LStr ''scale_down''),
                 (''action'', LStr ''completed''), (''container'', LStr name), (''runner'', LStr name)];
               ret \<lparr>deleted = (delErr = None), sd_err = None\<rparr>
             });
     resumeRunnerInventoryCache r;
     ret (res, pass')
   }"

section \<open>The baseline runner\<close>

text \<open>The loop over the listed containers: \<open>Some\<close> is an early return of
  \<open>ensureBaseline\<close>.\<close>

fun baselineLoop ::
  "env \<Rightarrow> reconciler \<Rightarrow> runner list \<Rightarrow> container list \<Rightarrow> int result option prog" where
  "baselineLoop E r runners [] = ret None"
| "baselineLoop E r runners (container # cs) =
     (if c_Name container \<noteq> rc_BaselineName (cfg r) then baselineLoop E r runners cs
      else do {
        early \<leftarrow> (if c_Status container = StatusRunning then do {
                    la \<leftarrow> GetLastActive E (c_Name container);
                    (case la of
                       Inl stateErr \<Rightarrow> do {
                         t \<leftarrow> Now E;
                         e \<leftarrow> SetLastActive E (c_Name container) t;
                         (case e of
                            None \<Rightarrow> ret ()
                          | Some err \<Rightarrow> logp LevelWarn ''failed to initialize baseline state''
                              [(''container'', LStr (c_Name container)), (''error'', LStr err)]);
                         ret True
                       }
                     | Inr lastActive \<Rightarrow> do {
                         t \<leftarrow> Now E;
                         ret (time_sub t lastActive < pendingAvailabilityGrace r)
                       })
                  } else ret False);
        (if early then ret (Some (Inr 1))
         else do {
           (result, p) \<leftarrow> scaleDown E r (c_Name container) runners (Some newPass);
           (case sd_err result of
              None \<Rightarrow> ret ()
            | Some err \<Rightarrow> logp LevelWarn ''stale baseline cleanup encountered errors''
                [(''container'', LStr (c_Name container)), (''error'', LStr err)]);
           (if \<not> deleted result
            then ret (Some (Inl (''stale baseline '' @ c_Name container @ '' could not be deleted'')))
            else baselineLoop E r runners cs)
         })
      })"

definition ensureBaseline :: "env \<Rightarrow> reconciler \<Rightarrow> runner list \<Rightarrow> int result prog" where
  "ensureBaseline E r runners =
     (if trim_space (rc_BaselineName (cfg r)) = [] then ret (Inl ''baseline name is required'')
      else if list_ex (\<lambda>runner. r_Name runner = rc_BaselineName (cfg r) \<and> r_Status runner = ''online'') runners
      then ret (Inr 0)
      else do {
        listed \<leftarrow> ListContainers E (rc_BaselineName (cfg r));
        (case listed of
           Inl err \<Rightarrow> ret (Inl (''listing baseline container: '' @ err))
         | Inr containers \<Rightarrow> do {
             early \<leftarrow> baselineLoop E r runners containers;
             (case early of
                Some res \<Rightarrow> ret res
              | None \<Rightarrow> do {
                  suspendRunnerInventoryCache r;
                  tok \<leftarrow> GetRegistrationToken E;
                  (case tok of
                     Inl err \<Rightarrow> do {
                       resumeRunnerInventoryCache r;
                       ret (Inl (''getting baseline registration token: '' @ err))
                     }
                   | Inr token \<Rightarrow> do {
                       cloneErr \<leftarrow> CloneFromTemplate E (rc_BaselineName (cfg r));
                       res \<leftarrow> (case cloneErr of
                                Some err \<Rightarrow> ret (Inl (''cloning baseline template: '' @ err))
                              | None \<Rightarrow> do {
                                  confErr \<leftarrow> configureClonedRunner E r (rc_BaselineName (cfg r)) token False;
                                  (case confErr of
                                     Some err \<Rightarrow> ret (Inl err)
                                   | None \<Rightarrow> do {
                                       logp LevelInfo ''baseline ready'' [(''event_type'', LStr ''baseline''),
                                         (''action'', LStr ''completed''),
                                         (''container'', LStr (rc_BaselineName (cfg r)))];
                                       ret (Inr 1)
                                     })
                                });
                       resumeRunnerInventoryCache r;
                       ret res
                     })
                })
           })
      })"

section \<open>One reconcile pass\<close>

text \<open>On an error the container is unchanged; otherwise its status is updated in place.\<close>

definition refreshContainerStatus :: "env \<Rightarrow> container \<Rightarrow> (containerStatus result \<times> container) prog" where
  "refreshContainerStatus E container = do {
     st \<leftarrow> GetContainerStatus E (c_Name container);
     (case st of
        Inl err \<Rightarrow> ret (Inl err, container)
      | Inr status \<Rightarrow> ret (Inr status, container\<lparr>c_Status := status\<rparr>))
   }"

fun refreshContainerStatuses :: "env \<Rightarrow> container list \<Rightarrow> container list prog" where
  "refreshContainerStatuses E [] = ret []"
| "refreshContainerStatuses E (c # cs) = do {
     (st, c1) \<leftarrow> refreshContainerStatus E c;
     c' \<leftarrow> (case st of
             Inl err \<Rightarrow> do {
               logp LevelWarn ''failed to refresh container status''
                 [(''container'', LStr (c_Name c)), (''error'', LStr err)];
               ret (c1\<lparr>c_Status := StatusUnknown\<rparr>)
             }
           | Inr status \<Rightarrow> ret (c1\<lparr>c_Status := status\<rparr>));
     cs' \<leftarrow> refreshContainerStatuses E cs;
     ret (c' # cs')
   }"

text \<open>The local variables of the scale-down loop.\<close>

record passState =
  autoCount :: int
  removed :: "string set"
  pendingCapacity :: int
  pass :: "reconcilePass option"

definition handleScaleDown ::
  "env \<Rightarrow> reconciler \<Rightarrow> runner list \<Rightarrow> string \<Rightarrow> passState \<Rightarrow> passState prog" where
  "handleScaleDown E r runners name st = do {
     (result, p) \<leftarrow> scaleDown E r name runners (pass st);
     let st1 = (if deleted result
                then st\<lparr>autoCount := autoCount st - 1, removed := insert name (removed st), pass := p\<rparr>
                else st\<lparr>pass := p\<rparr>);
     (case sd_err result of
        None \<Rightarrow> ret ()
      | Some err \<Rightarrow> logp LevelWarn ''scale-down cleanup encountered errors''
          [(''container'', LStr name), (''error'', LStr err)]);
     ret st1
   }"

text \<open>The last activity of a container, initialised to \<open>now\<close> when there is none.\<close>

definition lastActiveOrInit :: "env \<Rightarrow> string \<Rightarrow> gotime \<Rightarrow> gotime prog" where
  "lastActiveOrInit E name now = do {
     la \<leftarrow> GetLastActive E name;
     (case la of
        Inl err \<Rightarrow> do { _ \<leftarrow> SetLastActive E name now; ret now }
      | Inr lastActive \<Rightarrow> ret lastActive)
   }"

text \<open>The \<open>switch\<close> of the loop body, once the status of the container is known.\<close>

definition containerCase ::
  "env \<Rightarrow> reconciler \<Rightarrow> runner list \<Rightarrow> gotime \<Rightarrow> string \<Rightarrow> containerStatus \<Rightarrow> passState \<Rightarrow> passState prog" where
  "containerCase E r runners now name status st =
     (if status = StatusStopped then do {
        logp LevelInfo ''container stopped (job complete)''
          [(''event_type'', LStr ''scale_down''), (''action'', LStr ''eligible''), (''container'', LStr name),
           (''runner'', LStr name), (''detail'', LStr ''job complete'')];
        handleScaleDown E r runners name st
      }
      else (case findRunner name runners of
        Some runner \<Rightarrow>
          (if r_Busy runner then do { _ \<leftarrow> SetLastActive E name now; ret st }
           else do {
             lastActive \<leftarrow> lastActiveOrInit E name now;
             let idleDur = time_sub now lastActive;
             let st1 = (if pendingRunnerCapacity status runner (rc_Labels (cfg r)) idleDur (pendingAvailabilityGrace r)
                        then st\<lparr>pendingCapacity := pendingCapacity st + 1\<rparr> else st);
             (if idleDur \<ge> rc_IdleTimeout (cfg r) then do {
                logp LevelInfo ''container idle past timeout''
                  [(''event_type'', LStr ''scale_down''), (''action'', LStr ''eligible''),
                   (''container'', LStr name), (''runner'', LStr name), (''idle'', LDur (dur_round idleDur second))];
                handleScaleDown E r runners name st1
              } else ret st1)
           })
      | None \<Rightarrow> do {
          lastActive \<leftarrow> lastActiveOrInit E name now;
          (if time_sub now lastActive < pendingAvailabilityGrace r then ret st
           else do {
             logp LevelInfo ''orphaned container (no registered runner)''
               [(''event_type'', LStr ''scale_down''), (''action'', LStr ''eligible''), (''container'', LStr name),
                (''runner'', LStr name), (''detail'', LStr ''orphaned container'')];
             handleScaleDown E r runners name st
           })
        }))"

definition passStep ::
  "env \<Rightarrow> reconciler \<Rightarrow> runner list \<Rightarrow> int \<Rightarrow> gotime \<Rightarrow> container \<Rightarrow> passState \<Rightarrow> (passState \<times> container) prog" where
  "passStep E r runners availableOnline now c st = do {
     (res, c') \<leftarrow> (if c_Status c = StatusUnknown \<or> (availableOnline > 0 \<and> c_Status c = StatusStopped)
                  then refreshContainerStatus E c else ret (Inr (c_Status c), c));
     (case res of
        Inl err \<Rightarrow> do {
          logp LevelWarn ''failed to get container status'' [(''container'', LStr (c_Name c)), (''error'', LStr err)];
          ret (st, c')
        }
      | Inr status \<Rightarrow> do {
          st' \<leftarrow> containerCase E r runners now (c_Name c) status st;
          ret (st', c')
        })
   }"

fun passLoop ::
  "env \<Rightarrow> reconciler \<Rightarrow> runner list \<Rightarrow> int \<Rightarrow> gotime \<Rightarrow> container list \<Rightarrow> passState
   \<Rightarrow> (passState \<times> container list) prog" where
  "passLoop E r runners availableOnline now [] st = ret (st, [])"
| "passLoop E r runners availableOnline now (c # cs) st = do {
     (st1, c') \<leftarrow> passStep E r runners availableOnline now c st;
     (st2, cs') \<leftarrow> passLoop E r runners availableOnline now cs st1;
     ret (st2, c' # cs')
   }"

text \<open>The scale-up loop; it stops at the first failure.\<close>

function scaleUpLoop ::
  "env \<Rightarrow> reconciler \<Rightarrow> capacityDemand \<Rightarrow> string set \<Rightarrow> container list \<Rightarrow> int \<Rightarrow> int \<Rightarrow> unit prog" where
  "scaleUpLoop E r demand rm containers needed auto =
     (if needed > 0 \<and> auto < rc_MaxAutoRunners (cfg r) then do {
        logp LevelInfo ''queued demand requires overflow''
          [(''event_type'', LStr ''scale_up''), (''action'', LStr ''requested''),
           (''queued_jobs'', LInt (d_QueuedJobs demand)), (''needed'', LInt needed)];
        res \<leftarrow> scaleUp E r (filterRemovedContainers containers rm);
        (case res of
           Inl err \<Rightarrow> logp LevelError ''scale-up failed''
             [(''event_type'', LStr ''scale_up''), (''action'', LStr ''failed''), (''error'', LStr err)]
         | Inr name \<Rightarrow>
             scaleUpLoop E r demand rm (containers @ [\<lparr>c_Name = name, c_Status = StatusRunning\<rparr>])
               (needed - 1) (auto + 1))
      }
      else ret ())"
  by pat_completeness auto
termination
  by (relation "measure (\<lambda>(E, r, d, rm, cs, needed, auto). nat needed)") auto

declare scaleUpLoop.simps [simp del]

text \<open>\<open>ReconcileDemand\<close> from the moment the containers are listed.\<close>

definition scalePass ::
  "env \<Rightarrow> reconciler \<Rightarrow> capacityDemand \<Rightarrow> runner list \<Rightarrow> int \<Rightarrow> int \<Rightarrow> container list \<Rightarrow> unit prog" where
  "scalePass E r demand runners availableOnline baselinePending containers0 = do {
     containers \<leftarrow> (if availableOnline = 0 then refreshContainerStatuses E containers0 else ret containers0);
     now \<leftarrow> Now E;
     (st, containers') \<leftarrow> passLoop E r runners availableOnline now containers
       \<lparr>autoCount = int (length containers0), removed = {}, pendingCapacity = 0, pass = Some newPass\<rparr>;
     let needed = d_QueuedJobs demand - availableOnline - pendingCapacity st - baselinePending;
     scaleUpLoop E r demand (removed st) containers' needed (autoCount st)
   }"

text \<open>The baseline runner is maintained first; a failure is logged and counts as no pending one.\<close>

definition baselineStep :: "env \<Rightarrow> reconciler \<Rightarrow> runner list \<Rightarrow> int prog" where
  "baselineStep E r runners =
     (if rc_Baseline (cfg r) then do {
        pending \<leftarrow> ensureBaseline E r runners;
        (case pending of
           Inl ensureErr \<Rightarrow> do {
             logp LevelError ''baseline maintenance failed''
               [(''event_type'', LStr ''baseline''), (''action'', LStr ''failed''), (''error'', LStr ensureErr)];
             ret 0
           }
         | Inr n \<Rightarrow> ret n)
      } else ret 0)"

definition ReconcileDemand :: "env \<Rightarrow> reconciler \<Rightarrow> capacityDemand \<Rightarrow> gerror option prog" where
  "ReconcileDemand E r demand = do {
     runnersRes \<leftarrow> ListRunners E;
     (case runnersRes of
        Inl err \<Rightarrow> ret (Some (''listing runners: '' @ err))
      | Inr runners \<Rightarrow> do {
          baselinePending \<leftarrow> baselineStep E r runners;
          let snap = buildSnapshot runners (rc_Prefix (cfg r));
          let availableOnline = AvailableRunnerCountForLabels runners (rc_Labels (cfg r));
          logp LevelDebug ''runner state''
            [(''event_type'', LStr ''runner_state''), (''total'', LInt (rs_Total snap)), (''busy'', LInt (rs_Busy snap)),
             (''idle'', LInt (rs_Idle snap)), (''auto'', LInt (rs_Auto snap)),
             (''permanent'', LInt (rs_Permanent snap)), (''available_online'', LInt availableOnline)];
          listed \<leftarrow> ListContainers E (rc_Prefix (cfg r));
          (case listed of
             Inl err \<Rightarrow> ret (Some (''listing containers: '' @ err))
           | Inr containers \<Rightarrow> do {
               scalePass E r demand runners availableOnline baselinePending containers;
               ret None
             })
        })
   }"

definition Reconcile :: "env \<Rightarrow> reconciler \<Rightarrow> gerror option prog" where
  "Reconcile E r = ReconcileDemand E r \<lparr>d_QueuedJobs = 1, d_OldestAge = 0\<rparr>"

end
