(* ===== verification/Reconciler_Safety.thy ===== *)
theory Reconciler_Safety
  imports Reconciler
begin

text \<open>
  What one reconcile pass may do to the world: the shape of the events of each step, the
  bound on the number of runners, the reasons for a teardown, the bracketing of every
  mutation by the suspension of the runner inventory cache, and the behaviour of a pass
  whose calls all succeed.
\<close>

section \<open>Names\<close>

lemma nextNameFrom_spec:
  "\<exists>k \<ge> i. nextNameFrom pfx used i = autoName pfx (int k) \<and> autoName pfx (int k) \<notin> set used \<and>
           (\<forall>j. i \<le> j \<and> j < k \<longrightarrow> autoName pfx (int j) \<in> set used)"
proof (induction pfx used i rule: nextNameFrom.induct)
  case (1 pfx used i)
  show ?case
  proof (cases "autoName pfx (int i) \<in> set used")
    case True
    with 1 obtain k where "k \<ge> Suc i" "nextNameFrom pfx used (Suc i) = autoName pfx (int k)"
      "autoName pfx (int k) \<notin> set used" "\<forall>j. Suc i \<le> j \<and> j < k \<longrightarrow> autoName pfx (int j) \<in> set used"
      by auto
    with True show ?thesis
      by (subst nextNameFrom.simps) (metis Suc_leD le_neq_implies_less less_eq_Suc_le)
  next
    case False
    then show ?thesis by (subst nextNameFrom.simps) auto
  qed
qed

lemma nextName_spec:
  obtains k where "1 \<le> k" and "nextName r cs = autoName (rc_Prefix (cfg r)) (int k)"
    and "nextName r cs \<notin> c_Name ` set cs"
    and "\<And>j. 1 \<le> j \<Longrightarrow> j < k \<Longrightarrow> autoName (rc_Prefix (cfg r)) (int j) \<in> c_Name ` set cs"
  using nextNameFrom_spec [of 1 "rc_Prefix (cfg r)" "map c_Name cs"]
  unfolding nextName_def by (metis list.set_map)

lemma nextName_fresh: "nextName r cs \<notin> c_Name ` set cs"
  by (rule nextName_spec)

lemma nextName_prefix: "has_prefix (nextName r cs) (rc_Prefix (cfg r))"
  by (rule nextName_spec [of r cs]) (simp add: autoName_def)

section \<open>The events of the steps\<close>

text \<open>What bringing up the container \<open>n\<close> may do.\<close>

fun bringUpEvent :: "string \<Rightarrow> event \<Rightarrow> bool" where
  "bringUpEvent n (EvLog l m a) = True"
| "bringUpEvent n (EvAttachCache c r) = (c = n)"
| "bringUpEvent n (EvStart c r) = (c = n)"
| "bringUpEvent n (EvWaitReady c k t r) = (c = n)"
| "bringUpEvent n (EvCacheSymlinks c r) = (c = n)"
| "bringUpEvent n (EvPruneCache c p r) = (c = n)"
| "bringUpEvent n (EvExec c k r) = (c = n)"
| "bringUpEvent n (EvCreateState c r) = (c = n)"
| "bringUpEvent n (EvStop c r) = (c = n)"
| "bringUpEvent n (EvDelete c r) = (c = n)"
| "bringUpEvent n (EvNewRequest u r) = True"
| "bringUpEvent n (EvHttpGet u r) = True"
| "bringUpEvent n (EvTimer d r) = True"
| "bringUpEvent n _ = False"

text \<open>What tearing down the container \<open>n\<close> may do, given the listed runners.\<close>

fun tearDownEvent :: "runner list \<Rightarrow> string \<Rightarrow> event \<Rightarrow> bool" where
  "tearDownEvent rs n (EvLog l m a) = True"
| "tearDownEvent rs n (EvExec c k r) = (c = n)"
| "tearDownEvent rs n (EvRemoveToken r) = True"
| "tearDownEvent rs n (EvDeleteRunner i r) =
     (case findRunner n rs of None \<Rightarrow> False | Some \<rho> \<Rightarrow> r_ID \<rho> = i \<and> \<not> r_Busy \<rho>)"
| "tearDownEvent rs n (EvStop c r) = (c = n)"
| "tearDownEvent rs n (EvDelete c r) = (c = n)"
| "tearDownEvent rs n (EvDeleteState c r) = (c = n)"
| "tearDownEvent rs n _ = False"

fun toggle :: "event \<Rightarrow> bool" where
  "toggle EvSuspendInventory = True"
| "toggle EvResumeInventory = True"
| "toggle _ = False"

lemma preflightLoop_emits [trace_rules]:
  assumes "\<And>u r. \<phi> (EvNewRequest u r)" "\<And>u r. \<phi> (EvHttpGet u r)" "\<And>d r. \<phi> (EvTimer d r)"
  shows "emits \<phi> (preflightLoop E ep retries m attempt d lastErr)"
proof (induction E ep retries m attempt d lastErr rule: preflightLoop.induct)
  case (1 E ep retries m attempt d lastErr)
  show ?case
    by (subst preflightLoop.simps) (intro trace_rules assms; simp add: "1.IH")
qed

lemma Prepare_emits: "emits (bringUpEvent n) (Prepare E b n)"
  unfolding Prepare_def Preflight_def by (intro trace_rules) simp_all

lemma scaleUpFailure_emits: "emits (bringUpEvent n) (scaleUpFailure E n action err stop)"
  unfolding scaleUpFailure_def cleanupFailedScaleUp_def by (intro trace_rules) simp_all

lemmas bringUpSteps =
  attachCacheStep_def cacheSymlinkStep_def observabilityStep_def

lemma configureClonedRunner_emits: "emits (bringUpEvent n) (configureClonedRunner E r n token eph)"
  unfolding configureClonedRunner_def bringUpSteps
  by (intro trace_rules Prepare_emits scaleUpFailure_emits) simp_all

lemma stopServiceStep_emits: "emits (tearDownEvent rs n) (stopServiceStep E n)"
  unfolding stopServiceStep_def by (intro trace_rules) simp_all

lemma deregisterStep_emits: "emits (tearDownEvent rs n) (deregisterStep E n p)"
  unfolding deregisterStep_def getRemoveToken_def by (intro trace_rules) simp_all

lemma apiDeleteStep_emits: "emits (tearDownEvent rs n) (apiDeleteStep E n rs)"
  unfolding apiDeleteStep_def by (intro trace_rules) simp_all

text \<open>A successful configuration emits no \<open>EvDelete\<close>; a failed one always tries the deletion.\<close>

lemma scaleUpFailure_deletes:
  "yields (scaleUpFailure E n action err stop)
     (\<lambda>_ es. list_all (bringUpEvent n) es \<and> (\<exists>e. EvDelete n e \<in> set es) \<and>
             (stop \<longrightarrow> (\<exists>e. EvStop n e \<in> set es)))"
  unfolding scaleUpFailure_def cleanupFailedScaleUp_def
  by (intro yields_rules) simp_all

text \<open>The optional steps neither start, stop nor delete the container.\<close>

fun setupEvent :: "string \<Rightarrow> event \<Rightarrow> bool" where
  "setupEvent n (EvStart c r) = False"
| "setupEvent n (EvStop c r) = False"
| "setupEvent n (EvDelete c r) = False"
| "setupEvent n e = bringUpEvent n e"

lemma setup_bringUp: "setupEvent n e \<Longrightarrow> bringUpEvent n e"
  by (cases e) auto

lemma setup_bringUp_all: "list_all (setupEvent n) es \<Longrightarrow> list_all (bringUpEvent n) es"
  by (auto simp: list_all_iff setup_bringUp)

lemma setup_no_delete: "list_all (setupEvent n) es \<Longrightarrow> EvDelete c e \<notin> set es"
  by (auto simp: list_all_iff)

lemma Prepare_setup: "emits (setupEvent n) (Prepare E b n)"
  unfolding Prepare_def Preflight_def by (intro trace_rules) simp_all

lemma yields_emits: "emits \<phi> m \<Longrightarrow> (\<And>a es. list_all \<phi> es \<Longrightarrow> Q a es) \<Longrightarrow> yields m Q"
  unfolding emits_def by (rule yields_mono)

lemma setupSteps:
  "emits (setupEvent n) (attachCacheStep E r n)"
  "emits (setupEvent n) (cacheSymlinkStep E r n)"
  "emits (setupEvent n) (observabilityStep E r n)"
  unfolding bringUpSteps by (intro trace_rules Prepare_setup; simp)+

lemmas setup_yields = setupSteps [THEN yields_emits]

text \<open>\<open>inOrder ps es\<close>: events that satisfy the predicates \<open>ps\<close>, one each, occur in
  \<open>es\<close> in this order.\<close>

fun inOrder :: "(event \<Rightarrow> bool) list \<Rightarrow> trace \<Rightarrow> bool" where
  "inOrder [] es = True"
| "inOrder (p # ps) [] = False"
| "inOrder (p # ps) (e # es) = (if p e then inOrder ps es else inOrder (p # ps) es)"

lemma inOrder_weaken:
  "(inOrder ps es \<longrightarrow> inOrder ps (e # es)) \<and> (inOrder (q # qs) es \<longrightarrow> inOrder qs es)"
proof (induction es arbitrary: ps e q qs)
  case Nil
  show ?case by (cases ps) auto
next
  case (Cons a es)
  have tl: "inOrder (q # qs) (a # es) \<Longrightarrow> inOrder qs (a # es)" for q qs
    using Cons.IH [of qs a] Cons.IH [of _ _ q qs] by (auto split: if_splits)
  then show ?case by (cases ps) auto
qed

lemma inOrder_Cons: "inOrder ps es \<Longrightarrow> inOrder ps (e # es)"
  using inOrder_weaken by blast

lemma inOrder_append: "inOrder ps ys \<Longrightarrow> inOrder ps (xs @ ys)"
  by (induction xs) (auto intro: inOrder_Cons)

lemma inOrder_append_right: "inOrder ps xs \<Longrightarrow> inOrder ps (xs @ ys)"
  by (induction ps xs rule: inOrder.induct) (auto split: if_splits)

lemma inOrder_now: "p e \<Longrightarrow> inOrder ps es \<Longrightarrow> inOrder (p # ps) (e # es)"
  by simp

fun execOk :: "string \<Rightarrow> string list \<Rightarrow> event \<Rightarrow> bool" where
  "execOk n cmd (EvExec c k r) = (c = n \<and> k = cmd \<and> (case r of Inl _ \<Rightarrow> False | Inr _ \<Rightarrow> True))"
| "execOk n cmd _ = False"

definition bringUpOrder :: "env \<Rightarrow> reconciler \<Rightarrow> string \<Rightarrow> string \<Rightarrow> bool \<Rightarrow> (event \<Rightarrow> bool) list" where
  "bringUpOrder E r n token eph =
     [(=) (EvStart n None), (=) (EvWaitReady n (readyCheckOf r) (readyTimeoutOf r) None),
      execOk n (configCommand E r n token eph), execOk n serviceStartCommand]"

lemma configureClonedRunner_spec:
  "yields (configureClonedRunner E r n token eph)
     (\<lambda>res es. list_all (bringUpEvent n) es \<and>
        (case res of
           Some err \<Rightarrow> \<exists>e. EvDelete n e \<in> set es
         | None \<Rightarrow> inOrder (bringUpOrder E r n token eph) es \<and> (\<forall>c e. EvDelete c e \<notin> set es)))"
  unfolding configureClonedRunner_def bringUpOrder_def
  by (intro yields_rules setup_yields scaleUpFailure_deletes [THEN yields_mono])
     (auto simp: setup_bringUp_all setup_no_delete intro!: inOrder_append inOrder_now)

section \<open>Counting clones and deletions\<close>

fun cloneOk :: "event \<Rightarrow> bool" where
  "cloneOk (EvClone n r) = (r = None)"
| "cloneOk e = False"

text \<open>A clone of a container whose name starts with \<open>p\<close> that succeeded.\<close>

fun autoCloneOk :: "string \<Rightarrow> event \<Rightarrow> bool" where
  "autoCloneOk p (EvClone n r) = (r = None \<and> has_prefix n p)"
| "autoCloneOk p e = False"

text \<open>A clone that may have left a container: it succeeded, or failed with an error that is not taken for a
  conflict of names.\<close>

fun cloneMay :: "event \<Rightarrow> bool" where
  "cloneMay (EvClone n r) = (\<not> isContainerNameConflict r)"
| "cloneMay e = False"

fun autoCloneMay :: "string \<Rightarrow> event \<Rightarrow> bool" where
  "autoCloneMay p (EvClone n r) = (\<not> isContainerNameConflict r \<and> has_prefix n p)"
| "autoCloneMay p e = False"

fun deleteOk :: "string set \<Rightarrow> event \<Rightarrow> bool" where
  "deleteOk N (EvDelete n r) = (r = None \<and> n \<in> N)"
| "deleteOk N e = False"

fun isClone :: "event \<Rightarrow> bool" where
  "isClone (EvClone n r) = True"
| "isClone e = False"

definition count :: "(event \<Rightarrow> bool) \<Rightarrow> trace \<Rightarrow> int" where
  "count P es = int (length (filter P es))"

lemma count_simps [simp]:
  "count P [] = 0"
  "count P (e # es) = (if P e then 1 else 0) + count P es"
  "count P (xs @ ys) = count P xs + count P ys"
  by (auto simp: count_def)

lemma count_nonneg [simp]: "0 \<le> count P es"
  by (simp add: count_def)

lemma count_none: "(\<And>e. e \<in> set es \<Longrightarrow> \<not> P e) \<Longrightarrow> count P es = 0"
  by (simp add: count_def filter_empty_conv)

lemma conflict_None [simp]: "\<not> isContainerNameConflict None"
  by (simp add: isContainerNameConflict_def)

lemma count_weaken:
  assumes "\<And>e. P e \<Longrightarrow> Q e"
  shows "count P es \<le> count Q es"
proof (induction es)
  case (Cons e es)
  then show ?case using assms [of e] by auto
qed simp

lemma cloneMay_le: "count (autoCloneMay p) es \<le> count cloneMay es" "count cloneOk es \<le> count cloneMay es"
  "count (autoCloneOk p) es \<le> count (autoCloneMay p) es"
  by (rule count_weaken, auto elim!: autoCloneMay.elims cloneOk.elims autoCloneOk.elims)+

lemma bringUp_no_clone: "list_all (bringUpEvent n) es \<Longrightarrow> count isClone es = 0 \<and> count cloneOk es = 0 \<and> count cloneMay es = 0"
  by (induction es) (auto elim: bringUpEvent.elims)

lemma tearDown_no_clone: "list_all (tearDownEvent rs n) es \<Longrightarrow> count isClone es = 0 \<and> count cloneOk es = 0"
  by (induction es) (auto elim: tearDownEvent.elims)

lemma autoCloneOk_le: "count (autoCloneOk p) es \<le> count cloneOk es"
proof (induction es)
  case (Cons e es)
  then show ?case by (cases e) auto
qed simp

section \<open>Suspension of the runner inventory cache\<close>

text \<open>The events that change runners or their containers.\<close>

fun mutation :: "event \<Rightarrow> bool" where
  "mutation (EvDeleteRunner i r) = True"
| "mutation (EvClone n r) = True"
| "mutation (EvStart n r) = True"
| "mutation (EvStop n r) = True"
| "mutation (EvDelete n r) = True"
| "mutation (EvExec n k r) = True"
| "mutation _ = False"

text \<open>\<open>inventoryGuard s es\<close> follows the suspension from \<open>s\<close> through \<open>es\<close>: \<open>None\<close> when a
  mutation happens while the inventory is not suspended.\<close>

fun inventoryGuard :: "bool \<Rightarrow> trace \<Rightarrow> bool option" where
  "inventoryGuard s [] = Some s"
| "inventoryGuard s (e # es) =
     (if e = EvSuspendInventory then inventoryGuard True es
      else if e = EvResumeInventory then inventoryGuard False es
      else if mutation e \<and> \<not> s then None
      else inventoryGuard s es)"

lemma inventoryGuard_append [simp]:
  "inventoryGuard s (xs @ ys) = Option.bind (inventoryGuard s xs) (\<lambda>t. inventoryGuard t ys)"
  by (induction xs arbitrary: s) auto

lemma guard_steady: "list_all (\<lambda>e. \<not> toggle e) es \<Longrightarrow> inventoryGuard True es = Some True"
  by (induction es) auto

lemma guard_quiet: "list_all (\<lambda>e. \<not> toggle e \<and> \<not> mutation e) es \<Longrightarrow> inventoryGuard s es = Some s"
  by (induction es) auto

lemma bringUp_no_toggle: "bringUpEvent n e \<Longrightarrow> \<not> toggle e"
  by (cases e) auto

lemma tearDown_no_toggle: "tearDownEvent rs n e \<Longrightarrow> \<not> toggle e"
  by (cases e) auto

lemma guard_bringUp: "list_all (bringUpEvent n) es \<Longrightarrow> inventoryGuard True es = Some True"
  by (rule guard_steady) (auto simp: list_all_iff bringUp_no_toggle)

lemma guard_tearDown: "list_all (tearDownEvent rs n) es \<Longrightarrow> inventoryGuard True es = Some True"
  by (rule guard_steady) (auto simp: list_all_iff tearDown_no_toggle)

lemma suspend_yields: "Q () (if ciSuspends r then [EvSuspendInventory] else []) \<Longrightarrow> yields (suspendRunnerInventoryCache r) Q"
  by (auto simp: suspendRunnerInventoryCache_def intro: yields_call yields_return)

lemma resume_yields: "Q () (if ciSuspends r then [EvResumeInventory] else []) \<Longrightarrow> yields (resumeRunnerInventoryCache r) Q"
  by (auto simp: resumeRunnerInventoryCache_def intro: yields_call yields_return)

section \<open>Scale up\<close>

fun cloneEvent :: "string \<Rightarrow> event \<Rightarrow> bool" where
  "cloneEvent p (EvClone n r) = has_prefix n p"
| "cloneEvent p (EvListContainers q r) = (q = p)"
| "cloneEvent p (EvLog l m a) = True"
| "cloneEvent p _ = False"

lemma cloneEvent_no_toggle: "cloneEvent p e \<Longrightarrow> \<not> toggle e"
  by (cases e) auto

lemma guard_clone: "list_all (cloneEvent p) es \<Longrightarrow> inventoryGuard True es = Some True"
  by (rule guard_steady) (auto simp: list_all_iff cloneEvent_no_toggle)

lemma cloneAttempts_spec:
  "yields (cloneAttempts E r k snapshot)
     (\<lambda>res es. list_all (cloneEvent (rc_Prefix (cfg r))) es \<and> count isClone es \<le> int k \<and>
        (case res of
           Inl err \<Rightarrow> filter cloneOk es = []
         | Inr n \<Rightarrow> filter cloneOk es = [EvClone n None]))"
proof (induction k arbitrary: snapshot)
  case 0
  show ?case by (simp add: yields_return)
next
  case (Suc k)
  show ?case
    unfolding cloneAttempts.simps
    by (intro yields_rules Suc.IH [THEN yields_mono]) (auto simp: nextName_prefix split: sum.splits)
qed

text \<open>Only a conflict of names is tried again, so at most one attempt can have left a container.\<close>

lemma cloneAttempts_may:
  "yields (cloneAttempts E r k snapshot)
     (\<lambda>res es. count cloneMay es \<le> 1 \<and> (case res of Inl err \<Rightarrow> True | Inr n \<Rightarrow> count cloneMay es = 1))"
proof (induction k arbitrary: snapshot)
  case 0
  show ?case by (simp add: yields_return)
next
  case (Suc k)
  show ?case
    unfolding cloneAttempts.simps
    by (intro yields_rules Suc.IH [THEN yields_mono]) (auto split: sum.splits)
qed

text \<open>The first registration token that the CI provider granted.\<close>

fun grantedToken :: "trace \<Rightarrow> string" where
  "grantedToken [] = []"
| "grantedToken (EvRegistrationToken (Inr t) # es) = t"
| "grantedToken (e # es) = grantedToken es"

lemma clone_no_delete: "list_all (cloneEvent p) es \<Longrightarrow> EvDelete c e \<notin> set es"
  by (auto simp: list_all_iff)

text \<open>The events of one scale-up: everything beside the clone attempts concerns the one
  container that was cloned.\<close>

fun scaleUpEvent :: "string \<Rightarrow> string option \<Rightarrow> event \<Rightarrow> bool" where
  "scaleUpEvent p n (EvRegistrationToken r) = True"
| "scaleUpEvent p n e = (toggle e \<or> cloneEvent p e \<or> (case n of None \<Rightarrow> False | Some c \<Rightarrow> bringUpEvent c e))"

lemma scaleUpEvent_clone: "list_all (cloneEvent p) es \<Longrightarrow> list_all (scaleUpEvent p n) es"
proof (induction es)
  case (Cons e es)
  then show ?case by (cases e) auto
qed simp

lemma scaleUpEvent_bringUp: "list_all (bringUpEvent c) es \<Longrightarrow> list_all (scaleUpEvent p (Some c)) es"
proof (induction es)
  case (Cons e es)
  then show ?case by (cases e) auto
qed simp

text \<open>\<open>clonedName es\<close>: the container whose clone succeeded.\<close>

definition clonedName :: "trace \<Rightarrow> string option" where
  "clonedName es = (case filter cloneOk es of EvClone n r # _ \<Rightarrow> Some n | _ \<Rightarrow> None)"

lemma bringUp_filter_clone: "list_all (bringUpEvent n) es \<Longrightarrow> filter cloneOk es = []"
  using bringUp_no_clone [of n es] by (simp add: count_def)

lemma cloneOk_in_filter: "filter cloneOk es = [EvClone n None] \<Longrightarrow> EvClone n None \<in> set es"
  by (metis filter_eq_ConsD in_set_conv_decomp)

lemma inOrder_clone:
  "filter cloneOk xs = [EvClone n None] \<Longrightarrow> inOrder ps ys \<Longrightarrow>
   inOrder ((=) (EvClone n None) # ps) (xs @ ys @ zs)"
proof -
  assume a: "filter cloneOk xs = [EvClone n None]" and b: "inOrder ps ys"
  obtain us vs where "xs = us @ EvClone n None # vs"
    using cloneOk_in_filter [OF a] by (meson split_list)
  with b show ?thesis by (simp add: inOrder_append inOrder_append_right inOrder_now)
qed

lemma scaleUp_spec:
  "yields (scaleUp E r existing)
     (\<lambda>res es. list_all (scaleUpEvent (rc_Prefix (cfg r)) (clonedName es)) es \<and>
        count isClone es \<le> 3 \<and>
        (ciSuspends r \<longrightarrow> inventoryGuard False es = Some False) \<and>
        (case res of
           Inr n \<Rightarrow> filter cloneOk es = [EvClone n None] \<and> (\<forall>c e. EvDelete c e \<notin> set es) \<and>
             inOrder ([(=) (EvRegistrationToken (Inr (grantedToken es))), (=) (EvClone n None)]
                      @ bringUpOrder E r n (grantedToken es) True) es
         | Inl err \<Rightarrow> filter cloneOk es = [] \<or>
             (\<exists>n e. filter cloneOk es = [EvClone n None] \<and> EvDelete n e \<in> set es)))"
  unfolding scaleUp_def cloneWithFreshName_def
  by (intro yields_rules suspend_yields resume_yields cloneAttempts_spec [THEN yields_mono]
      configureClonedRunner_spec [THEN yields_mono])
     (auto simp: clonedName_def bringUp_filter_clone bringUp_no_clone guard_clone guard_bringUp
        scaleUpEvent_clone scaleUpEvent_bringUp clone_no_delete inOrder_append_right split: option.splits
        intro!: inOrder_clone [where zs = "[]", simplified])

section \<open>Scale down\<close>

fun tearDownOk :: "runner list \<Rightarrow> string \<Rightarrow> event \<Rightarrow> bool" where
  "tearDownOk rs n e = (toggle e \<or> tearDownEvent rs n e)"

fun fetchedRemoveToken :: "event \<Rightarrow> bool" where
  "fetchedRemoveToken (EvRemoveToken (Inr t)) = True"
| "fetchedRemoveToken e = False"

text \<open>The remove token is fetched only when the pass does not hold it yet.\<close>

definition held :: "reconcilePass option \<Rightarrow> int" where
  "held p = (case p of None \<Rightarrow> 0 | Some q \<Rightarrow> if removeTokenFetched q then 1 else 0)"

lemma deregisterStep_spec:
  "yields (deregisterStep E n (Some p))
     (\<lambda>(errs, p') es. list_all (tearDownEvent rs n) es \<and> p' \<noteq> None \<and>
        count fetchedRemoveToken es = held p' - held (Some p) \<and> count (deleteOk N) es = 0)"
  unfolding deregisterStep_def getRemoveToken_def
  by (intro yields_rules) (auto simp: held_def)

lemma quiet_count:
  "list_all \<phi> es \<Longrightarrow> (\<And>e. \<phi> e \<Longrightarrow> \<not> P e) \<Longrightarrow> count P es = 0"
  by (rule count_none) (auto simp: list_all_iff)

lemma stopServiceStep_spec:
  "yields (stopServiceStep E n) (\<lambda>_ es. list_all (tearDownEvent rs n) es \<and>
     count fetchedRemoveToken es = 0 \<and> count (deleteOk N) es = 0)"
  unfolding stopServiceStep_def by (intro yields_rules) auto

lemma apiDeleteStep_spec:
  "yields (apiDeleteStep E n rs) (\<lambda>_ es. list_all (tearDownEvent rs n) es \<and>
     count fetchedRemoveToken es = 0 \<and> count (deleteOk N) es = 0)"
  unfolding apiDeleteStep_def by (intro yields_rules) auto

lemma tearDownOk_all: "list_all (tearDownEvent rs n) es \<Longrightarrow> list_all (tearDownOk rs n) es"
  by (auto simp: list_all_iff)

lemma scaleDown_spec:
  "yields (scaleDown E r n rs (Some p))
     (\<lambda>(res, p') es. list_all (tearDownOk rs n) es \<and> p' \<noteq> None \<and>
        count fetchedRemoveToken es = held p' - held (Some p) \<and>
        count (deleteOk N) es = (if deleted res \<and> n \<in> N then 1 else 0) \<and>
        (ciSuspends r \<longrightarrow> inventoryGuard False es = Some False))"
  unfolding scaleDown_def
  by (intro yields_rules suspend_yields resume_yields stopServiceStep_spec [THEN yields_mono, where rs1 = rs and N1 = N]
      deregisterStep_spec [THEN yields_mono, where rs1 = rs and N1 = N]
      apiDeleteStep_spec [THEN yields_mono, where N1 = N])
     (auto simp: tearDownOk_all guard_tearDown)

section \<open>The scale-down loop\<close>

text \<open>What the body of the loop may do with the container \<open>n\<close>.\<close>

fun loopEvent :: "runner list \<Rightarrow> string \<Rightarrow> event \<Rightarrow> bool" where
  "loopEvent rs n (EvGetLastActive c r) = (c = n)"
| "loopEvent rs n (EvSetLastActive c t r) = (c = n)"
| "loopEvent rs n (EvStatus c r) = (c = n)"
| "loopEvent rs n e = tearDownOk rs n e"

fun tearsDown :: "string \<Rightarrow> event \<Rightarrow> bool" where
  "tearsDown n (EvStop c r) = (c = n)"
| "tearsDown n (EvDelete c r) = (c = n)"
| "tearsDown n e = False"

lemma tearDownOk_loop: "list_all (tearDownOk rs n) es \<Longrightarrow> list_all (loopEvent rs n) es"
proof (induction es)
  case (Cons e es)
  then show ?case by (cases e) auto
qed simp

text \<open>The counters of the loop after the events \<open>es\<close>: what the rest of the pass relies on.\<close>

definition accounts :: "reconciler \<Rightarrow> string set \<Rightarrow> passState \<Rightarrow> passState \<Rightarrow> trace \<Rightarrow> bool" where
  "accounts r N st st' es \<longleftrightarrow>
     pass st' \<noteq> None \<and>
     count fetchedRemoveToken es = held (pass st') - held (pass st) \<and>
     autoCount st' = autoCount st - count (deleteOk N) es \<and>
     pendingCapacity st \<le> pendingCapacity st' \<and>
     (ciSuspends r \<longrightarrow> inventoryGuard False es = Some False)"

lemma accounts_append:
  "accounts r N st st1 es \<Longrightarrow> accounts r N st1 st2 es' \<Longrightarrow> accounts r N st st2 (es @ es')"
  by (auto simp: accounts_def)

lemma handleScaleDown_spec:
  assumes "pass st \<noteq> None" and "n \<in> N"
  shows "yields (handleScaleDown E r rs n st)
    (\<lambda>st' es. list_all (loopEvent rs n) es \<and> accounts r N st st' es)"
proof -
  from assms obtain p where p: "pass st = Some p" by auto
  show ?thesis
    unfolding handleScaleDown_def p
    by (intro yields_rules scaleDown_spec [THEN yields_mono, where N1 = N])
       (use p assms in \<open>auto simp: accounts_def tearDownOk_loop\<close>)
qed

text \<open>Why the loop may tear down \<open>n\<close>: it is known to be stopped, or its last activity, read in
  this pass, is too long ago and no busy runner of this name is registered.\<close>

definition expired :: "reconciler \<Rightarrow> runner list \<Rightarrow> gotime \<Rightarrow> string \<Rightarrow> trace \<Rightarrow> bool" where
  "expired r rs now n es \<longleftrightarrow>
     (\<exists>la. EvGetLastActive n (Inr la) \<in> set es \<and>
       (case findRunner n rs of
          None \<Rightarrow> time_sub now la \<ge> pendingAvailabilityGrace r
        | Some \<rho> \<Rightarrow> \<not> r_Busy \<rho> \<and> time_sub now la \<ge> rc_IdleTimeout (cfg r)))"

lemma grace_positive: "0 < pendingAvailabilityGrace r"
  by (simp add: pendingAvailabilityGrace_def runnerAvailabilityGrace_def minute_def second_def)

lemma lastActiveOrInit_spec:
  "yields (lastActiveOrInit E n now)
     (\<lambda>la es. list_all (loopEvent rs n) es \<and> count fetchedRemoveToken es = 0 \<and> count (deleteOk N) es = 0 \<and>
              inventoryGuard False es = Some False \<and> (\<forall>e \<in> set es. \<not> tearsDown n e) \<and>
              (la = now \<or> EvGetLastActive n (Inr la) \<in> set es))"
  unfolding lastActiveOrInit_def by (intro yields_rules) auto

lemma containerCase_spec:
  assumes "pass st \<noteq> None" and "n \<in> N" and "0 < rc_IdleTimeout (cfg r)"
  shows "yields (containerCase E r rs now n status st)
    (\<lambda>st' es. list_all (loopEvent rs n) es \<and> accounts r N st st' es \<and>
       ((\<exists>e \<in> set es. tearsDown n e) \<longrightarrow> status = StatusStopped \<or> expired r rs now n es))"
  unfolding containerCase_def
  by (intro yields_rules handleScaleDown_spec [THEN yields_mono, where N1 = N]
     lastActiveOrInit_spec [THEN yields_mono, where rs1 = rs and N1 = N])
   (use assms grace_positive [of r] in \<open>auto simp: accounts_def expired_def split: if_splits\<close>)

text \<open>Every teardown among \<open>es\<close> has its reason; \<open>S\<close> holds the names already seen stopped.\<close>

definition justified :: "string set \<Rightarrow> reconciler \<Rightarrow> runner list \<Rightarrow> gotime \<Rightarrow> trace \<Rightarrow> bool" where
  "justified S r rs now es \<longleftrightarrow>
     (\<forall>n. (\<exists>e \<in> set es. tearsDown n e) \<longrightarrow>
          n \<in> S \<or> EvStatus n (Inr StatusStopped) \<in> set es \<or> expired r rs now n es)"

lemma expired_append [simp]:
  "expired r rs now n (xs @ ys) \<longleftrightarrow> expired r rs now n xs \<or> expired r rs now n ys"
  by (auto simp: expired_def)

lemma expired_Cons: "expired r rs now n es \<Longrightarrow> expired r rs now n (e # es)"
  by (auto simp: expired_def)

lemma justified_append: "justified S r rs now xs \<Longrightarrow> justified S r rs now ys \<Longrightarrow> justified S r rs now (xs @ ys)"
  unfolding justified_def by (auto simp: bex_Un)

lemma loopEvent_tearsDown: "loopEvent rs m e \<Longrightarrow> tearsDown n e \<Longrightarrow> n = m"
  by (cases e) auto

lemma justifiedI:
  assumes "list_all (loopEvent rs m) es"
    and "(\<exists>e \<in> set es. tearsDown m e) \<Longrightarrow> m \<in> S \<or> EvStatus m (Inr StatusStopped) \<in> set es \<or> expired r rs now m es"
  shows "justified S r rs now es"
  using assms unfolding justified_def by (auto simp: list_all_iff dest: loopEvent_tearsDown)

lemma passStep_spec:
  assumes "pass st \<noteq> None" and "c_Name c \<in> N" and "0 < rc_IdleTimeout (cfg r)"
    and "availableOnline \<le> 0 \<Longrightarrow> c_Status c = StatusStopped \<Longrightarrow> c_Name c \<in> S"
  shows "yields (passStep E r rs availableOnline now c st)
    (\<lambda>(st', c') es. list_all (loopEvent rs (c_Name c)) es \<and> accounts r N st st' es \<and>
       c_Name c' = c_Name c \<and> justified S r rs now es)"
  unfolding passStep_def refreshContainerStatus_def
  by (intro yields_rules containerCase_spec [THEN yields_mono, where N1 = N])
     (use assms in \<open>auto simp: accounts_def split: if_splits
        intro!: justifiedI [where m = "c_Name c"] intro: expired_Cons\<close>)

lemma passLoop_spec:
  assumes "pass st \<noteq> None" and "c_Name ` set cs \<subseteq> N" and "0 < rc_IdleTimeout (cfg r)"
    and "availableOnline \<le> 0 \<Longrightarrow> \<forall>c \<in> set cs. c_Status c = StatusStopped \<longrightarrow> c_Name c \<in> S"
  shows "yields (passLoop E r rs availableOnline now cs st)
    (\<lambda>(st', cs') es. (\<forall>e \<in> set es. \<exists>c \<in> set cs. loopEvent rs (c_Name c) e) \<and> accounts r N st st' es \<and>
       map c_Name cs' = map c_Name cs \<and> justified S r rs now es)"
  using assms
proof (induction cs arbitrary: st)
  case Nil
  then show ?case
    by (auto simp: accounts_def justified_def intro!: yields_return)
next
  case (Cons c cs)
  have IH: "pass st1 \<noteq> None \<Longrightarrow> yields (passLoop E r rs availableOnline now cs st1)
    (\<lambda>(st', cs') es. (\<forall>e \<in> set es. \<exists>c \<in> set cs. loopEvent rs (c_Name c) e) \<and> accounts r N st1 st' es \<and>
       map c_Name cs' = map c_Name cs \<and> justified S r rs now es)" for st1
    using Cons by simp
  have st: "yields (passStep E r rs availableOnline now c st)
    (\<lambda>(st', c') es. list_all (loopEvent rs (c_Name c)) es \<and> accounts r N st st' es \<and>
       c_Name c' = c_Name c \<and> justified S r rs now es)"
    by (rule passStep_spec) (use Cons.prems in auto)
  show ?case
    unfolding passLoop.simps
    by (intro yields_rules st [THEN yields_mono] IH [THEN yields_mono])
       (auto simp: list_all_iff intro: accounts_append justified_append, auto simp: accounts_def)
qed

section \<open>The other parts of a pass\<close>

fun statusEvent :: "event \<Rightarrow> bool" where
  "statusEvent (EvStatus n r) = True"
| "statusEvent (EvLog l m a) = True"
| "statusEvent e = False"

lemma refreshContainerStatuses_spec:
  "yields (refreshContainerStatuses E cs)
    (\<lambda>cs' es. list_all statusEvent es \<and> map c_Name cs' = map c_Name cs \<and>
       (\<forall>c \<in> set cs'. c_Status c = StatusStopped \<longrightarrow> EvStatus (c_Name c) (Inr StatusStopped) \<in> set es))"
proof (induction cs)
  case Nil
  then show ?case by (simp add: yields_return)
next
  case (Cons c cs)
  show ?case
    unfolding refreshContainerStatuses.simps refreshContainerStatus_def
    by (intro yields_rules Cons.IH [THEN yields_mono]) auto
qed

text \<open>The baseline is maintained under its own name only.\<close>

fun baselineEvent :: "runner list \<Rightarrow> string \<Rightarrow> event \<Rightarrow> bool" where
  "baselineEvent rs b (EvListContainers q r) = (q = b)"
| "baselineEvent rs b (EvGetLastActive c r) = (c = b)"
| "baselineEvent rs b (EvSetLastActive c t r) = (c = b)"
| "baselineEvent rs b (EvNow t) = True"
| "baselineEvent rs b (EvRegistrationToken r) = True"
| "baselineEvent rs b (EvClone c r) = (c = b)"
| "baselineEvent rs b e = (toggle e \<or> tearDownEvent rs b e \<or> bringUpEvent b e)"

lemma baseline_tearDown: "list_all (tearDownOk rs b) es \<Longrightarrow> list_all (baselineEvent rs b) es"
proof (induction es)
  case (Cons e es)
  then show ?case by (cases e) auto
qed simp

lemma baseline_bringUp: "list_all (bringUpEvent b) es \<Longrightarrow> list_all (baselineEvent rs b) es"
proof (induction es)
  case (Cons e es)
  then show ?case by (cases e) auto
qed simp

lemma tearDownOk_no_clone: "list_all (tearDownOk rs n) es \<Longrightarrow> count isClone es = 0"
  by (erule quiet_count) (auto elim!: isClone.elims)

lemma baselineLoop_spec:
  "yields (baselineLoop E r rs cs)
    (\<lambda>res es. list_all (baselineEvent rs (rc_BaselineName (cfg r))) es \<and> count isClone es = 0 \<and>
       (ciSuspends r \<longrightarrow> inventoryGuard False es = Some False) \<and>
       (case res of Some (Inr k) \<Rightarrow> k = 1 | _ \<Rightarrow> True))"
proof (induction cs)
  case Nil
  then show ?case by (simp add: yields_return)
next
  case (Cons c cs)
  show ?case
    unfolding baselineLoop.simps
    by (intro yields_rules Cons.IH [THEN yields_mono] scaleDown_spec [THEN yields_mono])
       (auto simp: baseline_tearDown tearDownOk_no_clone split: option.splits sum.splits)
qed

lemma ensureBaseline_spec:
  "yields (ensureBaseline E r rs)
    (\<lambda>res es. list_all (baselineEvent rs (rc_BaselineName (cfg r))) es \<and> count isClone es \<le> 1 \<and>
       (ciSuspends r \<longrightarrow> inventoryGuard False es = Some False) \<and>
       (case res of Inr k \<Rightarrow> 0 \<le> k \<and> k \<le> 1 | _ \<Rightarrow> True))"
  unfolding ensureBaseline_def
  by (intro yields_rules suspend_yields resume_yields baselineLoop_spec [THEN yields_mono]
      configureClonedRunner_spec [THEN yields_mono])
     (auto simp: baseline_bringUp guard_bringUp bringUp_no_clone split: option.splits sum.splits)

text \<open>The scale-up loop: every container it tears down was cloned by it.\<close>

fun overflowEvent :: "string \<Rightarrow> event \<Rightarrow> bool" where
  "overflowEvent p e = (\<exists>n. scaleUpEvent p n e)"

definition ownTeardowns :: "trace \<Rightarrow> bool" where
  "ownTeardowns es \<longleftrightarrow> (\<forall>n. (\<exists>e \<in> set es. tearsDown n e) \<longrightarrow> EvClone n None \<in> set es)"

lemma ownTeardowns_append: "ownTeardowns xs \<Longrightarrow> ownTeardowns ys \<Longrightarrow> ownTeardowns (xs @ ys)"
  by (auto simp: ownTeardowns_def bex_Un)

lemma clonedName_in: "clonedName es = Some n \<Longrightarrow> EvClone n None \<in> set es"
proof -
  assume c: "clonedName es = Some n"
  then obtain r xs where f: "filter cloneOk es = EvClone n r # xs"
    by (auto simp: clonedName_def split: list.splits event.splits)
  then have "EvClone n r \<in> set (filter cloneOk es)" by simp
  then show ?thesis by auto
qed

lemma scaleUp_own: "list_all (scaleUpEvent p (clonedName es)) es \<Longrightarrow> ownTeardowns es"
proof -
  assume a: "list_all (scaleUpEvent p (clonedName es)) es"
  have "scaleUpEvent p n e \<Longrightarrow> tearsDown c e \<Longrightarrow> n = Some c" for n c e
    by (cases e) (auto split: option.splits)
  with a show ?thesis
    unfolding ownTeardowns_def by (metis clonedName_in list_all_iff)
qed

lemma scaleUpEvent_not: "scaleUpEvent p n e \<Longrightarrow> (\<exists>i r. e = EvDeleteRunner i r) \<or> fetchedRemoveToken e \<Longrightarrow> False"
  by (cases e) (auto split: option.splits)

lemma ownTeardowns_log [simp]:
  "ownTeardowns []" "ownTeardowns (EvLog l m a # es) \<longleftrightarrow> ownTeardowns es"
  by (auto simp: ownTeardowns_def)

lemma scaleUp_may:
  "yields (scaleUp E r existing)
     (\<lambda>res es. count cloneMay es \<le> 1 \<and> (case res of Inl err \<Rightarrow> True | Inr n \<Rightarrow> count cloneMay es = 1))"
  unfolding scaleUp_def cloneWithFreshName_def
  by (intro yields_rules suspend_yields resume_yields cloneAttempts_may [THEN yields_mono]
      configureClonedRunner_emits [THEN yields_emits])
     (auto simp: bringUp_no_clone split: option.splits)

lemma scaleUp_counts:
  "yields (scaleUp E r existing)
    (\<lambda>res es. list_all (overflowEvent (rc_Prefix (cfg r))) es \<and> ownTeardowns es \<and>
       (ciSuspends r \<longrightarrow> inventoryGuard False es = Some False) \<and>
       (case res of Inr n \<Rightarrow> count cloneMay es = 1 | Inl err \<Rightarrow> count cloneMay es \<le> 1))"
  by (rule yields_mono [OF yields_conj [OF scaleUp_spec scaleUp_may]])
     (auto simp: list_all_iff dest: scaleUp_own [unfolded list_all_iff] split: sum.splits)

lemma overflowEvent_log [simp]: "overflowEvent p (EvLog l m a)"
  by simp

lemma scaleUpLoop_spec:
  "yields (scaleUpLoop E r d rm cs needed auto)
    (\<lambda>_ es. list_all (overflowEvent (rc_Prefix (cfg r))) es \<and> ownTeardowns es \<and>
       count cloneMay es \<le> max 0 needed \<and>
       auto + count cloneMay es \<le> max auto (rc_MaxAutoRunners (cfg r)) \<and>
       (ciSuspends r \<longrightarrow> inventoryGuard False es = Some False))"
proof (induction E r d rm cs needed auto rule: scaleUpLoop.induct)
  case (1 E r d rm cs needed auto)
  show ?case
    by (subst scaleUpLoop.simps, intro yields_rules scaleUp_counts [THEN yields_mono] "1.IH" [THEN yields_mono])
       (auto simp: ownTeardowns_append simp del: overflowEvent.simps)
qed

end
