(* ===== verification/Reconciler_Pass.thy ===== *)
theory Reconciler_Pass
  imports Reconciler_Safety
begin

text \<open>
  A whole reconcile pass (\<open>ReconcileDemand\<close> of \<open>internal/engine/reconciler.go\<close>): what any
  environment can make it do, and what it achieves when every call succeeds.
\<close>

section \<open>What the pass looked at\<close>

text \<open>The runners that the pass listed first, and the auto-scaled containers of its first listing that
  succeeds.\<close>

fun listedRunners :: "trace \<Rightarrow> runner list" where
  "listedRunners [] = []"
| "listedRunners (EvListRunners r # es) = (case r of Inl _ \<Rightarrow> [] | Inr rs \<Rightarrow> rs)"
| "listedRunners (_ # es) = listedRunners es"

fun listedAuto :: "string \<Rightarrow> trace \<Rightarrow> container list" where
  "listedAuto p [] = []"
| "listedAuto p (EvListContainers q r # es) =
     (if q = p then (case r of Inl _ \<Rightarrow> listedAuto p es | Inr cs \<Rightarrow> cs) else listedAuto p es)"
| "listedAuto p (_ # es) = listedAuto p es"

text \<open>Why a container may be torn down by a pass with the events \<open>es\<close>.\<close>

definition teardownReason :: "reconciler \<Rightarrow> runner list \<Rightarrow> trace \<Rightarrow> string \<Rightarrow> bool" where
  "teardownReason r rs es n \<longleftrightarrow>
     EvStatus n (Inr StatusStopped) \<in> set es \<or> EvClone n None \<in> set es \<or>
     (\<exists>now. EvNow now \<in> set es \<and> expired r rs now n es)"

fun passEvent :: "string \<Rightarrow> runner list \<Rightarrow> string set \<Rightarrow> event \<Rightarrow> bool" where
  "passEvent p rs N (EvNow t) = True"
| "passEvent p rs N e = (statusEvent e \<or> (\<exists>n \<in> N. loopEvent rs n e) \<or> overflowEvent p e)"

lemma passEvent_cases:
  "statusEvent e \<Longrightarrow> passEvent p rs N e"
  "n \<in> N \<Longrightarrow> loopEvent rs n e \<Longrightarrow> passEvent p rs N e"
  "overflowEvent p e \<Longrightarrow> passEvent p rs N e"
  by (cases e; auto)+

text \<open>At every moment of the trace the number of auto-scaled containers is at most \<open>bound\<close>,
  when it was \<open>k\<close> at first.\<close>

definition boundedBy :: "int \<Rightarrow> string \<Rightarrow> string set \<Rightarrow> int \<Rightarrow> trace \<Rightarrow> bool" where
  "boundedBy bound p N k es \<longleftrightarrow>
     (\<forall>xs. prefix xs es \<longrightarrow> k - count (deleteOk N) xs + count (autoCloneMay p) xs \<le> bound)"

lemma count_prefix: "prefix xs es \<Longrightarrow> count P xs \<le> count P es"
  by (auto simp: prefix_def)

lemma boundedBy_quiet:
  "count (autoCloneMay p) es = 0 \<Longrightarrow> k \<le> bound \<Longrightarrow> boundedBy bound p N k es"
  unfolding boundedBy_def using count_prefix [of _ es "autoCloneMay p"] count_nonneg [of "deleteOk N"]
  by (metis add.right_neutral add_mono diff_left_mono diff_zero order_trans)

lemma boundedBy_append:
  assumes "count (autoCloneMay p) xs = 0" and "k \<le> bound"
    and "boundedBy bound p N (k - count (deleteOk N) xs) ys"
  shows "boundedBy bound p N k (xs @ ys)"
  using assms(3) boundedBy_quiet [OF assms(1,2), of N] assms(1)
  unfolding boundedBy_def by (auto simp: prefix_append)

lemma boundedBy_total:
  assumes "k + count cloneMay es \<le> bound"
  shows "boundedBy bound p N k es"
  unfolding boundedBy_def
proof (intro allI impI)
  fix xs assume "prefix xs es"
  then have "count (autoCloneMay p) xs \<le> count (autoCloneMay p) es" by (rule count_prefix)
  then show "k - count (deleteOk N) xs + count (autoCloneMay p) xs \<le> bound"
    using assms cloneMay_le(1) [of p es] count_nonneg [of "deleteOk N" xs] by linarith
qed

lemma boundedBy_weaken: "boundedBy b p N k es \<Longrightarrow> b \<le> b' \<Longrightarrow> boundedBy b' p N k es"
  unfolding boundedBy_def by (meson order_trans)

lemma boundedBy_less:
  assumes "boundedBy b p N k es" and "k' \<le> k"
  shows "boundedBy b p N k' es"
  unfolding boundedBy_def
proof (intro allI impI)
  fix xs assume "prefix xs es"
  with assms(1) have "k - count (deleteOk N) xs + count (autoCloneMay p) xs \<le> b"
    unfolding boundedBy_def by blast
  with assms(2) show "k' - count (deleteOk N) xs + count (autoCloneMay p) xs \<le> b" by linarith
qed

section \<open>The pass from the listing on\<close>

lemma loopEvent_no_clone: "loopEvent rs n e \<Longrightarrow> \<not> isClone e"
  by (cases e) auto

lemma isClone_count: "count isClone es = 0 \<Longrightarrow> count cloneMay es = 0 \<and> count (autoCloneMay p) es = 0"
proof (induction es)
  case (Cons e es)
  then show ?case using count_nonneg [of isClone es] by (cases e) (auto split: if_splits)
qed simp

lemma teardownReason_append:
  "teardownReason r rs xs n \<Longrightarrow> teardownReason r rs (xs @ ys) n"
  "teardownReason r rs ys n \<Longrightarrow> teardownReason r rs (xs @ ys) n"
  by (auto simp: teardownReason_def)

definition passOk :: "reconciler \<Rightarrow> runner list \<Rightarrow> container list \<Rightarrow> int \<Rightarrow> trace \<Rightarrow> bool" where
  "passOk r rs cs allowance es \<longleftrightarrow>
     list_all (passEvent (rc_Prefix (cfg r)) rs (c_Name ` set cs)) es \<and>
     (\<forall>n. (\<exists>e \<in> set es. tearsDown n e) \<longrightarrow> teardownReason r rs es n) \<and>
     count cloneMay es \<le> max 0 allowance \<and>
     count fetchedRemoveToken es \<le> 1 \<and>
     (ciSuspends r \<longrightarrow> inventoryGuard False es = Some False) \<and>
     boundedBy (max (int (length cs)) (rc_MaxAutoRunners (cfg r))) (rc_Prefix (cfg r)) (c_Name ` set cs)
       (int (length cs)) es"

lemma status_quiet:
  assumes "list_all statusEvent es"
  shows "count cloneMay es = 0" "count (autoCloneMay p) es = 0" "count (deleteOk N) es = 0"
    "count fetchedRemoveToken es = 0" "inventoryGuard s es = Some s" "\<And>n e. e \<in> set es \<Longrightarrow> \<not> tearsDown n e"
proof -
  have q: "\<not> cloneMay e \<and> \<not> autoCloneMay p e \<and> \<not> deleteOk N e \<and> \<not> fetchedRemoveToken e \<and>
           \<not> toggle e \<and> \<not> mutation e \<and> (\<forall>n. \<not> tearsDown n e)" if "statusEvent e" for e
    using that by (cases e) auto
  show "count cloneMay es = 0" "count (autoCloneMay p) es = 0" "count (deleteOk N) es = 0"
    "count fetchedRemoveToken es = 0"
    using assms by (auto intro!: quiet_count simp: q)
  show "inventoryGuard s es = Some s"
    by (rule guard_quiet) (use assms q in \<open>auto simp: list_all_iff\<close>)
  show "\<And>n e. e \<in> set es \<Longrightarrow> \<not> tearsDown n e"
    using assms q by (auto simp: list_all_iff)
qed

lemma expired_Now [simp]: "expired r rs now n (EvNow t # es) \<longleftrightarrow> expired r rs now n es"
  by (simp add: expired_def)

text \<open>The three phases of the pass: the refresh \<open>a\<close>, the scale-down loop \<open>b\<close> and the
  scale-up loop \<open>c\<close>.\<close>

lemma phases:
  assumes a: "list_all statusEvent a"
    and b: "\<forall>e \<in> set b. \<exists>c \<in> set cs. loopEvent rs (c_Name c) e"
      "accounts r (c_Name ` set cs) st st' b" "justified S r rs now b"
      "\<And>n. n \<in> S \<Longrightarrow> EvStatus n (Inr StatusStopped) \<in> set a"
    and st: "pass st = Some newPass" "autoCount st = int (length cs)"
    and c: "list_all (overflowEvent (rc_Prefix (cfg r))) c" "ownTeardowns c"
      "count cloneMay c \<le> max 0 allowance"
      "autoCount st' + count cloneMay c \<le> max (autoCount st') (rc_MaxAutoRunners (cfg r))"
      "ciSuspends r \<Longrightarrow> inventoryGuard False c = Some False"
  shows "passOk r rs cs allowance (a @ EvNow now # b @ c)"
proof -
  let ?p = "rc_Prefix (cfg r)" and ?N = "c_Name ` set cs" and ?es = "a @ EvNow now # b @ c"
  have nb: "count isClone b = 0"
    using b(1) loopEvent_no_clone by (intro count_none) blast
  note qa = status_quiet [OF a] and qb = isClone_count [OF nb]
  have fc: "count fetchedRemoveToken c = 0"
    using c(1) by (rule quiet_count) (auto dest: scaleUpEvent_not)
  have acc: "autoCount st' = int (length cs) - count (deleteOk ?N) b" "count fetchedRemoveToken b \<le> 1"
    "ciSuspends r \<Longrightarrow> inventoryGuard False b = Some False"
    using b(2) st by (auto simp: accounts_def held_def newPass_def split: option.splits if_splits)
  have ev_b: "\<forall>e \<in> set b. passEvent ?p rs ?N e"
    using b(1) passEvent_cases(2) by (metis image_eqI)
  have ev: "list_all (passEvent ?p rs ?N) ?es"
    using a c(1) ev_b by (auto simp: list_all_iff intro: passEvent_cases simp del: overflowEvent.simps)
  have "teardownReason r rs ?es n" if "e \<in> set ?es" "tearsDown n e" for n e
  proof -
    from that qa(6) consider "e \<in> set b" | "e \<in> set c" by auto
    then show ?thesis
    proof cases
      case 1
      with b(3) that(2) have "n \<in> S \<or> EvStatus n (Inr StatusStopped) \<in> set b \<or> expired r rs now n b"
        unfolding justified_def by blast
      then show ?thesis
        by (elim disjE) (use b(4) in \<open>auto simp: teardownReason_def\<close>)
    next
      case 2
      with c(2) that(2) have "EvClone n None \<in> set c" unfolding ownTeardowns_def by blast
      then show ?thesis by (simp add: teardownReason_def)
    qed
  qed
  moreover have "boundedBy (max (int (length cs)) (rc_MaxAutoRunners (cfg r))) ?p ?N (int (length cs)) ((a @ EvNow now # b) @ c)"
  proof (rule boundedBy_append)
    show "boundedBy (max (int (length cs)) (rc_MaxAutoRunners (cfg r))) ?p ?N
            (int (length cs) - count (deleteOk ?N) (a @ EvNow now # b)) c"
    proof (rule boundedBy_total)
      have "autoCount st' \<le> int (length cs)" using acc(1) by simp
      with c(4) have "autoCount st' + count cloneMay c \<le> max (int (length cs)) (rc_MaxAutoRunners (cfg r))"
        by linarith
      then show "int (length cs) - count (deleteOk ?N) (a @ EvNow now # b) + count cloneMay c
          \<le> max (int (length cs)) (rc_MaxAutoRunners (cfg r))"
        by (simp add: qa acc(1))
    qed
  qed (use qa qb in auto)
  ultimately show ?thesis
    using ev qa qb fc c(3,5) acc(2,3) by (auto simp: passOk_def)
qed

lemma scalePass_spec:
  assumes "0 < rc_IdleTimeout (cfg r)" and "0 \<le> availableOnline"
  shows "yields (scalePass E r demand rs availableOnline base cs)
    (\<lambda>_ es. passOk r rs cs (d_QueuedJobs demand - availableOnline - base) es)"
proof -
  let ?st = "\<lparr>autoCount = int (length cs), removed = {}, pendingCapacity = 0, pass = Some newPass\<rparr>"
  let ?S = "\<lambda>a. {n. EvStatus n (Inr StatusStopped) \<in> set a}"
  have refresh: "yields (if availableOnline = 0 then refreshContainerStatuses E cs else ret cs)
    (\<lambda>cs' a. list_all statusEvent a \<and> map c_Name cs' = map c_Name cs \<and>
       (availableOnline \<le> 0 \<longrightarrow> (\<forall>c \<in> set cs'. c_Status c = StatusStopped \<longrightarrow> c_Name c \<in> ?S a)))"
  proof (cases "availableOnline = 0")
    case True
    then show ?thesis by (simp, intro refreshContainerStatuses_spec [THEN yields_mono]) simp
  next
    case False
    then show ?thesis using assms(2) by (simp add: yields_return)
  qed
  have names: "c_Name ` set cs' = c_Name ` set cs" if "map c_Name cs' = map c_Name cs" for cs' :: "container list"
    using that by (metis list.set_map)
  show ?thesis
    unfolding scalePass_def
  proof (rule yields_bind, rule yields_mono [OF refresh], elim conjE)
    fix cs' :: "container list" and a
    assume A: "list_all statusEvent a" "map c_Name cs' = map c_Name cs"
      "availableOnline \<le> 0 \<longrightarrow> (\<forall>c \<in> set cs'. c_Status c = StatusStopped \<longrightarrow> c_Name c \<in> ?S a)"
    have loop: "yields (passLoop E r rs availableOnline now cs' ?st)
      (\<lambda>(st', cs2) b. (\<forall>e \<in> set b. \<exists>c \<in> set cs'. loopEvent rs (c_Name c) e) \<and>
         accounts r (c_Name ` set cs) ?st st' b \<and> map c_Name cs2 = map c_Name cs' \<and> justified (?S a) r rs now b)" for now
    proof (rule passLoop_spec)
      show "c_Name ` set cs' \<subseteq> c_Name ` set cs" using names [OF A(2)] by simp
    qed (use A(3) assms(1) in simp_all)
    have mem: "(\<exists>c \<in> set cs'. loopEvent rs (c_Name c) e) \<longleftrightarrow> (\<exists>c \<in> set cs. loopEvent rs (c_Name c) e)" for e
    proof -
      have "(\<exists>n \<in> c_Name ` set cs'. loopEvent rs n e) = (\<exists>n \<in> c_Name ` set cs. loopEvent rs n e)"
        by (simp only: names [OF A(2)])
      then show ?thesis by simp
    qed
    have done_: "passOk r rs cs allowance (a @ [EvNow now] @ b @ c)"
      if "\<forall>e \<in> set b. \<exists>c \<in> set cs'. loopEvent rs (c_Name c) e"
        "accounts r (c_Name ` set cs) ?st st' b" "justified (?S a) r rs now b"
        "list_all (overflowEvent (rc_Prefix (cfg r))) c" "ownTeardowns c"
        "count cloneMay c \<le> max 0 (allowance - pendingCapacity st')"
        "autoCount st' + count cloneMay c \<le> max (autoCount st') (rc_MaxAutoRunners (cfg r))"
        "ciSuspends r \<longrightarrow> inventoryGuard False c = Some False" for now b c st' allowance
    proof -
      have "0 \<le> pendingCapacity st'" using that(2) by (simp add: accounts_def)
      with that(6) have "count cloneMay c \<le> max 0 allowance" by linarith
      with phases [OF A(1) that(1) [unfolded mem] that(2,3), of c allowance] that(4,5,7,8)
      show ?thesis by simp
    qed
    show "yields (do { now \<leftarrow> Now E; (st, containers') \<leftarrow> passLoop E r rs availableOnline now cs' ?st;
        let needed = d_QueuedJobs demand - availableOnline - pendingCapacity st - base;
        scaleUpLoop E r demand (removed st) containers' needed (autoCount st) })
      (\<lambda>_ es. passOk r rs cs (d_QueuedJobs demand - availableOnline - base) (a @ es))"
      by (intro yields_rules loop [THEN yields_mono] scaleUpLoop_spec [THEN yields_mono])
        (clarsimp, rule done_ [simplified], simp_all)
  qed
qed

section \<open>The whole pass\<close>

text \<open>The baseline is kept under a name that no auto-scaled container has.\<close>

definition baselineApart :: "reconciler \<Rightarrow> bool" where
  "baselineApart r \<longleftrightarrow> (rc_Baseline (cfg r) \<longrightarrow> \<not> has_prefix (rc_BaselineName (cfg r)) (rc_Prefix (cfg r)))"

definition runnersAvailable :: "reconciler \<Rightarrow> trace \<Rightarrow> int" where
  "runnersAvailable r es = AvailableRunnerCountForLabels (listedRunners es) (rc_Labels (cfg r))"

text \<open>The listing of the auto-scaled containers that the pass works on.\<close>

fun listsAuto :: "string \<Rightarrow> event \<Rightarrow> bool" where
  "listsAuto p (EvListContainers q r) = (q = p \<and> (case r of Inl err \<Rightarrow> False | Inr cs \<Rightarrow> True))"
| "listsAuto p e = False"

fun listingEvent :: "string \<Rightarrow> event \<Rightarrow> bool" where
  "listingEvent p (EvListRunners r) = True"
| "listingEvent p (EvListContainers q r) = (q = p)"
| "listingEvent p (EvLog l m a) = True"
| "listingEvent p e = False"

definition safePass :: "reconciler \<Rightarrow> capacityDemand \<Rightarrow> trace \<Rightarrow> bool" where
  "safePass r demand es \<longleftrightarrow>
     (let p = rc_Prefix (cfg r); b = rc_BaselineName (cfg r); rs = listedRunners es; cs = listedAuto p es in
      list_all (\<lambda>e. listingEvent p e \<or> (rc_Baseline (cfg r) \<and> baselineEvent rs b e) \<or>
                    passEvent p rs (c_Name ` set cs) e) es \<and>
      (\<forall>n. (\<exists>e \<in> set es. tearsDown n e) \<longrightarrow> (rc_Baseline (cfg r) \<and> n = b) \<or> teardownReason r rs es n) \<and>
      count (autoCloneOk p) es \<le> max 0 (d_QueuedJobs demand - runnersAvailable r es) \<and>
      (\<not> rc_Baseline (cfg r) \<longrightarrow> count fetchedRemoveToken es \<le> 1) \<and>
      (ciSuspends r \<longrightarrow> inventoryGuard False es = Some False) \<and>
      boundedBy (max (int (length cs)) (rc_MaxAutoRunners (cfg r))) p (c_Name ` set cs) (int (length cs)) es \<and>
      list_all (\<lambda>e. listingEvent p e \<or> (rc_Baseline (cfg r) \<and> baselineEvent rs b e)) (takeWhile (\<lambda>e. \<not> listsAuto p e) es))"

lemma listedAuto_baseline:
  "list_all (baselineEvent rs b) es \<Longrightarrow> b \<noteq> p \<Longrightarrow> listedAuto p (es @ fs) = listedAuto p fs"
proof (induction es)
  case (Cons e es)
  then show ?case by (cases e) auto
qed simp

lemma baseline_no_auto_clone:
  "list_all (baselineEvent rs b) es \<Longrightarrow> \<not> has_prefix b p \<Longrightarrow> count (autoCloneMay p) es = 0"
  by (erule quiet_count) (auto elim!: autoCloneMay.elims)

lemma baseline_tearsDown: "baselineEvent rs b e \<Longrightarrow> tearsDown n e \<Longrightarrow> n = b"
  by (cases e) auto

lemma list_all_takeWhile:
  "list_all \<phi> xs \<Longrightarrow> list_all \<phi> (takeWhile P xs)"
  "list_all \<phi> xs \<Longrightarrow> \<not> P y \<Longrightarrow> list_all \<phi> (takeWhile P (xs @ y # ys))"
  by (induction xs) auto

lemma no_may_no_ok: "count (autoCloneMay p) es = 0 \<Longrightarrow> count (autoCloneOk p) es = 0"
  using cloneMay_le(3) [of p es] count_nonneg [of "autoCloneOk p" es] by linarith

text \<open>The events \<open>b\<close> of the baseline phase, none when there is no baseline.\<close>

definition baselinePhase :: "reconciler \<Rightarrow> runner list \<Rightarrow> trace \<Rightarrow> bool" where
  "baselinePhase r rs b \<longleftrightarrow>
     (if rc_Baseline (cfg r) then list_all (baselineEvent rs (rc_BaselineName (cfg r))) b \<and>
        (ciSuspends r \<longrightarrow> inventoryGuard False b = Some False)
      else b = [])"

lemma teardownReason_Cons: "teardownReason r rs es n \<Longrightarrow> teardownReason r rs (e # es) n"
  using teardownReason_append(2) [of r rs es n "[e]"] by simp

lemma safePass_phases:
  assumes "baselineApart r" and "baselinePhase r rs b"
    and ok: "passOk r rs cs (d_QueuedJobs demand - AvailableRunnerCountForLabels rs (rc_Labels (cfg r)) - base) c"
    and "0 \<le> base"
  shows "safePass r demand (EvListRunners (Inr rs) # b @ EvLog l m a # EvListContainers (rc_Prefix (cfg r)) (Inr cs) # c)"
    (is "safePass r demand ?es")
proof -
  let ?p = "rc_Prefix (cfg r)" and ?N = "c_Name ` set cs"
  have b: "rc_Baseline (cfg r) \<Longrightarrow> \<not> has_prefix (rc_BaselineName (cfg r)) ?p \<and>
      list_all (baselineEvent rs (rc_BaselineName (cfg r))) b" and nb: "\<not> rc_Baseline (cfg r) \<Longrightarrow> b = []"
    using assms(1,2) by (auto simp: baselineApart_def baselinePhase_def)
  have listed: "listedAuto ?p ?es = cs" "listedRunners ?es = rs"
  proof -
    have "rc_Baseline (cfg r) \<Longrightarrow> rc_BaselineName (cfg r) \<noteq> ?p"
      using b by (metis has_prefix_refl)
    then show "listedAuto ?p ?es = cs"
      using b nb by (cases "rc_Baseline (cfg r)") (auto simp: listedAuto_baseline)
  qed simp
  have quiet: "count (autoCloneMay ?p) b = 0"
    using b nb by (cases "rc_Baseline (cfg r)") (auto simp: baseline_no_auto_clone)
  have td: "rc_Baseline (cfg r) \<and> n = rc_BaselineName (cfg r)" if "e \<in> set b" "tearsDown n e" for n e
    using that b nb by (cases "rc_Baseline (cfg r)") (auto simp: list_all_iff dest: baseline_tearsDown)
  let ?h = "EvListRunners (Inr rs) # b @ [EvLog l m a, EvListContainers ?p (Inr cs)]"
  have bd: "boundedBy (max (int (length cs)) (rc_MaxAutoRunners (cfg r))) ?p ?N (int (length cs)) (?h @ c)"
  proof (rule boundedBy_append)
    have "boundedBy (max (int (length cs)) (rc_MaxAutoRunners (cfg r))) ?p ?N (int (length cs)) c"
      using ok by (simp add: passOk_def)
    moreover have "0 \<le> count (deleteOk ?N) ?h" by (rule count_nonneg)
    ultimately show "boundedBy (max (int (length cs)) (rc_MaxAutoRunners (cfg r))) ?p ?N
        (int (length cs) - count (deleteOk ?N) ?h) c"
      by (elim boundedBy_less) linarith
  qed (use quiet in auto)
  have ev: "list_all (\<lambda>e. listingEvent ?p e \<or> (rc_Baseline (cfg r) \<and> baselineEvent rs (rc_BaselineName (cfg r)) e) \<or>
        passEvent ?p rs ?N e) ?es"
    using b nb ok by (cases "rc_Baseline (cfg r)") (auto simp: passOk_def list_all_iff)
  have why: "(rc_Baseline (cfg r) \<and> n = rc_BaselineName (cfg r)) \<or> teardownReason r rs ?es n"
    if e: "e \<in> set ?es" "tearsDown n e" for n e
  proof -
    from e consider "e \<in> set b" | "e \<in> set c" by auto
    then show ?thesis
    proof cases
      case 1
      then show ?thesis using td e(2) by blast
    next
      case 2
      with ok e(2) have "teardownReason r rs c n" by (auto simp: passOk_def)
      then show ?thesis by (auto intro!: teardownReason_Cons teardownReason_append(2))
    qed
  qed
  have cl: "count (autoCloneOk ?p) c \<le> max 0 (d_QueuedJobs demand - AvailableRunnerCountForLabels rs (rc_Labels (cfg r)))"
  proof -
    have "count cloneMay c \<le> max 0 (d_QueuedJobs demand - AvailableRunnerCountForLabels rs (rc_Labels (cfg r)) - base)"
      using ok unfolding passOk_def by blast
    then show ?thesis using assms(4) cloneMay_le(1,3) [of ?p c] by linarith
  qed
  have guard: "ciSuspends r \<Longrightarrow> inventoryGuard False ?es = Some False"
    using assms(2) ok by (auto simp: passOk_def baselinePhase_def split: if_splits)
  have tok: "\<not> rc_Baseline (cfg r) \<Longrightarrow> count fetchedRemoveToken ?es \<le> 1"
    using nb ok by (simp add: passOk_def)
  have before: "list_all (\<lambda>e. listingEvent ?p e \<or> (rc_Baseline (cfg r) \<and> baselineEvent rs (rc_BaselineName (cfg r)) e))
      (takeWhile (\<lambda>e. \<not> listsAuto ?p e) ((EvListRunners (Inr rs) # b @ [EvLog l m a]) @ EvListContainers ?p (Inr cs) # c))"
    using b nb by (intro list_all_takeWhile(2)) (cases "rc_Baseline (cfg r)", auto simp: list_all_iff)
  show ?thesis
    unfolding safePass_def Let_def listed runnersAvailable_def
    using ev why bd cl guard tok no_may_no_ok [OF quiet] before
    by (intro conjI allI impI) (simp_all, blast)
qed

lemma safePass_stopped:
  assumes "baselineApart r" and "baselinePhase r rs b"
  shows "safePass r demand (EvListRunners (Inr rs) # b @ [EvLog l m a, EvListContainers (rc_Prefix (cfg r)) (Inl err)])"
    (is "safePass r demand ?es")
proof -
  let ?p = "rc_Prefix (cfg r)"
  have b: "rc_Baseline (cfg r) \<Longrightarrow> \<not> has_prefix (rc_BaselineName (cfg r)) ?p \<and>
      list_all (baselineEvent rs (rc_BaselineName (cfg r))) b" and nb: "\<not> rc_Baseline (cfg r) \<Longrightarrow> b = []"
    using assms(1,2) by (auto simp: baselineApart_def baselinePhase_def)
  have listed: "listedRunners ?es = rs" "listedAuto ?p ?es = []"
  proof -
    have "rc_Baseline (cfg r) \<Longrightarrow> rc_BaselineName (cfg r) \<noteq> ?p"
      using b by (metis has_prefix_refl)
    then show "listedAuto ?p ?es = []"
      using b nb by (cases "rc_Baseline (cfg r)") (auto simp: listedAuto_baseline)
  qed simp
  have quiet: "count (autoCloneMay ?p) ?es = 0"
    using b nb by (cases "rc_Baseline (cfg r)") (auto simp: baseline_no_auto_clone)
  have td: "rc_Baseline (cfg r) \<and> n = rc_BaselineName (cfg r)" if "e \<in> set ?es" "tearsDown n e" for n e
    using that b nb by (cases "rc_Baseline (cfg r)") (auto simp: list_all_iff dest: baseline_tearsDown)
  have ev: "list_all (\<lambda>e. listingEvent ?p e \<or> (rc_Baseline (cfg r) \<and> baselineEvent rs (rc_BaselineName (cfg r)) e) \<or>
        passEvent ?p rs {} e) ?es"
    using b nb by (cases "rc_Baseline (cfg r)") (auto simp: list_all_iff)
  have guard: "ciSuspends r \<Longrightarrow> inventoryGuard False ?es = Some False"
    using assms(2) by (auto simp: baselinePhase_def split: if_splits)
  have "list_all (\<lambda>e. listingEvent ?p e \<or> (rc_Baseline (cfg r) \<and> baselineEvent rs (rc_BaselineName (cfg r)) e)) ?es"
    using b nb by (cases "rc_Baseline (cfg r)") (auto simp: list_all_iff)
  note before = list_all_takeWhile(1) [OF this, of "\<lambda>e. \<not> listsAuto ?p e"]
  show ?thesis
    unfolding safePass_def Let_def listed
    using ev td guard no_may_no_ok [OF quiet] nb boundedBy_quiet [OF quiet, of 0] before
    by (intro conjI allI impI) (simp_all, blast)
qed

lemma safePass_unlisted: "safePass r demand [EvListRunners (Inl err)]"
  using boundedBy_quiet [of "rc_Prefix (cfg r)" "[EvListRunners (Inl err)]" 0]
  by (simp add: safePass_def Let_def)

lemma ReconcileDemand_spec:
  assumes "baselineApart r" and "0 < rc_IdleTimeout (cfg r)"
  shows "yields (ReconcileDemand E r demand) (\<lambda>_ es. safePass r demand es)"
proof -
  have avail: "0 \<le> AvailableRunnerCountForLabels rs (rc_Labels (cfg r))" for rs
    by (simp add: AvailableRunnerCountForLabels_def)
  have base: "yields (baselineStep E r runners) (\<lambda>k b. baselinePhase r runners b \<and> 0 \<le> k)" for runners
    unfolding baselineStep_def
    by (intro yields_rules ensureBaseline_spec [THEN yields_mono])
       (auto simp: baselinePhase_def split: sum.splits)
  show ?thesis
    unfolding ReconcileDemand_def
    by (intro yields_rules base [THEN yields_mono] scalePass_spec [THEN yields_mono])
       (use assms avail in \<open>auto simp: safePass_unlisted safePass_stopped intro!: safePass_phases\<close>)
qed

section \<open>A pass whose calls succeed\<close>

text \<open>An environment whose CI platform and runtime accept every step of a scale-up. The cache,
  the state store and the other calls may fail.\<close>

definition smooth :: "env \<Rightarrow> bool" where
  "smooth E \<longleftrightarrow> (\<forall>tr. isl (e_GetRegistrationToken E tr) = False \<and>
     (\<forall>n. e_CloneFromTemplate E tr n = None \<and> e_StartContainer E tr n = None \<and>
          (\<forall>k t. e_WaitForReady E tr n k t = None) \<and> (\<forall>k. isl (e_ExecCommand E tr n k) = False)))"

lemma smoothD:
  assumes "smooth E"
  shows "e_GetRegistrationToken E tr \<noteq> Inl e" "e_CloneFromTemplate E tr n = None" "e_StartContainer E tr n = None"
    "e_WaitForReady E tr n k t = None" "e_ExecCommand E tr n k \<noteq> Inl e"
  using assms unfolding smooth_def by (metis sum.disc(1))+

lemma setup_no_clone: "list_all (setupEvent n) es \<Longrightarrow> count cloneOk es = 0"
  using bringUp_no_clone setup_bringUp_all by blast

lemma smooth_configure:
  assumes "smooth E"
  shows "yields (configureClonedRunner E r n token eph) (\<lambda>res es. res = None \<and> count cloneOk es = 0)"
  unfolding configureClonedRunner_def
  by (intro yields_rules setup_yields) (use smoothD [OF assms] in \<open>auto simp: setup_no_clone\<close>)

lemma smooth_scaleUp:
  assumes "smooth E"
  shows "yields (scaleUp E r existing) (\<lambda>res es. (\<exists>n. res = Inr n) \<and> count cloneOk es = 1)"
  unfolding scaleUp_def cloneWithFreshName_def numeral_3_eq_3 cloneAttempts.simps
  by (intro yields_rules suspend_yields resume_yields smooth_configure [THEN yields_mono, OF assms])
     (use smoothD [OF assms] in auto)

lemma smooth_scaleUpLoop:
  assumes "smooth E"
  shows "yields (scaleUpLoop E r d rm cs needed auto)
    (\<lambda>_ es. count cloneOk es = max 0 (min needed (rc_MaxAutoRunners (cfg r) - auto)))"
  using assms
proof (induction E r d rm cs needed auto rule: scaleUpLoop.induct)
  case (1 E r d rm cs needed auto)
  show ?case
    by (subst scaleUpLoop.simps,
        intro yields_rules smooth_scaleUp [THEN yields_mono, OF "1.prems"] "1.IH" [THEN yields_mono])
       (use 1 in auto)
qed

text \<open>From a cold start, without containers and without a baseline, the pass brings up exactly
  what the demand needs within the limit.\<close>

lemma cold_start:
  assumes "smooth E" and "\<not> rc_Baseline (cfg r)"
    and "\<And>tr. e_ListRunners E tr = Inr rs" and "\<And>tr. e_ListContainers E tr (rc_Prefix (cfg r)) = Inr []"
  shows "yields (ReconcileDemand E r demand)
    (\<lambda>res es. res = None \<and>
       count cloneOk es = max 0 (min (d_QueuedJobs demand - AvailableRunnerCountForLabels rs (rc_Labels (cfg r)))
                                     (rc_MaxAutoRunners (cfg r))))"
  unfolding ReconcileDemand_def baselineStep_def scalePass_def
  by (intro yields_rules smooth_scaleUpLoop [THEN yields_mono, OF assms(1)])
     (use assms in \<open>auto intro!: yields_rules smooth_scaleUpLoop [THEN yields_mono, OF assms(1)]\<close>)

end
