(* ===== verification/Reconciler_Claims.thy ===== *)
theory Reconciler_Claims
  imports Reconciler_Pass
begin

text \<open>
  The properties of the scaling engine (\<open>internal/engine/reconciler.go\<close>), stated over the
  trace \<open>es\<close> of a pass that starts with the empty trace, for every environment. Each is
  instantiated at a concrete pass, in which the stopped container \<open>ci-1\<close> is torn down and
  replaced.
\<close>

section \<open>A concrete pass\<close>

definition sampleEnv :: env where
  "sampleEnv =
     \<lparr>e_ListRunners = (\<lambda>_. Inr [\<lparr>r_ID = 7, r_Name = ''ci-1'', r_Status = ''offline'', r_Busy = False,
                                  r_Labels = [''linux''], r_IsAuto = True\<rparr>]),
      e_GetRegistrationToken = (\<lambda>_. Inr ''reg''), e_GetRemoveToken = (\<lambda>_. Inr ''rem''),
      e_DeleteRunner = (\<lambda>_ _. None), e_RegistrationURL = ''https://github.com/o'',
      e_CloneFromTemplate = (\<lambda>_ _. None), e_StartContainer = (\<lambda>_ _. None), e_StopContainer = (\<lambda>_ _. None),
      e_DeleteContainer = (\<lambda>_ _. None), e_ExecCommand = (\<lambda>_ _ _. Inr []), e_WaitForReady = (\<lambda>_ _ _ _. None),
      e_ListContainers = (\<lambda>_ _. Inr [\<lparr>c_Name = ''ci-1'', c_Status = StatusStopped\<rparr>]),
      e_GetContainerStatus = (\<lambda>_ _. Inr StatusStopped), e_AttachCache = (\<lambda>_ _. None),
      e_SetupCacheSymlinks = (\<lambda>_ _. None), e_PruneCache = (\<lambda>_ _ _. None), e_GetLastActive = (\<lambda>_ _. Inl ''none''),
      e_SetLastActive = (\<lambda>_ _ _. None), e_CreateState = (\<lambda>_ _. None), e_DeleteState = (\<lambda>_ _. None),
      e_Now = (\<lambda>_. 1000), e_NewRequest = (\<lambda>_ _. None), e_HttpGet = (\<lambda>_ _. Inr 200), e_Timer = (\<lambda>_ _. None)\<rparr>"

definition sampleReconciler :: reconciler where
  "sampleReconciler =
     \<lparr>cfg = \<lparr>rc_Prefix = ''ci'', rc_Baseline = False, rc_BaselineName = ''base'', rc_MaxAutoRunners = 2,
             rc_IdleTimeout = 600, rc_Labels = ''linux'', rc_RunnerWorkDir = ''_work'', rc_CacheEnabled = False,
             rc_CachePrune = \<lparr>cp_Enabled = False, cp_Interval = 0, cp_MaxAge = 0, cp_TempMaxAge = 0, cp_Paths = []\<rparr>,
             rc_ReadyCheck = [], rc_ReadyTimeout = 0, rc_Observability = None\<rparr>,
      hasCache = False, ciSuspends = True\<rparr>"

definition sampleDemand :: capacityDemand where
  "sampleDemand = \<lparr>d_QueuedJobs = 1, d_OldestAge = 0\<rparr>"

definition sampleTrace :: trace where
  "sampleTrace = snd (run_state (ReconcileDemand sampleEnv sampleReconciler sampleDemand) [])"

lemma sample_run: "run_state (ReconcileDemand sampleEnv sampleReconciler sampleDemand) [] = (None, sampleTrace)"
  unfolding sampleTrace_def by code_simp

lemma sample_config: "baselineApart sampleReconciler" "0 < rc_IdleTimeout (cfg sampleReconciler)"
  by code_simp+

section \<open>Safety of a pass\<close>

lemma pass_safe:
  "baselineApart r \<Longrightarrow> 0 < rc_IdleTimeout (cfg r) \<Longrightarrow>
   run_state (ReconcileDemand E r demand) [] = (res, es) \<Longrightarrow> safePass r demand es"
  using ReconcileDemand_spec by (rule yields_run)

text \<open>C1. At every moment of a pass the number of auto-scaled containers, counted from those
  listed, less the listed ones that were deleted, plus the ones that were cloned, is at most
  the larger of \<open>MaxAutoRunners\<close> and the number that was there at first.\<close>

theorem max_auto_runners:
  assumes "baselineApart r" and "0 < rc_IdleTimeout (cfg r)"
    and "run_state (ReconcileDemand E r demand) [] = (res, es)" and "prefix xs es"
  shows "int (length (listedAuto (rc_Prefix (cfg r)) es))
           - count (deleteOk (c_Name ` set (listedAuto (rc_Prefix (cfg r)) es))) xs
           + count (autoCloneOk (rc_Prefix (cfg r))) xs
         \<le> max (int (length (listedAuto (rc_Prefix (cfg r)) es))) (rc_MaxAutoRunners (cfg r))"
proof -
  have "int (length (listedAuto (rc_Prefix (cfg r)) es))
           - count (deleteOk (c_Name ` set (listedAuto (rc_Prefix (cfg r)) es))) xs
           + count (autoCloneMay (rc_Prefix (cfg r))) xs
         \<le> max (int (length (listedAuto (rc_Prefix (cfg r)) es))) (rc_MaxAutoRunners (cfg r))"
    using pass_safe [OF assms(1-3)] assms(4) unfolding safePass_def Let_def boundedBy_def by blast
  then show ?thesis using cloneMay_le(3) [of "rc_Prefix (cfg r)" xs] by linarith
qed

theorem max_auto_runners_witness:
  "int 1 - count (deleteOk {''ci-1''}) sampleTrace + count (autoCloneOk ''ci'') sampleTrace \<le> 2"
proof -
  have "listedAuto (rc_Prefix (cfg sampleReconciler)) sampleTrace = [\<lparr>c_Name = ''ci-1'', c_Status = StatusStopped\<rparr>]"
    and "rc_Prefix (cfg sampleReconciler) = ''ci''" "rc_MaxAutoRunners (cfg sampleReconciler) = 2"
    by code_simp+
  then show ?thesis
    using max_auto_runners [OF sample_config sample_run, of sampleTrace] by simp
qed

text \<open>C2. A pass clones at most as many auto-scaled containers as there are queued jobs beyond
  the idle online runners with the required labels: none when the demand is covered.\<close>

theorem clones_bounded_by_demand:
  assumes "baselineApart r" and "0 < rc_IdleTimeout (cfg r)"
    and "run_state (ReconcileDemand E r demand) [] = (res, es)"
  shows "count (autoCloneOk (rc_Prefix (cfg r))) es \<le> max 0 (d_QueuedJobs demand - runnersAvailable r es)"
  using pass_safe [OF assms] unfolding safePass_def Let_def by blast

theorem clones_bounded_by_demand_witness:
  "count (autoCloneOk ''ci'') sampleTrace \<le> 1"
proof -
  have "rc_Prefix (cfg sampleReconciler) = ''ci''"
    "d_QueuedJobs sampleDemand - runnersAvailable sampleReconciler sampleTrace = 1"
    by code_simp+
  then show ?thesis
    using clones_bounded_by_demand [OF sample_config sample_run] by simp
qed

text \<open>C3. A pass stops or deletes a container only for a reason it has seen: it is the
  baseline, it was cloned by this pass (a failed scale-up), the runtime reported it stopped in
  this pass, a runner of its name is registered and not busy and its last activity, read in this
  pass, is at least the idle timeout ago, or no runner of its name is registered and its last
  activity is at least the grace period ago, which is the idle timeout but at most two minutes.\<close>

theorem teardown_justified:
  assumes "baselineApart r" and "0 < rc_IdleTimeout (cfg r)"
    and "run_state (ReconcileDemand E r demand) [] = (res, es)"
    and "EvStop n e \<in> set es \<or> EvDelete n e \<in> set es"
  shows "(rc_Baseline (cfg r) \<and> n = rc_BaselineName (cfg r)) \<or>
         EvStatus n (Inr StatusStopped) \<in> set es \<or> EvClone n None \<in> set es \<or>
         (\<exists>now la. EvNow now \<in> set es \<and> EvGetLastActive n (Inr la) \<in> set es \<and>
            (case findRunner n (listedRunners es) of
               None \<Rightarrow> pendingAvailabilityGrace r \<le> time_sub now la
             | Some \<rho> \<Rightarrow> \<not> r_Busy \<rho> \<and> rc_IdleTimeout (cfg r) \<le> time_sub now la))"
proof -
  have "\<exists>e \<in> set es. tearsDown n e" using assms(4) by force
  with pass_safe [OF assms(1-3)]
  have "(rc_Baseline (cfg r) \<and> n = rc_BaselineName (cfg r)) \<or> teardownReason r (listedRunners es) es n"
    unfolding safePass_def Let_def by blast
  then show ?thesis
    unfolding teardownReason_def expired_def by blast
qed

theorem teardown_justified_witness:
  "EvDelete ''ci-1'' None \<in> set sampleTrace \<and>
   (EvStatus ''ci-1'' (Inr StatusStopped) \<in> set sampleTrace \<or> EvClone ''ci-1'' None \<in> set sampleTrace \<or>
    (\<exists>now la. EvNow now \<in> set sampleTrace \<and> EvGetLastActive ''ci-1'' (Inr la) \<in> set sampleTrace))"
proof
  show d: "EvDelete ''ci-1'' None \<in> set sampleTrace" by code_simp
  have "\<not> rc_Baseline (cfg sampleReconciler)" by code_simp
  then show "EvStatus ''ci-1'' (Inr StatusStopped) \<in> set sampleTrace \<or> EvClone ''ci-1'' None \<in> set sampleTrace \<or>
    (\<exists>now la. EvNow now \<in> set sampleTrace \<and> EvGetLastActive ''ci-1'' (Inr la) \<in> set sampleTrace)"
    using teardown_justified [OF sample_config sample_run, of "''ci-1''" None] d by blast
qed

lemma deletes_idle_runner:
  assumes "listingEvent p (EvDeleteRunner i e) \<or> baselineEvent rs b (EvDeleteRunner i e) \<or>
           passEvent p rs N (EvDeleteRunner i e)"
  shows "\<exists>\<rho> \<in> set rs. r_ID \<rho> = i \<and> \<not> r_Busy \<rho>"
  using assms by (auto split: option.splits dest: findRunner_SomeD)

text \<open>C4. A pass deletes through the API only runners that it listed and that were not busy.\<close>

theorem busy_runner_kept:
  assumes "baselineApart r" and "0 < rc_IdleTimeout (cfg r)"
    and "run_state (ReconcileDemand E r demand) [] = (res, es)"
    and "EvDeleteRunner i e \<in> set es"
  shows "\<exists>\<rho> \<in> set (listedRunners es). r_ID \<rho> = i \<and> \<not> r_Busy \<rho>"
  using pass_safe [OF assms(1-3)] assms(4) unfolding safePass_def Let_def
  by (intro deletes_idle_runner) (auto simp: list_all_iff simp del: passEvent.simps)

theorem busy_runner_kept_witness:
  "EvDeleteRunner 7 None \<in> set sampleTrace \<and> (\<exists>\<rho> \<in> set (listedRunners sampleTrace). r_ID \<rho> = 7 \<and> \<not> r_Busy \<rho>)"
proof
  show d: "EvDeleteRunner 7 None \<in> set sampleTrace" by code_simp
  show "\<exists>\<rho> \<in> set (listedRunners sampleTrace). r_ID \<rho> = 7 \<and> \<not> r_Busy \<rho>"
    by (rule busy_runner_kept [OF sample_config sample_run d])
qed

text \<open>C8. When the CI provider can suspend its runner inventory cache, every clone, start,
  stop, deletion and command of a pass happens while it is suspended, and the cache is resumed
  at the end of the pass, whatever fails.\<close>

theorem mutations_suspend_inventory:
  assumes "baselineApart r" and "0 < rc_IdleTimeout (cfg r)" and "ciSuspends r"
    and "run_state (ReconcileDemand E r demand) [] = (res, es)"
  shows "inventoryGuard False es = Some False"
  using pass_safe [OF assms(1,2,4)] assms(3) unfolding safePass_def Let_def by blast

theorem mutations_suspend_inventory_witness: "inventoryGuard False sampleTrace = Some False"
  by (rule mutations_suspend_inventory [OF sample_config _ sample_run]) code_simp

text \<open>A pass without a baseline fetches a remove token at most once, however many
  containers it tears down.\<close>

theorem remove_token_once:
  assumes "\<not> rc_Baseline (cfg r)" and "0 < rc_IdleTimeout (cfg r)"
    and "run_state (ReconcileDemand E r demand) [] = (res, es)"
  shows "count fetchedRemoveToken es \<le> 1"
proof -
  have "baselineApart r" using assms(1) by (simp add: baselineApart_def)
  from pass_safe [OF this assms(2,3)] assms(1) show ?thesis
    unfolding safePass_def Let_def by blast
qed

theorem remove_token_once_witness: "count fetchedRemoveToken sampleTrace \<le> 1"
  by (rule remove_token_once [OF _ _ sample_run]) code_simp+

section \<open>One scale-up\<close>

text \<open>C9. A scale-up clones at most one container in at most three attempts. When it succeeds,
  a registration token was granted, then the container cloned, started and ready, then the
  runner configured with this token and its service started, in this order, and nothing was
  deleted. When it fails, no clone succeeded or the deletion of the clone was tried.\<close>

theorem scale_up_sequence:
  assumes "run_state (scaleUp E r existing) [] = (res, es)"
  shows "count isClone es \<le> 3 \<and>
    (case res of
       Inr n \<Rightarrow> filter cloneOk es = [EvClone n None] \<and> (\<forall>c e. EvDelete c e \<notin> set es) \<and>
         inOrder [(=) (EvRegistrationToken (Inr (grantedToken es))), (=) (EvClone n None), (=) (EvStart n None),
                  (=) (EvWaitReady n (readyCheckOf r) (readyTimeoutOf r) None),
                  execOk n (configCommand E r n (grantedToken es) True), execOk n serviceStartCommand] es
     | Inl err \<Rightarrow> filter cloneOk es = [] \<or>
         (\<exists>n e. filter cloneOk es = [EvClone n None] \<and> EvDelete n e \<in> set es))"
  using yields_run [OF scaleUp_spec assms] by (auto simp: bringUpOrder_def split: sum.splits)

theorem scale_up_sequence_witness:
  "filter cloneOk (snd (run_state (scaleUp sampleEnv sampleReconciler []) [])) = [EvClone ''ci-1'' None]"
proof -
  let ?es = "snd (run_state (scaleUp sampleEnv sampleReconciler []) [])"
  have "run_state (scaleUp sampleEnv sampleReconciler []) [] = (Inr ''ci-1'', ?es)" by code_simp
  from scale_up_sequence [OF this] show ?thesis by simp
qed

text \<open>The name of a new container has the form prefix-k, is not the name of an existing
  container, and k is the least positive index with a free name.\<close>

theorem next_name_least_free:
  "\<exists>k \<ge> 1. nextName r existing = autoName (rc_Prefix (cfg r)) (int k) \<and>
           nextName r existing \<notin> c_Name ` set existing \<and>
           {j. 1 \<le> j \<and> j < k \<and> autoName (rc_Prefix (cfg r)) (int j) \<notin> c_Name ` set existing} = {}"
  by (rule nextName_spec [of r existing]) blast

section \<open>Liveness of a pass\<close>

text \<open>C10. When no container exists, no baseline is configured and every call of a scale-up
  succeeds, a pass succeeds and clones exactly as many containers as the queued jobs need beyond
  the available runners, up to \<open>MaxAutoRunners\<close>.\<close>

theorem cold_start_meets_demand:
  assumes "smooth E" and "\<not> rc_Baseline (cfg r)"
    and "\<And>tr. e_ListRunners E tr = Inr rs" and "\<And>tr. e_ListContainers E tr (rc_Prefix (cfg r)) = Inr []"
    and "run_state (ReconcileDemand E r demand) [] = (res, es)"
  shows "res = None \<and>
    count cloneOk es = max 0 (min (d_QueuedJobs demand - AvailableRunnerCountForLabels rs (rc_Labels (cfg r)))
                                  (rc_MaxAutoRunners (cfg r)))"
  using yields_run [OF cold_start [OF assms(1-4)] assms(5)] .

theorem cold_start_meets_demand_witness:
  "count cloneOk (snd (run_state (ReconcileDemand (sampleEnv\<lparr>e_ListContainers := \<lambda>_ _. Inr []\<rparr>) sampleReconciler
     (sampleDemand\<lparr>d_QueuedJobs := 5\<rparr>)) [])) = 2"
proof -
  let ?E = "sampleEnv\<lparr>e_ListContainers := \<lambda>_ _. Inr []\<rparr>" and ?d = "sampleDemand\<lparr>d_QueuedJobs := 5\<rparr>"
  obtain res es where run: "run_state (ReconcileDemand ?E sampleReconciler ?d) [] = (res, es)" by force
  have "AvailableRunnerCountForLabels (listedRunners sampleTrace) ''linux'' = 0" by code_simp
  moreover have "rc_Labels (cfg sampleReconciler) = ''linux''" "rc_MaxAutoRunners (cfg sampleReconciler) = 2"
    "d_QueuedJobs ?d = 5" by (simp_all add: sampleReconciler_def)
  moreover have "e_ListRunners ?E tr = Inr (listedRunners sampleTrace)" for tr
  proof -
    have "listedRunners sampleTrace = [\<lparr>r_ID = 7, r_Name = ''ci-1'', r_Status = ''offline'', r_Busy = False,
        r_Labels = [''linux''], r_IsAuto = True\<rparr>]" by code_simp
    then show ?thesis by (simp add: sampleEnv_def)
  qed
  ultimately show ?thesis
    using cold_start_meets_demand [OF _ _ _ _ run] run
    by (auto simp: smooth_def sampleEnv_def sampleReconciler_def)
qed

end
