(* ===== verification/File_System.thy ===== *)
theory File_System
  imports Scaler_Domain "HOL-Library.AList"
begin

text \<open>
  What the persistent components use of packages \<open>os\<close> and \<open>path/filepath\<close>: a directory
  is an association list from base names to contents, a single file an optional content.
  System calls fail with an error given by the environment. Files that are written to a
  temporary file and renamed are replaced in one step; \<open>os.WriteFile\<close> is not atomic.
\<close>

section \<open>Go maps\<close>

text \<open>A Go map is an association list with distinct keys, in the arbitrary order in which
  \<open>range\<close> visits it.\<close>

definition goMap :: "('k \<times> 'v) list \<Rightarrow> bool" where
  "goMap m \<longleftrightarrow> distinct (map fst m)"

lemma goMap_Nil [simp]: "goMap []"
  by (simp add: goMap_def)

lemma goMap_update [simp]: "goMap m \<Longrightarrow> goMap (AList.update k v m)"
  by (simp add: goMap_def distinct_update)

lemma goMap_delete [simp]: "goMap m \<Longrightarrow> goMap (AList.delete k m)"
  by (simp add: goMap_def distinct_delete)

lemma goMap_filter [simp]: "goMap m \<Longrightarrow> goMap (filter P m)"
  by (simp add: goMap_def distinct_map_filter)

lemma goMap_Cons [simp]: "goMap ((k, v) # m) \<longleftrightarrow> k \<notin> fst ` set m \<and> goMap m"
  by (auto simp: goMap_def)

lemma map_of_update [simp]: "map_of (AList.update k v m) = (map_of m)(k \<mapsto> v)"
  by (simp add: update_conv')

lemma map_of_delete [simp]: "map_of (AList.delete k m) = (map_of m)(k := None)"
  by (simp add: delete_conv')

lemma map_of_filter:
  "goMap m \<Longrightarrow> map_of (filter P m) k = (case map_of m k of None \<Rightarrow> None | Some v \<Rightarrow> if P (k, v) then Some v else None)"
proof (induction m)
  case (Cons kv m)
  obtain k' v' where [simp]: "kv = (k', v')" by force
  have "map_of (filter P m) k = None" if "k' = k"
    using Cons.prems that by (auto simp: map_of_eq_None_iff)
  with Cons show ?case by (auto split: option.splits simp: map_of_eq_None_iff)
qed simp

lemma goMap_mem: "goMap m \<Longrightarrow> (k, v) \<in> set m \<longleftrightarrow> map_of m k = Some v"
  by (simp add: goMap_def map_of_eq_Some_iff)

lemma length_goMap: "goMap m \<Longrightarrow> length m = card (dom (map_of m))"
  by (metis card_image dom_map_of_conv_image_fst goMap_def distinct_card distinct_map length_map list.set_map)

section \<open>Files\<close>

type_synonym directory = "(string \<times> string) list"

definition errNotExist :: gerror where
  "errNotExist = ''file does not exist''"

text \<open>\<open>os.ReadFile\<close>.\<close>

definition readFile :: "gerror option \<Rightarrow> directory \<Rightarrow> string \<Rightarrow> string result" where
  "readFile fault d f =
     (case fault of Some e \<Rightarrow> Inl e
      | None \<Rightarrow> (case map_of d f of None \<Rightarrow> Inl errNotExist | Some c \<Rightarrow> Inr c))"

text \<open>\<open>os.WriteFile\<close> truncates the file before it writes: when the write fails, some first
  bytes of the contents are left.\<close>

datatype writeFault = WriteOk | OpenFails gerror | WriteFails gerror nat

fun writeFile :: "writeFault \<Rightarrow> directory \<Rightarrow> string \<Rightarrow> string \<Rightarrow> gerror option \<times> directory" where
  "writeFile WriteOk d f c = (None, AList.update f c d)"
| "writeFile (OpenFails e) d f c = (Some e, d)"
| "writeFile (WriteFails e k) d f c = (Some e, AList.update f (take k c) d)"

text \<open>The stages of an atomic replacement with their faults: the message of the first stage
  that fails, wrapped as the code wraps it.\<close>

fun firstFault :: "(string \<times> gerror option) list \<Rightarrow> gerror option" where
  "firstFault [] = None"
| "firstFault ((what, None) # stages) = firstFault stages"
| "firstFault ((what, Some e) # stages) = Some (what @ '': '' @ e)"

text \<open>A temporary file renamed over the target at the last stage: the target has its new
  contents exactly when no stage failed.\<close>

definition atomicReplace :: "(string \<times> gerror option) list \<Rightarrow> 'c \<Rightarrow> 'c option \<Rightarrow> gerror option \<times> 'c option" where
  "atomicReplace stages new old =
     (case firstFault stages of None \<Rightarrow> (None, Some new) | Some e \<Rightarrow> (Some e, old))"

lemma atomicReplace_cases:
  "atomicReplace st new old = (None, Some new) \<or> (\<exists>e. atomicReplace st new old = (Some e, old))"
  by (auto simp: atomicReplace_def split: option.splits)

end
