(* ===== verification/Fs_State.thy ===== *)
theory Fs_State
  imports File_System
begin

text \<open>
  The state store (\<open>iface.StateStore\<close>) and its file system provider
  (\<open>provider/fsstate/store.go\<close>), which keeps the last activity of a container as a Unix
  timestamp in a file of its own. The interface is a locale; the provider interprets it.
  Names of containers have no dot, no slash and no metacharacter of \<open>filepath.Glob\<close>, as
  the runtime demands; \<open>plainName\<close> says so.
\<close>

section \<open>The interface\<close>

text \<open>One operation on the store, as the reconciler issues it.\<close>

datatype stateOp = Touch string gotime | Forget string

locale state_store =
  fixes lookup :: "'s \<Rightarrow> string \<Rightarrow> gotime option"
    and touch :: "'s \<Rightarrow> string \<Rightarrow> gotime \<Rightarrow> 's"
    and forget :: "'s \<Rightarrow> string \<Rightarrow> 's"
    and name_ok :: "string \<Rightarrow> bool"
    and time_ok :: "gotime \<Rightarrow> bool"
    and stored :: "gotime \<Rightarrow> gotime"
  assumes lookup_touch: "name_ok n \<Longrightarrow> time_ok t \<Longrightarrow> lookup (touch s n t) n = Some (stored t)"
    and lookup_touch_other: "name_ok n \<Longrightarrow> name_ok m \<Longrightarrow> m \<noteq> n \<Longrightarrow> lookup (touch s n t) m = lookup s m"
    and lookup_forget: "name_ok n \<Longrightarrow> lookup (forget s n) n = None"
    and lookup_forget_other: "name_ok n \<Longrightarrow> name_ok m \<Longrightarrow> m \<noteq> n \<Longrightarrow> lookup (forget s n) m = lookup s m"
begin

fun apply_op :: "'s \<Rightarrow> stateOp \<Rightarrow> 's" where
  "apply_op s (Touch n t) = touch s n t"
| "apply_op s (Forget n) = forget s n"

fun op_ok :: "stateOp \<Rightarrow> bool" where
  "op_ok (Touch n t) \<longleftrightarrow> name_ok n \<and> time_ok t"
| "op_ok (Forget n) \<longleftrightarrow> name_ok n"

lemma history_untouched:
  "name_ok n \<Longrightarrow> list_all op_ok ops \<Longrightarrow> \<forall>t. Touch n t \<notin> set ops \<Longrightarrow> Forget n \<notin> set ops \<Longrightarrow>
   lookup (foldl apply_op s ops) n = lookup s n"
proof (induction ops arbitrary: s)
  case (Cons op ops)
  then show ?case by (cases op) (auto simp: lookup_touch_other lookup_forget_other)
qed simp

lemma history_last_touch:
  assumes "name_ok n" and "list_all op_ok (before @ Touch n t # after)"
    and "\<forall>t'. Touch n t' \<notin> set after" and "Forget n \<notin> set after"
  shows "lookup (foldl apply_op s (before @ Touch n t # after)) n = Some (stored t)"
  using assms history_untouched [of n "after" "touch (foldl apply_op s before) n t"]
  by (simp add: lookup_touch)

lemma history_forgotten:
  assumes "name_ok n" and "list_all op_ok (before @ Forget n # after)"
    and "\<forall>t'. Touch n t' \<notin> set after" and "Forget n \<notin> set after"
  shows "lookup (foldl apply_op s (before @ Forget n # after)) n = None"
  using assms history_untouched [of n "after" "forget (foldl apply_op s before) n"]
  by (simp add: lookup_forget)

end

section \<open>The file system provider\<close>

definition stateSuffix :: string where
  "stateSuffix = ''.last_active''"

definition statePath :: "string \<Rightarrow> string" where
  "statePath name = name @ stateSuffix"

text \<open>\<open>time.Unix\<close> and \<open>Time.Unix\<close>: whole seconds since 1970, of which Go's zero time is
  62135596800 before.\<close>

definition unixEpoch :: int where
  "unixEpoch = 62135596800"

definition toUnix :: "gotime \<Rightarrow> int" where
  "toUnix t = t div second - unixEpoch"

definition fromUnix :: "int \<Rightarrow> gotime" where
  "fromUnix ts = (ts + unixEpoch) * second"

definition fsParse :: "string \<Rightarrow> int option" where
  "fsParse contents = parse_int (trim_space contents)"

definition fsGetLastActive :: "gerror option \<Rightarrow> directory \<Rightarrow> string \<Rightarrow> gotime result" where
  "fsGetLastActive fault d name =
     (case readFile fault d (statePath name) of
        Inl err \<Rightarrow> Inl (''reading state for '' @ name @ '': '' @ err)
      | Inr contents \<Rightarrow>
          (case fsParse contents of
             None \<Rightarrow> Inl (''parsing timestamp for '' @ name @ '': invalid syntax or range'')
           | Some ts \<Rightarrow> Inr (fromUnix ts)))"

definition fsSetLastActive :: "writeFault \<Rightarrow> directory \<Rightarrow> string \<Rightarrow> gotime \<Rightarrow> gerror option \<times> directory" where
  "fsSetLastActive fault d name t =
     (case writeFile fault d (statePath name) (itoa (toUnix t) @ [CHR 0x0A]) of
        (None, d') \<Rightarrow> (None, d')
      | (Some err, d') \<Rightarrow> (Some (''writing state for '' @ name @ '': '' @ err), d'))"

definition fsCreate :: "writeFault \<Rightarrow> gotime \<Rightarrow> directory \<Rightarrow> string \<Rightarrow> gerror option \<times> directory" where
  "fsCreate fault now d name = fsSetLastActive fault d name now"

text \<open>\<open>Delete\<close> removes what matches \<open>name.*\<close>; the errors of \<open>os.Remove\<close> are ignored, and
  \<open>kept\<close> are the files whose removal fails.\<close>

definition fsDelete :: "string set \<Rightarrow> directory \<Rightarrow> string \<Rightarrow> directory" where
  "fsDelete kept d name = filter (\<lambda>(f, c). \<not> has_prefix f (name @ ''.'') \<or> f \<in> kept) d"

text \<open>\<open>ListAll\<close> skips what it cannot read (\<open>unreadable\<close>) or parse.\<close>

fun fsListFrom :: "string set \<Rightarrow> directory \<Rightarrow> (string \<times> containerState) list \<Rightarrow> (string \<times> containerState) list" where
  "fsListFrom unreadable [] states = states"
| "fsListFrom unreadable ((f, c) # d) states =
     (if \<not> has_suffix f stateSuffix then fsListFrom unreadable d states
      else if f \<in> unreadable then fsListFrom unreadable d states
      else (case fsParse c of
         None \<Rightarrow> fsListFrom unreadable d states
       | Some ts \<Rightarrow> (let name = trim_suffix f stateSuffix in
           fsListFrom unreadable d (AList.update name \<lparr>cs_Name = name, cs_LastActive = fromUnix ts\<rparr> states))))"

definition fsListAll :: "string set \<Rightarrow> directory \<Rightarrow> (string \<times> containerState) list" where
  "fsListAll unreadable d = fsListFrom unreadable d []"

section \<open>The laws of the interface\<close>

definition plainName :: "string \<Rightarrow> bool" where
  "plainName n \<longleftrightarrow> list_all (\<lambda>c. c \<notin> set (CHR 0x5C # ''./*?[]'')) n"

text \<open>Times whose Unix seconds fit in 64 bits.\<close>

definition unixTime :: "gotime \<Rightarrow> bool" where
  "unixTime t \<longleftrightarrow> - (2 ^ 63) \<le> toUnix t \<and> toUnix t < 2 ^ 63"

definition wholeSeconds :: "gotime \<Rightarrow> gotime" where
  "wholeSeconds t = t div second * second"

lemma wholeSeconds_bounds: "wholeSeconds t \<le> t" "t - wholeSeconds t < second"
  by (simp_all add: wholeSeconds_def second_def minus_div_mult_eq_mod)

lemma fromUnix_toUnix: "fromUnix (toUnix t) = wholeSeconds t"
  by (simp add: fromUnix_def toUnix_def wholeSeconds_def)

lemma itoa_ends: "itoa i \<noteq> [] \<and> \<not> is_space (hd (itoa i)) \<and> \<not> is_space (last (itoa i))"
proof -
  have digit: "\<not> is_space c" if "c \<in> set (nat_dec n)" for c n
    using nat_dec_digits [OF that] by (auto simp: is_space_def Let_def)
  show ?thesis
    using digit [OF hd_in_set] digit [OF last_in_set]
    by (auto simp: itoa_def) (simp_all add: is_space_def)
qed

lemma trim_space_line: "trim_space (itoa i @ [CHR 0x0A]) = itoa i"
proof -
  have nl: "is_space (CHR 0x0A)" by (simp add: is_space_def)
  have "dropWhile is_space (itoa i @ [CHR 0x0A]) = itoa i @ [CHR 0x0A]"
    by (rule dropWhile_id) (simp add: itoa_ends)
  moreover have "dropWhile is_space (rev (itoa i)) = rev (itoa i)"
    by (rule dropWhile_id) (simp add: itoa_ends hd_rev)
  ultimately show ?thesis
    by (simp add: trim_space_def nl)
qed

lemma fsParse_written: "unixTime t \<Longrightarrow> fsParse (itoa (toUnix t) @ [CHR 0x0A]) = Some (toUnix t)"
  by (simp add: fsParse_def trim_space_line parse_int_itoa unixTime_def)

definition fsTouch :: "directory \<Rightarrow> string \<Rightarrow> gotime \<Rightarrow> directory" where
  "fsTouch d n t = snd (fsSetLastActive WriteOk d n t)"

definition fsLookup :: "directory \<Rightarrow> string \<Rightarrow> gotime option" where
  "fsLookup d n = (case fsGetLastActive None d n of Inl _ \<Rightarrow> None | Inr t \<Rightarrow> Some t)"

definition fsForget :: "directory \<Rightarrow> string \<Rightarrow> directory" where
  "fsForget d n = fsDelete {} d n"

lemma statePath_inj: "statePath m = statePath n \<longleftrightarrow> m = n"
  by (simp add: statePath_def)

lemma fsLookup_map_of:
  "fsLookup d n = (case map_of d (statePath n) of None \<Rightarrow> None | Some c \<Rightarrow> map_option fromUnix (fsParse c))"
  by (auto simp: fsLookup_def fsGetLastActive_def readFile_def split: option.splits)

lemma map_of_filter_keys: "map_of (filter (\<lambda>(k, v). P k) m) k = (if P k then map_of m k else None)"
  by (induction m) auto

lemma plain_prefix:
  assumes "plainName m" and "plainName n"
  shows "has_prefix (statePath m) (n @ ''.'') \<longleftrightarrow> m = n"
proof
  assume "has_prefix (statePath m) (n @ ''.'')"
  then obtain zs where "statePath m = (n @ ''.'') @ zs"
    unfolding has_prefix_iff_prefix prefix_def by blast
  then have z: "m @ CHR ''.'' # ''last_active'' = n @ CHR ''.'' # zs"
    unfolding statePath_def stateSuffix_def by simp
  have "CHR ''.'' \<notin> set m" "CHR ''.'' \<notin> set n"
    using assms by (auto simp: plainName_def list_all_iff)
  then show "m = n" by (rule append_char_inj [OF _ _ z])
next
  assume "m = n"
  then have "statePath m = (n @ ''.'') @ ''last_active''"
    unfolding statePath_def stateSuffix_def by simp
  then show "has_prefix (statePath m) (n @ ''.'')"
    unfolding has_prefix_iff_prefix prefix_def by blast
qed

interpretation fs: state_store fsLookup fsTouch fsForget plainName unixTime wholeSeconds
proof
  fix n m :: string and t :: gotime and s :: directory
  show "plainName n \<Longrightarrow> unixTime t \<Longrightarrow> fsLookup (fsTouch s n t) n = Some (wholeSeconds t)"
    by (simp add: fsLookup_map_of fsTouch_def fsSetLastActive_def fsParse_written fromUnix_toUnix)
  show "m \<noteq> n \<Longrightarrow> fsLookup (fsTouch s n t) m = fsLookup s m"
    by (simp add: fsLookup_map_of fsTouch_def fsSetLastActive_def statePath_inj)
  show "plainName n \<Longrightarrow> fsLookup (fsForget s n) n = None"
    by (simp add: fsLookup_map_of fsForget_def fsDelete_def map_of_filter_keys plain_prefix)
  show "plainName n \<Longrightarrow> plainName m \<Longrightarrow> m \<noteq> n \<Longrightarrow> fsLookup (fsForget s n) m = fsLookup s m"
    by (simp add: fsLookup_map_of fsForget_def fsDelete_def map_of_filter_keys plain_prefix)
qed

section \<open>Properties of the store\<close>

text \<open>A sequence of operations whose system calls succeed.\<close>

fun fsApply :: "directory \<Rightarrow> stateOp \<Rightarrow> directory" where
  "fsApply d (Touch n t) = snd (fsSetLastActive WriteOk d n t)"
| "fsApply d (Forget n) = fsDelete {} d n"

fun plainOp :: "stateOp \<Rightarrow> bool" where
  "plainOp (Touch n t) \<longleftrightarrow> plainName n \<and> unixTime t"
| "plainOp (Forget n) \<longleftrightarrow> plainName n"

lemma fsApply_eq: "fsApply = fs.apply_op"
proof (intro ext)
  fix d op show "fsApply d op = fs.apply_op d op"
    by (cases op) (simp_all add: fsTouch_def fsForget_def)
qed

lemma plainOp_eq: "plainOp = fs.op_ok"
proof
  fix op show "plainOp op = fs.op_ok op" by (cases op) simp_all
qed

text \<open>After any history of updates and deletions, a container that was not updated or
  deleted since its last update at \<open>t\<close> is reported last active at \<open>t\<close> rounded down to
  the second, so never later than \<open>t\<close> and less than a second before it.\<close>

theorem last_active_after_history:
  assumes "plainName n" and "list_all plainOp (before @ Touch n t # after)"
    and "\<forall>t'. Touch n t' \<notin> set after" and "Forget n \<notin> set after"
  shows "\<exists>t'. fsGetLastActive None (foldl fsApply d (before @ Touch n t # after)) n = Inr t' \<and>
              t' \<le> t \<and> t - t' < second"
proof -
  have "fsLookup (foldl fsApply d (before @ Touch n t # after)) n = Some (wholeSeconds t)"
    using fs.history_last_touch assms unfolding fsApply_eq plainOp_eq by blast
  then show ?thesis
    using wholeSeconds_bounds [of t] by (auto simp: fsLookup_def split: sum.splits)
qed

theorem last_active_after_history_witness:
  "\<exists>t'. fsGetLastActive None (foldl fsApply []
      [Forget ''ci-2'', Touch ''ci-1'' (fromUnix 1700000000 + 5), Touch ''ci-2'' (fromUnix 3), Forget ''ci-2'']) ''ci-1'' = Inr t' \<and>
    t' \<le> fromUnix 1700000000 + 5 \<and> fromUnix 1700000000 + 5 - t' < second"
proof -
  have p: "plainName ''ci-1''" "list_all plainOp ([Forget ''ci-2''] @ Touch ''ci-1'' (fromUnix 1700000000 + 5) #
      [Touch ''ci-2'' (fromUnix 3), Forget ''ci-2''])"
    by code_simp+
  show ?thesis
    using last_active_after_history [OF p] by simp
qed

lemma statePath_trim: "has_suffix f stateSuffix \<Longrightarrow> statePath (trim_suffix f stateSuffix) = f"
  by (simp add: trim_suffix_def has_suffix_def statePath_def) (metis append_take_drop_id)

lemma trim_statePath: "has_suffix (statePath n) stateSuffix" "trim_suffix (statePath n) stateSuffix = n"
  by (simp_all add: trim_suffix_def has_suffix_def statePath_def)

lemma fsListFrom_lookup:
  "goMap d \<Longrightarrow> map_of (fsListFrom {} d states) n =
     (case fsLookup d n of Some t \<Rightarrow> Some \<lparr>cs_Name = n, cs_LastActive = t\<rparr> | None \<Rightarrow> map_of states n)"
proof (induction d arbitrary: states)
  case Nil
  then show ?case by (simp add: fsLookup_map_of)
next
  case (Cons fc d)
  obtain f c where [simp]: "fc = (f, c)" by force
  from Cons have new: "map_of d f = None" and IH: "map_of (fsListFrom {} d states') n =
     (case fsLookup d n of Some t \<Rightarrow> Some \<lparr>cs_Name = n, cs_LastActive = t\<rparr> | None \<Rightarrow> map_of states' n)" for states'
    by (auto simp: map_of_eq_None_iff)
  show ?case
  proof (cases "f = statePath n")
    case True
    with new have "fsLookup d n = None" by (simp add: fsLookup_map_of)
    with True IH show ?thesis
      by (auto simp: fsLookup_map_of [of "(statePath n, c) # d"] trim_statePath Let_def split: option.splits)
  next
    case False
    then have "fsLookup (fc # d) n = fsLookup d n" by (simp add: fsLookup_map_of)
    moreover have "has_suffix f stateSuffix \<Longrightarrow> trim_suffix f stateSuffix \<noteq> n"
      using False statePath_trim [of f] by metis
    ultimately show ?thesis
      using IH by (auto simp: Let_def split: option.splits)
  qed
qed

text \<open>\<open>ListAll\<close> reports exactly the containers whose last activity \<open>GetLastActive\<close> can
  read, each with the same time.\<close>

theorem list_all_agrees:
  assumes "goMap d"
  shows "map_of (fsListAll {} d) n =
    (case fsGetLastActive None d n of Inr t \<Rightarrow> Some \<lparr>cs_Name = n, cs_LastActive = t\<rparr> | Inl err \<Rightarrow> None)"
  using fsListFrom_lookup [OF assms, of "[]" n]
  by (auto simp: fsListAll_def fsLookup_def split: sum.splits option.splits)

theorem list_all_agrees_witness:
  "map_of (fsListAll {} [(''ci-1.last_active'', ''17 ''), (''ci-2.last_active'', ''x''), (''other'', ''1'')]) ''ci-1'' =
     Some \<lparr>cs_Name = ''ci-1'', cs_LastActive = fromUnix 17\<rparr>"
proof -
  have g: "goMap [(''ci-1.last_active'', ''17 ''), (''ci-2.last_active'', ''x''), (''other'', ''1'' :: string)]"
    by code_simp
  have "fsGetLastActive None [(''ci-1.last_active'', ''17 ''), (''ci-2.last_active'', ''x''), (''other'', ''1'')] ''ci-1''
      = Inr (fromUnix 17)"
    by code_simp
  with list_all_agrees [OF g, of "''ci-1''"] show ?thesis by simp
qed

end
