(* ===== verification/Go_Time.thy ===== *)
theory Go_Time
  imports Go_Prelude
begin

text \<open>
  The layouts \<open>time.RFC3339\<close> and \<open>time.RFC3339Nano\<close> of package \<open>time\<close> in UTC, on the
  proleptic Gregorian calendar. Time 0 is the midnight that begins January 1 of year 1.
\<close>

section \<open>Calendar\<close>

definition day :: duration where "day = 24 * hour"

definition leapYear :: "int \<Rightarrow> bool" where
  "leapYear y \<longleftrightarrow> y mod 4 = 0 \<and> (y mod 100 \<noteq> 0 \<or> y mod 400 = 0)"

definition monthLengths :: "int \<Rightarrow> int list" where
  "monthLengths y = [31, if leapYear y then 29 else 28, 31, 30, 31, 30, 31, 31, 30, 31, 30, 31]"

text \<open>Days before January 1 of the year \<open>y\<close>, counted from year 1.\<close>

definition daysBeforeYear :: "int \<Rightarrow> int" where
  "daysBeforeYear y = (let k = y - 1 in 365 * k + k div 4 - k div 100 + k div 400)"

text \<open>Year and day of the year, from 0, of a day number.\<close>

definition yearOfDay :: "int \<Rightarrow> int \<times> int" where
  "yearOfDay d =
     (let n400 = d div 146097; r = d mod 146097;
          n100 = min 3 (r div 36524); r = r - n100 * 36524;
          n4 = r div 1461; r = r - n4 * 1461;
          n1 = min 3 (r div 365); r = r - n1 * 365
      in (400 * n400 + 100 * n100 + 4 * n4 + n1 + 1, r))"

fun monthOf :: "int \<Rightarrow> int list \<Rightarrow> int \<Rightarrow> int \<times> int" where
  "monthOf m [] r = (m, r + 1)"
| "monthOf m (l # ls) r = (if r < l then (m, r + 1) else monthOf (m + 1) ls (r - l))"

definition civil :: "int \<Rightarrow> int \<times> int \<times> int" where
  "civil d = (let (y, r) = yearOfDay d; (m, dd) = monthOf 1 (monthLengths y) r in (y, m, dd))"

definition dayNumber :: "int \<Rightarrow> int \<Rightarrow> int \<Rightarrow> int" where
  "dayNumber y m d = daysBeforeYear y + sum_list (take (nat (m - 1)) (monthLengths y)) + d - 1"

section \<open>Formatting\<close>

definition pad :: "nat \<Rightarrow> int \<Rightarrow> string" where
  "pad w i = (let s = itoa i in replicate (w - length s) (CHR ''0'') @ s)"

text \<open>The fraction of \<open>RFC3339Nano\<close>: nine digits without trailing zeros, nothing when it is 0.\<close>

definition fraction :: "int \<Rightarrow> string" where
  "fraction ns = (if ns = 0 then [] else CHR ''.'' # rev (dropWhile (\<lambda>c. c = CHR ''0'') (rev (pad 9 ns))))"

definition formatTime :: "bool \<Rightarrow> gotime \<Rightarrow> string" where
  "formatTime nano t =
     (let (y, m, d) = civil (t div day); s = t mod day div second
      in pad 4 y @ ''-'' @ pad 2 m @ ''-'' @ pad 2 d @ ''T''
         @ pad 2 (s div 3600) @ '':'' @ pad 2 (s div 60 mod 60) @ '':'' @ pad 2 (s mod 60)
         @ (if nano then fraction (t mod second) else []) @ ''Z'')"

definition rfc3339 :: "gotime \<Rightarrow> string" where
  "rfc3339 t = formatTime False t"

definition rfc3339Nano :: "gotime \<Rightarrow> string" where
  "rfc3339Nano t = formatTime True t"

section \<open>Parsing\<close>

definition digits :: "nat \<Rightarrow> string \<Rightarrow> (int \<times> string) option" where
  "digits w s = (if length s < w then None
     else map_option (\<lambda>n. (int n, drop w s)) (parse_digits 0 (take w s)))"

definition expect :: "char \<Rightarrow> string \<Rightarrow> string option" where
  "expect c s = (case s of [] \<Rightarrow> None | x # t \<Rightarrow> if x = c then Some t else None)"

definition isDigit :: "char \<Rightarrow> bool" where
  "isDigit c = (let n = (of_char c :: nat) in 48 \<le> n \<and> n \<le> 57)"

text \<open>An optional fraction, to nanoseconds; more digits than nine are cut off.\<close>

definition parseFraction :: "string \<Rightarrow> (int \<times> string) option" where
  "parseFraction s =
     (case s of [] \<Rightarrow> Some (0, s)
      | c # t \<Rightarrow>
         (if (c = CHR ''.'' \<or> c = CHR '','') \<and> t \<noteq> [] \<and> isDigit (hd t)
          then (let ds = takeWhile isDigit t; k = take 9 (ds @ replicate 9 (CHR ''0''))
                in map_option (\<lambda>n. (int n, drop (length ds) t)) (parse_digits 0 k))
          else Some (0, s)))"

definition parseZone :: "string \<Rightarrow> int option" where
  "parseZone s =
     (if s = ''Z'' then Some 0
      else case s of [] \<Rightarrow> None
      | c # t \<Rightarrow>
         (if c \<noteq> CHR ''+'' \<and> c \<noteq> CHR ''-'' then None
          else do {
            (h, t1) \<leftarrow> digits 2 t;
            t2 \<leftarrow> expect (CHR '':'') t1;
            (mi, t3) \<leftarrow> digits 2 t2;
            (if t3 \<noteq> [] \<or> h > 24 \<or> mi > 60 then None
             else Some ((if c = CHR ''-'' then - 1 else 1) * (h * 3600 + mi * 60)))
          }))"

text \<open>\<open>time.Parse(time.RFC3339, s)\<close>; \<open>None\<close> is the error.\<close>

definition parseRfc3339 :: "string \<Rightarrow> gotime option" where
  "parseRfc3339 s = do {
     (y, s) \<leftarrow> digits 4 s;
     s \<leftarrow> expect (CHR ''-'') s;
     (m, s) \<leftarrow> digits 2 s;
     s \<leftarrow> expect (CHR ''-'') s;
     (d, s) \<leftarrow> digits 2 s;
     s \<leftarrow> expect (CHR ''T'') s;
     (h, s) \<leftarrow> digits 2 s;
     s \<leftarrow> expect (CHR '':'') s;
     (mi, s) \<leftarrow> digits 2 s;
     s \<leftarrow> expect (CHR '':'') s;
     (sec, s) \<leftarrow> digits 2 s;
     (ns, s) \<leftarrow> parseFraction s;
     z \<leftarrow> parseZone s;
     (if m < 1 \<or> m > 12 \<or> d < 1 \<or> d > monthLengths y ! nat (m - 1) \<or> h \<ge> 24 \<or> mi \<ge> 60 \<or> sec \<ge> 60 then None
      else Some ((dayNumber y m d * 86400 + h * 3600 + mi * 60 + sec - z) * second + ns))
   }"

end
