(* ===== verification/Time_Roundtrip.thy ===== *)
theory Time_Roundtrip
  imports Go_Time
begin

text \<open>
  Formatting a time with \<open>time.RFC3339Nano\<close> and parsing it again gives the time back, for the
  years 1 to 9999.  The log store writes its times and reads them back after a restart in this form.
\<close>

section \<open>Calendar\<close>

lemma min_div:
  fixes x n k :: int
  assumes "0 \<le> x" "0 < n" "0 \<le> k"
  shows "0 \<le> min k (x div n)" "0 \<le> x - min k (x div n) * n" "min k (x div n) < k \<longrightarrow> x - min k (x div n) * n < n"
proof -
  have q: "0 \<le> x div n" "x div n * n \<le> x" "x - x div n * n < n"
    using assms by (simp_all add: pos_imp_zdiv_nonneg_iff minus_div_mult_eq_mod flip: minus_mod_eq_div_mult)
  show "0 \<le> min k (x div n)" using q(1) assms(3) by simp
  have "min k (x div n) * n \<le> x div n * n" using assms(2) by (simp add: mult_right_mono)
  then show "0 \<le> x - min k (x div n) * n" using q(2) by linarith
  show "min k (x div n) < k \<longrightarrow> x - min k (x div n) * n < n" using q(3) by (auto simp: min_def)
qed

lemma year_parts:
  fixes d :: int
  obtains a b c e r where "d = 146097 * a + 36524 * b + 1461 * c + 365 * e + r"
    "0 \<le> b" "b \<le> 3" "0 \<le> c" "c \<le> 24" "0 \<le> e" "e \<le> 3" "0 \<le> r" "r \<le> 365"
    "e < 3 \<or> c = 24 \<and> b < 3 \<longrightarrow> r < 365"
    "yearOfDay d = (400 * a + 100 * b + 4 * c + e + 1, r)"
proof -
  define a where "a = d div 146097"
  define r0 where "r0 = d mod 146097"
  define b where "b = min 3 (r0 div 36524)"
  define r1 where "r1 = r0 - b * 36524"
  define c where "c = r1 div 1461"
  define r2 where "r2 = r1 - c * 1461"
  define e where "e = min 3 (r2 div 365)"
  define r where "r = r2 - e * 365"
  have r0: "0 \<le> r0" "r0 < 146097" "d = 146097 * a + r0"
    unfolding r0_def a_def by (simp, simp, simp only: mult_div_mod_eq)
  then have b: "0 \<le> b" "b \<le> 3" "0 \<le> r1" "b < 3 \<longrightarrow> r1 < 36524"
    using min_div [of r0 36524 3] by (simp_all add: b_def r1_def)
  have r1: "r1 \<le> 36524" using b r0(2) by (cases "b < 3") (simp_all add: r1_def)
  have r2: "r2 = r1 mod 1461" by (simp add: r2_def c_def minus_div_mult_eq_mod)
  have c: "0 \<le> c" "c \<le> 24" "0 \<le> r2" "r2 < 1461"
    using b(3) r1 by (simp_all add: r2 c_def pos_imp_zdiv_nonneg_iff)
  have e: "0 \<le> e" "e \<le> 3" "0 \<le> r" "e < 3 \<longrightarrow> r < 365"
    using min_div [of r2 365 3] c(3) by (simp_all add: e_def r_def)
  have r: "r \<le> 365" using e c(4) by (cases "e < 3") (simp_all add: r_def)
  have "r < 365" if "c = 24" "b < 3"
  proof (cases "e < 3")
    case False
    then have "e = 3" using e(2) by simp
    then show ?thesis using that b(4) by (simp add: r_def r2_def)
  qed (use e(4) in simp)
  moreover have "yearOfDay d = (400 * a + 100 * b + 4 * c + e + 1, r)"
    unfolding yearOfDay_def Let_def r_def e_def r2_def c_def r1_def b_def r0_def a_def by (rule refl)
  moreover have "d = 146097 * a + 36524 * b + 1461 * c + 365 * e + r"
    using r0(3) unfolding r_def r2_def r1_def by simp
  ultimately show thesis using that [of a b c e r] b(1,2) c(1,2) e r by simp
qed

lemma daysBeforeYear_parts:
  assumes "0 \<le> b" "b \<le> 3" "0 \<le> c" "c \<le> 24" "0 \<le> e" "e \<le> 3"
  shows "daysBeforeYear (400 * a + 100 * b + 4 * c + e + 1) = 146097 * a + 36524 * b + 1461 * c + 365 * e"
proof -
  let ?k = "400 * a + 100 * b + 4 * c + e"
  have div: "x = q * n + r \<Longrightarrow> 0 \<le> r \<Longrightarrow> r < n \<Longrightarrow> x div n = q" for x q n r :: int by simp
  have "?k div 4 = 100 * a + 25 * b + c" by (rule div [of _ _ _ e]) (use assms in simp_all)
  moreover have "?k div 100 = 4 * a + b" by (rule div [of _ _ _ "4 * c + e"]) (use assms in simp_all)
  moreover have "?k div 400 = a" by (rule div [of _ _ _ "100 * b + 4 * c + e"]) (use assms in simp_all)
  ultimately show ?thesis by (simp add: daysBeforeYear_def)
qed

lemma leap_last:
  assumes "0 \<le> b" "b \<le> 3" "0 \<le> c" "c \<le> 24" "\<not> (c = 24 \<and> b < 3)"
  shows "leapYear (400 * a + 100 * b + 4 * c + 3 + 1)"
proof -
  let ?y = "400 * a + 100 * b + 4 * c + 3 + 1"
  have "?y = (4 * c + 4) + (4 * a + b) * 100" by simp
  then have m100: "?y mod 100 = (4 * c + 4) mod 100" by (metis mod_mult_self1)
  have m4: "?y mod 4 = 0" by (simp add: mod_eq_0_iff_dvd)
  show ?thesis
  proof (cases "c = 24")
    case True
    then have "?y = (a + 1) * 400" using assms by simp
    then have "?y mod 400 = 0" by (metis mod_mult_self2_is_0)
    then show ?thesis using m4 by (simp add: leapYear_def)
  next
    case False
    then have "?y mod 100 = 4 * c + 4" using assms m100 by simp
    then show ?thesis using m4 assms by (simp add: leapYear_def)
  qed
qed

lemma year_round:
  obtains y r where "yearOfDay d = (y, r)" "daysBeforeYear y + r = d" "0 \<le> r" "r < sum_list (monthLengths y)"
proof -
  obtain a b c e r where p: "d = 146097 * a + 36524 * b + 1461 * c + 365 * e + r"
    "0 \<le> b" "b \<le> 3" "0 \<le> c" "c \<le> 24" "0 \<le> e" "e \<le> 3" "0 \<le> r" "r \<le> 365"
    "e < 3 \<or> c = 24 \<and> b < 3 \<longrightarrow> r < 365"
    "yearOfDay d = (400 * a + 100 * b + 4 * c + e + 1, r)" by (rule year_parts)
  have len: "sum_list (monthLengths y) = (if leapYear y then 366 else 365)" for y
    by (simp add: monthLengths_def)
  have "r < sum_list (monthLengths (400 * a + 100 * b + 4 * c + e + 1))"
  proof (cases "r < 365")
    case False
    then have "e = 3" "\<not> (c = 24 \<and> b < 3)" using p by auto
    then have "leapYear (400 * a + 100 * b + 4 * c + e + 1)" using leap_last p by blast
    then show ?thesis using p(9) by (simp add: len)
  qed (simp add: len)
  then show thesis using that p daysBeforeYear_parts [OF p(2-7)] by simp
qed

lemma month_round:
  assumes "monthOf m ls r = (k, dd)" "0 \<le> r" "r < sum_list ls"
  shows "m \<le> k \<and> nat (k - m) < length ls \<and> r = sum_list (take (nat (k - m)) ls) + dd - 1 \<and>
    1 \<le> dd \<and> dd \<le> ls ! nat (k - m)"
  using assms
proof (induction m ls r rule: monthOf.induct)
  case (2 m l ls r)
  show ?case
  proof (cases "r < l")
    case False
    then have "m + 1 \<le> k \<and> nat (k - (m + 1)) < length ls \<and> r - l = sum_list (take (nat (k - (m + 1))) ls) + dd - 1 \<and>
        1 \<le> dd \<and> dd \<le> ls ! nat (k - (m + 1))"
      using 2 by simp
    moreover from this have "nat (k - m) = Suc (nat (k - (m + 1)))" by auto
    ultimately show ?thesis by auto
  qed (use 2 in auto)
qed simp

lemma civil_round:
  assumes "civil d = (y, m, dd)"
  shows "dayNumber y m dd = d \<and> 1 \<le> m \<and> m \<le> 12 \<and> 1 \<le> dd \<and> dd \<le> monthLengths y ! nat (m - 1) \<and>
    fst (yearOfDay d) = y"
proof -
  obtain y' r where yr: "yearOfDay d = (y', r)" "daysBeforeYear y' + r = d" "0 \<le> r" "r < sum_list (monthLengths y')"
    by (rule year_round)
  obtain m' dd' where mo: "monthOf 1 (monthLengths y') r = (m', dd')" by force
  then have eq: "y' = y" "m' = m" "dd' = dd" using assms yr(1) by (simp_all add: civil_def)
  have "length (monthLengths y) = 12" by (simp add: monthLengths_def)
  then show ?thesis using month_round [OF mo yr(3,4)] yr unfolding eq by (auto simp: dayNumber_def nat_less_iff)
qed

lemma year_bounds:
  assumes "0 \<le> d" "d < 3652059" shows "1 \<le> fst (yearOfDay d) \<and> fst (yearOfDay d) \<le> 9999"
proof -
  obtain a b c e r where p: "d = 146097 * a + 36524 * b + 1461 * c + 365 * e + r"
    "0 \<le> b" "b \<le> 3" "0 \<le> c" "c \<le> 24" "0 \<le> e" "e \<le> 3" "0 \<le> r" "r \<le> 365"
    "e < 3 \<or> c = 24 \<and> b < 3 \<longrightarrow> r < 365"
    "yearOfDay d = (400 * a + 100 * b + 4 * c + e + 1, r)" by (rule year_parts)
  have a: "0 \<le> a" "a \<le> 24" using assms p(1-9) by linarith+
  have "400 * a + 100 * b + 4 * c + e \<le> 9998"
  proof (rule ccontr)
    assume n: "\<not> 400 * a + 100 * b + 4 * c + e \<le> 9998"
    then have "a = 24" using a p(2-7) by linarith
    moreover from this have "b = 3" using n p(2-7) by linarith
    moreover from calculation have "c = 24" using n p(2-7) by linarith
    moreover from calculation have "e = 3" using n p(2-7) by linarith
    ultimately show False using p(1,8) assms(2) by simp
  qed
  then show ?thesis using a(1) p(2-7) by (simp add: p(11))
qed

section \<open>Digits\<close>

lemma parse_digits_zeros: "parse_digits 0 (replicate k (CHR ''0'') @ s) = parse_digits 0 s"
  by (induction k) (simp_all add: Let_def)

lemma nat_dec_length: "0 < w \<Longrightarrow> n < 10 ^ w \<Longrightarrow> length (nat_dec n) \<le> w"
proof (induction w arbitrary: n)
  case (Suc w)
  then show ?case
  proof (cases "n < 10")
    case False
    then have "0 < w" using Suc.prems by (cases w) auto
    moreover have "n div 10 < 10 ^ w" using Suc.prems(2) by (simp add: div_less_iff_less_mult mult.commute)
    ultimately show ?thesis using Suc.IH False by (subst nat_dec.simps) simp
  qed (subst nat_dec.simps, simp)
qed simp

lemma pad_props:
  assumes "0 \<le> i" "i < 10 ^ w" "0 < w"
  shows "length (pad w i) = w" "parse_digits 0 (pad w i) = Some (nat i)" "\<forall>c \<in> set (pad w i). isDigit c"
proof -
  have "length (itoa i) \<le> w"
    using nat_dec_length [OF assms(3), of "nat i"] assms(1,2) by (simp add: itoa_def nat_less_iff)
  then show "length (pad w i) = w" by (simp add: pad_def Let_def)
  show "parse_digits 0 (pad w i) = Some (nat i)"
    using assms(1) by (simp add: pad_def Let_def parse_digits_zeros itoa_def parse_digits_nat_dec)
  show "\<forall>c \<in> set (pad w i). isDigit c"
    using assms(1) nat_dec_digits by (auto simp: pad_def Let_def itoa_def isDigit_def)
qed

lemma digits_pad: "0 \<le> i \<Longrightarrow> i < 10 ^ w \<Longrightarrow> 0 < w \<Longrightarrow> digits w (pad w i @ s) = Some (i, s)"
  using pad_props [of i w] by (simp add: digits_def)

lemma expect_self: "expect c (c # s) = Some s"
  by (simp add: expect_def)

lemma dropWhile_rev_replicate:
  "\<exists>k. xs = rev (dropWhile (\<lambda>c. c = z) (rev xs)) @ replicate k z"
proof (induction xs rule: rev_induct)
  case (snoc x xs)
  then obtain k where k: "xs = rev (dropWhile (\<lambda>c. c = z) (rev xs)) @ replicate k z" by blast
  show ?case
  proof (cases "x = z")
    case True
    have "xs @ [z] = rev (dropWhile (\<lambda>c. c = z) (rev xs)) @ replicate (Suc k) z"
      using arg_cong [OF k, of "\<lambda>l. l @ [z]"] by (simp add: replicate_append_same)
    moreover have "dropWhile (\<lambda>c. c = z) (rev (xs @ [x])) = dropWhile (\<lambda>c. c = z) (rev xs)" using True by simp
    ultimately show ?thesis using True by metis
  qed simp
qed simp

section \<open>Fractions\<close>

lemma isDigit_zero: "isDigit (CHR ''0'')" by (simp add: isDigit_def)

lemma not_digit_Z: "\<not> isDigit (CHR ''Z'')" by (simp add: isDigit_def)

text \<open>The digits of a fraction are cut at the trailing zeros and filled up again when parsed.\<close>

lemma parseFraction_fraction:
  assumes "0 \<le> ns" "ns < second" shows "parseFraction (fraction ns @ ''Z'') = Some (ns, ''Z'')"
proof (cases "ns = 0")
  case True
  then show ?thesis by (simp add: fraction_def parseFraction_def)
next
  case False
  let ?p = "pad 9 ns"
  define ds where "ds = rev (dropWhile (\<lambda>c. c = CHR ''0'') (rev ?p))"
  have p: "length ?p = 9" "parse_digits 0 ?p = Some (nat ns)" "\<forall>c \<in> set ?p. isDigit c"
    using pad_props [of ns 9] assms by (simp_all add: second_def)
  obtain k where k: "?p = ds @ replicate k (CHR ''0'')"
    using dropWhile_rev_replicate [of ?p] unfolding ds_def by blast
  have dig: "\<forall>c \<in> set ds. isDigit c" using p(3) k by simp
  have "ds \<noteq> []"
  proof
    assume "ds = []"
    then have "parse_digits 0 ?p = Some 0" using k parse_digits_zeros [of k "[]"] by simp
    then show False using p(2) False assms(1) by simp
  qed
  then obtain c t where ct: "ds = c # t" by (cases ds) auto
  have "takeWhile isDigit (ds @ ''Z'') = ds" using dig not_digit_Z by (simp add: takeWhile_append2)
  moreover have "take 9 (ds @ replicate 9 (CHR ''0'')) = ?p"
  proof -
    have "length ds + k = 9" using p(1) k by simp
    then show ?thesis unfolding k by (simp add: take_replicate min_def)
  qed
  moreover have "isDigit (hd (ds @ ''Z''))" using dig ct by simp
  ultimately show ?thesis using False p(2) assms(1)
    by (simp add: fraction_def parseFraction_def ds_def [symmetric])
qed

section \<open>The round trip\<close>

text \<open>The times of the years 1 to 9999.\<close>

definition printableTime :: "gotime \<Rightarrow> bool" where
  "printableTime t \<longleftrightarrow> 0 \<le> t \<and> t < 3652059 * day"

lemma div_less_int:
  fixes m n q :: int
  assumes "0 < q" "m < n * q" shows "m div q < n"
proof (rule ccontr)
  assume "\<not> m div q < n"
  then have "n * q \<le> m div q * q" using assms(1) by (intro mult_right_mono) auto
  also have "\<dots> \<le> m" using assms(1) by (simp flip: minus_mod_eq_div_mult)
  finally show False using assms(2) by simp
qed

lemma parse_rfc3339Nano:
  assumes "printableTime t" shows "parseRfc3339 (rfc3339Nano t) = Some t"
proof -
  have units: "day = 86400 * second" "0 < second" by (simp_all add: day_def hour_def minute_def second_def)
  define D where "D = t div day"
  define S where "S = t mod day div second"
  define N where "N = t mod second"
  obtain y m d where c: "civil D = (y, m, d)" by (cases "civil D") auto
  have day: "0 < day" using units by simp
  have D: "0 \<le> D" "D < 3652059"
    using assms day div_less_int [OF day, of t 3652059]
    by (simp_all add: printableTime_def D_def pos_imp_zdiv_nonneg_iff)
  have S: "0 \<le> S" "S < 86400"
    using units div_less_int [of second "t mod day" 86400] pos_mod_bound [OF day, of t]
    by (simp_all add: S_def pos_imp_zdiv_nonneg_iff)
  have N: "0 \<le> N" "N < second" using units by (simp_all add: N_def)
  have "t mod day mod second = N" unfolding N_def units by (simp add: mod_mod_cancel)
  then have "t mod day = S * second + N" unfolding S_def by (metis div_mult_mod_eq)
  then have "t = D * day + (S * second + N)" using div_mult_mod_eq [of t day] by (simp add: D_def)
  then have t: "t = (D * 86400 + S) * second + N" by (simp add: units(1) distrib_right)
  have cal: "dayNumber y m d = D" "1 \<le> m" "m \<le> 12" "1 \<le> d" "d \<le> monthLengths y ! nat (m - 1)" "fst (yearOfDay D) = y"
    using civil_round [OF c] by blast+
  have y: "1 \<le> y" "y \<le> 9999" using year_bounds [OF D] cal(6) by simp_all
  have "monthLengths y ! nat (m - 1) \<le> 31"
  proof -
    have "nat (m - 1) < 12" using cal(2,3) by simp
    then show ?thesis by (auto simp: monthLengths_def nth_Cons' split: if_splits)
  qed
  then have d: "d \<le> 31" using cal(5) by simp
  define h mi se where "h = S div 3600" and "mi = S div 60 mod 60" and "se = S mod 60"
  have hms: "0 \<le> h" "h < 24" "0 \<le> mi" "mi < 60" "0 \<le> se" "se < 60"
    using S div_less_int [of 3600 S 24] by (simp_all add: h_def mi_def se_def pos_imp_zdiv_nonneg_iff)
  have S3: "h * 3600 + mi * 60 + se = S"
  proof -
    have "S div 3600 = S div 60 div 60" by (simp add: zdiv_zmult2_eq)
    moreover have "S div 60 div 60 * 60 + S div 60 mod 60 = S div 60" "S div 60 * 60 + S mod 60 = S" by simp_all
    ultimately show ?thesis unfolding h_def mi_def se_def by linarith
  qed
  have shape: "rfc3339Nano t = pad 4 y @ ''-'' @ pad 2 m @ ''-'' @ pad 2 d @ ''T'' @ pad 2 h @ '':'' @
      pad 2 mi @ '':'' @ pad 2 se @ fraction N @ ''Z''"
    using c by (simp add: rfc3339Nano_def formatTime_def Let_def D_def S_def N_def h_def mi_def se_def)
  have z: "parseZone ''Z'' = Some 0" by (simp add: parseZone_def)
  have "parseRfc3339 (rfc3339Nano t) =
      Some ((D * 86400 + h * 3600 + mi * 60 + se - 0) * second + N)"
    using y cal d hms
    by (simp add: parseRfc3339_def shape digits_pad expect_self parseFraction_fraction [OF N, simplified] z)
  also have "\<dots> = Some t" unfolding t using S3 by simp
  finally show ?thesis .
qed

end
