(* ===== verification/Go_Json.thy ===== *)
theory Go_Json
  imports Time_Roundtrip
begin

text \<open>
  The part of \<open>encoding/json\<close> the log store rests on: the compact output of \<open>json.Marshal\<close> and the
  scanner of \<open>json.Unmarshal\<close>, on byte strings.  Bytes of multi-byte characters are copied both
  ways; the theorems are for ASCII text.  \<open>Truncated\<close> is the error \<open>unexpected end of JSON input\<close>,
  \<open>Malformed\<close> any other syntax error.  At the end of its input the scanner takes one more step, on a
  space: a text that ends in an escape sequence, in a literal, after a sign, a decimal point or an
  \<open>e\<close> is \<open>Malformed\<close>, because a space may not follow there.

  \<open>parse_print\<close>: what the encoder writes is read back.  \<open>parse_torn\<close>: a proper prefix of an object
  that the encoder wrote is \<open>Malformed\<close> when it was cut in an escape sequence and \<open>Truncated\<close> otherwise.
\<close>

section \<open>Values and printing\<close>

text \<open>A number is its literal.\<close>

datatype json =
    JNull
  | JBool bool
  | JNum string
  | JStr string
  | JArr "json list"
  | JObj "(string \<times> json) list"

definition escapeU :: "nat \<Rightarrow> string" where
  "escapeU n = [CHR 0x5C, CHR ''u'', CHR ''0'', CHR ''0''] @ [hexLower (n div 16), hexLower (n mod 16)]"

text \<open>The encoder also escapes the characters that are special in HTML.\<close>

definition escapeChar :: "char \<Rightarrow> string" where
  "escapeChar c =
     (let n = (of_char c :: nat) in
      if n = 34 \<or> n = 92 then [CHR 0x5C, c]
      else if n = 8 then [CHR 0x5C, CHR ''b''] else if n = 12 then [CHR 0x5C, CHR ''f'']
      else if n = 10 then [CHR 0x5C, CHR ''n''] else if n = 13 then [CHR 0x5C, CHR ''r'']
      else if n = 9 then [CHR 0x5C, CHR ''t'']
      else if n < 32 \<or> c = CHR ''<'' \<or> c = CHR ''>'' \<or> c = CHR ''&'' then escapeU n
      else [c])"

definition printStr :: "string \<Rightarrow> string" where
  "printStr s = CHR 0x22 # concat (map escapeChar s) @ [CHR 0x22]"

fun printJson :: "json \<Rightarrow> string"
and printItems :: "json list \<Rightarrow> string"
and printMembers :: "(string \<times> json) list \<Rightarrow> string" where
  "printJson JNull = ''null''"
| "printJson (JBool b) = (if b then ''true'' else ''false'')"
| "printJson (JNum l) = l"
| "printJson (JStr s) = printStr s"
| "printJson (JArr xs) = ''['' @ printItems xs @ '']''"
| "printJson (JObj ms) = ''{'' @ printMembers ms @ ''}''"
| "printItems [] = []"
| "printItems (x # xs) = printJson x @ (if xs = [] then [] else '','' @ printItems xs)"
| "printMembers [] = []"
| "printMembers ((k, v) # ms) =
     printStr k @ '':'' @ printJson v @ (if ms = [] then [] else '','' @ printMembers ms)"

section \<open>Parsing\<close>

datatype 'a parsed = Parsed 'a string | Truncated | Malformed

fun thenParse :: "'a parsed \<Rightarrow> ('a \<Rightarrow> string \<Rightarrow> 'b parsed) \<Rightarrow> 'b parsed" where
  "thenParse (Parsed a s) f = f a s"
| "thenParse Truncated f = Truncated"
| "thenParse Malformed f = Malformed"

definition jsonSpace :: "char \<Rightarrow> bool" where
  "jsonSpace c \<longleftrightarrow> (of_char c :: nat) \<in> {32, 9, 10, 13}"

definition skipSpace :: "string \<Rightarrow> string" where
  "skipSpace s = dropWhile jsonSpace s"

definition hexValue :: "char \<Rightarrow> nat option" where
  "hexValue c =
     (let n = (of_char c :: nat) in
      if 48 \<le> n \<and> n \<le> 57 then Some (n - 48)
      else if 97 \<le> n \<and> n \<le> 102 then Some (n - 87)
      else if 65 \<le> n \<and> n \<le> 70 then Some (n - 55) else None)"

fun parseHex :: "nat \<Rightarrow> nat \<Rightarrow> string \<Rightarrow> nat option" where
  "parseHex 0 acc s = Some acc"
| "parseHex (Suc k) acc s =
     (case s of
        [] \<Rightarrow> None
      | c # t \<Rightarrow> (case hexValue c of None \<Rightarrow> None | Some d \<Rightarrow> parseHex k (acc * 16 + d) t))"

text \<open>The UTF-8 bytes of a code point of the basic plane; a surrogate becomes the replacement
  character (a pair of surrogates is not combined).\<close>

definition utf8 :: "nat \<Rightarrow> string" where
  "utf8 n =
     (let m = (if 55296 \<le> n \<and> n < 57344 then 65533 else n) in
      if m < 128 then [char_of m]
      else if m < 2048 then [char_of (192 + m div 64), char_of (128 + m mod 64)]
      else [char_of (224 + m div 4096), char_of (128 + m div 64 mod 64), char_of (128 + m mod 64)])"

definition unescape :: "char \<Rightarrow> char option" where
  "unescape c =
     (if c = CHR 0x22 \<or> c = CHR 0x5C \<or> c = CHR ''/'' then Some c
      else if c = CHR ''b'' then Some (char_of (8 :: nat)) else if c = CHR ''f'' then Some (char_of (12 :: nat))
      else if c = CHR ''n'' then Some (char_of (10 :: nat)) else if c = CHR ''r'' then Some (char_of (13 :: nat))
      else if c = CHR ''t'' then Some (char_of (9 :: nat)) else None)"

text \<open>The rest of a string literal after its opening quote.\<close>

function (sequential) parseStr :: "string \<Rightarrow> string parsed" where
  "parseStr [] = Truncated"
| "parseStr (c # s) =
     (if c = CHR 0x22 then Parsed [] s
      else if c = CHR 0x5C then
        (case s of
           [] \<Rightarrow> Malformed
         | e # t \<Rightarrow>
             (if e = CHR ''u'' then
                (case parseHex 4 0 t of
                   None \<Rightarrow> Malformed
                 | Some n \<Rightarrow> thenParse (parseStr (drop 4 t)) (\<lambda>w r. Parsed (utf8 n @ w) r))
              else (case unescape e of
                 None \<Rightarrow> Malformed
               | Some d \<Rightarrow> thenParse (parseStr t) (\<lambda>w r. Parsed (d # w) r))))
      else if (of_char c :: nat) < 32 then Malformed
      else thenParse (parseStr s) (\<lambda>w r. Parsed (c # w) r))"
  by pat_completeness auto
termination by (relation "measure length") auto

text \<open>Numbers: an optional sign, an integer part without leading zeros, an optional fraction and an
  optional exponent.  The value is the literal.\<close>

definition parseDigits1 :: "string \<Rightarrow> string parsed" where
  "parseDigits1 s =
     (case s of
        [] \<Rightarrow> Malformed
      | c # t \<Rightarrow> if isDigit c then Parsed (takeWhile isDigit s) (dropWhile isDigit s) else Malformed)"

definition parseIntPart :: "string \<Rightarrow> string parsed" where
  "parseIntPart s =
     (case s of
        [] \<Rightarrow> Malformed
      | c # t \<Rightarrow> if c = CHR ''0'' then Parsed [c] t else parseDigits1 s)"

definition parseFrac :: "string \<Rightarrow> string parsed" where
  "parseFrac s =
     (case s of
        [] \<Rightarrow> Parsed [] s
      | c # t \<Rightarrow> if c = CHR ''.'' then thenParse (parseDigits1 t) (\<lambda>ds r. Parsed (c # ds) r) else Parsed [] s)"

definition parseExp :: "string \<Rightarrow> string parsed" where
  "parseExp s =
     (case s of
        [] \<Rightarrow> Parsed [] s
      | c # t \<Rightarrow>
          (if c = CHR ''e'' \<or> c = CHR ''E'' then
             (let sgn = (case t of [] \<Rightarrow> [] | x # u \<Rightarrow> if x = CHR ''+'' \<or> x = CHR ''-'' then [x] else [])
              in thenParse (parseDigits1 (drop (length sgn) t)) (\<lambda>ds r. Parsed (c # sgn @ ds) r))
           else Parsed [] s))"

definition parseNum :: "string \<Rightarrow> string parsed" where
  "parseNum s =
     (let neg = (case s of [] \<Rightarrow> [] | c # t \<Rightarrow> if c = CHR ''-'' then [c] else []) in
      thenParse (parseIntPart (drop (length neg) s)) (\<lambda>i r1.
      thenParse (parseFrac r1) (\<lambda>f r2.
      thenParse (parseExp r2) (\<lambda>e r3. Parsed (neg @ i @ f @ e) r3))))"

definition parseLit :: "string \<Rightarrow> 'a \<Rightarrow> string \<Rightarrow> 'a parsed" where
  "parseLit lit v s =
     (if has_prefix s lit then Parsed v (drop (length lit) s) else Malformed)"

text \<open>The first argument bounds the depth of the recursion; every step consumes a byte, so the length
  of the text is enough.\<close>

fun parseValue :: "nat \<Rightarrow> string \<Rightarrow> json parsed"
and parseItems :: "nat \<Rightarrow> string \<Rightarrow> json list parsed"
and parseMembers :: "nat \<Rightarrow> string \<Rightarrow> (string \<times> json) list parsed" where
  "parseValue 0 s = Malformed"
| "parseValue (Suc n) s =
     (case skipSpace s of
        [] \<Rightarrow> Truncated
      | c # t \<Rightarrow>
          (if c = CHR 0x22 then thenParse (parseStr t) (\<lambda>w r. Parsed (JStr w) r)
           else if c = CHR ''{'' then
             (case skipSpace t of
                [] \<Rightarrow> Truncated
              | d # u \<Rightarrow> if d = CHR ''}'' then Parsed (JObj []) u
                        else thenParse (parseMembers n (d # u)) (\<lambda>ms r. Parsed (JObj ms) r))
           else if c = CHR ''['' then
             (case skipSpace t of
                [] \<Rightarrow> Truncated
              | d # u \<Rightarrow> if d = CHR '']'' then Parsed (JArr []) u
                        else thenParse (parseItems n (d # u)) (\<lambda>xs r. Parsed (JArr xs) r))
           else if c = CHR ''t'' then parseLit ''true'' (JBool True) (c # t)
           else if c = CHR ''f'' then parseLit ''false'' (JBool False) (c # t)
           else if c = CHR ''n'' then parseLit ''null'' JNull (c # t)
           else thenParse (parseNum (c # t)) (\<lambda>l r. Parsed (JNum l) r)))"
| "parseItems 0 s = Malformed"
| "parseItems (Suc n) s =
     thenParse (parseValue n s) (\<lambda>x r.
       (case skipSpace r of
          [] \<Rightarrow> Truncated
        | c # t \<Rightarrow>
            (if c = CHR '']'' then Parsed [x] t
             else if c = CHR '','' then thenParse (parseItems n t) (\<lambda>xs r. Parsed (x # xs) r)
             else Malformed)))"
| "parseMembers 0 s = Malformed"
| "parseMembers (Suc n) s =
     (case skipSpace s of
        [] \<Rightarrow> Truncated
      | q # s1 \<Rightarrow>
          (if q \<noteq> CHR 0x22 then Malformed
           else thenParse (parseStr s1) (\<lambda>k r.
             (case skipSpace r of
                [] \<Rightarrow> Truncated
              | c # t \<Rightarrow>
                  (if c \<noteq> CHR '':'' then Malformed
                   else thenParse (parseValue n t) (\<lambda>v r2.
                     (case skipSpace r2 of
                        [] \<Rightarrow> Truncated
                      | d # u \<Rightarrow>
                          (if d = CHR ''}'' then Parsed [(k, v)] u
                           else if d = CHR '','' then thenParse (parseMembers n u) (\<lambda>ms r. Parsed ((k, v) # ms) r)
                           else Malformed))))))))"

text \<open>\<open>json.Unmarshal\<close> checks the whole text first: after the value only spaces may follow.\<close>

definition parseJson :: "string \<Rightarrow> json parsed" where
  "parseJson s =
     thenParse (parseValue (Suc (2 * length s)) s) (\<lambda>v r. if skipSpace r = [] then Parsed v [] else Malformed)"

section \<open>Strings\<close>

definition asciiText :: "string \<Rightarrow> bool" where
  "asciiText s \<longleftrightarrow> list_all (\<lambda>c. (of_char c :: nat) < 128) s"

lemma asciiText_simps [simp]: "asciiText []" "asciiText (c # s) \<longleftrightarrow> (of_char c :: nat) < 128 \<and> asciiText s"
  by (simp_all add: asciiText_def)

lemma hexValue_lower: "n < 16 \<Longrightarrow> hexValue (hexLower n) = Some n"
  by (auto simp: hexValue_def hexLower_def Let_def)

lemma parseStr_simps:
  "parseStr (CHR 0x22 # s) = Parsed [] s"
  "parseStr (CHR 0x5C # []) = Malformed"
  "parseStr (CHR 0x5C # CHR ''u'' # t) =
     (case parseHex 4 0 t of
        None \<Rightarrow> Malformed
      | Some n \<Rightarrow> thenParse (parseStr (drop 4 t)) (\<lambda>w r. Parsed (utf8 n @ w) r))"
  "e \<noteq> CHR ''u'' \<Longrightarrow> unescape e = Some d \<Longrightarrow>
     parseStr (CHR 0x5C # e # t) = thenParse (parseStr t) (\<lambda>w r. Parsed (d # w) r)"
  "c \<noteq> CHR 0x22 \<Longrightarrow> c \<noteq> CHR 0x5C \<Longrightarrow> 32 \<le> (of_char c :: nat) \<Longrightarrow>
     parseStr (c # s) = thenParse (parseStr s) (\<lambda>w r. Parsed (c # w) r)"
  by simp_all

declare parseStr.simps(2) [simp del]

lemma parseHex_escape:
  assumes "n < 128"
  shows "parseHex 4 0 ([CHR ''0'', CHR ''0'', hexLower (n div 16), hexLower (n mod 16)] @ s) = Some n"
proof -
  have 0: "hexValue (CHR ''0'') = Some 0" by (simp add: hexValue_def)
  have h: "hexValue (hexLower (n div 16)) = Some (n div 16)" "hexValue (hexLower (n mod 16)) = Some (n mod 16)"
    using assms by (simp_all add: hexValue_lower)
  have four: "(4::nat) = Suc (Suc (Suc (Suc 0)))" by simp
  show ?thesis by (simp only: four append_Cons append_Nil parseHex.simps list.case 0 h option.case) simp
qed

lemma escapeU_parse:
  assumes "n < 128" shows "parseStr (escapeU n @ s) = thenParse (parseStr s) (\<lambda>w r. Parsed (char_of n # w) r)"
proof -
  let ?t = "[CHR ''0'', CHR ''0'', hexLower (n div 16), hexLower (n mod 16)] @ s"
  have "escapeU n @ s = CHR 0x5C # CHR ''u'' # ?t" by (simp add: escapeU_def)
  moreover have "drop 4 ?t = s" by simp
  moreover have "utf8 n = [char_of n]" using assms by (simp add: utf8_def)
  ultimately show ?thesis by (simp only: parseStr_simps(3) parseHex_escape [OF assms] option.case) simp
qed

lemma char_eqI: "(of_char c :: nat) = of_char d \<Longrightarrow> c = d"
  by (metis char_of_char)

lemma escapeChar_parse:
  assumes "(of_char c :: nat) < 128"
  shows "parseStr (escapeChar c @ s) = thenParse (parseStr s) (\<lambda>w r. Parsed (c # w) r)"
proof -
  let ?n = "of_char c :: nat"
  have c: "char_of ?n = c" by simp
  consider "?n = 34 \<or> ?n = 92" | "?n = 8" | "?n = 12" | "?n = 10" | "?n = 13" | "?n = 9"
    | "?n \<notin> {34, 92, 8, 12, 10, 13, 9}" "?n < 32 \<or> c = CHR ''<'' \<or> c = CHR ''>'' \<or> c = CHR ''&''"
    | "?n \<notin> {34, 92}" "\<not> (?n < 32 \<or> c = CHR ''<'' \<or> c = CHR ''>'' \<or> c = CHR ''&'')"
    by blast
  then show ?thesis
  proof cases
    case 1
    then have "unescape c = Some c" "c \<noteq> CHR ''u''" "escapeChar c = [CHR 0x5C, c]"
      by (auto simp: unescape_def escapeChar_def Let_def dest: char_eqI [of c "CHR 0x22", simplified] char_eqI [of c "CHR 0x5C", simplified])
    then show ?thesis by (simp add: parseStr_simps(4))
  next
    case 7
    then have "escapeChar c = escapeU ?n" by (auto simp: escapeChar_def Let_def)
    then show ?thesis using escapeU_parse [OF assms] c by simp
  next
    case 8
    then have "escapeChar c = [c]" "c \<noteq> CHR 0x22" "c \<noteq> CHR 0x5C" by (auto simp: escapeChar_def Let_def)
    then show ?thesis using 8 by (simp add: parseStr_simps(5))
  qed (use c in \<open>auto simp: escapeChar_def Let_def parseStr_simps(4) unescape_def\<close>)
qed

definition escaped :: "string \<Rightarrow> string" where
  "escaped s = concat (map escapeChar s)"

lemma escaped_simps [simp]: "escaped [] = []" "escaped (c # s) = escapeChar c @ escaped s"
  by (simp_all add: escaped_def)

lemma printStr_escaped: "printStr s = CHR 0x22 # escaped s @ [CHR 0x22]"
  by (simp add: printStr_def escaped_def)

lemma parseStr_print: "asciiText s \<Longrightarrow> parseStr (escaped s @ CHR 0x22 # rest) = Parsed s rest"
  by (induction s) (simp_all add: parseStr_simps(1) escapeChar_parse)

section \<open>Torn strings\<close>

text \<open>Whether a text ends in the middle of an escape sequence.\<close>

fun midEscape :: "string \<Rightarrow> bool" where
  "midEscape [] \<longleftrightarrow> False"
| "midEscape (c # s) \<longleftrightarrow>
     (if c \<noteq> CHR 0x5C then midEscape s
      else (case s of
         [] \<Rightarrow> True
       | e # t \<Rightarrow> if e = CHR ''u'' then length t < 4 \<or> midEscape (drop 4 t) else midEscape t))"

definition tornResult :: "string \<Rightarrow> 'a parsed" where
  "tornResult s = (if midEscape s then Malformed else Truncated)"

lemma parseHex_torn: "length t < 4 \<Longrightarrow> parseHex 4 acc t = None"
proof -
  have "length t < k \<Longrightarrow> parseHex k acc t = None" for k acc t
    by (induction k acc t rule: parseHex.induct) (auto split: option.splits list.splits)
  then show "length t < 4 \<Longrightarrow> parseHex 4 acc t = None" .
qed

lemma midEscape_append:
  assumes "list_all (\<lambda>c. c \<noteq> CHR 0x5C) s" shows "midEscape (s @ t) = midEscape t"
  using assms by (induction s) auto

lemma escapeU_mid: "n < 128 \<Longrightarrow> midEscape (escapeU n @ s) = midEscape s"
  by (simp add: escapeU_def)

lemma escapeChar_cases:
  "escapeChar c = escapeU (of_char c) \<or> (\<exists>e. e \<noteq> CHR ''u'' \<and> escapeChar c = [CHR 0x5C, e])
   \<or> c \<noteq> CHR 0x5C \<and> escapeChar c = [c]"
  by (auto simp: escapeChar_def Let_def)

lemma escapeChar_mid: "(of_char c :: nat) < 128 \<Longrightarrow> midEscape (escapeChar c @ s) = midEscape s"
  using escapeChar_cases [of c] escapeU_mid [of "of_char c" s] by auto

lemma escaped_mid: "asciiText w \<Longrightarrow> midEscape (escaped w @ s) = midEscape s"
  by (induction w) (simp_all add: escapeChar_mid)

lemma printStr_mid: "asciiText w \<Longrightarrow> midEscape (printStr w @ s) = midEscape s"
  by (simp add: printStr_escaped escaped_mid)

lemma take_two: "k < length s \<Longrightarrow> k \<noteq> 0 \<Longrightarrow> k \<noteq> 1 \<Longrightarrow> \<exists>j. k = Suc (Suc j) \<and> j < length s - 2"
  by (cases k; cases "k - 1") auto

lemma escapeU_torn:
  assumes "k < 6"
  shows "parseStr (take k (escapeU n)) = (if k = 0 then Truncated else Malformed)"
    and "midEscape (take k (escapeU n)) \<longleftrightarrow> k \<noteq> 0"
proof -
  let ?h = "[CHR ''0'', CHR ''0'', hexLower (n div 16), hexLower (n mod 16)]"
  have "k < length (escapeU n)" using assms by (simp add: escapeU_def)
  then consider "k = 0" | "k = 1" | j where "k = Suc (Suc j)" "j < 4" using take_two [of k "escapeU n"] assms by auto
  then have "parseStr (take k (escapeU n)) = (if k = 0 then Truncated else Malformed) \<and>
      (midEscape (take k (escapeU n)) \<longleftrightarrow> k \<noteq> 0)"
  proof cases
    case (3 j)
    then have t: "take k (escapeU n) = CHR 0x5C # CHR ''u'' # take j ?h" by (simp add: escapeU_def)
    have "parseHex 4 0 (take j ?h) = None" by (rule parseHex_torn) (use 3(2) in simp)
    then show ?thesis unfolding t using 3 by (simp add: parseStr_simps(3))
  qed (simp_all add: escapeU_def parseStr_simps(2))
  then show "parseStr (take k (escapeU n)) = (if k = 0 then Truncated else Malformed)"
    "midEscape (take k (escapeU n)) \<longleftrightarrow> k \<noteq> 0" by blast+
qed

lemma escapeChar_torn:
  assumes "k < length (escapeChar c)"
  shows "parseStr (take k (escapeChar c)) = tornResult (take k (escapeChar c))"
  using escapeChar_cases [of c]
proof (elim disjE exE conjE)
  assume e: "escapeChar c = escapeU (of_char c)"
  then have "k < 6" using assms by (simp add: escapeU_def)
  then show ?thesis unfolding e using escapeU_torn [of k "of_char c"] by (simp add: tornResult_def)
next
  fix e assume e: "escapeChar c = [CHR 0x5C, e]"
  then have "k = 0 \<or> k = 1" using assms by auto
  then show ?thesis unfolding e by (auto simp: parseStr_simps(2) tornResult_def)
qed (use assms in \<open>simp add: tornResult_def\<close>)

lemma thenParse_torn [simp]: "thenParse (tornResult s) f = tornResult s"
  by (simp add: tornResult_def)

lemma tornResult_Nil [simp]: "tornResult [] = Truncated"
  by (simp add: tornResult_def)

lemma parseStr_torn:
  "asciiText s \<Longrightarrow> k \<le> length (escaped s) \<Longrightarrow>
   parseStr (take k (escaped s @ [CHR 0x22])) = tornResult (take k (escaped s @ [CHR 0x22]))"
proof (induction s arbitrary: k)
  case (Cons c s)
  show ?case
  proof (cases "k < length (escapeChar c)")
    case True
    then show ?thesis using escapeChar_torn [of k c] by simp
  next
    case False
    let ?t = "take (k - length (escapeChar c)) (escaped s @ [CHR 0x22])"
    have t: "take k (escaped (c # s) @ [CHR 0x22]) = escapeChar c @ ?t" using False by simp
    have "k - length (escapeChar c) \<le> length (escaped s)" using Cons.prems(2) by simp
    then have "parseStr ?t = tornResult ?t" using Cons by simp
    moreover have "tornResult (escapeChar c @ ?t) = (tornResult ?t :: string parsed)"
      using escapeChar_mid Cons.prems(1) by (simp add: tornResult_def)
    ultimately show ?thesis unfolding t using Cons.prems(1) by (simp add: escapeChar_parse)
  qed
qed simp

section \<open>Numbers\<close>

definition numberEnd :: "string \<Rightarrow> bool" where
  "numberEnd s \<longleftrightarrow> s = [] \<or> (\<not> isDigit (hd s) \<and> hd s \<notin> {CHR ''.'', CHR ''e'', CHR ''E''})"

lemma nat_dec_isDigit: "c \<in> set (nat_dec n) \<Longrightarrow> isDigit c"
  using nat_dec_digits by (auto simp: isDigit_def)

lemma nat_dec_head: "0 < n \<Longrightarrow> hd (nat_dec n) \<noteq> CHR ''0''"
proof (induction n rule: nat_dec.induct)
  case (1 n)
  show ?case
  proof (cases "n < 10")
    case True
    have "(of_char (digit_char n) :: nat) = 48 + n" using True by (rule of_char_digit)
    then show ?thesis using True 1 by (subst nat_dec.simps) (auto dest: arg_cong [where f = "of_char :: char \<Rightarrow> nat"])
  next
    case False
    then show ?thesis using 1 by (subst nat_dec.simps) simp
  qed
qed

lemma intPart_digits:
  assumes "\<forall>c \<in> set ds. isDigit c" "ds \<noteq> []" "hd ds = CHR ''0'' \<Longrightarrow> ds = [CHR ''0'']" "numberEnd s"
  shows "parseIntPart (ds @ s) = Parsed ds s"
proof -
  obtain c t where ds: "ds = c # t" using assms(2) by (cases ds) auto
  have "takeWhile isDigit (ds @ s) = ds" "dropWhile isDigit (ds @ s) = s"
    using assms(1,4) by (auto simp: numberEnd_def takeWhile_append2 takeWhile_eq_Nil_iff dropWhile_append2 dropWhile_id)
  then show ?thesis using assms(1,3) by (cases "c = CHR ''0''") (auto simp: ds parseIntPart_def parseDigits1_def)
qed

lemma no_fraction: "numberEnd s \<Longrightarrow> parseFrac s = Parsed [] s \<and> parseExp s = Parsed [] s"
  by (cases s) (auto simp: numberEnd_def parseFrac_def parseExp_def)

lemma parseNum_digits:
  assumes "\<forall>c \<in> set ds. isDigit c" "ds \<noteq> []" "hd ds = CHR ''0'' \<Longrightarrow> ds = [CHR ''0'']" "numberEnd s"
  shows "parseNum (ds @ s) = Parsed ds s" "parseNum (CHR ''-'' # ds @ s) = Parsed (CHR ''-'' # ds) s"
proof -
  have "hd ds \<noteq> CHR ''-''" using assms(1,2) by (auto simp: isDigit_def dest!: hd_in_set)
  then show "parseNum (ds @ s) = Parsed ds s"
    using intPart_digits [OF assms] no_fraction [OF assms(4)] assms(2) by (cases ds) (simp_all add: parseNum_def)
  show "parseNum (CHR ''-'' # ds @ s) = Parsed (CHR ''-'' # ds) s"
    using intPart_digits [OF assms] no_fraction [OF assms(4)] by (simp add: parseNum_def)
qed

lemma numberEnd_Nil [simp]: "numberEnd []" by (simp add: numberEnd_def)

lemma nat_dec_zero: "hd (nat_dec n) = CHR ''0'' \<Longrightarrow> nat_dec n = [CHR ''0'']"
  using nat_dec_head [of n] by (cases "n = 0") (auto simp: nat_dec.simps digit_char_def)

lemma parseNum_itoa: "numberEnd s \<Longrightarrow> parseNum (itoa i @ s) = Parsed (itoa i) s"
proof -
  assume s: "numberEnd s"
  have d: "parseNum (nat_dec n @ s) = Parsed (nat_dec n) s"
      "parseNum (CHR ''-'' # nat_dec n @ s) = Parsed (CHR ''-'' # nat_dec n) s" for n
    using parseNum_digits [of "nat_dec n" s] nat_dec_isDigit nat_dec_zero s by simp_all
  show "parseNum (itoa i @ s) = Parsed (itoa i) s" by (cases "i < 0") (simp_all add: itoa_def d)
qed

text \<open>The prefixes of a natural number are numbers.\<close>

lemma parseNum_torn:
  assumes "0 < k" shows "parseNum (take k (nat_dec n)) = Parsed (take k (nat_dec n)) []"
proof -
  let ?ds = "take k (nat_dec n)"
  have "\<forall>c \<in> set ?ds. isDigit c" by (auto dest: in_set_takeD nat_dec_isDigit)
  moreover have "?ds \<noteq> []" using assms by simp
  moreover have "hd ?ds = CHR ''0'' \<Longrightarrow> ?ds = [CHR ''0'']"
    using assms nat_dec_zero [of n] by (cases k) (auto simp: hd_take)
  ultimately show ?thesis using parseNum_digits(1) [of ?ds "[]"] by simp
qed

section \<open>Reading what was printed\<close>

text \<open>Values whose strings are ASCII and whose numbers are integers as \<open>strconv\<close> writes them.\<close>

fun plainJson :: "json \<Rightarrow> bool"
and plainItems :: "json list \<Rightarrow> bool"
and plainMembers :: "(string \<times> json) list \<Rightarrow> bool" where
  "plainJson JNull \<longleftrightarrow> True"
| "plainJson (JBool b) \<longleftrightarrow> True"
| "plainJson (JNum l) \<longleftrightarrow> (\<exists>i. l = itoa i)"
| "plainJson (JStr s) \<longleftrightarrow> asciiText s"
| "plainJson (JArr xs) \<longleftrightarrow> plainItems xs"
| "plainJson (JObj ms) \<longleftrightarrow> plainMembers ms"
| "plainItems [] \<longleftrightarrow> True"
| "plainItems (x # xs) \<longleftrightarrow> plainJson x \<and> plainItems xs"
| "plainMembers [] \<longleftrightarrow> True"
| "plainMembers ((k, v) # ms) \<longleftrightarrow> asciiText k \<and> plainJson v \<and> plainMembers ms"

lemma skipSpace_no [simp]: "\<not> jsonSpace c \<Longrightarrow> skipSpace (c # s) = c # s"
  by (simp add: skipSpace_def)

lemma skipSpace_Nil [simp]: "skipSpace [] = []"
  by (simp add: skipSpace_def)

definition valueStart :: "char \<Rightarrow> bool" where
  "valueStart c \<longleftrightarrow> \<not> jsonSpace c \<and> c \<notin> {CHR '']'', CHR ''}'', CHR '','', CHR 0x5C}"

lemma itoa_head: "\<exists>c t. itoa i = c # t \<and> (isDigit c \<or> c = CHR ''-'')"
proof (cases "i < 0")
  case False
  obtain c t where n: "nat_dec (nat i) = c # t" by (cases "nat_dec (nat i)") auto
  then have "isDigit c" using nat_dec_isDigit [of c "nat i"] by simp
  then show ?thesis using False n by (simp add: itoa_def)
qed (simp add: itoa_def)

lemma number_start:
  assumes "isDigit c \<or> c = CHR ''-''"
  shows "valueStart c" "c \<noteq> CHR 0x22" "c \<noteq> CHR ''{''" "c \<noteq> CHR ''[''" "c \<noteq> CHR ''t''" "c \<noteq> CHR ''f''" "c \<noteq> CHR ''n''"
  using assms by (auto simp: isDigit_def valueStart_def jsonSpace_def Let_def)

lemma printStr_head: "\<exists>t. printStr s = CHR 0x22 # t"
  by (simp add: printStr_def)

lemma print_head: "plainJson j \<Longrightarrow> \<exists>c t. printJson j = c # t \<and> valueStart c"
proof (cases j)
  case (JNum l)
  assume "plainJson j"
  then obtain i where l: "l = itoa i" using JNum by auto
  obtain c t where "itoa i = c # t" "isDigit c \<or> c = CHR ''-''" using itoa_head by blast
  then show ?thesis using number_start(1) JNum l by simp
qed (auto simp: valueStart_def jsonSpace_def printStr_def)

lemma value_number:
  assumes "s = c # t" "isDigit c \<or> c = CHR ''-''" "parseNum s = Parsed l r"
  shows "parseValue (Suc n) s = Parsed (JNum l) r"
proof -
  have "skipSpace (c # t) = c # t" using number_start(1) [OF assms(2)] by (simp add: valueStart_def)
  then show ?thesis using assms(1,3) number_start(2-) [OF assms(2)] by (simp only: parseValue.simps list.case if_False thenParse.simps)
qed

lemma value_string: "parseStr t = r \<Longrightarrow> parseValue (Suc n) (CHR 0x22 # t) = thenParse r (\<lambda>w r. Parsed (JStr w) r)"
  by (simp add: skipSpace_def jsonSpace_def)

lemma value_object:
  assumes "\<not> jsonSpace c" "c \<noteq> CHR ''}''"
  shows "parseValue (Suc n) (CHR ''{'' # c # t) = thenParse (parseMembers n (c # t)) (\<lambda>ms r. Parsed (JObj ms) r)"
  using assms by (simp add: skipSpace_def jsonSpace_def [of "CHR ''{''"])

lemma value_array:
  assumes "\<not> jsonSpace c" "c \<noteq> CHR '']''"
  shows "parseValue (Suc n) (CHR ''['' # c # t) = thenParse (parseItems n (c # t)) (\<lambda>xs r. Parsed (JArr xs) r)"
  using assms by (simp add: skipSpace_def jsonSpace_def [of "CHR ''[''"])

lemma spaces [simp]: "\<not> jsonSpace (CHR 0x22)" "\<not> jsonSpace (CHR ''{'')" "\<not> jsonSpace (CHR ''}'')" "\<not> jsonSpace (CHR ''['')"
  "\<not> jsonSpace (CHR '']'')" "\<not> jsonSpace (CHR '':'')" "\<not> jsonSpace (CHR '','')" "\<not> jsonSpace (CHR ''t'')"
  "\<not> jsonSpace (CHR ''f'')" "\<not> jsonSpace (CHR ''n'')"
  by (simp_all add: jsonSpace_def)

lemma numberEnd_punct [simp]: "numberEnd (CHR '']'' # s)" "numberEnd (CHR ''}'' # s)" "numberEnd (CHR '','' # s)"
  by (simp_all add: numberEnd_def isDigit_def)

lemma print_length: "plainJson j \<Longrightarrow> 0 < length (printJson j)"
  using print_head [of j] by auto

declare parseValue.simps(2) [simp del]

lemma value_literals:
  "parseValue (Suc n) (''null'' @ s) = Parsed JNull s"
  "parseValue (Suc n) (''true'' @ s) = Parsed (JBool True) s"
  "parseValue (Suc n) (''false'' @ s) = Parsed (JBool False) s"
  by (simp_all add: parseValue.simps(2) parseLit_def has_prefix_def)

text \<open>After the opening brace or bracket the members or items come with the closing one.\<close>

lemma member_step:
  assumes "asciiText k"
  shows "parseMembers (Suc n) (printStr k @ CHR '':'' # t) =
    thenParse (parseValue n t) (\<lambda>v r2.
       (case skipSpace r2 of
          [] \<Rightarrow> Truncated
        | d # u \<Rightarrow>
            (if d = CHR ''}'' then Parsed [(k, v)] u
             else if d = CHR '','' then thenParse (parseMembers n u) (\<lambda>ms r. Parsed ((k, v) # ms) r)
             else Malformed)))"
  using assms by (simp add: printStr_escaped parseStr_print)

lemma print_parts:
  "plainJson j \<Longrightarrow> numberEnd rest \<Longrightarrow> 2 * length (printJson j) + 1 \<le> n \<Longrightarrow>
     parseValue n (printJson j @ rest) = Parsed j rest"
  "plainItems xs \<Longrightarrow> xs \<noteq> [] \<Longrightarrow> 2 * length (printItems xs) + 2 \<le> n \<Longrightarrow>
     parseItems n (printItems xs @ CHR '']'' # rest) = Parsed xs rest"
  "plainMembers ms \<Longrightarrow> ms \<noteq> [] \<Longrightarrow> 2 * length (printMembers ms) + 2 \<le> n \<Longrightarrow>
     parseMembers n (printMembers ms @ CHR ''}'' # rest) = Parsed ms rest"
proof (induction j and xs and ms arbitrary: n rest and n rest and n rest
    rule: printJson_printItems_printMembers.induct)
  case (1 n)
  then obtain m where "n = Suc m" by (cases n) auto
  then show ?case using value_literals(1) by simp
next
  case (2 b n)
  then obtain m where "n = Suc m" by (cases n) auto
  then show ?case using value_literals(2,3) by (cases b) simp_all
next
  case (3 l n)
  then obtain i where l: "l = itoa i" by auto
  obtain m where n: "n = Suc m" using 3 by (cases n) auto
  obtain c t where ct: "itoa i = c # t" "isDigit c \<or> c = CHR ''-''" using itoa_head by blast
  show ?case unfolding n
    using value_number [of "l @ rest" c "t @ rest" l rest m] parseNum_itoa [OF 3(2), of i] ct l by simp
next
  case (4 s n)
  then obtain m where n: "n = Suc m" by (cases n) auto
  show ?case unfolding n
    using value_string [of "escaped s @ CHR 0x22 # rest", OF parseStr_print] 4(1) by (simp add: printStr_escaped)
next
  case (5 xs n)
  then obtain m where n: "n = Suc m" by (cases n) auto
  show ?case
  proof (cases xs)
    case Nil
    then show ?thesis unfolding n by (simp add: parseValue.simps(2))
  next
    case (Cons x ys)
    then obtain c t where ct: "printItems xs = c # t" "valueStart c" using 5(2) print_head [of x] by fastforce
    have "parseItems m (printItems xs @ CHR '']'' # rest) = Parsed xs rest"
      by (rule 5(1)) (use 5 Cons n in simp_all)
    then show ?thesis unfolding n using value_array [of c m "t @ CHR '']'' # rest"] ct by (simp add: valueStart_def)
  qed
next
  case (6 ms n)
  then obtain m where n: "n = Suc m" by (cases n) auto
  show ?case
  proof (cases ms)
    case Nil
    then show ?thesis unfolding n by (simp add: parseValue.simps(2))
  next
    case (Cons x ys)
    then obtain t where ct: "printMembers ms = CHR 0x22 # t" by (cases x) (simp add: printStr_def)
    have "parseMembers m (printMembers ms @ CHR ''}'' # rest) = Parsed ms rest"
      by (rule 6(1)) (use 6 Cons n in simp_all)
    then show ?thesis unfolding n using value_object [of "CHR 0x22" m "t @ CHR ''}'' # rest"] ct by simp
  qed
next
  case (8 x xs n)
  then obtain m where n: "n = Suc m" by (cases n) auto
  have v: "parseValue m (printJson x @ s) = Parsed x s" if "numberEnd s" for s
    using 8(1) [of s m] 8 n that by simp
  show ?case
  proof (cases xs)
    case Nil
    then show ?thesis unfolding n using v by simp
  next
    case (Cons y ys)
    have "parseItems m (printItems xs @ CHR '']'' # rest) = Parsed xs rest"
      by (rule 8(2)) (use 8(3-) n Cons in simp_all)
    then show ?thesis unfolding n using v Cons by simp
  qed
next
  case (10 k x ms n)
  then obtain m where n: "n = Suc m" by (cases n) auto
  have v: "parseValue m (printJson x @ s) = Parsed x s" if "numberEnd s" for s
    using 10(1) [of s m] 10 n that by simp
  have k: "asciiText k" using 10 by simp
  show ?case
  proof (cases ms)
    case Nil
    then show ?thesis unfolding n using v member_step [OF k, of m "printJson x @ CHR ''}'' # rest"] by simp
  next
    case (Cons y ys)
    have "parseMembers m (printMembers ms @ CHR ''}'' # rest) = Parsed ms rest"
      by (rule 10(2)) (use 10(3-) n Cons in simp_all)
    then show ?thesis unfolding n
      using v Cons member_step [OF k, of m "printJson x @ CHR '','' # printMembers ms @ CHR ''}'' # rest"] by simp
  qed
qed simp_all

theorem parse_print:
  assumes "plainJson j" shows "parseJson (printJson j) = Parsed j []"
  using print_parts(1) [OF assms, of "[]"] by (simp add: parseJson_def)

section \<open>Reading what was torn off\<close>

text \<open>Values without literals and negative numbers.\<close>

fun recordJson :: "json \<Rightarrow> bool"
and recordItems :: "json list \<Rightarrow> bool"
and recordMembers :: "(string \<times> json) list \<Rightarrow> bool" where
  "recordJson JNull \<longleftrightarrow> False"
| "recordJson (JBool b) \<longleftrightarrow> False"
| "recordJson (JNum l) \<longleftrightarrow> (\<exists>n. l = nat_dec n)"
| "recordJson (JStr s) \<longleftrightarrow> asciiText s"
| "recordJson (JArr xs) \<longleftrightarrow> recordItems xs"
| "recordJson (JObj ms) \<longleftrightarrow> recordMembers ms"
| "recordItems [] \<longleftrightarrow> True"
| "recordItems (x # xs) \<longleftrightarrow> recordJson x \<and> recordItems xs"
| "recordMembers [] \<longleftrightarrow> True"
| "recordMembers ((k, v) # ms) \<longleftrightarrow> asciiText k \<and> recordJson v \<and> recordMembers ms"

lemma nat_dec_itoa: "nat_dec n = itoa (int n)"
  by (simp add: itoa_def)

lemma record_plain:
  "recordJson j \<Longrightarrow> plainJson j" "recordItems xs \<Longrightarrow> plainItems xs" "recordMembers ms \<Longrightarrow> plainMembers ms"
  by (induction j and xs and ms rule: recordJson_recordItems_recordMembers.induct) (auto simp: nat_dec_itoa)

lemma nat_dec_mid: "midEscape (nat_dec n @ s) = midEscape s"
  by (rule midEscape_append) (auto simp: list_all_iff dest: nat_dec_digits)

lemma print_mid:
  "recordJson j \<Longrightarrow> midEscape (printJson j @ s) = midEscape s"
  "recordItems xs \<Longrightarrow> midEscape (printItems xs @ s) = midEscape s"
  "recordMembers ms \<Longrightarrow> midEscape (printMembers ms @ s) = midEscape s"
  by (induction j and xs and ms arbitrary: s and s and s rule: printJson_printItems_printMembers.induct)
    (auto simp: printStr_mid nat_dec_mid)

lemma tornResult_skip:
  "recordJson j \<Longrightarrow> tornResult (printJson j @ s) = tornResult s"
  "asciiText k \<Longrightarrow> tornResult (printStr k @ s) = tornResult s"
  "c \<noteq> CHR 0x5C \<Longrightarrow> tornResult (c # s) = tornResult s"
  by (simp_all add: tornResult_def print_mid printStr_mid)

lemma tornResult_end: "recordJson j \<Longrightarrow> tornResult (printJson j) = Truncated"
  using print_mid(1) [of j "[]"] by (simp add: tornResult_def)

text \<open>Only of a number a proper prefix can be a value.\<close>

definition tornValue :: "json \<Rightarrow> string \<Rightarrow> json parsed \<Rightarrow> bool" where
  "tornValue j s r \<longleftrightarrow>
     r = tornResult s \<or> (\<exists>l v. j = JNum l \<and> r = Parsed v [] \<and> tornResult s = (Truncated :: json parsed))"

lemma tornValue_torn [simp]: "tornValue j s (tornResult s)"
  by (simp add: tornValue_def)

lemma tornValue_then:
  assumes "tornValue j s r" "\<And>v. f v [] = Truncated"
  shows "thenParse r f = tornResult s"
  using assms by (auto simp: tornValue_def tornResult_def split: if_splits)

lemma take_string_value: "k < length (printStr w) \<Longrightarrow>
  take k (printStr w) = [] \<or> (\<exists>j. take k (printStr w) = CHR 0x22 # take j (escaped w @ [CHR 0x22]) \<and> j \<le> length (escaped w))"
  by (cases k) (auto simp: printStr_escaped intro!: exI [of _ "k - 1"])

lemma numberEnd_take: "numberEnd (take j (CHR '','' # s))" "numberEnd (take j (CHR '']'' # s))" "numberEnd (take j (CHR ''}'' # s))"
  by (cases j; simp)+

lemma member_torn_key:
  assumes "asciiText w" "k \<le> length (printStr w)"
  shows "parseMembers (Suc n) (take k (printStr w)) = tornResult (take k (printStr w))"
proof (cases "k = length (printStr w)")
  case True
  then show ?thesis
    using assms(1) parseStr_print [of w "[]"] printStr_mid [of w "[]"] by (simp add: printStr_escaped tornResult_def)
next
  case False
  then have "take k (printStr w) = [] \<or> (\<exists>j. take k (printStr w) = CHR 0x22 # take j (escaped w @ [CHR 0x22]) \<and> j \<le> length (escaped w))"
    using take_string_value assms(2) by simp
  then show ?thesis
  proof (elim disjE exE conjE)
    fix j assume t: "take k (printStr w) = CHR 0x22 # take j (escaped w @ [CHR 0x22])" "j \<le> length (escaped w)"
    show ?thesis unfolding t(1) using parseStr_torn [OF assms(1) t(2)] by (simp add: tornResult_skip(3) del: take_append)
  qed (simp del: take_eq_Nil)
qed

lemma torn_parts:
  "recordJson j \<Longrightarrow> k < length (printJson j) \<Longrightarrow> 2 * k + 1 \<le> n \<Longrightarrow>
     tornValue j (take k (printJson j)) (parseValue n (take k (printJson j)))"
  "recordItems xs \<Longrightarrow> xs \<noteq> [] \<Longrightarrow> k \<le> length (printItems xs) \<Longrightarrow> 2 * k + 2 \<le> n \<Longrightarrow>
     parseItems n (take k (printItems xs @ '']'')) = tornResult (take k (printItems xs @ '']''))"
  "recordMembers ms \<Longrightarrow> ms \<noteq> [] \<Longrightarrow> k \<le> length (printMembers ms) \<Longrightarrow> 2 * k + 2 \<le> n \<Longrightarrow>
     parseMembers n (take k (printMembers ms @ ''}'')) = tornResult (take k (printMembers ms @ ''}''))"
proof (induction j and xs and ms arbitrary: k n and k n and k n
    rule: printJson_printItems_printMembers.induct)
  case (3 l k n)
  then obtain i where l: "l = nat_dec i" by auto
  obtain m where n: "n = Suc m" using 3 by (cases n) auto
  show ?case
  proof (cases "k = 0")
    case True
    then show ?thesis by (simp add: n parseValue.simps(2) tornValue_def)
  next
    case False
    obtain c t where ct: "take k (nat_dec i) = c # t" using False by (cases "take k (nat_dec i)") auto
    then have "c \<in> set (take k (nat_dec i))" by simp
    then have "isDigit c" by (auto dest: in_set_takeD nat_dec_isDigit)
    then have "parseValue n (take k l) = Parsed (JNum (take k l)) []"
      using value_number [of "take k l" c t] ct parseNum_torn [of k i] False unfolding n l by simp
    moreover have "\<not> midEscape (take k l)"
      using midEscape_append [of "take k l" "[]"] nat_dec_no_char [of "CHR 0x5C" i]
      by (auto simp: l list_all_iff dest: in_set_takeD)
    ultimately show ?thesis by (simp add: l tornValue_def tornResult_def)
  qed
next
  case (4 w k n)
  then obtain m where n: "n = Suc m" by (cases n) auto
  have "take k (printStr w) = [] \<or> (\<exists>j. take k (printStr w) = CHR 0x22 # take j (escaped w @ [CHR 0x22]) \<and> j \<le> length (escaped w))"
    using take_string_value 4 by simp
  then show ?case
  proof (elim disjE exE conjE)
    fix j assume t: "take k (printStr w) = CHR 0x22 # take j (escaped w @ [CHR 0x22])" "j \<le> length (escaped w)"
    show ?thesis unfolding n printJson.simps t(1)
      using value_string [OF parseStr_torn, of w j m] t(2) 4(1) by (simp add: tornValue_def tornResult_skip(3) del: take_append)
  qed (simp add: n parseValue.simps(2) tornValue_def del: take_eq_Nil)
next
  case (5 xs k n)
  then obtain m where n: "n = Suc m" by (cases n) auto
  show ?case
  proof (cases "k \<le> 1")
    case True
    then have "k = 0 \<or> k = 1" by auto
    then show ?thesis by (auto simp: n parseValue.simps(2) tornValue_def tornResult_def)
  next
    case False
    then obtain j where k: "k = Suc j" "0 < j" by (cases k) auto
    then have j: "j \<le> length (printItems xs)" using 5 by simp
    then have ne: "xs \<noteq> []" using k by auto
    then obtain c t where ct: "printItems xs = c # t" "valueStart c" using 5(2) print_head record_plain(1) by (cases xs) fastforce+
    then obtain u where u: "take j (printItems xs @ '']'') = c # u" using k by (cases j) auto
    have "parseItems m (take j (printItems xs @ '']'')) = tornResult (take j (printItems xs @ '']''))"
      by (rule 5(1)) (use 5 ne j k n in simp_all)
    then have "parseValue n (CHR ''['' # take j (printItems xs @ '']'')) = tornResult (take j (printItems xs @ '']''))"
      unfolding n u using value_array [of c m u] ct(2) by (simp add: valueStart_def)
    then show ?thesis by (simp add: k tornValue_def tornResult_skip(3) del: take_append)
  qed
next
  case (6 ms k n)
  then obtain m where n: "n = Suc m" by (cases n) auto
  show ?case
  proof (cases "k \<le> 1")
    case True
    then have "k = 0 \<or> k = 1" by auto
    then show ?thesis by (auto simp: n parseValue.simps(2) tornValue_def tornResult_def)
  next
    case False
    then obtain j where k: "k = Suc j" "0 < j" by (cases k) auto
    then have j: "j \<le> length (printMembers ms)" using 6 by simp
    then have ne: "ms \<noteq> []" using k by auto
    then obtain t where ct: "printMembers ms = CHR 0x22 # t" by (cases ms) (auto simp: printStr_def)
    then obtain u where u: "take j (printMembers ms @ ''}'') = CHR 0x22 # u" using k by (cases j) auto
    have "parseMembers m (take j (printMembers ms @ ''}'')) = tornResult (take j (printMembers ms @ ''}''))"
      by (rule 6(1)) (use 6 ne j k n in simp_all)
    then have "parseValue n (CHR ''{'' # take j (printMembers ms @ ''}'')) = tornResult (take j (printMembers ms @ ''}''))"
      unfolding n u using value_object [of "CHR 0x22" m u] by simp
    then show ?thesis by (simp add: k tornValue_def tornResult_skip(3) del: take_append)
  qed
next
  case (8 x xs k n)
  then obtain m where n: "n = Suc m" by (cases n) auto
  let ?more = "if xs = [] then '']'' else CHR '','' # printItems xs @ '']''"
  have all: "printItems (x # xs) @ '']'' = printJson x @ ?more" by simp
  have x: "recordJson x" using 8(3) by simp
  show ?case
  proof (cases "k < length (printJson x)")
    case True
    then have t: "take k (printItems (x # xs) @ '']'') = take k (printJson x)" by simp
    have "tornValue x (take k (printJson x)) (parseValue m (take k (printJson x)))"
      by (rule 8(1)) (use 8 n True in simp_all)
    then show ?thesis unfolding n t parseItems.simps by (rule tornValue_then) simp
  next
    case False
    let ?r = "take (k - length (printJson x)) ?more"
    have t: "take k (printItems (x # xs) @ '']'') = printJson x @ ?r" unfolding all take_append using False by simp
    have v: "parseValue m (printJson x @ ?r) = Parsed x ?r"
      by (rule print_parts(1) [OF record_plain(1) [OF x]]) (use 8 n False in \<open>auto simp: numberEnd_take\<close>)
    show ?thesis
    proof (cases "k = length (printJson x)")
      case True
      then show ?thesis unfolding n t using v by (simp add: tornResult_end [OF x])
    next
      case more: False
      then have ne: "xs \<noteq> []" using False 8(5) by auto
      obtain j where j: "k - length (printJson x) = Suc j" using more False by (cases "k - length (printJson x)") auto
      have r: "?r = CHR '','' # take j (printItems xs @ '']'')" using j ne by simp
      have "parseItems m (take j (printItems xs @ '']'')) = tornResult (take j (printItems xs @ '']''))"
        by (rule 8(2)) (use 8(3-) n ne j in simp_all)
      then show ?thesis unfolding n t using v unfolding r
        by (simp add: tornResult_skip(1) [OF x] tornResult_skip(3) del: take_append)
    qed
  qed
next
  case (10 w x ms k n)
  then obtain m where n: "n = Suc m" by (cases n) auto
  let ?more = "if ms = [] then ''}'' else CHR '','' # printMembers ms @ ''}''"
  let ?body = "printJson x @ ?more"
  have all: "printMembers ((w, x) # ms) @ ''}'' = printStr w @ CHR '':'' # ?body" by simp
  have x: "recordJson x" and w: "asciiText w" using 10(3) by simp_all
  show ?case
  proof (cases "k \<le> length (printStr w)")
    case True
    then have "take k (printMembers ((w, x) # ms) @ ''}'') = take k (printStr w)" unfolding all by simp
    then show ?thesis unfolding n using member_torn_key [OF w True, of m] by simp
  next
    case False
    then obtain i where i: "k - length (printStr w) = Suc i" by (cases "k - length (printStr w)") auto
    then have t: "take k (printMembers ((w, x) # ms) @ ''}'') = printStr w @ CHR '':'' # take i ?body"
      unfolding all take_append by simp
    have le: "i \<le> length (printJson x @ (if ms = [] then [] else CHR '','' # printMembers ms))"
      using 10(5) i by (simp split: if_splits)
    have skip: "tornResult (printStr w @ CHR '':'' # s) = tornResult s" for s
      by (simp add: tornResult_skip(2) [OF w] tornResult_skip(3))
    show ?thesis
    proof (cases "i < length (printJson x)")
      case True
      then have ti: "take i ?body = take i (printJson x)" by simp
      have "tornValue x (take i (printJson x)) (parseValue m (take i (printJson x)))"
        by (rule 10(1)) (use 10 n i True in simp_all)
      then show ?thesis unfolding n t member_step [OF w] ti skip by (rule tornValue_then) simp
    next
      case False
      let ?r = "take (i - length (printJson x)) ?more"
      have ti: "take i ?body = printJson x @ ?r" unfolding take_append using False by simp
      have v: "parseValue m (printJson x @ ?r) = Parsed x ?r"
        by (rule print_parts(1) [OF record_plain(1) [OF x]]) (use 10 n i False in \<open>auto simp: numberEnd_take\<close>)
      show ?thesis
      proof (cases "i = length (printJson x)")
        case True
        then show ?thesis unfolding n t member_step [OF w] ti skip using v by (simp add: tornResult_end [OF x])
      next
        case more: False
        then have ne: "ms \<noteq> []" using False le by auto
        obtain j where j: "i - length (printJson x) = Suc j" using more False by (cases "i - length (printJson x)") auto
        have r: "?r = CHR '','' # take j (printMembers ms @ ''}'')" using j ne by simp
        have "parseMembers m (take j (printMembers ms @ ''}'')) = tornResult (take j (printMembers ms @ ''}''))"
          by (rule 10(2)) (use 10(3-) n ne i j le in simp_all)
        then show ?thesis unfolding n t member_step [OF w] ti skip using v unfolding r
          by (simp add: tornResult_skip(1) [OF x] tornResult_skip(3) del: take_append)
      qed
    qed
  qed
qed simp_all

theorem parse_torn:
  assumes "recordJson (JObj ms)" "k < length (printJson (JObj ms))"
  shows "parseJson (take k (printJson (JObj ms))) =
    (if midEscape (take k (printJson (JObj ms))) then Malformed else Truncated)"
proof -
  let ?s = "take k (printJson (JObj ms))"
  have len: "length ?s = k" using assms(2) by simp
  have "tornValue (JObj ms) ?s (parseValue (Suc (2 * k)) ?s)"
    by (rule torn_parts(1) [OF assms]) simp
  then have "parseValue (Suc (2 * k)) ?s = tornResult ?s" by (simp add: tornValue_def)
  then show ?thesis unfolding parseJson_def len by (auto simp: tornResult_def)
qed

end
