(* ===== verification/Json_Indent.thy ===== *)
theory Json_Indent
  imports Go_Json
begin

text \<open>
  \<open>json.MarshalIndent(v, "", "  ")\<close>: every item and every member on a line of its own, two
  spaces for each level, a space after the colon; empty objects and arrays stay compact.
  \<open>parse_indented\<close>: the scanner reads it as the compact form.
\<close>

section \<open>Printing\<close>

definition newline :: "nat \<Rightarrow> string" where
  "newline d = CHR 0x0A # concat (replicate d ''  '')"

fun indentJson :: "nat \<Rightarrow> json \<Rightarrow> string"
and indentItems :: "nat \<Rightarrow> json list \<Rightarrow> string"
and indentMembers :: "nat \<Rightarrow> (string \<times> json) list \<Rightarrow> string" where
  "indentJson d JNull = ''null''"
| "indentJson d (JBool b) = (if b then ''true'' else ''false'')"
| "indentJson d (JNum l) = l"
| "indentJson d (JStr s) = printStr s"
| "indentJson d (JArr xs) = (if xs = [] then ''[]'' else ''['' @ indentItems (Suc d) xs @ newline d @ '']'')"
| "indentJson d (JObj ms) = (if ms = [] then ''{}'' else ''{'' @ indentMembers (Suc d) ms @ newline d @ ''}'')"
| "indentItems d [] = []"
| "indentItems d (x # xs) = newline d @ indentJson d x @ (if xs = [] then [] else '','' @ indentItems d xs)"
| "indentMembers d [] = []"
| "indentMembers d ((k, v) # ms) =
     newline d @ printStr k @ '': '' @ indentJson d v @ (if ms = [] then [] else '','' @ indentMembers d ms)"

definition printIndented :: "json \<Rightarrow> string" where
  "printIndented v = indentJson 0 v"

section \<open>Spaces between the parts\<close>

lemma space_char: "jsonSpace (CHR '' '')" "jsonSpace (CHR 0x0A)"
  by (simp_all add: jsonSpace_def)

lemma skip_newline [simp]: "skipSpace (newline d @ s) = skipSpace s"
proof -
  have "\<forall>c \<in> set (newline d). jsonSpace c" by (auto simp: newline_def space_char)
  then show ?thesis by (simp add: skipSpace_def dropWhile_append2)
qed

lemma skip_blank [simp]: "skipSpace (CHR '' '' # s) = skipSpace s"
  by (simp add: skipSpace_def space_char)

lemma skip_skip [simp]: "skipSpace (skipSpace s) = skipSpace s"
  by (simp add: skipSpace_def)

lemma parse_skip:
  "parseValue n (skipSpace s) = parseValue n s"
  "parseItems n (skipSpace s) = parseItems n s"
  "parseMembers n (skipSpace s) = parseMembers n s"
proof -
  have v: "parseValue n (skipSpace s) = parseValue n s" for n
    by (cases n) (simp_all add: parseValue.simps(2))
  then show "parseValue n (skipSpace s) = parseValue n s" .
  show "parseItems n (skipSpace s) = parseItems n s" by (cases n) (simp_all add: v)
  show "parseMembers n (skipSpace s) = parseMembers n s" by (cases n) simp_all
qed

lemma parse_spaced:
  "parseValue n (CHR '' '' # s) = parseValue n s"
  "parseItems n (newline d @ s) = parseItems n s"
  "parseMembers n (newline d @ s) = parseMembers n s"
  using parse_skip(1) [of n "CHR '' '' # s"] parse_skip(1) [of n s] parse_skip(2) [of n "newline d @ s"]
    parse_skip(2) [of n s] parse_skip(3) [of n "newline d @ s"] parse_skip(3) [of n s] by simp_all

lemma open_array:
  assumes "skipSpace t = c # u" "c \<noteq> CHR '']''"
  shows "parseValue (Suc n) (CHR ''['' # t) = thenParse (parseItems n t) (\<lambda>xs r. Parsed (JArr xs) r)"
  using assms parse_skip(2) [of n t] by (simp add: parseValue.simps(2))

lemma open_object:
  assumes "skipSpace t = c # u" "c \<noteq> CHR ''}''"
  shows "parseValue (Suc n) (CHR ''{'' # t) = thenParse (parseMembers n t) (\<lambda>ms r. Parsed (JObj ms) r)"
  using assms parse_skip(3) [of n t] by (simp add: parseValue.simps(2))

lemma numberEnd_newline: "numberEnd (newline d @ s)"
  by (simp add: newline_def numberEnd_def isDigit_def)

section \<open>Reading what was printed\<close>

lemma indent_head: "plainJson j \<Longrightarrow> \<exists>c t. indentJson d j = c # t \<and> valueStart c"
  using print_head [of j] by (cases j) (auto simp: valueStart_def jsonSpace_def)

lemma indent_leaf:
  "plainJson j \<Longrightarrow> numberEnd rest \<Longrightarrow> indentJson d j = printJson j \<Longrightarrow> 2 * length (indentJson d j) + 1 \<le> n \<Longrightarrow>
   parseValue n (indentJson d j @ rest) = Parsed j rest"
  using print_parts(1) [of j rest n] by simp

lemma indent_parts:
  "plainJson j \<Longrightarrow> numberEnd rest \<Longrightarrow> 2 * length (indentJson d j) + 1 \<le> n \<Longrightarrow>
     parseValue n (indentJson d j @ rest) = Parsed j rest"
  "plainItems xs \<Longrightarrow> xs \<noteq> [] \<Longrightarrow> 2 * length (indentItems d xs) + 2 \<le> n \<Longrightarrow>
     parseItems n (indentItems d xs @ newline e @ CHR '']'' # rest) = Parsed xs rest"
  "plainMembers ms \<Longrightarrow> ms \<noteq> [] \<Longrightarrow> 2 * length (indentMembers d ms) + 2 \<le> n \<Longrightarrow>
     parseMembers n (indentMembers d ms @ newline e @ CHR ''}'' # rest) = Parsed ms rest"
proof (induction d j and d xs and d ms arbitrary: n rest and n e rest and n e rest
    rule: indentJson_indentItems_indentMembers.induct)
  case (5 d xs n)
  then obtain m where n: "n = Suc m" by (cases n) auto
  show ?case
  proof (cases xs)
    case Nil
    then show ?thesis unfolding n by (simp add: parseValue.simps(2))
  next
    case (Cons x ys)
    then have "plainJson x" using 5(2) by simp
    then obtain c t where ct: "indentJson (Suc d) x = c # t" "valueStart c" using indent_head by blast
    have "parseItems m (indentItems (Suc d) xs @ newline d @ CHR '']'' # rest) = Parsed xs rest"
      by (rule 5(1)) (use 5 Cons n in simp_all)
    then show ?thesis unfolding n using Cons ct
        open_array [of "indentItems (Suc d) xs @ newline d @ CHR '']'' # rest"]
      by (simp add: valueStart_def)
  qed
next
  case (6 d ms n)
  then obtain m where n: "n = Suc m" by (cases n) auto
  show ?case
  proof (cases ms)
    case Nil
    then show ?thesis unfolding n by (simp add: parseValue.simps(2))
  next
    case (Cons x ys)
    have "parseMembers m (indentMembers (Suc d) ms @ newline d @ CHR ''}'' # rest) = Parsed ms rest"
      by (rule 6(1)) (use 6 Cons n in simp_all)
    then show ?thesis unfolding n using Cons
        open_object [of "indentMembers (Suc d) ms @ newline d @ CHR ''}'' # rest"]
      by (cases x) (simp add: printStr_def)
  qed
next
  case (8 d x xs n)
  then obtain m where n: "n = Suc m" by (cases n) auto
  have v: "parseValue m (indentJson d x @ s) = Parsed x s" if "numberEnd s" for s
    using 8(1) [of s m] 8 n that by simp
  show ?case
  proof (cases xs)
    case Nil
    then show ?thesis unfolding n using v by (simp add: parse_spaced numberEnd_newline)
  next
    case (Cons y ys)
    have "parseItems m (indentItems d xs @ newline e @ CHR '']'' # rest) = Parsed xs rest"
      by (rule 8(2)) (use 8(3-) n Cons in simp_all)
    moreover have "xs \<noteq> []" using Cons by simp
    ultimately show ?thesis unfolding n using v by (simp add: parse_spaced)
  qed
next
  case (10 d k x ms n)
  then obtain m where n: "n = Suc m" by (cases n) auto
  have v: "parseValue m (indentJson d x @ s) = Parsed x s" if "numberEnd s" for s
    using 10(1) [of s m] 10 n that by simp
  have k: "asciiText k" using 10 by simp
  show ?case
  proof (cases ms)
    case Nil
    then show ?thesis unfolding n
      using v [OF numberEnd_newline] member_step [OF k, of m "CHR '' '' # indentJson d x @ newline e @ CHR ''}'' # rest"]
      by (simp add: parse_spaced del: parseMembers.simps)
  next
    case (Cons y ys)
    have "parseMembers m (indentMembers d ms @ newline e @ CHR ''}'' # rest) = Parsed ms rest"
      by (rule 10(2)) (use 10(3-) n Cons in simp_all)
    then show ?thesis unfolding n
      using v Cons member_step [OF k, of m "CHR '' '' # indentJson d x @ CHR '','' # indentMembers d ms @ newline e @ CHR ''}'' # rest"]
      by (simp add: parse_spaced del: parseMembers.simps)
  qed
next
  case 1
  then show ?case by (intro indent_leaf) simp_all
next
  case 2
  then show ?case by (intro indent_leaf) simp_all
next
  case 3
  then show ?case by (intro indent_leaf) simp_all
next
  case 4
  then show ?case by (intro indent_leaf) simp_all
qed simp_all

theorem parse_indented:
  assumes "plainJson j" shows "parseJson (printIndented j) = Parsed j []"
  using indent_parts(1) [OF assms, of "[]"] by (simp add: parseJson_def printIndented_def)

end
