(* ===== verification/Go_Unmarshal.thy ===== *)
theory Go_Unmarshal
  imports Go_Json Scaler_Domain
begin

text \<open>
  What the JSON forms of the persisted files share: times and their range, the fields of type
  \<open>string\<close>, \<open>int64\<close>, \<open>[]string\<close> and \<open>time.Time\<close> as \<open>json.Unmarshal\<close> sets them, the errors of
  a text that does not scan. A time is an instant and is written in UTC; the message of a type
  error leaves out the offset and the field.
\<close>

section \<open>Encoding\<close>

text \<open>\<open>Time.MarshalJSON\<close> refuses years outside 0 to 9999.\<close>

definition yearInRange :: "gotime \<Rightarrow> bool" where
  "yearInRange t = (let (y, m, d) = civil (t div day) in 0 \<le> y \<and> y \<le> 9999)"

definition yearError :: gerror where
  "yearError = ''json: error calling MarshalJSON for type time.Time: year outside of range [0,9999]''"

definition textsJson :: "string list \<Rightarrow> json" where
  "textsJson xs = JArr (map JStr xs)"

section \<open>Decoding\<close>

definition typeError :: "string \<Rightarrow> gerror" where
  "typeError what = ''json: cannot unmarshal value into Go value of type '' @ what"

text \<open>A \<open>null\<close> leaves a field as it is.\<close>

fun decodeText :: "json \<Rightarrow> string \<Rightarrow> string result" where
  "decodeText (JStr s) old = Inr s"
| "decodeText JNull old = Inr old"
| "decodeText v old = Inl (typeError ''string'')"

fun decodeInt :: "json \<Rightarrow> int \<Rightarrow> int result" where
  "decodeInt (JNum l) old = (case parse_int l of None \<Rightarrow> Inl (typeError ''int64'') | Some i \<Rightarrow> Inr i)"
| "decodeInt JNull old = Inr old"
| "decodeInt v old = Inl (typeError ''int64'')"

fun decodeTime :: "json \<Rightarrow> gotime \<Rightarrow> gotime result" where
  "decodeTime (JStr s) old = (case parseRfc3339 s of None \<Rightarrow> Inl (''parsing time '' @ s) | Some t \<Rightarrow> Inr t)"
| "decodeTime JNull old = Inr old"
| "decodeTime v old = Inl ''Time.UnmarshalJSON: input is not a JSON string''"

definition mapResult :: "('a \<Rightarrow> 'b) \<Rightarrow> 'a result \<Rightarrow> 'b result" where
  "mapResult f r = (case r of Inl err \<Rightarrow> Inl err | Inr a \<Rightarrow> Inr (f a))"

text \<open>An array is decoded into the slice the field has, item by item; \<open>null\<close> sets it to nil.\<close>

fun decodeTexts :: "json list \<Rightarrow> string list \<Rightarrow> string list result" where
  "decodeTexts [] old = Inr []"
| "decodeTexts (v # vs) old =
     (case decodeText v (case old of [] \<Rightarrow> [] | t # ts \<Rightarrow> t) of
        Inl err \<Rightarrow> Inl err
      | Inr t \<Rightarrow> mapResult (Cons t) (decodeTexts vs (drop 1 old)))"

fun decodeTextList :: "json \<Rightarrow> string list \<Rightarrow> string list result" where
  "decodeTextList (JArr vs) old = decodeTexts vs old"
| "decodeTextList JNull old = Inr []"
| "decodeTextList v old = Inl (typeError ''[]string'')"

text \<open>\<open>json.Unmarshal\<close>: the text is scanned as a whole before the value is set.\<close>

definition unmarshal :: "(json \<Rightarrow> 'a result) \<Rightarrow> string \<Rightarrow> 'a result" where
  "unmarshal decode text =
     (case parseJson text of
        Truncated \<Rightarrow> Inl ''unexpected end of JSON input''
      | Malformed \<Rightarrow> Inl ''invalid character in JSON text''
      | Parsed v rest \<Rightarrow> decode v)"

lemma mapResult_Inr [simp]: "mapResult f (Inr a) = Inr (f a)" "mapResult f (Inl e) = Inl e"
  by (simp_all add: mapResult_def)

lemma decode_texts: "decodeTexts (map JStr xs) old = Inr xs"
  by (induction xs arbitrary: old) simp_all

lemma decode_textList: "decodeTextList (textsJson xs) old = Inr xs"
  by (simp add: textsJson_def decode_texts)

section \<open>ASCII text\<close>

lemma asciiText_append [simp]: "asciiText (s @ t) \<longleftrightarrow> asciiText s \<and> asciiText t"
  by (simp add: asciiText_def)

lemma asciiText_set: "asciiText s \<longleftrightarrow> (\<forall>c \<in> set s. (of_char c :: nat) < 128)"
  by (simp add: asciiText_def list_all_iff)

lemma itoa_ascii: "asciiText (itoa i)"
  using nat_dec_digits by (fastforce simp: asciiText_set itoa_def)

lemma pad_ascii: "asciiText (pad w i)"
  using itoa_ascii [of i] by (auto simp: asciiText_set pad_def Let_def)

lemma fraction_ascii: "asciiText (fraction ns)"
  using pad_ascii [of 9 ns] set_dropWhileD by (fastforce simp: asciiText_set fraction_def)

lemma formatTime_ascii: "asciiText (formatTime nano t)"
  by (simp add: formatTime_def Let_def case_prod_beta pad_ascii fraction_ascii)

lemma plain_texts: "plainJson (textsJson xs) \<longleftrightarrow> list_all asciiText xs"
proof -
  have "plainItems (map JStr xs) \<longleftrightarrow> list_all asciiText xs" by (induction xs) simp_all
  then show ?thesis by (simp add: textsJson_def)
qed

lemma plainMembers_append: "plainMembers (xs @ ys) \<longleftrightarrow> plainMembers xs \<and> plainMembers ys"
  by (induction xs) auto

lemma printable_year:
  assumes "printableTime t" shows "yearInRange t"
proof -
  have day: "0 < day" by (simp add: day_def hour_def minute_def second_def)
  have "0 \<le> t div day" "t div day < 3652059"
    using assms day div_less_int [OF day, of t 3652059] by (simp_all add: printableTime_def pos_imp_zdiv_nonneg_iff)
  then have "1 \<le> fst (yearOfDay (t div day)) \<and> fst (yearOfDay (t div day)) \<le> 9999" by (rule year_bounds)
  moreover obtain y m d where "civil (t div day) = (y, m, d)" by (cases "civil (t div day)") auto
  ultimately show ?thesis using civil_round [of "t div day" y m d] by (simp add: yearInRange_def)
qed

end
