(* ===== verification/Demand_State.thy ===== *)
theory Demand_State
  imports File_System Json_Indent Go_Unmarshal "HOL-Library.Char_ord" "HOL-Library.List_Lexorder"
begin

text \<open>
  The JSON form of the demand file: \<open>persistedState\<close> of \<open>internal/demand/tracker.go\<close> and
  \<open>domain.QueuedJob\<close>, as \<open>json.MarshalIndent\<close> writes them and \<open>json.Unmarshal\<close> reads them.
  \<open>state_roundtrip\<close>: jobs with ASCII text, 64-bit IDs and times of the years 1 to 9999 come back
  with every field, sorted by group and by ID as text.
\<close>

section \<open>The jobs and groups\<close>

type_synonym jobs = "(int \<times> queuedJob) list"
type_synonym groups = "(string \<times> jobs) list"

section \<open>Encoding\<close>

text \<open>The keys of a map are sorted as text, numbers in decimal.\<close>

definition jobJson :: "queuedJob \<Rightarrow> json" where
  "jobJson j =
     JObj ([(''id'', JNum (itoa (q_ID j))), (''repo'', JStr (q_Repo j))]
       @ (if q_Labels j = [] then [] else [(''labels'', textsJson (q_Labels j))])
       @ [(''queued_at'', JStr (rfc3339Nano (q_QueuedAt j)))])"

definition jobsJson :: "jobs \<Rightarrow> json" where
  "jobsJson js = JObj (sort_key fst (map (\<lambda>(i, j). (itoa i, jobJson j)) js))"

definition stateJson :: "groups \<Rightarrow> json" where
  "stateJson gs = JObj [(''groups'', JObj (sort_key fst (map (\<lambda>(g, js). (g, jobsJson js)) gs)))]"

definition marshalState :: "groups \<Rightarrow> string result" where
  "marshalState gs =
     (if list_all (\<lambda>(g, js). list_all (\<lambda>(i, j). yearInRange (q_QueuedAt j)) js) gs
      then Inr (printIndented (stateJson gs)) else Inl yearError)"

section \<open>Decoding\<close>

definition zeroJob :: queuedJob where
  "zeroJob = \<lparr>q_ID = 0, q_Repo = [], q_Labels = [], q_QueuedAt = 0\<rparr>"

definition setJobMember :: "string \<Rightarrow> json \<Rightarrow> queuedJob \<Rightarrow> queuedJob result" where
  "setJobMember key v j =
     (let k = to_lower key in
      if k = ''id'' then mapResult (\<lambda>i. j\<lparr>q_ID := i\<rparr>) (decodeInt v (q_ID j))
      else if k = ''repo'' then mapResult (\<lambda>s. j\<lparr>q_Repo := s\<rparr>) (decodeText v (q_Repo j))
      else if k = ''labels'' then mapResult (\<lambda>ls. j\<lparr>q_Labels := ls\<rparr>) (decodeTextList v (q_Labels j))
      else if k = ''queued_at'' then mapResult (\<lambda>t. j\<lparr>q_QueuedAt := t\<rparr>) (decodeTime v (q_QueuedAt j))
      else Inr j)"

fun setJobMembers :: "(string \<times> json) list \<Rightarrow> queuedJob \<Rightarrow> queuedJob result" where
  "setJobMembers [] j = Inr j"
| "setJobMembers ((k, v) # ms) j =
     (case setJobMember k v j of Inl err \<Rightarrow> Inl err | Inr j' \<Rightarrow> setJobMembers ms j')"

fun decodeJob :: "json \<Rightarrow> queuedJob result" where
  "decodeJob (JObj ms) = setJobMembers ms zeroJob"
| "decodeJob JNull = Inr zeroJob"
| "decodeJob v = Inl (typeError ''domain.QueuedJob'')"

text \<open>The elements of a map are decoded from zero and stored under their key, the last one of
  equal keys.\<close>

fun decodeJobMembers :: "(string \<times> json) list \<Rightarrow> jobs \<Rightarrow> jobs result" where
  "decodeJobMembers [] acc = Inr acc"
| "decodeJobMembers ((k, v) # ms) acc =
     (case decodeJob v of
        Inl err \<Rightarrow> Inl err
      | Inr j \<Rightarrow>
          (case parse_int k of
             None \<Rightarrow> Inl (typeError ''int64'')
           | Some i \<Rightarrow> decodeJobMembers ms (AList.update i j acc)))"

fun decodeJobs :: "json \<Rightarrow> jobs result" where
  "decodeJobs (JObj ms) = decodeJobMembers ms []"
| "decodeJobs JNull = Inr []"
| "decodeJobs v = Inl (typeError ''map[int64]domain.QueuedJob'')"

fun decodeGroupMembers :: "(string \<times> json) list \<Rightarrow> groups \<Rightarrow> groups result" where
  "decodeGroupMembers [] acc = Inr acc"
| "decodeGroupMembers ((g, v) # ms) acc =
     (case decodeJobs v of
        Inl err \<Rightarrow> Inl err
      | Inr js \<Rightarrow> decodeGroupMembers ms (AList.update g js acc))"

fun decodeGroups :: "json \<Rightarrow> groups \<Rightarrow> groups result" where
  "decodeGroups (JObj ms) old = decodeGroupMembers ms old"
| "decodeGroups JNull old = Inr []"
| "decodeGroups v old = Inl (typeError ''map[string]map[int64]domain.QueuedJob'')"

fun decodeStateMembers :: "(string \<times> json) list \<Rightarrow> groups \<Rightarrow> groups result" where
  "decodeStateMembers [] gs = Inr gs"
| "decodeStateMembers ((k, v) # ms) gs =
     (if to_lower k = ''groups'' then
        (case decodeGroups v gs of Inl err \<Rightarrow> Inl err | Inr gs' \<Rightarrow> decodeStateMembers ms gs')
      else decodeStateMembers ms gs)"

text \<open>The state is decoded into one with an empty map; \<open>null\<close> leaves it as it is.\<close>

fun decodeState :: "json \<Rightarrow> groups result" where
  "decodeState (JObj ms) = decodeStateMembers ms []"
| "decodeState JNull = Inr []"
| "decodeState v = Inl (typeError ''demand.persistedState'')"

definition unmarshalState :: "string \<Rightarrow> groups result" where
  "unmarshalState data = unmarshal decodeState data"

section \<open>Round trip\<close>

definition jobOk :: "queuedJob \<Rightarrow> bool" where
  "jobOk j \<longleftrightarrow> - (2 ^ 63) \<le> q_ID j \<and> q_ID j < 2 ^ 63 \<and> asciiText (q_Repo j) \<and>
     list_all asciiText (q_Labels j) \<and> printableTime (q_QueuedAt j)"

text \<open>The groups and the jobs of a group are Go maps, and each job is stored under its ID.\<close>

definition jobsOk :: "jobs \<Rightarrow> bool" where
  "jobsOk js \<longleftrightarrow> goMap js \<and> list_all (\<lambda>(i, j). q_ID j = i) js"

definition storableJobs :: "jobs \<Rightarrow> bool" where
  "storableJobs js \<longleftrightarrow> jobsOk js \<and> list_all (\<lambda>(i, j). jobOk j) js"

definition storableGroups :: "groups \<Rightarrow> bool" where
  "storableGroups gs \<longleftrightarrow> goMap gs \<and> list_all (\<lambda>(g, js). asciiText g \<and> storableJobs js) gs"

text \<open>The order in which a file lists the jobs and the groups.\<close>

definition sortedJobs :: "jobs \<Rightarrow> jobs" where
  "sortedJobs js = sort_key (\<lambda>ij. itoa (fst ij)) js"

definition sortedGroups :: "groups \<Rightarrow> groups" where
  "sortedGroups gs = sort_key fst (map (\<lambda>(g, js). (g, sortedJobs js)) gs)"

lemma sort_goMap [simp]: "goMap (sort_key f m) \<longleftrightarrow> goMap m"
  by (simp add: goMap_def distinct_map)

lemma map_snd_goMap [simp]: "goMap (map (\<lambda>(k, v). (k, f v)) m) \<longleftrightarrow> goMap m"
  by (simp add: goMap_def comp_def case_prod_beta)

lemma map_of_map_values: "map_of (map (\<lambda>(k, v). (k, f v)) m) k = map_option f (map_of m k)"
  by (induction m) auto

lemma map_of_sort: "goMap m \<Longrightarrow> map_of (sort_key f m) k = map_of m k"
  by (metis goMap_mem not_Some_eq set_sort sort_goMap)

lemma sortedJobs_same: "goMap js \<Longrightarrow> goMap (sortedJobs js) \<and> map_of (sortedJobs js) = map_of js"
  by (simp add: sortedJobs_def map_of_sort fun_eq_iff)

lemma decode_job: "jobOk j \<Longrightarrow> decodeJob (jobJson j) = Inr j"
  by (simp add: jobJson_def jobOk_def setJobMember_def zeroJob_def to_lower_def lower_char_def
      parse_int_itoa parse_rfc3339Nano decode_textList)

lemma plain_job: "jobOk j \<Longrightarrow> plainJson (jobJson j)"
  by (auto simp: jobJson_def jobOk_def plainMembers_append plain_texts rfc3339Nano_def formatTime_ascii)

lemma update_fresh: "k \<notin> fst ` set m \<Longrightarrow> AList.update k v m = m @ [(k, v)]"
  by (induction m) auto

lemma decode_jobMembers:
  "distinct (map fst (acc @ js)) \<Longrightarrow> list_all (\<lambda>(i, j). q_ID j = i \<and> jobOk j) js \<Longrightarrow>
   decodeJobMembers (map (\<lambda>(i, j). (itoa i, jobJson j)) js) acc = Inr (acc @ js)"
proof (induction js arbitrary: acc)
  case (Cons a js)
  obtain i j where a: "a = (i, j)" by force
  then have "jobOk j" "parse_int (itoa i) = Some i" "i \<notin> fst ` set acc"
    using Cons.prems by (auto simp: jobOk_def intro: parse_int_itoa)
  then show ?case using Cons.IH [of "acc @ [a]"] Cons.prems by (simp add: a decode_job update_fresh)
qed simp

lemma sort_map: "sort_key f (map g xs) = map g (sort_key (\<lambda>x. f (g x)) xs)"
proof -
  have "insort_key f (g x) (map g ys) = map g (insort_key (\<lambda>x. f (g x)) x ys)" for x ys
    by (induction ys) auto
  then show ?thesis by (induction xs) auto
qed

lemma decode_jobs: "storableJobs js \<Longrightarrow> decodeJobs (jobsJson js) = Inr (sortedJobs js)"
proof -
  assume s: "storableJobs js"
  have "distinct (map fst ([] @ sortedJobs js))"
    using s sortedJobs_same by (simp add: storableJobs_def jobsOk_def goMap_def)
  moreover have "list_all (\<lambda>(i, j). q_ID j = i \<and> jobOk j) (sortedJobs js)"
    using s by (auto simp: sortedJobs_def storableJobs_def jobsOk_def list_all_iff)
  ultimately have "decodeJobMembers (map (\<lambda>(i, j). (itoa i, jobJson j)) (sortedJobs js)) [] = Inr ([] @ sortedJobs js)"
    by (rule decode_jobMembers)
  then show ?thesis
    unfolding jobsJson_def sort_map by (simp add: sortedJobs_def case_prod_beta comp_def)
qed

lemma decode_groupMembers:
  "distinct (map fst (acc @ map (\<lambda>(g, js). (g, sortedJobs js)) gs)) \<Longrightarrow> list_all (\<lambda>(g, js). storableJobs js) gs \<Longrightarrow>
   decodeGroupMembers (map (\<lambda>(g, js). (g, jobsJson js)) gs) acc = Inr (acc @ map (\<lambda>(g, js). (g, sortedJobs js)) gs)"
proof (induction gs arbitrary: acc)
  case (Cons a gs)
  obtain g js where a: "a = (g, js)" by force
  then have "storableJobs js" "g \<notin> fst ` set acc" using Cons.prems by auto
  then show ?case using Cons.IH [of "acc @ [(g, sortedJobs js)]"] Cons.prems by (simp add: a decode_jobs update_fresh)
qed simp

lemma decode_state:
  assumes "storableGroups gs" shows "decodeState (stateJson gs) = Inr (sortedGroups gs)"
proof -
  have "goMap (map (\<lambda>(g, js). (g, sortedJobs js)) (sort_key fst gs))"
    using assms by (simp add: storableGroups_def)
  then have d: "distinct (map fst ([] @ map (\<lambda>(g, js). (g, sortedJobs js)) (sort_key fst gs)))"
    by (simp only: goMap_def append_Nil)
  have l: "list_all (\<lambda>(g, js). storableJobs js) (sort_key fst gs)"
    using assms by (auto simp: storableGroups_def list_all_iff)
  have "sort_key fst (map (\<lambda>(g, js). (g, jobsJson js)) gs) = map (\<lambda>(g, js). (g, jobsJson js)) (sort_key fst gs)"
    "sortedGroups gs = map (\<lambda>(g, js). (g, sortedJobs js)) (sort_key fst gs)"
    unfolding sortedGroups_def sort_map by (simp_all add: case_prod_beta)
  then show ?thesis
    using decode_groupMembers [OF d l] by (simp add: stateJson_def to_lower_def lower_char_def)
qed

lemma plain_members: "plainMembers ms \<longleftrightarrow> list_all (\<lambda>(k, v). asciiText k \<and> plainJson v) ms"
  by (induction ms) auto

lemma plain_state:
  assumes "storableGroups gs" shows "plainJson (stateJson gs)"
proof -
  have "plainJson (jobsJson js)" if "storableJobs js" for js
    using that by (auto simp: jobsJson_def plain_members list_all_iff storableJobs_def plain_job itoa_ascii)
  then show ?thesis
    using assms by (auto simp: stateJson_def plain_members list_all_iff storableGroups_def)
qed

lemma marshal_storable_state:
  assumes "storableGroups gs" shows "marshalState gs = Inr (printIndented (stateJson gs))"
proof -
  have "yearInRange (q_QueuedAt j)" if "(g, js) \<in> set gs" "(i, j) \<in> set js" for g js i j
  proof (rule printable_year)
    have "storableJobs js" using assms that(1) by (auto simp: storableGroups_def list_all_iff)
    then have "jobOk j" using that(2) by (auto simp: storableJobs_def list_all_iff)
    then show "printableTime (q_QueuedAt j)" by (simp add: jobOk_def)
  qed
  then show ?thesis by (auto simp: marshalState_def list_all_iff)
qed

theorem state_roundtrip:
  assumes "storableGroups gs" "marshalState gs = Inr data"
  shows "unmarshalState data = Inr (sortedGroups gs)"
proof -
  have "data = printIndented (stateJson gs)" using assms by (simp add: marshal_storable_state)
  then show ?thesis
    using parse_indented [OF plain_state] decode_state assms(1) by (simp add: unmarshalState_def unmarshal_def)
qed

lemma sortedGroups_same:
  "goMap gs \<Longrightarrow> goMap (sortedGroups gs) \<and> map_of (sortedGroups gs) g = map_option sortedJobs (map_of gs g)"
  by (simp add: sortedGroups_def map_of_sort map_of_map_values)

end
