(* ===== verification/Demand_Tracker.thy ===== *)
theory Demand_Tracker
  imports Demand_State
begin

text \<open>
  The persisted demand of queued workflow jobs, \<open>internal/demand/tracker.go\<close>. The clock of
  an operation is a function \<open>clk\<close>: \<open>clk k\<close> is its \<open>k\<close>-th reading. The file holds the bytes of
  \<open>marshalState\<close>; the stages of writing it have faults given by the environment. The
  interface the daemon relies on is the locale \<open>demand_store\<close>.
\<close>

section \<open>The tracker\<close>

type_synonym clock = "nat \<Rightarrow> gotime"
type_synonym faults = "(string \<times> gerror option) list"

record tracker =
  tk_path :: string
  tk_ttl :: duration
  tk_groups :: groups

datatype demandFile = NoFile | Unreadable gerror | Holds string

definition expiredJob :: "duration \<Rightarrow> gotime \<Rightarrow> queuedJob \<Rightarrow> bool" where
  "expiredJob ttl now j \<longleftrightarrow> q_QueuedAt j < now - ttl"

definition pruneJobs :: "duration \<Rightarrow> gotime \<Rightarrow> jobs \<Rightarrow> jobs" where
  "pruneJobs ttl now js = filter (\<lambda>(i, j). \<not> expiredJob ttl now j) js"

definition pruneLocked :: "gotime \<Rightarrow> tracker \<Rightarrow> tracker" where
  "pruneLocked now t =
     t\<lparr>tk_groups := filter (\<lambda>(g, js). js \<noteq> [])
        (map (\<lambda>(g, js). (g, pruneJobs (tk_ttl t) now js)) (tk_groups t))\<rparr>"

text \<open>The stages of \<open>persistLocked\<close> are those of \<open>atomicReplace\<close>; \<open>persistStages\<close> names
  them in order. The second is the encoding, which has its own error.\<close>

definition persistStages :: "(nat \<Rightarrow> gerror option) \<Rightarrow> string result \<Rightarrow> faults" where
  "persistStages fault encoded =
     [(''create demand state directory'', fault 0),
      (''encode demand state'', case encoded of Inl err \<Rightarrow> Some err | Inr data \<Rightarrow> None),
      (''create demand state temp file'', fault 1), (''set demand state permissions'', fault 2),
      (''write demand state'', fault 3), (''sync demand state'', fault 4),
      (''close demand state'', fault 5), (''replace demand state'', fault 6)]"

definition persistLocked :: "(nat \<Rightarrow> gerror option) \<Rightarrow> tracker \<Rightarrow> demandFile \<Rightarrow> gerror option \<times> demandFile" where
  "persistLocked fault t file =
     (let encoded = marshalState (tk_groups t);
          written = (case encoded of Inl err \<Rightarrow> file | Inr data \<Rightarrow> Holds data)
      in case atomicReplace (persistStages fault encoded) written (Some file) of
           (err, Some file') \<Rightarrow> (err, file')
         | (err, None) \<Rightarrow> (err, file))"

definition NewTracker :: "string \<Rightarrow> duration \<Rightarrow> clock \<Rightarrow> demandFile \<Rightarrow> tracker result" where
  "NewTracker path ttl clk file =
     (if path = [] then Inl ''demand state path is required''
      else if ttl \<le> 0 then Inl ''demand TTL must be positive''
      else (let t = \<lparr>tk_path = path, tk_ttl = ttl, tk_groups = []\<rparr> in
        case file of
          NoFile \<Rightarrow> Inr t
        | Unreadable err \<Rightarrow> Inl (''read demand state: '' @ err)
        | Holds data \<Rightarrow>
            (case unmarshalState data of
               Inl err \<Rightarrow> Inl (''decode demand state: '' @ err)
             | Inr gs \<Rightarrow> Inr (pruneLocked (clk 0) (t\<lparr>tk_groups := gs\<rparr>)))))"

text \<open>\<open>jobsOf\<close>: reading a missing group gives a nil map, without jobs.\<close>

definition jobsOf :: "tracker \<Rightarrow> string \<Rightarrow> jobs" where
  "jobsOf t g = (case map_of (tk_groups t) g of None \<Rightarrow> [] | Some js \<Rightarrow> js)"

definition stampJob :: "gotime \<Rightarrow> queuedJob \<Rightarrow> queuedJob" where
  "stampJob now j = (if isZero (q_QueuedAt j) then j\<lparr>q_QueuedAt := now\<rparr> else j)"

text \<open>Every operation returns its error, the tracker and the file.\<close>

definition QueueJob ::
  "clock \<Rightarrow> (nat \<Rightarrow> gerror option) \<Rightarrow> tracker \<Rightarrow> demandFile \<Rightarrow> string \<Rightarrow> queuedJob
   \<Rightarrow> gerror option \<times> tracker \<times> demandFile" where
  "QueueJob clk fault t file groupID job =
     (if groupID = [] then (Some ''runner group is required'', t, file)
      else if q_ID job = 0 then (Some ''job ID is required'', t, file)
      else (let t1 = pruneLocked (clk 0) t;
                job1 = stampJob (clk 1) job;
                t2 = t1\<lparr>tk_groups := AList.update groupID
                       (AList.update (q_ID job1) job1 (jobsOf t1 groupID)) (tk_groups t1)\<rparr>;
                (err, file') = persistLocked fault t2 file
            in (err, t2, file')))"

definition ClearJob ::
  "clock \<Rightarrow> (nat \<Rightarrow> gerror option) \<Rightarrow> tracker \<Rightarrow> demandFile \<Rightarrow> string \<Rightarrow> int
   \<Rightarrow> gerror option \<times> tracker \<times> demandFile" where
  "ClearJob clk fault t file groupID jobID =
     (let t1 = pruneLocked (clk 0) t;
          t2 = (case map_of (tk_groups t1) groupID of
                  None \<Rightarrow> t1
                | Some js \<Rightarrow> (let js' = AList.delete jobID js in
                    t1\<lparr>tk_groups := (if js' = [] then AList.delete groupID (tk_groups t1)
                                     else AList.update groupID js' (tk_groups t1))\<rparr>));
          (err, file') = persistLocked fault t2 file
      in (err, t2, file'))"

text \<open>The replacement map of \<open>Replace\<close>; \<open>k\<close> counts the readings of the clock.\<close>

fun replacementJobs :: "clock \<Rightarrow> nat \<Rightarrow> queuedJob list \<Rightarrow> jobs \<Rightarrow> jobs" where
  "replacementJobs clk k [] acc = acc"
| "replacementJobs clk k (job # js) acc =
     (if q_ID job = 0 then replacementJobs clk k js acc
      else replacementJobs clk (if isZero (q_QueuedAt job) then Suc k else k) js
             (AList.update (q_ID job) (stampJob (clk k) job) acc))"

definition ReplaceJobs ::
  "clock \<Rightarrow> (nat \<Rightarrow> gerror option) \<Rightarrow> tracker \<Rightarrow> demandFile \<Rightarrow> string \<Rightarrow> queuedJob list
   \<Rightarrow> gerror option \<times> tracker \<times> demandFile" where
  "ReplaceJobs clk fault t file groupID js =
     (if groupID = [] then (Some ''runner group is required'', t, file)
      else (let t1 = pruneLocked (clk 0) t;
                replacement = replacementJobs clk 1 js [];
                t2 = t1\<lparr>tk_groups := (if replacement = [] then AList.delete groupID (tk_groups t1)
                                      else AList.update groupID replacement (tk_groups t1))\<rparr>;
                (err, file') = persistLocked fault t2 file
            in (err, t2, file')))"

fun oldestAge :: "gotime \<Rightarrow> duration \<Rightarrow> jobs \<Rightarrow> duration" where
  "oldestAge now acc [] = acc"
| "oldestAge now acc ((i, job) # js) =
     (let age = time_sub now (q_QueuedAt job) in oldestAge now (if age > acc then age else acc) js)"

definition Snapshot :: "clock \<Rightarrow> tracker \<Rightarrow> string \<Rightarrow> capacityDemand \<times> tracker" where
  "Snapshot clk t groupID =
     (let t1 = pruneLocked (clk 0) t; js = jobsOf t1 groupID
      in (\<lparr>d_QueuedJobs = int (length js), d_OldestAge = oldestAge (clk 1) 0 js\<rparr>, t1))"

definition ActiveGroups :: "clock \<Rightarrow> tracker \<Rightarrow> string list \<times> tracker" where
  "ActiveGroups clk t =
     (let t1 = pruneLocked (clk 0) t
      in (sort (map fst (filter (\<lambda>(g, js). length js > 0) (tk_groups t1))), t1))"

section \<open>Well-formed trackers\<close>

definition trackerOk :: "tracker \<Rightarrow> bool" where
  "trackerOk t \<longleftrightarrow> goMap (tk_groups t) \<and> list_all (\<lambda>(g, js). jobsOk js) (tk_groups t)"

text \<open>The jobs of a group that are alive at a time.\<close>

definition liveJobs :: "tracker \<Rightarrow> gotime \<Rightarrow> string \<Rightarrow> int set" where
  "liveJobs t now g = {i. \<exists>j. map_of (jobsOf t g) i = Some j \<and> \<not> expiredJob (tk_ttl t) now j}"

lemma jobsOk_iff: "jobsOk js \<longleftrightarrow> goMap js \<and> (\<forall>i j. map_of js i = Some j \<longrightarrow> q_ID j = i)"
  by (cases "goMap js") (auto simp: jobsOk_def list_all_iff simp flip: goMap_mem)

lemma pruneJobs_lookup:
  "goMap js \<Longrightarrow> map_of (pruneJobs ttl now js) i =
     (case map_of js i of None \<Rightarrow> None | Some j \<Rightarrow> if expiredJob ttl now j then None else Some j)"
  by (auto simp: pruneJobs_def map_of_filter split: option.splits)

lemma jobsOk_simps [simp]:
  "jobsOk []"
  "jobsOk js \<Longrightarrow> q_ID j = i \<Longrightarrow> jobsOk (AList.update i j js)"
  "jobsOk js \<Longrightarrow> jobsOk (AList.delete i js)"
  "jobsOk js \<Longrightarrow> jobsOk (pruneJobs ttl now js)"
  by (auto simp: jobsOk_iff pruneJobs_lookup split: option.splits if_splits) (simp add: pruneJobs_def)

lemma trackerOk_iff:
  "trackerOk t \<longleftrightarrow> goMap (tk_groups t) \<and> (\<forall>g js. map_of (tk_groups t) g = Some js \<longrightarrow> jobsOk js)"
  by (cases "goMap (tk_groups t)") (auto simp: trackerOk_def list_all_iff simp flip: goMap_mem)

lemma trackerOk_jobs [simp]: "trackerOk t \<Longrightarrow> jobsOk (jobsOf t g)"
  by (auto simp: trackerOk_iff jobsOf_def split: option.splits)

lemma prune_groups_lookup:
  assumes "trackerOk t"
  shows "map_of (tk_groups (pruneLocked now t)) g =
     (case map_of (tk_groups t) g of None \<Rightarrow> None
      | Some js \<Rightarrow> (let js' = pruneJobs (tk_ttl t) now js in if js' = [] then None else Some js'))"
  using assms
  by (auto simp: pruneLocked_def trackerOk_def map_of_filter map_of_map_values Let_def
      split: option.splits)

lemma prune_ttl [simp]: "tk_ttl (pruneLocked now t) = tk_ttl t"
  by (simp add: pruneLocked_def)

lemma prune_ok [simp]: "trackerOk t \<Longrightarrow> trackerOk (pruneLocked now t)"
proof -
  assume t: "trackerOk t"
  then have "goMap (tk_groups (pruneLocked now t))"
    by (simp add: pruneLocked_def trackerOk_def)
  with t show ?thesis
    by (auto simp: trackerOk_iff [of "pruneLocked now t"] prune_groups_lookup Let_def trackerOk_iff [of t]
        split: option.splits if_splits)
qed

lemma jobsOf_prune: "trackerOk t \<Longrightarrow> jobsOf (pruneLocked now t) g = pruneJobs (tk_ttl t) now (jobsOf t g)"
  by (auto simp: jobsOf_def prune_groups_lookup Let_def pruneJobs_def split: option.splits)

lemma live_prune: "trackerOk t \<Longrightarrow> now \<le> now' \<Longrightarrow> liveJobs (pruneLocked now t) now' g = liveJobs t now' g"
  using trackerOk_jobs [of t g]
  by (auto simp: liveJobs_def jobsOf_prune jobsOk_def pruneJobs_lookup expiredJob_def split: option.splits if_splits)

lemma jobsOf_update [simp]:
  "jobsOf (t\<lparr>tk_groups := AList.update g js gs\<rparr>) g' = (if g' = g then js else jobsOf (t\<lparr>tk_groups := gs\<rparr>) g')"
  "jobsOf (t\<lparr>tk_groups := AList.delete g gs\<rparr>) g' = (if g' = g then [] else jobsOf (t\<lparr>tk_groups := gs\<rparr>) g')"
  by (auto simp: jobsOf_def)

lemma setGroup_ok:
  "trackerOk t \<Longrightarrow> jobsOk js \<Longrightarrow> trackerOk (t\<lparr>tk_groups := AList.update g js (tk_groups t)\<rparr>)"
  "trackerOk t \<Longrightarrow> trackerOk (t\<lparr>tk_groups := AList.delete g (tk_groups t)\<rparr>)"
  by (auto simp: trackerOk_iff split: if_splits)

section \<open>The interface of the demand store\<close>

text \<open>One operation, with its clock and the faults of its disk.\<close>

datatype demandOp =
    OpQueue clock "nat \<Rightarrow> gerror option" string queuedJob
  | OpClear clock "nat \<Rightarrow> gerror option" string int
  | OpReplace clock "nat \<Rightarrow> gerror option" string "queuedJob list"

text \<open>What the operations mean for the set of job IDs that wait in each group.\<close>

fun waitingStep :: "(string \<Rightarrow> int set) \<Rightarrow> demandOp \<Rightarrow> (string \<Rightarrow> int set)" where
  "waitingStep W (OpQueue clk fl g j) = (if g = [] \<or> q_ID j = 0 then W else W(g := insert (q_ID j) (W g)))"
| "waitingStep W (OpClear clk fl g i) = W(g := W g - {i})"
| "waitingStep W (OpReplace clk fl g js) = (if g = [] then W else W(g := set (map q_ID js) - {0}))"

text \<open>The jobs of a replacement with the times they are stored with.\<close>

fun stampJobs :: "clock \<Rightarrow> nat \<Rightarrow> queuedJob list \<Rightarrow> queuedJob list" where
  "stampJobs clk k [] = []"
| "stampJobs clk k (j # js) =
     stampJob (clk k) j # stampJobs clk (if q_ID j \<noteq> 0 \<and> isZero (q_QueuedAt j) then Suc k else k) js"

definition lastJob :: "int \<Rightarrow> queuedJob list \<Rightarrow> queuedJob option" where
  "lastJob i js = find (\<lambda>j. q_ID j = i) (rev js)"

text \<open>The IDs in a list of jobs, 0 apart, whose last job is not older than \<open>ttl\<close> at the time \<open>T\<close>.\<close>

definition aliveIn :: "duration \<Rightarrow> gotime \<Rightarrow> queuedJob list \<Rightarrow> int set" where
  "aliveIn ttl T js = {i. i \<noteq> 0 \<and> (\<exists>j. lastJob i js = Some j \<and> \<not> expiredJob ttl T j)}"

text \<open>The same meaning for the IDs that are alive at a time \<open>T\<close>: a job that is older than \<open>ttl\<close>
  by then does not count.\<close>

fun outstandingStep :: "duration \<Rightarrow> gotime \<Rightarrow> (string \<Rightarrow> int set) \<Rightarrow> demandOp \<Rightarrow> (string \<Rightarrow> int set)" where
  "outstandingStep ttl T W (OpQueue clk fl g j) =
     (if g = [] \<or> q_ID j = 0 then W
      else if expiredJob ttl T (stampJob (clk 1) j) then W(g := W g - {q_ID j})
      else W(g := insert (q_ID j) (W g)))"
| "outstandingStep ttl T W (OpClear clk fl g i) = W(g := W g - {i})"
| "outstandingStep ttl T W (OpReplace clk fl g js) =
     (if g = [] then W else W(g := aliveIn ttl T (stampJobs clk 1 js)))"

text \<open>A store of demand: at a time \<open>T\<close> that no operation of the history follows, the jobs that are
  alive are those the operations leave.\<close>

locale demand_store =
  fixes step :: "'s \<Rightarrow> demandOp \<Rightarrow> 's"
    and live :: "'s \<Rightarrow> gotime \<Rightarrow> string \<Rightarrow> int set"
    and inv :: "'s \<Rightarrow> bool"
    and past :: "gotime \<Rightarrow> demandOp \<Rightarrow> bool"
    and effect :: "gotime \<Rightarrow> (string \<Rightarrow> int set) \<Rightarrow> demandOp \<Rightarrow> (string \<Rightarrow> int set)"
  assumes inv_step: "inv s \<Longrightarrow> inv (step s op)"
    and live_step: "inv s \<Longrightarrow> past T op \<Longrightarrow> live (step s op) T = effect T (live s T) op"
begin

lemma inv_history: "inv s \<Longrightarrow> inv (foldl step s ops)"
  by (induction ops arbitrary: s) (auto simp: inv_step)

lemma live_history:
  "inv s \<Longrightarrow> list_all (past T) ops \<Longrightarrow> live (foldl step s ops) T = foldl (effect T) (live s T) ops"
  by (induction ops arbitrary: s) (auto simp: inv_step live_step)

lemma live_repeated:
  assumes "inv s" and "past T op" and "\<And>W. effect T (effect T W op) op = effect T W op"
  shows "live (step (step s op) op) T = live (step s op) T"
  using assms by (simp add: live_step inv_step)

end

fun applyOp :: "tracker \<Rightarrow> demandFile \<Rightarrow> demandOp \<Rightarrow> gerror option \<times> tracker \<times> demandFile" where
  "applyOp t file (OpQueue clk fl g j) = QueueJob clk fl t file g j"
| "applyOp t file (OpClear clk fl g i) = ClearJob clk fl t file g i"
| "applyOp t file (OpReplace clk fl g js) = ReplaceJobs clk fl t file g js"

fun trackerStep :: "tracker \<times> demandFile \<Rightarrow> demandOp \<Rightarrow> tracker \<times> demandFile" where
  "trackerStep (t, file) op = snd (applyOp t file op)"

text \<open>The clock of an operation is not after \<open>T\<close>; for a timely one its jobs are also alive at \<open>T\<close>.\<close>

fun opClock :: "demandOp \<Rightarrow> clock" where
  "opClock (OpQueue clk fl g j) = clk"
| "opClock (OpClear clk fl g i) = clk"
| "opClock (OpReplace clk fl g js) = clk"

definition pastOp :: "gotime \<Rightarrow> demandOp \<Rightarrow> bool" where
  "pastOp T op \<longleftrightarrow> opClock op 0 \<le> T"

definition aliveAt :: "duration \<Rightarrow> gotime \<Rightarrow> clock \<Rightarrow> queuedJob \<Rightarrow> bool" where
  "aliveAt ttl T clk j \<longleftrightarrow> (if isZero (q_QueuedAt j) then \<forall>k. T - ttl \<le> clk k else T - ttl \<le> q_QueuedAt j)"

fun timelyOp :: "duration \<Rightarrow> gotime \<Rightarrow> demandOp \<Rightarrow> bool" where
  "timelyOp ttl T (OpQueue clk fl g j) \<longleftrightarrow> clk 0 \<le> T \<and> aliveAt ttl T clk j"
| "timelyOp ttl T (OpClear clk fl g i) \<longleftrightarrow> clk 0 \<le> T"
| "timelyOp ttl T (OpReplace clk fl g js) \<longleftrightarrow> clk 0 \<le> T \<and> list_all (aliveAt ttl T clk) js"

lemma aliveAt_stamp: "aliveAt ttl T clk j \<Longrightarrow> \<not> expiredJob ttl T (stampJob (clk k) j)"
  by (auto simp: aliveAt_def expiredJob_def stampJob_def not_less split: if_splits)

lemma stampJob_ID [simp]: "q_ID (stampJob now j) = q_ID j"
  by (simp add: stampJob_def)

lemma find_append: "find P (xs @ ys) = (case find P xs of None \<Rightarrow> find P ys | Some x \<Rightarrow> Some x)"
  by (induction xs) auto

lemma lastJob_Cons:
  "lastJob i (j # js) = (case lastJob i js of None \<Rightarrow> if q_ID j = i then Some j else None | Some x \<Rightarrow> Some x)"
  by (simp add: lastJob_def find_append split: option.split)

lemma lastJob_Nil [simp]: "lastJob i [] = None"
  by (simp add: lastJob_def)

lemma replacementJobs_lookup:
  "map_of (replacementJobs clk k js acc) i =
     (if i = 0 then map_of acc i else case lastJob i (stampJobs clk k js) of None \<Rightarrow> map_of acc i | Some j \<Rightarrow> Some j)"
  by (induction js arbitrary: k acc) (auto simp: lastJob_Cons split: option.splits)

lemma lastJob_None: "lastJob i js = None \<longleftrightarrow> i \<notin> q_ID ` set js"
  by (auto simp: lastJob_def find_None_iff)

lemma lastJob_Some: "lastJob i js = Some j \<Longrightarrow> j \<in> set js \<and> q_ID j = i"
  by (auto simp: lastJob_def find_Some_iff) (metis length_rev nth_mem set_rev)

lemma stampJobs_ids: "map q_ID (stampJobs clk k js) = map q_ID js"
  by (induction js arbitrary: k) simp_all

lemma stampJobs_alive:
  "list_all (aliveAt ttl T clk) js \<Longrightarrow> j \<in> set (stampJobs clk k js) \<Longrightarrow> \<not> expiredJob ttl T j"
  by (induction js arbitrary: k) (auto simp: aliveAt_stamp)

lemma aliveIn_timely:
  assumes "list_all (aliveAt ttl T clk) js"
  shows "aliveIn ttl T (stampJobs clk k js) = set (map q_ID js) - {0}"
proof -
  have "(\<exists>j. lastJob i (stampJobs clk k js) = Some j \<and> \<not> expiredJob ttl T j) \<longleftrightarrow> i \<in> set (map q_ID js)" for i
  proof (cases "lastJob i (stampJobs clk k js)")
    case None
    then have "i \<notin> set (map q_ID (stampJobs clk k js))" by (simp add: lastJob_None)
    then show ?thesis using None unfolding stampJobs_ids by simp
  next
    case (Some j)
    then have "j \<in> set (stampJobs clk k js)" "q_ID j = i" using lastJob_Some by blast+
    then have "\<not> expiredJob ttl T j" "i \<in> set (map q_ID (stampJobs clk k js))" using stampJobs_alive [OF assms] by auto
    then show ?thesis using Some unfolding stampJobs_ids by simp
  qed
  then show ?thesis by (auto simp: aliveIn_def)
qed

lemma timely_outstanding: "timelyOp ttl T op \<Longrightarrow> outstandingStep ttl T W op = waitingStep W op"
  by (cases op) (simp_all add: aliveAt_stamp aliveIn_timely)

lemma timely_past: "timelyOp ttl T op \<Longrightarrow> pastOp T op"
  by (cases op) (simp_all add: pastOp_def)

lemma timely_history:
  "list_all (timelyOp ttl T) ops \<Longrightarrow> list_all (pastOp T) ops \<and> foldl (outstandingStep ttl T) W ops = foldl waitingStep W ops"
  by (induction ops arbitrary: W) (auto simp: timely_outstanding timely_past)

lemma replacementJobs_ok: "jobsOk acc \<Longrightarrow> jobsOk (replacementJobs clk k js acc)"
  by (induction js arbitrary: k acc) auto

lemma persist_tracker: "(case persistLocked fl t file of (err, file') \<Rightarrow> (err, t', file')) =
    (fst (persistLocked fl t file), t', snd (persistLocked fl t file))"
  by (simp add: case_prod_beta)

lemma applyOp_inv:
  assumes "trackerOk t"
  shows "trackerOk (fst (snd (applyOp t file op))) \<and> tk_ttl (fst (snd (applyOp t file op))) = tk_ttl t"
proof (cases op)
  case (OpQueue clk fl g j)
  then show ?thesis using assms
    by (auto simp: QueueJob_def Let_def persist_tracker setGroup_ok)
next
  case (OpClear clk fl g i)
  then show ?thesis using assms prune_ok [OF assms]
    by (auto simp: ClearJob_def Let_def persist_tracker setGroup_ok trackerOk_iff split: option.splits)
next
  case (OpReplace clk fl g js)
  then show ?thesis using assms
    by (auto simp: ReplaceJobs_def Let_def persist_tracker setGroup_ok replacementJobs_ok)
qed

lemma live_update:
  assumes "jobsOk js"
  shows "liveJobs (t\<lparr>tk_groups := AList.update g js (tk_groups t)\<rparr>) T =
    (liveJobs t T)(g := {i. \<exists>j. map_of js i = Some j \<and> \<not> expiredJob (tk_ttl t) T j})"
  by (auto simp: liveJobs_def fun_eq_iff)

lemma live_delete:
  "liveJobs (t\<lparr>tk_groups := AList.delete g (tk_groups t)\<rparr>) T = (liveJobs t T)(g := {})"
  by (auto simp: liveJobs_def fun_eq_iff)

lemma live_prune_fun: "trackerOk t \<Longrightarrow> now \<le> now' \<Longrightarrow> liveJobs (pruneLocked now t) now' = liveJobs t now'"
  by (simp add: live_prune fun_eq_iff)

lemma applyOp_live:
  assumes t: "trackerOk t" and "pastOp T op"
  shows "liveJobs (fst (snd (applyOp t file op))) T = outstandingStep (tk_ttl t) T (liveJobs t T) op"
proof (cases op)
  case (OpQueue clk fl g j)
  let ?t1 = "pruneLocked (clk 0) t"
  have l: "liveJobs ?t1 T = liveJobs t T"
    using OpQueue assms by (auto simp: live_prune_fun pastOp_def)
  have "liveJobs ?t1 T g = {i. \<exists>j. map_of (jobsOf ?t1 g) i = Some j \<and> \<not> expiredJob (tk_ttl t) T j}"
    by (simp add: liveJobs_def)
  then show ?thesis
    using OpQueue t l
    by (auto simp: QueueJob_def Let_def persist_tracker live_update
        intro!: arg_cong [where f = "\<lambda>X. (liveJobs t T)(g := X)"])
next
  case (OpClear clk fl g i)
  let ?t1 = "pruneLocked (clk 0) t"
  have l: "liveJobs ?t1 T = liveJobs t T" and ok: "trackerOk ?t1"
    using OpClear assms by (auto simp: live_prune_fun pastOp_def)
  show ?thesis
  proof (cases "map_of (tk_groups ?t1) g")
    case None
    then have "liveJobs t T g = {}" unfolding l [symmetric] by (simp add: liveJobs_def jobsOf_def)
    then have "liveJobs t T = (liveJobs t T)(g := liveJobs t T g - {i})" by (simp add: fun_upd_idem)
    with None OpClear l show ?thesis
      by (simp add: ClearJob_def Let_def persist_tracker)
  next
    case (Some js)
    have js: "jobsOk js" "liveJobs t T g = {i. \<exists>j. map_of js i = Some j \<and> \<not> expiredJob (tk_ttl t) T j}"
      using Some ok unfolding l [symmetric] by (auto simp: trackerOk_iff liveJobs_def jobsOf_def)
    have d: "{k. \<exists>j. map_of (AList.delete i js) k = Some j \<and> \<not> expiredJob (tk_ttl t) T j} = liveJobs t T g - {i}"
      using js(2) by auto
    show ?thesis
    proof (cases "AList.delete i js = []")
      case True
      with d have e: "liveJobs t T g - {i} = {}" by auto
      with True Some OpClear l show ?thesis
        by (simp add: ClearJob_def Let_def persist_tracker live_delete e del: Diff_eq_empty_iff)
    next
      case False
      with d js Some OpClear l show ?thesis
        by (simp add: ClearJob_def Let_def persist_tracker live_update)
    qed
  qed
next
  case (OpReplace clk fl g js)
  let ?t1 = "pruneLocked (clk 0) t" and ?r = "replacementJobs clk 1 js []"
  have l: "liveJobs ?t1 T = liveJobs t T"
    using OpReplace assms by (auto simp: live_prune_fun pastOp_def)
  have r: "{i. \<exists>j. map_of ?r i = Some j \<and> \<not> expiredJob (tk_ttl t) T j} = aliveIn (tk_ttl t) T (stampJobs clk 1 js)"
    by (auto simp: aliveIn_def replacementJobs_lookup split: option.splits)
  show ?thesis
  proof (cases "?r = []")
    case True
    with r have e: "aliveIn (tk_ttl t) T (stampJobs clk 1 js) = {}" by auto
    with True OpReplace l show ?thesis
      by (simp add: ReplaceJobs_def Let_def persist_tracker live_delete)
  next
    case False
    with r OpReplace l show ?thesis
      by (simp add: ReplaceJobs_def Let_def persist_tracker live_update replacementJobs_ok)
  qed
qed

interpretation tracker: demand_store trackerStep "\<lambda>s. liveJobs (fst s)"
  "\<lambda>s. trackerOk (fst s) \<and> tk_ttl (fst s) = ttl" pastOp "outstandingStep ttl" for ttl
proof
  fix s :: "tracker \<times> demandFile" and op T
  assume i: "trackerOk (fst s) \<and> tk_ttl (fst s) = ttl"
  then show "trackerOk (fst (trackerStep s op)) \<and> tk_ttl (fst (trackerStep s op)) = ttl"
    using applyOp_inv [of "fst s" "snd s" op] by (cases s) auto
  assume "pastOp T op"
  then show "liveJobs (fst (trackerStep s op)) T = outstandingStep ttl T (liveJobs (fst s) T) op"
    using applyOp_live [of "fst s" T op "snd s"] i by (cases s) auto
qed

section \<open>Properties of the tracker\<close>

lemma jobsOf_prune_dom: "trackerOk t \<Longrightarrow> dom (map_of (jobsOf (pruneLocked now t) g)) = liveJobs t now g"
  using trackerOk_jobs [of t g]
  by (auto simp: liveJobs_def jobsOf_prune pruneJobs_lookup jobsOk_def split: option.splits if_splits)

lemma snapshot_count: "trackerOk t \<Longrightarrow> d_QueuedJobs (fst (Snapshot clk t g)) = int (card (liveJobs t (clk 0) g))"
  using trackerOk_jobs [of "pruneLocked (clk 0) t" g]
  by (simp add: Snapshot_def Let_def length_goMap jobsOk_def jobsOf_prune_dom)

lemma newTracker_empty:
  "NewTracker path ttl clk NoFile = Inr t \<Longrightarrow> trackerOk t \<and> tk_ttl t = ttl \<and> liveJobs t T = (\<lambda>_. {})"
  by (auto simp: NewTracker_def Let_def trackerOk_def liveJobs_def jobsOf_def split: if_splits)

text \<open>C17. After any history of queue, clear and replace operations, disk failures included, the
  number of queued jobs that a snapshot reports for a runner group is the number of distinct
  jobs that the history leaves waiting there, as long as none of them has expired.\<close>

theorem demand_counts_waiting_jobs:
  assumes "NewTracker path ttl clk0 NoFile = Inr t" and "list_all (timelyOp ttl (clk 0)) ops"
  shows "d_QueuedJobs (fst (Snapshot clk (fst (foldl trackerStep (t, NoFile) ops)) g)) =
         int (card (foldl waitingStep (\<lambda>_. {}) ops g))"
proof -
  let ?s = "foldl trackerStep (t, NoFile) ops"
  from newTracker_empty [OF assms(1)]
  have i: "trackerOk (fst (t, NoFile)) \<and> tk_ttl (fst (t, NoFile)) = ttl" by simp
  have "trackerOk (fst ?s)" using tracker.inv_history [OF i] by blast
  moreover have "liveJobs (fst ?s) (clk 0) = foldl waitingStep (\<lambda>_. {}) ops"
    using timely_history [OF assms(2)] tracker.live_history [OF i, of "clk 0" ops] newTracker_empty [OF assms(1), of "clk 0"]
    by simp
  ultimately show ?thesis by (simp add: snapshot_count)
qed

definition sampleJob :: "int \<Rightarrow> gotime \<Rightarrow> queuedJob" where
  "sampleJob i t = \<lparr>q_ID = i, q_Repo = ''o/r'', q_Labels = [], q_QueuedAt = t\<rparr>"

definition sampleOps :: "demandOp list" where
  "sampleOps =
     [OpQueue (\<lambda>_. 10) (\<lambda>_. None) ''g'' (sampleJob 1 0), OpQueue (\<lambda>_. 11) (\<lambda>_. Some ''disk full'') ''g'' (sampleJob 2 9),
      OpQueue (\<lambda>_. 12) (\<lambda>_. None) ''g'' (sampleJob 1 0), OpClear (\<lambda>_. 13) (\<lambda>_. None) ''g'' 2]"

theorem demand_counts_waiting_jobs_witness:
  "d_QueuedJobs (fst (Snapshot (\<lambda>_. 20)
     (fst (foldl trackerStep (\<lparr>tk_path = ''p'', tk_ttl = 100, tk_groups = []\<rparr>, NoFile) sampleOps)) ''g'')) = 1"
proof -
  have n: "NewTracker ''p'' 100 (\<lambda>_. 0) NoFile = Inr \<lparr>tk_path = ''p'', tk_ttl = 100, tk_groups = []\<rparr>"
    by (simp add: NewTracker_def Let_def)
  have t: "list_all (timelyOp 100 ((\<lambda>_. 20) 0)) sampleOps"
    by (simp add: sampleOps_def aliveAt_def sampleJob_def)
  have "foldl waitingStep (\<lambda>_. {}) sampleOps ''g'' = {1}"
    by (auto simp: sampleOps_def sampleJob_def)
  with demand_counts_waiting_jobs [OF n t, of "''g''"] show ?thesis by simp
qed

section \<open>Restarts\<close>

text \<open>What an operation brings into the file: ASCII names and labels, 64-bit IDs and times of the
  years 1 to 9999.\<close>

fun storableOp :: "demandOp \<Rightarrow> bool" where
  "storableOp (OpQueue clk fl g j) \<longleftrightarrow> asciiText g \<and> jobOk j \<and> printableTime (clk 1)"
| "storableOp (OpClear clk fl g i) \<longleftrightarrow> True"
| "storableOp (OpReplace clk fl g js) \<longleftrightarrow> asciiText g \<and> list_all jobOk js \<and>
     list_all (\<lambda>k. printableTime (clk k)) [1..<Suc (length js)]"

abbreviation storable_tracker :: "tracker \<Rightarrow> bool" where
  "storable_tracker t \<equiv> storableGroups (tk_groups t)"

lemma storableJobs_iff: "storableJobs js \<longleftrightarrow> jobsOk js \<and> (\<forall>i j. map_of js i = Some j \<longrightarrow> jobOk j)"
  by (cases "goMap js") (auto simp: storableJobs_def jobsOk_def list_all_iff simp flip: goMap_mem)

lemma storableGroups_iff:
  "storableGroups gs \<longleftrightarrow> goMap gs \<and> (\<forall>g js. map_of gs g = Some js \<longrightarrow> asciiText g \<and> storableJobs js)"
  by (cases "goMap gs") (auto simp: storableGroups_def list_all_iff simp flip: goMap_mem)

lemma storable_ok: "storable_tracker t \<Longrightarrow> trackerOk t"
  by (auto simp: storableGroups_iff trackerOk_iff storableJobs_iff)

lemma storable_prune_jobs: "storableJobs js \<Longrightarrow> storableJobs (pruneJobs ttl now js)"
  by (auto simp: storableJobs_iff jobsOk_def pruneJobs_lookup split: option.splits if_splits)
    (simp_all add: pruneJobs_def list_all_iff)

lemma storable_prune: "storable_tracker t \<Longrightarrow> storable_tracker (pruneLocked now t)"
proof -
  assume s: "storable_tracker t"
  have "goMap (tk_groups (pruneLocked now t))" using prune_ok [OF storable_ok [OF s]] by (simp only: trackerOk_def)
  with s storable_prune_jobs show ?thesis
    by (auto simp: storableGroups_iff prune_groups_lookup [OF storable_ok [OF s]] Let_def split: option.splits if_splits)
qed

lemma storable_group: "storable_tracker t \<Longrightarrow> storableJobs (jobsOf t g)"
  by (auto simp: storableGroups_iff jobsOf_def storableJobs_iff split: option.splits)

lemma storable_set:
  "storableGroups gs \<Longrightarrow> asciiText g \<Longrightarrow> storableJobs js \<Longrightarrow> storableGroups (AList.update g js gs)"
  "storableGroups gs \<Longrightarrow> storableGroups (AList.delete g gs)"
  "storableJobs js \<Longrightarrow> q_ID j = i \<Longrightarrow> jobOk j \<Longrightarrow> storableJobs (AList.update i j js)"
  "storableJobs js \<Longrightarrow> storableJobs (AList.delete i js)"
  by (auto simp: storableGroups_iff storableJobs_iff split: if_splits)

lemma stamp_storable: "jobOk j \<Longrightarrow> printableTime now \<Longrightarrow> jobOk (stampJob now j)"
  by (simp add: jobOk_def stampJob_def)

lemma replacement_storable:
  "list_all jobOk js \<Longrightarrow> \<forall>i. k \<le> i \<and> i < k + length js \<longrightarrow> printableTime (clk i) \<Longrightarrow> storableJobs acc \<Longrightarrow>
   storableJobs (replacementJobs clk k js acc)"
  by (induction js arbitrary: k acc) (auto simp: storable_set stamp_storable)

lemma applyOp_storable:
  assumes "storable_tracker t" "storableOp op"
  shows "storable_tracker (fst (snd (applyOp t file op)))"
proof (cases op)
  case (OpQueue clk fl g j)
  then show ?thesis using assms
    by (simp add: QueueJob_def Let_def persist_tracker storable_set storable_prune storable_group stamp_storable)
next
  case (OpClear clk fl g i)
  let ?t1 = "pruneLocked (clk 0) t"
  have t1: "storable_tracker ?t1" by (rule storable_prune [OF assms(1)])
  show ?thesis
  proof (cases "map_of (tk_groups ?t1) g")
    case (Some js)
    then have "asciiText g" "storableJobs js" using t1 by (auto simp: storableGroups_iff)
    then show ?thesis using OpClear Some t1 by (simp add: ClearJob_def Let_def persist_tracker storable_set)
  qed (use OpClear t1 in \<open>simp add: ClearJob_def Let_def persist_tracker\<close>)
next
  case (OpReplace clk fl g js)
  moreover have "storableJobs []" by (simp add: storableJobs_def)
  moreover have "\<forall>i. 1 \<le> i \<and> i < 1 + length js \<longrightarrow> printableTime (clk i)"
    using OpReplace assms(2) by (auto simp: list_all_iff)
  ultimately have "storableJobs (replacementJobs clk 1 js [])"
    using replacement_storable [of js 1 clk "[]"] assms(2) by simp
  then show ?thesis using assms OpReplace
    by (simp add: ReplaceJobs_def Let_def persist_tracker storable_set storable_prune)
qed

lemma persist_file:
  "persistLocked fl t file = (err, file') \<Longrightarrow>
   (case err of None \<Rightarrow> (\<exists>data. marshalState (tk_groups t) = Inr data \<and> file' = Holds data) | Some e \<Rightarrow> file' = file)"
  by (cases "fl 0"; cases "marshalState (tk_groups t)")
    (auto simp: persistLocked_def Let_def persistStages_def atomicReplace_def split: option.splits)

lemma persist_case:
  "(case persistLocked fl t2 file of (e, f) \<Rightarrow> (e, t2, f)) = (err, t', file') \<Longrightarrow>
   (case err of None \<Rightarrow> (\<exists>data. marshalState (tk_groups t') = Inr data \<and> file' = Holds data) | Some e \<Rightarrow> file' = file)"
  using persist_file [of fl t2 "file" err file'] by (auto split: prod.splits)

lemma applyOp_file:
  "applyOp t file op = (err, t', file') \<Longrightarrow>
   (case err of None \<Rightarrow> (\<exists>data. marshalState (tk_groups t') = Inr data \<and> file' = Holds data) | Some e \<Rightarrow> file' = file)"
proof (cases op)
  case (OpQueue clk fl g j)
  moreover assume "applyOp t file op = (err, t', file')"
  ultimately show ?thesis by (auto simp: QueueJob_def Let_def dest!: persist_case split: if_splits)
next
  case (OpClear clk fl g i)
  moreover assume "applyOp t file op = (err, t', file')"
  ultimately show ?thesis by (auto simp: ClearJob_def Let_def dest!: persist_case)
next
  case (OpReplace clk fl g js)
  moreover assume "applyOp t file op = (err, t', file')"
  ultimately show ?thesis by (auto simp: ReplaceJobs_def Let_def dest!: persist_case split: if_splits)
qed

text \<open>The oldest age does not depend on the order of the jobs.\<close>

lemma oldestAge_max: "oldestAge now acc js = Max (insert acc ((\<lambda>(i, j). time_sub now (q_QueuedAt j)) ` set js))"
proof (induction js arbitrary: acc)
  case (Cons a js)
  obtain i j where a: "a = (i, j)" by force
  let ?age = "time_sub now (q_QueuedAt j)" and ?ages = "(\<lambda>(i, j). time_sub now (q_QueuedAt j)) ` set js"
  have "Max (insert acc (insert ?age ?ages)) = max acc (Max (insert ?age ?ages))" by (rule Max.insert) simp_all
  moreover have "Max (insert (max ?age acc) ?ages) = max (max ?age acc) (if ?ages = {} then acc else Max ?ages)"
    by (cases "?ages = {}") (simp_all add: max.assoc)
  moreover have "Max (insert ?age ?ages) = max ?age (if ?ages = {} then ?age else Max ?ages)"
    by (cases "?ages = {}") simp_all
  moreover have "(if ?age > acc then ?age else acc) = max ?age acc" by simp
  ultimately show ?case unfolding a by (cases "?ages = {}") (auto simp: Cons.IH max.commute max.left_commute max.assoc)
qed simp

lemma snapshot_maps:
  assumes "trackerOk t" "trackerOk u" "map_of (jobsOf (pruneLocked (clk 0) t) g) = map_of (jobsOf (pruneLocked (clk 0) u) g)"
  shows "fst (Snapshot clk t g) = fst (Snapshot clk u g)"
proof -
  let ?a = "jobsOf (pruneLocked (clk 0) t) g" and ?b = "jobsOf (pruneLocked (clk 0) u) g"
  have m: "goMap ?a" "goMap ?b" using assms(1,2) trackerOk_jobs prune_ok by (auto simp: jobsOk_def)
  have "set ?a = set ?b" using goMap_mem [OF m(1)] goMap_mem [OF m(2)] assms(3) by auto
  moreover have "length ?a = length ?b" using m assms(3) by (simp add: length_goMap)
  ultimately show ?thesis by (simp add: Snapshot_def Let_def oldestAge_max)
qed

text \<open>The jobs of a group that are not expired, by their ID.\<close>

definition jobsAt :: "gotime \<Rightarrow> tracker \<Rightarrow> string \<Rightarrow> (int \<rightharpoonup> queuedJob)" where
  "jobsAt now t g = map_of (jobsOf (pruneLocked now t) g)"

lemma jobsAt_lookup:
  "trackerOk t \<Longrightarrow> jobsAt now t g i =
     (case map_of (jobsOf t g) i of None \<Rightarrow> None | Some j \<Rightarrow> if expiredJob (tk_ttl t) now j then None else Some j)"
  using trackerOk_jobs [of t g] by (simp add: jobsAt_def jobsOf_prune pruneJobs_lookup jobsOk_def)

lemma jobsAt_prune: "trackerOk t \<Longrightarrow> now \<le> now' \<Longrightarrow> jobsAt now' (pruneLocked now t) g = jobsAt now' t g"
  using jobsAt_lookup [of t now g]
  by (auto simp: fun_eq_iff jobsAt_lookup jobsAt_def [of now, symmetric] expiredJob_def split: option.splits if_splits)

text \<open>C23. An operation replaces the demand file as a whole or not at all: when it reports an
  error the file is as before; when it reports success, a tracker that is restarted from the
  bytes of the file has in every group the unexpired jobs of the tracker that goes on, with all
  their fields, and reports the same demand. This holds for ASCII names and labels and for times
  of the years 1 to 9999; such trackers are kept by the operations.\<close>

theorem restart_recovers_demand:
  assumes "storableGroups (tk_groups t)" "storableOp op" and "applyOp t file op = (err, t', file')"
    and "path \<noteq> []" and "0 < tk_ttl t" and "clk0 0 \<le> clk 0"
  shows "storableGroups (tk_groups t') \<and>
    (case err of
      Some e \<Rightarrow> file' = file
    | None \<Rightarrow> \<exists>t2. NewTracker path (tk_ttl t) clk0 file' = Inr t2 \<and>
               (\<forall>g. map_of (jobsOf t2 g) = jobsAt (clk0 0) t' g \<and>
                    fst (Snapshot clk t2 g) = fst (Snapshot clk t' g)))"
proof -
  have s: "storable_tracker t'" using applyOp_storable [OF assms(1,2), of "file"] assms(3) by simp
  then have ok: "trackerOk t'" "tk_ttl t' = tk_ttl t"
    using applyOp_inv [OF storable_ok [OF assms(1)], of "file" op] assms(3) by auto
  show ?thesis
  proof (cases err)
    case None
    then obtain data where f: "marshalState (tk_groups t') = Inr data" "file' = Holds data"
      using applyOp_file [OF assms(3)] by auto
    let ?u = "\<lparr>tk_path = path, tk_ttl = tk_ttl t, tk_groups = sortedGroups (tk_groups t')\<rparr>"
    have gm: "goMap (tk_groups t')" using ok(1) by (simp add: trackerOk_def)
    have u: "map_of (jobsOf ?u g) = map_of (jobsOf t' g)" for g
      using sortedGroups_same [OF gm, of g] sortedJobs_same storable_group [OF s, of g]
      by (auto simp: jobsOf_def storableJobs_def jobsOk_def split: option.splits)
    have uok: "trackerOk ?u"
    proof -
      have "jobsOk (sortedJobs js)" if "jobsOk js" for js
        using that sortedJobs_same [of js] by (simp add: jobsOk_iff)
      then show ?thesis using ok(1) sortedGroups_same [OF gm] by (auto simp: trackerOk_iff)
    qed
    have n: "NewTracker path (tk_ttl t) clk0 file' = Inr (pruneLocked (clk0 0) ?u)"
      using assms(4,5) f state_roundtrip [OF s f(1)] by (simp add: NewTracker_def Let_def)
    have j: "map_of (jobsOf (pruneLocked (clk0 0) ?u) g) = jobsAt (clk0 0) t' g" for g
      using jobsAt_lookup [OF uok, of "clk0 0" g] jobsAt_lookup [OF ok(1), of "clk0 0" g] u [of g] ok(2)
      by (simp add: fun_eq_iff jobsAt_def cong: option.case_cong)
    have "jobsAt (clk 0) (pruneLocked (clk0 0) ?u) g = jobsAt (clk 0) t' g" for g
      using jobsAt_prune [OF uok assms(6), of g] jobsAt_lookup [OF uok, of "clk 0" g] jobsAt_lookup [OF ok(1), of "clk 0" g]
        u [of g] ok(2) by (simp add: fun_eq_iff cong: option.case_cong)
    then have "fst (Snapshot clk (pruneLocked (clk0 0) ?u) g) = fst (Snapshot clk t' g)" for g
      using snapshot_maps [OF prune_ok [OF uok] ok(1), of clk "clk0 0" g] by (simp add: jobsAt_def)
    then show ?thesis using s n j None by simp
  qed (use applyOp_file [OF assms(3)] s in simp)
qed

theorem restart_recovers_demand_witness:
  "\<exists>data t2. fst (applyOp \<lparr>tk_path = ''p'', tk_ttl = 100, tk_groups = []\<rparr> NoFile
       (OpQueue (\<lambda>_. 10) (\<lambda>_. None) ''g'' ((sampleJob 1 0)\<lparr>q_Labels := [''linux'']\<rparr>))) = None \<and>
     NewTracker ''p'' 100 (\<lambda>_. 15) (Holds data) = Inr t2 \<and>
     map_of (jobsOf t2 ''g'') 1 = Some ((sampleJob 1 10)\<lparr>q_Labels := [''linux'']\<rparr>)"
proof -
  let ?t = "\<lparr>tk_path = ''p'', tk_ttl = 100, tk_groups = []\<rparr>"
    and ?op = "OpQueue (\<lambda>_. 10) (\<lambda>_. None) ''g'' ((sampleJob 1 0)\<lparr>q_Labels := [''linux'']\<rparr>)"
    and ?t' = "\<lparr>tk_path = ''p'', tk_ttl = 100, tk_groups = [(''g'', [(1, (sampleJob 1 10)\<lparr>q_Labels := [''linux'']\<rparr>)])]\<rparr>"
  have s: "storableGroups (tk_groups ?t)" "storableOp ?op" "''p'' \<noteq> []" "0 < tk_ttl ?t" "(\<lambda>_. 15::int) 0 \<le> (\<lambda>_. 20) (0::nat)"
    by code_simp+
  obtain err t' file' where a: "applyOp ?t NoFile ?op = (err, t', file')" by (metis prod.collapse)
  have e: "fst (applyOp ?t NoFile ?op) = None" "fst (snd (applyOp ?t NoFile ?op)) = ?t'" by code_simp+
  then have t: "err = None" "t' = ?t'" using a by simp_all
  from applyOp_file [OF a] t(1) obtain data where f: "file' = Holds data" by auto
  from restart_recovers_demand [OF s(1,2) a s(3-5)] t(1) obtain t2 where
    n: "NewTracker ''p'' 100 (\<lambda>_. 15) file' = Inr t2" "map_of (jobsOf t2 ''g'') = jobsAt 15 t' ''g''"
    by auto
  moreover have "jobsAt 15 ?t' ''g'' 1 = Some ((sampleJob 1 10)\<lparr>q_Labels := [''linux'']\<rparr>)" by code_simp
  ultimately have "NewTracker ''p'' 100 (\<lambda>_. 15) (Holds data) = Inr t2 \<and>
      map_of (jobsOf t2 ''g'') 1 = Some ((sampleJob 1 10)\<lparr>q_Labels := [''linux'']\<rparr>)"
    unfolding f t(2) by simp
  then show ?thesis using e(1) by blast
qed

lemma active_groups_set:
  assumes "trackerOk t"
  shows "g \<in> fst ` set (filter (\<lambda>(g, js). length js > 0) (tk_groups (pruneLocked now t))) \<longleftrightarrow> liveJobs t now g \<noteq> {}"
proof -
  let ?t = "pruneLocked now t"
  have "goMap (tk_groups ?t)" using prune_ok [OF assms, of now] by (simp add: trackerOk_def)
  then have "g \<in> fst ` set (filter (\<lambda>(g, js). length js > 0) (tk_groups ?t)) \<longleftrightarrow>
      (\<exists>js. map_of (tk_groups ?t) g = Some js \<and> js \<noteq> [])"
    by (force simp flip: goMap_mem)
  also have "\<dots> \<longleftrightarrow> jobsOf ?t g \<noteq> []"
    by (simp add: jobsOf_def split: option.splits)
  also have "\<dots> \<longleftrightarrow> liveJobs t now g \<noteq> {}"
    unfolding jobsOf_prune_dom [OF assms, symmetric] by (cases "jobsOf ?t g") auto
  finally show ?thesis .
qed

text \<open>The active groups are listed in order, without repetition, and are exactly the groups
  for which a snapshot at the same time reports at least one queued job.\<close>

theorem active_groups_have_demand:
  assumes "trackerOk t"
  shows "sorted (fst (ActiveGroups clk t)) \<and> distinct (fst (ActiveGroups clk t)) \<and>
         set (fst (ActiveGroups clk t)) = {g. 0 < d_QueuedJobs (fst (Snapshot clk t g))}"
proof -
  let ?gs = "filter (\<lambda>(g, js). length js > 0) (tk_groups (pruneLocked (clk 0) t))"
  have act: "fst (ActiveGroups clk t) = sort (map fst ?gs)"
    by (simp add: ActiveGroups_def Let_def)
  have "goMap (tk_groups (pruneLocked (clk 0) t))" using prune_ok [OF assms, of "clk 0"] by (simp only: trackerOk_def)
  then have d: "distinct (map fst ?gs)" using goMap_filter unfolding goMap_def by blast
  have fin: "finite (liveJobs t (clk 0) g)" for g
    unfolding jobsOf_prune_dom [OF assms, symmetric] by (rule finite_dom_map_of)
  have "g \<in> fst ` set ?gs \<longleftrightarrow> 0 < d_QueuedJobs (fst (Snapshot clk t g))" for g
    unfolding active_groups_set [OF assms] snapshot_count [OF assms] using fin [of g] by (simp add: card_gt_0_iff)
  then have "set (fst (ActiveGroups clk t)) = {g. 0 < d_QueuedJobs (fst (Snapshot clk t g))}"
    unfolding act set_sort set_map by blast
  then show ?thesis using d unfolding act by simp
qed

theorem active_groups_have_demand_witness:
  "set (fst (ActiveGroups (\<lambda>_. 50) \<lparr>tk_path = ''p'', tk_ttl = 10,
      tk_groups = [(''b'', [(1, sampleJob 1 45)]), (''a'', [(2, sampleJob 2 44)]), (''c'', [(3, sampleJob 3 5)])]\<rparr>)) =
   {g. 0 < d_QueuedJobs (fst (Snapshot (\<lambda>_. 50) \<lparr>tk_path = ''p'', tk_ttl = 10,
      tk_groups = [(''b'', [(1, sampleJob 1 45)]), (''a'', [(2, sampleJob 2 44)]), (''c'', [(3, sampleJob 3 5)])]\<rparr> g))}"
  by (rule active_groups_have_demand [THEN conjunct2, THEN conjunct2]) code_simp

end
