(* ===== verification/Go_Paths.thy ===== *)
theory Go_Paths
  imports Go_Prelude
begin

text \<open>
  The functions of the standard library packages \<open>path/filepath\<close> (on Unix) and \<open>net/url\<close> that the
  program calls.  \<open>Clean\<close> is written on the elements of a path, \<open>Join\<close>, \<open>Dir\<close> and \<open>Base\<close> on top of
  it.  Of \<open>url.ParseRequestURI\<close> the program reads the error, the scheme and whether the host is
  empty; escaped characters in the zone of an IPv6 address are not modelled.

  \<open>clean_rooted\<close>: a clean absolute path is a slash followed by proper names joined by slashes, so it
  has no element that leads elsewhere.
\<close>

section \<open>Package path/filepath\<close>

definition isAbs :: "string \<Rightarrow> bool" where
  "isAbs p = has_prefix p ''/''"

definition cleanStep :: "bool \<Rightarrow> string list \<Rightarrow> string \<Rightarrow> string list" where
  "cleanStep rooted stack e =
     (if e = [] \<or> e = ''.'' then stack
      else if e = ''..'' then
        (case stack of
           [] \<Rightarrow> (if rooted then [] else [''..''])
         | t # ts \<Rightarrow> (if t = ''..'' then ''..'' # stack else ts))
      else e # stack)"

definition cleanPath :: "string \<Rightarrow> string" where
  "cleanPath p =
     (let body = join ''/'' (rev (foldl (cleanStep (isAbs p)) [] (split_on CHR ''/'' p)))
      in if isAbs p then CHR ''/'' # body else if body = [] then ''.'' else body)"

definition joinPath :: "string list \<Rightarrow> string" where
  "joinPath es = (case dropWhile (\<lambda>e. e = []) es of [] \<Rightarrow> [] | rest \<Rightarrow> cleanPath (join ''/'' rest))"

definition pathDir :: "string \<Rightarrow> string" where
  "pathDir p = cleanPath (rev (dropWhile (\<lambda>c. c \<noteq> CHR ''/'') (rev p)))"

definition pathBase :: "string \<Rightarrow> string" where
  "pathBase p =
     (if p = [] then ''.''
      else let q = dropWhile (\<lambda>c. c = CHR ''/'') (rev p)
           in if q = [] then ''/'' else rev (takeWhile (\<lambda>c. c \<noteq> CHR ''/'') q))"

definition properName :: "string \<Rightarrow> bool" where
  "properName e \<longleftrightarrow> e \<noteq> [] \<and> e \<noteq> ''.'' \<and> e \<noteq> ''..'' \<and> CHR ''/'' \<notin> set e"

lemma cleanStep_proper:
  assumes "\<forall>t\<in>set stack. properName t" and "CHR ''/'' \<notin> set e"
  shows "\<forall>t\<in>set (cleanStep True stack e). properName t"
  using assms by (cases stack) (auto simp: cleanStep_def properName_def)

lemma foldl_cleanStep_proper:
  "\<forall>t\<in>set stack. properName t \<Longrightarrow> \<forall>e\<in>set es. CHR ''/'' \<notin> set e
    \<Longrightarrow> \<forall>t\<in>set (foldl (cleanStep True) stack es). properName t"
proof (induction es arbitrary: stack)
  case (Cons e es)
  from Cons.prems have "\<forall>t\<in>set (cleanStep True stack e). properName t"
    by (intro cleanStep_proper) auto
  then show ?case using Cons.prems by (simp add: Cons.IH)
qed simp

lemma clean_rooted:
  assumes "isAbs p"
  obtains es where "cleanPath p = CHR ''/'' # join ''/'' es" "\<forall>e\<in>set es. properName e"
proof
  let ?es = "rev (foldl (cleanStep True) [] (split_on CHR ''/'' p))"
  show "cleanPath p = CHR ''/'' # join ''/'' ?es" using assms by (simp add: cleanPath_def)
  show "\<forall>e\<in>set ?es. properName e"
    using foldl_cleanStep_proper [of "[]" "split_on CHR ''/'' p"] by (simp add: split_on_no_sep)
qed

section \<open>Package net/url\<close>

definition isAlpha :: "char \<Rightarrow> bool" where
  "isAlpha c = (let n = (of_char c :: nat) in (65 \<le> n \<and> n \<le> 90) \<or> (97 \<le> n \<and> n \<le> 122))"

definition isDigit :: "char \<Rightarrow> bool" where
  "isDigit c = (let n = (of_char c :: nat) in 48 \<le> n \<and> n \<le> 57)"

definition isHex :: "char \<Rightarrow> bool" where
  "isHex c = (let n = (of_char c :: nat) in
     isDigit c \<or> (65 \<le> n \<and> n \<le> 70) \<or> (97 \<le> n \<and> n \<le> 102))"

text \<open>\<open>getScheme\<close>: the scheme and the rest, or an error for a URL that starts with a colon.  The
  first argument is what has been read of the scheme, reversed.\<close>

fun getScheme :: "string \<Rightarrow> string \<Rightarrow> (string \<times> string) result" where
  "getScheme acc [] = Inr ([], rev acc)"
| "getScheme acc (c # s) =
     (if isAlpha c then getScheme (c # acc) s
      else if isDigit c \<or> c = CHR ''+'' \<or> c = CHR ''-'' \<or> c = CHR ''.'' then
        (if acc = [] then Inr ([], c # s) else getScheme (c # acc) s)
      else if c = CHR '':'' then
        (if acc = [] then Inl ''missing protocol scheme'' else Inr (to_lower (rev acc), s))
      else Inr ([], rev acc @ c # s))"

text \<open>Escapes are well-formed, and in a host only \<open>%25\<close> and bytes that are not ASCII are
  escaped.\<close>

fun validEscapes :: "bool \<Rightarrow> string \<Rightarrow> bool" where
  "validEscapes host [] = True"
| "validEscapes host (c # s) =
     (if c = CHR ''%'' then
        (case s of
           a # b # s' \<Rightarrow> isHex a \<and> isHex b
             \<and> (host \<and> (isDigit a \<and> (of_char a :: nat) < 56) \<longrightarrow> a = CHR ''2'' \<and> b = CHR ''5'') \<and> validEscapes host s'
         | _ \<Rightarrow> False)
      else validEscapes host s)"

definition hostChar :: "char \<Rightarrow> bool" where
  "hostChar c = (isAlpha c \<or> isDigit c \<or> 128 \<le> (of_char c :: nat) \<or> c = CHR 0x27 \<or> c = CHR 0x22
     \<or> c \<in> set ''!$&()*+,;=:[]<>-_.~%'')"

definition userChar :: "char \<Rightarrow> bool" where
  "userChar c = (isAlpha c \<or> isDigit c \<or> c = CHR 0x27 \<or> c \<in> set ''-._:~!$&()*+,;=%@'')"

definition validOptionalPort :: "string \<Rightarrow> bool" where
  "validOptionalPort p = (p = [] \<or> (hd p = CHR '':'' \<and> list_all isDigit (tl p)))"

definition afterLast :: "char \<Rightarrow> string \<Rightarrow> string" where
  "afterLast c s = rev (takeWhile (\<lambda>x. x \<noteq> c) (rev s))"

definition validHost :: "string \<Rightarrow> bool" where
  "validHost h =
     ((if has_prefix h ''['' then CHR '']'' \<in> set h \<and> validOptionalPort (afterLast CHR '']'' h)
       else CHR '':'' \<in> set h \<longrightarrow> list_all isDigit (afterLast CHR '':'' h))
      \<and> list_all hostChar h \<and> validEscapes True h)"

text \<open>The scheme and the host (escaped), or an error.\<close>

definition parseRequestURI :: "string \<Rightarrow> (string \<times> string) result" where
  "parseRequestURI raw =
     (if raw = [] then Inl ''empty url''
      else if list_ex (\<lambda>c. (of_char c :: nat) < 32 \<or> c = CHR 0x7F) raw then Inl ''invalid control character in URL''
      else if raw = ''*'' then Inr ([], [])
      else case getScheme [] raw of
        Inl e \<Rightarrow> Inl e
      | Inr (scheme, rest) \<Rightarrow>
          let rest = fst (cut rest CHR ''?'') in
          if \<not> has_prefix rest ''/'' then
            (if scheme \<noteq> [] then Inr (scheme, []) else Inl ''invalid URI for request'')
          else if scheme \<noteq> [] \<and> has_prefix rest ''//'' then
            let authority = takeWhile (\<lambda>c. c \<noteq> CHR ''/'') (drop 2 rest);
                path = drop (length authority) (drop 2 rest);
                host = afterLast CHR ''@'' authority;
                user = (if CHR ''@'' \<in> set authority
                        then take (length authority - length host - 1) authority else [])
            in if validHost host \<and> list_all userChar user \<and> validEscapes False user \<and> validEscapes False path
               then Inr (scheme, host) else Inl ''invalid URL''
          else if validEscapes False rest then Inr (scheme, []) else Inl ''invalid URL escape'')"

lemma parseRequestURI_examples:
  "parseRequestURI ''https://loki.example:3100/loki/api/v1/push?x=1'' = Inr (''https'', ''loki.example:3100'')"
  "parseRequestURI ''loki.example:3100/push'' = Inr (''loki.example'', [])"
  "parseRequestURI ''/push'' = Inr ([], [])"
  "isl (parseRequestURI ''push'')"
  "isl (parseRequestURI ''http://h:port/'')"
  by code_simp+

lemma cleanPath_examples:
  "cleanPath ''/cache//a/./b/../c/'' = ''/cache/a/c''"
  "cleanPath ''/../x'' = ''/x''"
  "cleanPath ''a/../../b'' = ''../b''"
  "cleanPath [] = ''.''"
  "joinPath [''.state'', ''runner-groups'', ''../x''] = ''.state/x''"
  "pathDir ''/opt/hostedtoolcache'' = ''/opt''"
  "pathBase ''/opt/hostedtoolcache/'' = ''hostedtoolcache''"
  by code_simp+

end
