(* ===== verification/Seen_Cache.thy ===== *)
theory Seen_Cache
  imports File_System Go_Unmarshal Go_Paths
begin

text \<open>
  The bounded, persisted set of keys that were already delivered
  (\<open>internal/daemon/seen_cache.go\<close>), generic in the items and their key. Indexing the empty
  slice in \<open>trim\<close> would panic; that result is \<open>None\<close>. The file holds the JSON of the keys. The interface the daemon uses is the
  locale \<open>delivery_log\<close>, whose client delivers batches of items at most once each.
\<close>

section \<open>The cache\<close>

record seenCache =
  sn_path :: string
  sn_limit :: int
  sn_keys :: "string set"
  sn_order :: "string list"

datatype seenFile = SeenAbsent | SeenUnreadable gerror | SeenBytes string

definition newSeenCache :: "string \<Rightarrow> string \<Rightarrow> int \<Rightarrow> seenCache" where
  "newSeenCache stateDir f limit =
     \<lparr>sn_path = (if stateDir = [] then [] else joinPath [stateDir, f]), sn_limit = limit,
      sn_keys = {}, sn_order = []\<rparr>"

fun trimOrder :: "int \<Rightarrow> string set \<Rightarrow> string list \<Rightarrow> (string set \<times> string list) option" where
  "trimOrder limit keys [] = (if 0 > limit then None else Some (keys, []))"
| "trimOrder limit keys (oldest # order) =
     (if int (length (oldest # order)) > limit then trimOrder limit (keys - {oldest}) order
      else Some (keys, oldest # order))"

definition trimSeen :: "seenCache \<Rightarrow> seenCache option" where
  "trimSeen c = map_option (\<lambda>(ks, os). c\<lparr>sn_keys := ks, sn_order := os\<rparr>)
                  (trimOrder (sn_limit c) (sn_keys c) (sn_order c))"

text \<open>The JSON of the keys: a struct with the one field \<open>keys\<close>. The slice that is written is nil
  when there are none.\<close>

definition marshalSeen :: "string list \<Rightarrow> string" where
  "marshalSeen ks = printJson (JObj [(''keys'', if ks = [] then JNull else textsJson ks)])"

fun decodeSeenMembers :: "(string \<times> json) list \<Rightarrow> string list \<Rightarrow> string list result" where
  "decodeSeenMembers [] ks = Inr ks"
| "decodeSeenMembers ((k, v) # ms) ks =
     (if to_lower k = ''keys'' then
        (case decodeTextList v ks of Inl err \<Rightarrow> Inl err | Inr ks' \<Rightarrow> decodeSeenMembers ms ks')
      else decodeSeenMembers ms ks)"

fun decodeSeen :: "json \<Rightarrow> string list result" where
  "decodeSeen (JObj ms) = decodeSeenMembers ms []"
| "decodeSeen JNull = Inr []"
| "decodeSeen v = Inl (typeError ''struct { Keys []string }'')"

text \<open>\<open>load\<close> returns the warning it logs, if any.\<close>

definition loadSeen :: "seenCache \<Rightarrow> seenFile \<Rightarrow> (string option \<times> seenCache) option" where
  "loadSeen c file =
     (if sn_path c = [] then Some (None, c)
      else (case file of
        SeenAbsent \<Rightarrow> Some (None, c)
      | SeenUnreadable err \<Rightarrow> Some (Some (''failed to read cache'' @ err), c)
      | SeenBytes data \<Rightarrow>
          (case unmarshal decodeSeen data of
             Inl err \<Rightarrow> Some (Some (''failed to decode cache'' @ err), c)
           | Inr ks \<Rightarrow>
               map_option (Pair None) (trimSeen (c\<lparr>sn_order := ks, sn_keys := sn_keys c \<union> set ks\<rparr>)))))"

fun filterNewFrom :: "string set \<Rightarrow> ('a \<Rightarrow> string) \<Rightarrow> string set \<Rightarrow> 'a list \<Rightarrow> 'a list" where
  "filterNewFrom keys key batchSeen [] = []"
| "filterNewFrom keys key batchSeen (item # items) =
     (let k = key item in
      if k \<in> keys then filterNewFrom keys key batchSeen items
      else if k \<in> batchSeen then filterNewFrom keys key batchSeen items
      else item # filterNewFrom keys key (insert k batchSeen) items)"

definition filterNew :: "seenCache \<Rightarrow> ('a \<Rightarrow> string) \<Rightarrow> 'a list \<Rightarrow> 'a list" where
  "filterNew c key items = filterNewFrom (sn_keys c) key {} items"

fun recordKeys :: "seenCache \<Rightarrow> string list \<Rightarrow> seenCache" where
  "recordKeys c [] = c"
| "recordKeys c (k # ks) =
     (if k \<in> sn_keys c then recordKeys c ks
      else recordKeys (c\<lparr>sn_keys := insert k (sn_keys c), sn_order := sn_order c @ [k]\<rparr>) ks)"

text \<open>The stages of \<open>persistLocked\<close>; encoding strings does not fail.\<close>

definition persistSeenStages :: "(nat \<Rightarrow> gerror option) \<Rightarrow> (string \<times> gerror option) list" where
  "persistSeenStages fault =
     [(''creating cache dir'', fault 0), (''marshaling cache'', None), (''creating cache temp file'', fault 1),
      (''writing cache'', fault 2), (''closing cache temp file'', fault 3), (''replacing cache'', fault 4)]"

definition persistSeen :: "(nat \<Rightarrow> gerror option) \<Rightarrow> seenCache \<Rightarrow> seenFile \<Rightarrow> gerror option \<times> seenFile" where
  "persistSeen fault c file =
     (if sn_path c = [] then (None, file)
      else (case atomicReplace (persistSeenStages fault) (SeenBytes (marshalSeen (sn_order c) @ [CHR 0x0A])) (Some file) of
              (err, Some file') \<Rightarrow> (err, file')
            | (err, None) \<Rightarrow> (err, file)))"

text \<open>\<open>markDelivered\<close>: a failure to persist is logged, the cache keeps the keys.\<close>

definition markDelivered ::
  "(nat \<Rightarrow> gerror option) \<Rightarrow> seenCache \<Rightarrow> seenFile \<Rightarrow> ('a \<Rightarrow> string) \<Rightarrow> 'a list
   \<Rightarrow> (gerror option \<times> seenCache \<times> seenFile) option" where
  "markDelivered fault c file key items =
     map_option (\<lambda>c'. let (err, file') = persistSeen fault c' file in (err, c', file'))
       (trimSeen (recordKeys c (map key items)))"

section \<open>Invariant\<close>

text \<open>The slice holds the keys of the map, each once, at most \<open>limit\<close> of them.\<close>

definition seenOk :: "seenCache \<Rightarrow> bool" where
  "seenOk c \<longleftrightarrow> 0 \<le> sn_limit c \<and> sn_keys c = set (sn_order c) \<and> distinct (sn_order c) \<and>
                int (length (sn_order c)) \<le> sn_limit c"

lemma trimOrder_spec:
  "0 \<le> limit \<Longrightarrow> trimOrder limit keys order =
     Some (keys - set (take (length order - nat limit) order), drop (length order - nat limit) order)"
proof (induction order arbitrary: keys)
  case (Cons a order)
  show ?case
  proof (cases "int (length (a # order)) > limit")
    case True
    then have k: "length (a # order) - nat limit = Suc (length order - nat limit)"
      using Cons.prems by auto
    have "keys - {a} - set (take (length order - nat limit) order) =
        keys - set (take (length (a # order) - nat limit) (a # order))"
      unfolding k by auto
    then show ?thesis using True Cons.IH [OF Cons.prems, of "keys - {a}"] unfolding k by simp
  next
    case False
    then have "length (a # order) - nat limit = 0" by simp
    then show ?thesis using False by simp
  qed
qed simp

lemma recordKeys_spec:
  "sn_keys c = set (sn_order c) \<Longrightarrow> distinct (sn_order c) \<Longrightarrow>
   \<exists>new. recordKeys c ks = c\<lparr>sn_keys := sn_keys c \<union> set ks, sn_order := sn_order c @ new\<rparr> \<and>
         set new = set ks - sn_keys c \<and> distinct (sn_order c @ new)"
proof (induction ks arbitrary: c)
  case Nil
  then show ?case by (intro exI [of _ "[]"]) (cases c, simp)
next
  case (Cons k ks)
  show ?case
  proof (cases "k \<in> sn_keys c")
    case True
    from Cons.IH [OF Cons.prems] obtain new where
      n: "recordKeys c ks = c\<lparr>sn_keys := sn_keys c \<union> set ks, sn_order := sn_order c @ new\<rparr>"
      "set new = set ks - sn_keys c" "distinct (sn_order c @ new)"
      by blast
    have "sn_keys c \<union> set ks = sn_keys c \<union> set (k # ks)" "set ks - sn_keys c = set (k # ks) - sn_keys c"
      using True by auto
    with n True show ?thesis by (intro exI [of _ new]) (simp only: recordKeys.simps if_True simp_thms)
  next
    case False
    let ?c = "c\<lparr>sn_keys := insert k (sn_keys c), sn_order := sn_order c @ [k]\<rparr>"
    have "sn_keys ?c = set (sn_order ?c)" "distinct (sn_order ?c)" using False Cons.prems by auto
    from Cons.IH [OF this] obtain new where n:
      "recordKeys ?c ks = ?c\<lparr>sn_keys := sn_keys ?c \<union> set ks, sn_order := sn_order ?c @ new\<rparr>"
      "set new = set ks - sn_keys ?c" "distinct (sn_order ?c @ new)"
      by blast
    have e: "sn_keys ?c \<union> set ks = sn_keys c \<union> set (k # ks)" by auto
    have "recordKeys c (k # ks) = c\<lparr>sn_keys := sn_keys c \<union> set (k # ks), sn_order := sn_order c @ k # new\<rparr>"
      using False n(1) unfolding e by simp
    moreover have "set (k # new) = set (k # ks) - sn_keys c" using False n(2) by auto
    moreover have "distinct (sn_order c @ k # new)" using n(3) by simp
    ultimately show ?thesis by blast
  qed
qed

text \<open>The cache after recording \<open>ks\<close> and trimming: the last \<open>limit\<close> keys in the order of
  their first recording.\<close>

lemma trim_record:
  assumes "seenOk c"
  obtains new c' where "trimSeen (recordKeys c ks) = Some c'" and "seenOk c'" and "sn_limit c' = sn_limit c"
    and "sn_path c' = sn_path c" and "set new = set ks - sn_keys c" and "distinct (sn_order c @ new)"
    and "sn_order c' = drop (length (sn_order c @ new) - nat (sn_limit c)) (sn_order c @ new)"
    and "sn_keys c' = set (sn_order c')"
proof -
  from recordKeys_spec [of c ks] assms obtain new where n:
    "recordKeys c ks = c\<lparr>sn_keys := sn_keys c \<union> set ks, sn_order := sn_order c @ new\<rparr>"
    "set new = set ks - sn_keys c" "distinct (sn_order c @ new)"
    by (auto simp: seenOk_def)
  let ?o = "sn_order c @ new" and ?k = "length (sn_order c @ new) - nat (sn_limit c)"
  let ?c = "c\<lparr>sn_keys := set (drop ?k ?o), sn_order := drop ?k ?o\<rparr>"
  have "sn_keys c \<union> set ks = set ?o" using n(2) assms by (auto simp: seenOk_def)
  moreover have "set ?o - set (take ?k ?o) = set (drop ?k ?o)"
  proof -
    have "distinct (take ?k ?o @ drop ?k ?o)" "set ?o = set (take ?k ?o @ drop ?k ?o)"
      using n(3) unfolding append_take_drop_id by simp_all
    then show ?thesis unfolding distinct_append set_append by blast
  qed
  ultimately have t: "trimSeen (recordKeys c ks) = Some ?c"
    using assms n(1) by (simp add: trimSeen_def trimOrder_spec seenOk_def)
  have "distinct (drop ?k ?o)" using n(3) by (rule distinct_drop)
  moreover have "int (length (drop ?k ?o)) \<le> sn_limit c"
  proof -
    have "length (drop ?k ?o) \<le> nat (sn_limit c)" by simp
    moreover have "0 \<le> sn_limit c" using assms by (simp add: seenOk_def)
    ultimately show ?thesis by (simp only: le_nat_iff)
  qed
  ultimately have "seenOk ?c"
    using assms by (simp add: seenOk_def del: distinct_append drop_append length_append)
  with t n show thesis by (intro that [of ?c new]) (simp_all del: drop_append)
qed

lemma filterNewFrom_spec:
  "distinct (map key (filterNewFrom keys key seen items)) \<and>
   key ` set (filterNewFrom keys key seen items) = key ` set items - keys - seen \<and>
   subseq (filterNewFrom keys key seen items) items"
proof (induction items arbitrary: seen)
  case (Cons a items)
  have IH1: "distinct (map key (filterNewFrom keys key seen' items))"
    and IH2: "key ` set (filterNewFrom keys key seen' items) = key ` set items - keys - seen'"
    and IH3: "subseq (filterNewFrom keys key seen' items) items" for seen'
    using Cons.IH by blast+
  show ?case
    using IH1 [of seen] IH1 [of "insert (key a) seen"] IH2 [of seen] IH2 [of "insert (key a) seen"]
      IH3 [of seen] IH3 [of "insert (key a) seen"]
    by (auto simp: Let_def)
qed simp

section \<open>The file\<close>

lemma decode_marshal:
  assumes "list_all asciiText ks" shows "unmarshal decodeSeen (marshalSeen ks @ [CHR 0x0A]) = Inr ks"
proof -
  let ?j = "JObj [(''keys'', if ks = [] then JNull else textsJson ks)]"
  have "plainJson ?j" using assms by (simp add: plain_texts)
  moreover have "numberEnd [CHR 0x0A]" "skipSpace [CHR 0x0A] = []"
    by (simp_all add: numberEnd_def Go_Time.isDigit_def skipSpace_def jsonSpace_def)
  ultimately have "parseJson (printJson ?j @ [CHR 0x0A]) = Parsed ?j []"
    using print_parts(1) [of ?j "[CHR 0x0A]"] unfolding parseJson_def by (simp del: printJson.simps)
  moreover have "decodeSeen ?j = Inr ks" by (simp add: decode_textList to_lower_def lower_char_def)
  ultimately show ?thesis by (simp add: unmarshal_def marshalSeen_def del: printJson.simps decodeSeen.simps)
qed

text \<open>What was written is loaded as it was; a failure to write leaves the file as it was.\<close>

theorem persist_load:
  assumes "seenOk c" "sn_path c \<noteq> []" "list_all asciiText (sn_order c)" "persistSeen fault c file = (err, file')"
  shows "case err of
      Some e \<Rightarrow> file' = file
    | None \<Rightarrow> loadSeen (c\<lparr>sn_keys := {}, sn_order := []\<rparr>) file' = Some (None, c)"
proof (cases err)
  case None
  then have f: "file' = SeenBytes (marshalSeen (sn_order c) @ [CHR 0x0A])"
    using assms(2,4) by (auto simp: persistSeen_def atomicReplace_def split: option.splits)
  have "trimSeen c = Some c" "c\<lparr>sn_order := sn_order c, sn_keys := set (sn_order c)\<rparr> = c"
    using assms(1) by (cases c; auto simp: trimSeen_def trimOrder_spec seenOk_def)+
  then show ?thesis using None assms(2) decode_marshal [OF assms(3)] by (simp add: loadSeen_def f)
next
  case (Some e)
  then show ?thesis using assms(2,4) by (auto simp: persistSeen_def atomicReplace_def split: option.splits)
qed

section \<open>The interface of a delivery log\<close>

text \<open>\<open>fresh\<close> selects what was not delivered, \<open>mark\<close> records a delivery, \<open>known\<close> are the
  recorded keys and \<open>capacity\<close> says how many the log can remember.\<close>

locale delivery_log =
  fixes fresh :: "'s \<Rightarrow> 'a list \<Rightarrow> 'a list"
    and mark :: "'s \<Rightarrow> 'a list \<Rightarrow> 's"
    and key :: "'a \<Rightarrow> string"
    and known :: "'s \<Rightarrow> string set"
    and capacity :: "'s \<Rightarrow> nat"
    and inv :: "'s \<Rightarrow> bool"
  assumes fresh_distinct: "distinct (map key (fresh s b))"
    and fresh_keys: "key ` set (fresh s b) = key ` set b - known s"
    and known_finite: "inv s \<Longrightarrow> finite (known s)"
    and mark_inv: "inv s \<Longrightarrow> inv (mark s b) \<and> capacity (mark s b) = capacity s"
    and mark_known: "inv s \<Longrightarrow> card (known s \<union> key ` set b) \<le> capacity s \<Longrightarrow>
           known (mark s b) = known s \<union> key ` set b"
begin

text \<open>Batches are offered one after the other; a batch whose push fails is not recorded.\<close>

fun deliver :: "'s \<Rightarrow> ('a list \<times> bool) list \<Rightarrow> 's \<times> 'a list" where
  "deliver s [] = (s, [])"
| "deliver s ((b, pushed) # bs) =
     (let f = fresh s b in
      if pushed then (let (s', out) = deliver (mark s f) bs in (s', f @ out)) else deliver s bs)"

definition offered :: "('a list \<times> bool) list \<Rightarrow> string set" where
  "offered bs = (\<Union>(b, pushed) \<in> set bs. if pushed then key ` set b else {})"

lemma offered_Cons: "offered ((b, pushed) # bs) = (if pushed then key ` set b else {}) \<union> offered bs"
  by (auto simp: offered_def)

lemma offered_finite: "finite (offered bs)"
  by (auto simp: offered_def)

lemma deliver_once:
  "inv s \<Longrightarrow> card (known s \<union> offered bs) \<le> capacity s \<Longrightarrow> deliver s bs = (s', out) \<Longrightarrow>
   distinct (map key out) \<and> key ` set out = offered bs - known s \<and>
   inv s' \<and> known s' = known s \<union> offered bs"
proof (induction bs arbitrary: s s' out)
  case Nil
  then show ?case by (simp add: offered_def)
next
  case (Cons x bs)
  obtain b pushed where [simp]: "x = (b, pushed)" by force
  show ?case
  proof (cases pushed)
    case False
    then have o: "offered (x # bs) = offered bs" and d: "deliver s bs = (s', out)"
      using Cons.prems(3) by (simp_all add: offered_Cons)
    show ?thesis unfolding o using Cons.IH [OF Cons.prems(1) Cons.prems(2) [unfolded o] d] .
  next
    case True
    let ?f = "fresh s b"
    obtain s1 out1 where d: "deliver (mark s ?f) bs = (s1, out1)" by force
    have fk: "key ` set ?f = key ` set b - known s" by (rule fresh_keys)
    have u: "known s \<union> key ` set ?f = known s \<union> key ` set b" unfolding fk by blast
    have oc: "offered (x # bs) = key ` set b \<union> offered bs"
      using True by (simp add: offered_Cons)
    have o: "known s \<union> offered (x # bs) = known s \<union> key ` set b \<union> offered bs"
      unfolding oc by (rule Un_assoc [symmetric])
    have "card (known s \<union> key ` set b) \<le> card (known s \<union> offered (x # bs))"
      using known_finite [OF Cons.prems(1)] offered_finite [of bs] unfolding o by (intro card_mono) auto
    also note Cons.prems(2)
    finally have "card (known s \<union> key ` set ?f) \<le> capacity s" unfolding u .
    from mark_known [OF Cons.prems(1) this] have k: "known (mark s ?f) = known s \<union> key ` set b"
      unfolding u .
    note mi = mark_inv [OF Cons.prems(1), of ?f]
    have c: "card (known (mark s ?f) \<union> offered bs) \<le> capacity (mark s ?f)"
      using Cons.prems(2) mi unfolding k o by (simp only:)
    note IH = Cons.IH [OF mi [THEN conjunct1] c d]
    have out: "out = ?f @ out1" "s' = s1" using Cons.prems(3) True d by (simp_all add: Let_def)
    have io: "key ` set out1 = offered bs - known (mark s ?f)" using IH by blast
    have "key ` set ?f \<inter> key ` set out1 = {}" unfolding fk io k by blast
    then have "distinct (map key out)" using fresh_distinct [of s b] IH unfolding out by simp
    moreover have "key ` set out = offered (x # bs) - known s"
      unfolding out set_append image_Un fk io k oc by blast
    moreover have "known s' = known s \<union> offered (x # bs)" using IH unfolding out k oc by blast
    ultimately show ?thesis using IH unfolding out(2) by blast
  qed
qed

end

text \<open>The cache with its file, and disks that may fail.\<close>

definition seenMark :: "(nat \<Rightarrow> gerror option) \<Rightarrow> ('a \<Rightarrow> string) \<Rightarrow> seenCache \<times> seenFile \<Rightarrow> 'a list \<Rightarrow> seenCache \<times> seenFile" where
  "seenMark fault key s b =
     (case markDelivered fault (fst s) (snd s) key b of None \<Rightarrow> s | Some (err, s') \<Rightarrow> s')"

lemma seenMark_spec:
  assumes "seenOk (fst s)"
  shows "seenOk (fst (seenMark fault key s b)) \<and> sn_limit (fst (seenMark fault key s b)) = sn_limit (fst s)"
    and "card (sn_keys (fst s) \<union> key ` set b) \<le> nat (sn_limit (fst s)) \<Longrightarrow>
         sn_keys (fst (seenMark fault key s b)) = sn_keys (fst s) \<union> key ` set b"
proof -
  let ?c = "fst s"
  obtain new c' where t:
    "trimSeen (recordKeys ?c (map key b)) = Some c'" "seenOk c'" "sn_limit c' = sn_limit ?c"
    "set new = set (map key b) - sn_keys ?c" "distinct (sn_order ?c @ new)"
    "sn_order c' = drop (length (sn_order ?c @ new) - nat (sn_limit ?c)) (sn_order ?c @ new)"
    "sn_keys c' = set (sn_order c')"
    by (rule trim_record [OF assms, of "map key b"], rule that, assumption+)
  have m: "fst (seenMark fault key s b) = c'"
    using t(1) by (simp add: seenMark_def markDelivered_def Let_def case_prod_beta)
  show "seenOk (fst (seenMark fault key s b)) \<and> sn_limit (fst (seenMark fault key s b)) = sn_limit ?c"
    unfolding m using t(2,3) by (rule conjI)
  have "set (sn_order ?c) = sn_keys ?c" using assms by (simp add: seenOk_def)
  then have k: "set (sn_order ?c @ new) = sn_keys ?c \<union> key ` set b"
    unfolding set_append t(4) set_map by blast
  assume "card (sn_keys ?c \<union> key ` set b) \<le> nat (sn_limit ?c)"
  then have "length (sn_order ?c @ new) \<le> nat (sn_limit ?c)"
    using t(5) k by (metis distinct_card)
  then have "length (sn_order ?c @ new) - nat (sn_limit ?c) = 0" by (simp only: diff_is_0_eq)
  then have "sn_order c' = sn_order ?c @ new" unfolding t(6) by (simp only: drop_0)
  then show "sn_keys (fst (seenMark fault key s b)) = sn_keys ?c \<union> key ` set b"
    unfolding m t(7) k [symmetric] by (simp only:)
qed

interpretation seen: delivery_log "\<lambda>s. filterNew (fst s) key" "seenMark fault key" key
  "\<lambda>s. sn_keys (fst s)" "\<lambda>s. nat (sn_limit (fst s))" "\<lambda>s. seenOk (fst s)" for fault key
proof
  fix s :: "seenCache \<times> seenFile" and b
  show "distinct (map key (filterNew (fst s) key b))"
    and "key ` set (filterNew (fst s) key b) = key ` set b - sn_keys (fst s)"
    using filterNewFrom_spec [of key "sn_keys (fst s)" "{}" b] by (simp_all add: filterNew_def)
  show "seenOk (fst s) \<Longrightarrow> finite (sn_keys (fst s))"
    by (simp add: seenOk_def)
  assume ok: "seenOk (fst s)"
  show "seenOk (fst (seenMark fault key s b)) \<and> nat (sn_limit (fst (seenMark fault key s b))) = nat (sn_limit (fst s))"
    using seenMark_spec(1) [OF ok, of fault key b] by simp
  assume "card (sn_keys (fst s) \<union> key ` set b) \<le> nat (sn_limit (fst s))"
  then show "sn_keys (fst (seenMark fault key s b)) = sn_keys (fst s) \<union> key ` set b"
    by (rule seenMark_spec(2) [OF ok])
qed

section \<open>Properties of the cache\<close>

text \<open>The daemon's use of the cache: what was not delivered is pushed, and recorded when the
  push succeeded. The result also has the items pushed, in order.\<close>

fun deliverBatches ::
  "(nat \<Rightarrow> gerror option) \<Rightarrow> ('a \<Rightarrow> string) \<Rightarrow> seenCache \<times> seenFile \<Rightarrow> ('a list \<times> bool) list
   \<Rightarrow> (seenCache \<times> seenFile) \<times> 'a list" where
  "deliverBatches fault key s [] = (s, [])"
| "deliverBatches fault key s ((b, pushed) # bs) =
     (let f = filterNew (fst s) key b in
      if pushed then (let (s', out) = deliverBatches fault key (seenMark fault key s f) bs in (s', f @ out))
      else deliverBatches fault key s bs)"

lemma deliverBatches_eq: "deliverBatches fault key s bs = seen.deliver key fault s bs"
proof (induction bs arbitrary: s)
  case (Cons x bs)
  then show ?case by (cases x) (simp add: Let_def)
qed simp

text \<open>Whatever batches are offered, in whatever overlap, over any disk faults: as long as the
  cache can remember all keys offered, no key is delivered twice, nor one recorded before, and
  every key of a batch whose push succeeded is delivered or was recorded before.\<close>

theorem delivered_exactly_once:
  assumes "seenOk c"
    and "deliverBatches fault key (c, file) bs = (s', out)"
    and "card (sn_keys c \<union> (\<Union>(b, pushed) \<in> set bs. if pushed then key ` set b else {})) \<le> nat (sn_limit c)"
  shows "distinct (map key out) \<and>
         key ` set out = (\<Union>(b, pushed) \<in> set bs. if pushed then key ` set b else {}) - sn_keys c"
proof -
  have i: "seenOk (fst (c, file))" using assms(1) by simp
  have card: "card (sn_keys (fst (c, file)) \<union> seen.offered key bs) \<le> nat (sn_limit (fst (c, file)))"
    using assms(3) by (simp add: seen.offered_def)
  have d: "seen.deliver key fault (c, file) bs = (s', out)" using assms(2) by (simp add: deliverBatches_eq)
  show ?thesis
    using seen.deliver_once [OF i card d] by (simp add: seen.offered_def)
qed

definition sampleCache :: seenCache where
  "sampleCache = \<lparr>sn_path = ''/var/seen.json'', sn_limit = 3, sn_keys = {''a''}, sn_order = [''a'']\<rparr>"

theorem delivered_exactly_once_witness:
  "\<exists>s' out. deliverBatches (\<lambda>_. Some ''disk full'') (\<lambda>x. x) (sampleCache, SeenAbsent)
       [([''a'', ''b'', ''b''], True), ([''c''], False), ([''b'', ''c''], True)] = (s', out) \<and>
     distinct out \<and> set out = {''b'', ''c''}"
proof -
  let ?bs = "[([''a'', ''b'', ''b''], True), ([''c''], False), ([''b'', ''c''], True)]"
  obtain s' out where d: "deliverBatches (\<lambda>_. Some ''disk full'') (\<lambda>x. x) (sampleCache, SeenAbsent) ?bs = (s', out)"
    by (metis surj_pair)
  have ok: "seenOk sampleCache" by code_simp
  have l: "sn_keys sampleCache = {''a''}" "sn_limit sampleCache = 3" by (simp_all add: sampleCache_def)
  have u: "(\<Union>(b, pushed) \<in> set ?bs. if pushed then (\<lambda>x. x) ` set b else {}) = {''a'', ''b'', ''c''}"
    by auto
  have "card (sn_keys sampleCache \<union> (\<Union>(b, pushed) \<in> set ?bs. if pushed then (\<lambda>x. x) ` set b else {}))
      \<le> nat (sn_limit sampleCache)"
  proof -
    have "{''a''} \<union> {''a'', ''b'', ''c''} = {''a'', ''b'', ''c'' :: string}" by blast
    then show ?thesis unfolding u l by simp
  qed
  from delivered_exactly_once [OF ok d this] have "distinct out" "set out = {''b'', ''c''}"
    unfolding u l by auto
  with d show ?thesis by blast
qed

text \<open>\<open>markDelivered\<close> never panics, keeps at most \<open>limit\<close> keys, the most recently
  recorded ones, and when the disk works a cache that is loaded from the file in the next run
  knows exactly the same keys in the same order.\<close>

theorem mark_bounded_and_reloaded:
  assumes "seenOk c" "sn_path c \<noteq> []" "list_all asciiText (sn_order c @ map key items)"
  shows "\<exists>err c' file'. markDelivered fault c file key items = Some (err, c', file') \<and>
    int (length (sn_order c')) \<le> sn_limit c \<and>
    (\<exists>new. set new = key ` set items - sn_keys c \<and> distinct (sn_order c @ new) \<and>
           suffix (sn_order c') (sn_order c @ new)) \<and>
    (case err of
       Some e \<Rightarrow> file' = file
     | None \<Rightarrow> loadSeen (c\<lparr>sn_keys := {}, sn_order := []\<rparr>) file' = Some (None, c'))"
proof -
  obtain new c' where t:
    "trimSeen (recordKeys c (map key items)) = Some c'" "seenOk c'" "sn_limit c' = sn_limit c"
    "sn_path c' = sn_path c" "set new = set (map key items) - sn_keys c" "distinct (sn_order c @ new)"
    "sn_order c' = drop (length (sn_order c @ new) - nat (sn_limit c)) (sn_order c @ new)"
    "sn_keys c' = set (sn_order c')"
    by (rule trim_record [OF assms(1), of "map key items"], rule that, assumption+)
  obtain err file' where p: "persistSeen fault c' file = (err, file')" by force
  then have m: "markDelivered fault c file key items = Some (err, c', file')"
    using t(1) by (simp add: markDelivered_def Let_def)
  have l: "int (length (sn_order c')) \<le> sn_limit c" using t(2,3) by (simp add: seenOk_def)
  have suf: "suffix (sn_order c') (sn_order c @ new)" unfolding t(7) by (rule suffix_drop)
  then have n: "\<exists>new. set new = key ` set items - sn_keys c \<and> distinct (sn_order c @ new) \<and>
           suffix (sn_order c') (sn_order c @ new)"
    using t(5,6) by auto
  have "set (sn_order c') \<subseteq> set (sn_order c @ map key items)" using set_mono_suffix [OF suf] t(5) by auto
  then have "list_all asciiText (sn_order c')" using assms(3) unfolding list_all_iff by blast
  moreover have "c'\<lparr>sn_keys := {}, sn_order := []\<rparr> = c\<lparr>sn_keys := {}, sn_order := []\<rparr>"
    using t(3,4) by (cases c; cases c') simp
  ultimately have "case err of
       Some e \<Rightarrow> file' = file
     | None \<Rightarrow> loadSeen (c\<lparr>sn_keys := {}, sn_order := []\<rparr>) file' = Some (None, c')"
    using persist_load [OF t(2) _ _ p] assms(2) t(4) by (simp cong: option.case_cong)
  with m l n show ?thesis by blast
qed

theorem mark_bounded_and_reloaded_witness:
  "\<exists>c'. loadSeen (newSeenCache ''/var'' ''seen.json'' 3) (SeenBytes (marshalSeen [''b'', ''c'', ''d''] @ [CHR 0x0A])) = Some (None, c') \<and>
        sn_order c' = [''b'', ''c'', ''d'']"
proof -
  have ok: "seenOk sampleCache" "sn_path sampleCache \<noteq> []" "list_all asciiText (sn_order sampleCache @ map (\<lambda>x. x) [''b'', ''a'', ''c'', ''d''])"
    by code_simp+
  have m: "map_option (\<lambda>(err, c', file'). (err, sn_order c', file'))
      (markDelivered (\<lambda>_. None) sampleCache SeenAbsent (\<lambda>x. x) [''b'', ''a'', ''c'', ''d'']) =
    Some (None, [''b'', ''c'', ''d''], SeenBytes (marshalSeen [''b'', ''c'', ''d''] @ [CHR 0x0A]))"
    by code_simp
  have new: "sampleCache\<lparr>sn_keys := {}, sn_order := []\<rparr> = newSeenCache ''/var'' ''seen.json'' 3"
    by code_simp
  from mark_bounded_and_reloaded [OF ok, of "\<lambda>_. None" SeenAbsent]
  obtain err c' file' where
    h: "markDelivered (\<lambda>_. None) sampleCache SeenAbsent (\<lambda>x. x) [''b'', ''a'', ''c'', ''d''] = Some (err, c', file')"
    and r: "case err of Some e \<Rightarrow> file' = SeenAbsent
      | None \<Rightarrow> loadSeen (sampleCache\<lparr>sn_keys := {}, sn_order := []\<rparr>) file' = Some (None, c')"
    by blast
  from m [unfolded h] have e: "err = None" "sn_order c' = [''b'', ''c'', ''d'']"
      "file' = SeenBytes (marshalSeen [''b'', ''c'', ''d''] @ [CHR 0x0A])"
    by simp_all
  from r [unfolded e(1,3) new] show ?thesis by (intro exI [of _ c'] conjI e(2)) simp
qed

end
