(* ===== verification/Github_Inventory.thy ===== *)
theory Github_Inventory
  imports Effects Go_Time "HOL-Library.Word"
begin

text \<open>
  The runner inventory cache and the token caches of the GitHub provider
  (\<open>provider/github/ci.go\<close>). The cache can be shared by several providers, whose
  goroutines interleave: a fetch reads the generation of the cache first, asks the API and
  stores its result only if the generation is still the same. The generation is a 64-bit
  word. \<open>invStep\<close> is the relation of the atomic steps, with ghost components that remember
  which mutations a fetch has seen.
\<close>

section \<open>The cache\<close>

record runnerInventoryCache =
  ic_runners :: "runner list"
  ic_fetchedAt :: gotime
  ic_suspended :: bool
  ic_generation :: "64 word"

definition emptyInventory :: runnerInventoryCache where
  "emptyInventory = \<lparr>ic_runners = [], ic_fetchedAt = 0, ic_suspended = False, ic_generation = 0\<rparr>"

definition storeRunnerCache ::
  "runnerInventoryCache \<Rightarrow> runner list \<Rightarrow> 64 word \<Rightarrow> gotime \<Rightarrow> runnerInventoryCache" where
  "storeRunnerCache c runners generation fetchedAt =
     (if ic_generation c \<noteq> generation then c
      else c\<lparr>ic_runners := runners, ic_fetchedAt := fetchedAt\<rparr>)"

definition invalidateRunnerCache :: "runnerInventoryCache \<Rightarrow> runnerInventoryCache" where
  "invalidateRunnerCache c =
     c\<lparr>ic_runners := [], ic_fetchedAt := 0, ic_generation := ic_generation c + 1\<rparr>"

definition SuspendRunnerInventoryCache :: "runnerInventoryCache \<Rightarrow> runnerInventoryCache" where
  "SuspendRunnerInventoryCache c =
     c\<lparr>ic_runners := [], ic_fetchedAt := 0, ic_suspended := True, ic_generation := ic_generation c + 1\<rparr>"

definition ResumeRunnerInventoryCache :: "runnerInventoryCache \<Rightarrow> runnerInventoryCache" where
  "ResumeRunnerInventoryCache c =
     c\<lparr>ic_runners := [], ic_fetchedAt := 0, ic_suspended := False, ic_generation := ic_generation c + 1\<rparr>"

text \<open>\<open>math.Round(age.Seconds())\<close> of an age that is not negative.\<close>

definition roundSeconds :: "duration \<Rightarrow> int" where
  "roundSeconds age = (2 * age + second) div (2 * second)"

definition runnerInventoryMeta :: "gotime \<Rightarrow> gotime \<Rightarrow> bool \<Rightarrow> RunnerInventoryMeta" where
  "runnerInventoryMeta fetchedAt now stale =
     (let age0 = time_sub now fetchedAt; age = (if age0 < 0 then 0 else age0)
      in \<lparr>im_Stale = stale, im_AgeS = roundSeconds age, im_FetchedAt = rfc3339 fetchedAt, im_Error = []\<rparr>)"

definition annotateRunners :: "string \<Rightarrow> runner list \<Rightarrow> runner list" where
  "annotateRunners pfx runners = map (\<lambda>r. r\<lparr>r_IsAuto := has_prefix (r_Name r) pfx\<rparr>) runners"

text \<open>What the cache lookup needs of the provider.\<close>

record inventoryPolicy =
  ip_prefix :: string
  ip_cacheTTL :: duration
  ip_staleTTL :: duration

definition cachedRunners ::
  "inventoryPolicy \<Rightarrow> runnerInventoryCache \<Rightarrow> gotime \<Rightarrow> bool \<Rightarrow> (runner list \<times> RunnerInventoryMeta) option" where
  "cachedRunners p c now allowStale =
     (if isZero (ic_fetchedAt c) then None
      else (let age0 = time_sub now (ic_fetchedAt c); age = (if age0 < 0 then 0 else age0) in
        if \<not> allowStale \<and> ic_suspended c then None
        else if ip_cacheTTL p > 0 \<and> age \<le> ip_cacheTTL p
        then Some (annotateRunners (ip_prefix p) (ic_runners c), runnerInventoryMeta (ic_fetchedAt c) now False)
        else if allowStale \<and> ip_staleTTL p > 0 \<and> age \<le> ip_staleTTL p
        then Some (annotateRunners (ip_prefix p) (ic_runners c), runnerInventoryMeta (ic_fetchedAt c) now True)
        else None))"

text \<open>Setters bound the configured durations from below.\<close>

definition SetRunnerCacheTTL :: "duration \<Rightarrow> inventoryPolicy \<Rightarrow> inventoryPolicy" where
  "SetRunnerCacheTTL ttl p = p\<lparr>ip_cacheTTL := (if ttl < 0 then 0 else ttl)\<rparr>"

definition SetRunnerStaleTTL :: "duration \<Rightarrow> inventoryPolicy \<Rightarrow> inventoryPolicy" where
  "SetRunnerStaleTTL ttl p = p\<lparr>ip_staleTTL := (if ttl < 0 then 0 else ttl)\<rparr>"

section \<open>listRunners\<close>

text \<open>What other goroutines do to the cache while a fetch is under way.\<close>

datatype cacheOp = OpInvalidate | OpSuspend | OpResume

fun cacheApply :: "runnerInventoryCache \<Rightarrow> cacheOp \<Rightarrow> runnerInventoryCache" where
  "cacheApply c OpInvalidate = invalidateRunnerCache c"
| "cacheApply c OpSuspend = SuspendRunnerInventoryCache c"
| "cacheApply c OpResume = ResumeRunnerInventoryCache c"

text \<open>\<open>listRunners\<close> with its clock, the cache \<open>c1\<close> it finds once it holds the fetch lock, the
  answer of the API and the operations \<open>meanwhile\<close> of others during the fetch. It returns the
  final cache as well.\<close>

definition listRunners ::
  "inventoryPolicy \<Rightarrow> (nat \<Rightarrow> gotime) \<Rightarrow> runnerInventoryCache \<Rightarrow> runnerInventoryCache \<Rightarrow> runner list result
   \<Rightarrow> cacheOp list \<Rightarrow> bool \<Rightarrow> (runner list \<times> RunnerInventoryMeta) result \<times> runnerInventoryCache" where
  "listRunners p clk c0 c1 fetched meanwhile allowStale =
     (case cachedRunners p c0 (clk 0) False of
        Some hit \<Rightarrow> (Inr hit, c1)
      | None \<Rightarrow>
          (case cachedRunners p c1 (clk 1) False of
             Some hit \<Rightarrow> (Inr hit, c1)
           | None \<Rightarrow>
               (let generation = ic_generation c1; c2 = foldl cacheApply c1 meanwhile in
                case fetched of
                  Inl err \<Rightarrow>
                    (if allowStale then
                       (case cachedRunners p c2 (clk 2) True of
                          Some (cached, meta) \<Rightarrow> (Inr (cached, meta\<lparr>im_Stale := True, im_Error := err\<rparr>), c2)
                        | None \<Rightarrow> (Inl err, c2))
                     else (Inl err, c2))
                | Inr runners \<Rightarrow>
                    (Inr (annotateRunners (ip_prefix p) runners, runnerInventoryMeta (clk 2) (clk 3) False),
                     storeRunnerCache c2 runners generation (clk 2)))))"

definition ListRunnersFresh ::
  "inventoryPolicy \<Rightarrow> (nat \<Rightarrow> gotime) \<Rightarrow> runnerInventoryCache \<Rightarrow> runnerInventoryCache \<Rightarrow> runner list result
   \<Rightarrow> cacheOp list \<Rightarrow> runner list result \<times> runnerInventoryCache" where
  "ListRunnersFresh p clk c0 c1 fetched meanwhile =
     (case listRunners p clk c0 c1 fetched meanwhile False of
        (Inl err, c) \<Rightarrow> (Inl err, c)
      | (Inr (runners, meta), c) \<Rightarrow> (Inr runners, c))"

definition ListRunnersForMetrics ::
  "inventoryPolicy \<Rightarrow> (nat \<Rightarrow> gotime) \<Rightarrow> runnerInventoryCache \<Rightarrow> runnerInventoryCache \<Rightarrow> runner list result
   \<Rightarrow> cacheOp list \<Rightarrow> (runner list \<times> RunnerInventoryMeta) result \<times> runnerInventoryCache" where
  "ListRunnersForMetrics p clk c0 c1 fetched meanwhile = listRunners p clk c0 c1 fetched meanwhile True"

section \<open>Interleavings\<close>

text \<open>The cache with the fetch under way (the fetch lock admits one), and ghosts: \<open>epoch\<close>
  counts the mutations so far, \<open>seenEpoch\<close> is the epoch in which the cached fetch began.\<close>

record inventoryWorld =
  iw_cache :: runnerInventoryCache
  iw_fetch :: "(64 word \<times> nat) option"
  iw_epoch :: nat
  iw_seenEpoch :: nat

definition startWorld :: inventoryWorld where
  "startWorld = \<lparr>iw_cache = emptyInventory, iw_fetch = None, iw_epoch = 0, iw_seenEpoch = 0\<rparr>"

inductive invStep :: "inventoryWorld \<Rightarrow> inventoryWorld \<Rightarrow> bool" where
  begin_fetch: "iw_fetch w = None \<Longrightarrow>
    invStep w (w\<lparr>iw_fetch := Some (ic_generation (iw_cache w), iw_epoch w)\<rparr>)"
| fetch_failed: "iw_fetch w = Some (g, e) \<Longrightarrow> invStep w (w\<lparr>iw_fetch := None\<rparr>)"
| fetch_stored: "iw_fetch w = Some (g, e) \<Longrightarrow> ic_generation (iw_cache w) = g \<Longrightarrow> tm \<noteq> 0 \<Longrightarrow>
    invStep w (w\<lparr>iw_fetch := None, iw_cache := storeRunnerCache (iw_cache w) rs g tm, iw_seenEpoch := e\<rparr>)"
| fetch_discarded: "iw_fetch w = Some (g, e) \<Longrightarrow> ic_generation (iw_cache w) \<noteq> g \<Longrightarrow>
    invStep w (w\<lparr>iw_fetch := None, iw_cache := storeRunnerCache (iw_cache w) rs g tm\<rparr>)"
| mutation: "invStep w (w\<lparr>iw_cache := cacheApply (iw_cache w) op, iw_epoch := Suc (iw_epoch w)\<rparr>)"

inductive_cases invStep_cases: "invStep w w'"

definition reachableWorld :: "inventoryWorld \<Rightarrow> bool" where
  "reachableWorld w \<longleftrightarrow> invStep\<^sup>*\<^sup>* startWorld w"

text \<open>The generation is the epoch modulo \<open>2 ^ 64\<close>; a cached inventory belongs to the epoch in
  which its fetch began.\<close>

definition worldOk :: "inventoryWorld \<Rightarrow> bool" where
  "worldOk w \<longleftrightarrow>
     ic_generation (iw_cache w) = of_nat (iw_epoch w) \<and>
     (\<forall>g e. iw_fetch w = Some (g, e) \<longrightarrow> e \<le> iw_epoch w \<and> g = of_nat e) \<and>
     (ic_fetchedAt (iw_cache w) \<noteq> 0 \<longrightarrow> iw_seenEpoch w \<le> iw_epoch w \<and>
        (of_nat (iw_seenEpoch w) :: 64 word) = of_nat (iw_epoch w))"

lemma cacheApply_simps [simp]:
  "ic_generation (cacheApply c op) = ic_generation c + 1"
  "ic_fetchedAt (cacheApply c op) = 0"
  "ic_runners (cacheApply c op) = []"
  by (cases op; simp add: invalidateRunnerCache_def SuspendRunnerInventoryCache_def ResumeRunnerInventoryCache_def)+

lemma worldOk_start: "worldOk startWorld"
  by (simp add: worldOk_def startWorld_def emptyInventory_def)

lemma worldOk_step: "invStep w w' \<Longrightarrow> worldOk w \<Longrightarrow> worldOk w'"
  by (induction rule: invStep.induct) (auto simp: worldOk_def storeRunnerCache_def)

lemma worldOk_reachable: "reachableWorld w \<Longrightarrow> worldOk w"
  unfolding reachableWorld_def
  by (induction rule: rtranclp_induct) (auto simp: worldOk_start intro: worldOk_step)

lemma of_nat_word_eq:
  assumes "m \<le> n" and "n < 2 ^ 64"
  shows "(of_nat m :: 64 word) = of_nat n \<longleftrightarrow> m = n"
proof -
  have "take_bit 64 m = m" "take_bit 64 n = n"
    using assms by (auto intro!: take_bit_nat_eq_self)
  then show ?thesis by (simp add: word_of_nat_eq_iff)
qed

lemma cachedRunners_hit:
  assumes "cachedRunners p c now allowStale = Some (rs, meta)"
  shows "ic_fetchedAt c \<noteq> 0 \<and> rs = annotateRunners (ip_prefix p) (ic_runners c) \<and>
    (\<not> allowStale \<longrightarrow> \<not> ic_suspended c) \<and>
    ((\<not> im_Stale meta \<and> time_sub now (ic_fetchedAt c) \<le> ip_cacheTTL p \<and> 0 < ip_cacheTTL p) \<or>
     (allowStale \<and> im_Stale meta \<and> time_sub now (ic_fetchedAt c) \<le> ip_staleTTL p \<and> 0 < ip_staleTTL p))"
  using assms unfolding cachedRunners_def Let_def
  by (auto simp: runnerInventoryMeta_def Let_def split: if_splits)

section \<open>Properties\<close>

text \<open>C21. However fetches and mutations of the shared cache interleave (fewer than \<open>2 ^ 64\<close>
  mutations), a cached inventory that the reconciler is given was fetched by a request that began
  after the latest suspension, resumption or deletion, is not given during a suspension, and is not
  older than the cache TTL.\<close>

theorem cached_inventory_follows_mutations:
  assumes "reachableWorld w" and "iw_epoch w < 2 ^ 64"
    and "cachedRunners p (iw_cache w) now False = Some (rs, meta)"
  shows "iw_seenEpoch w = iw_epoch w \<and> \<not> ic_suspended (iw_cache w) \<and>
         time_sub now (ic_fetchedAt (iw_cache w)) \<le> ip_cacheTTL p \<and>
         map r_ID rs = map r_ID (ic_runners (iw_cache w))"
proof -
  note h = cachedRunners_hit [OF assms(3)]
  from worldOk_reachable [OF assms(1)] h
  have "iw_seenEpoch w \<le> iw_epoch w" "(of_nat (iw_seenEpoch w) :: 64 word) = of_nat (iw_epoch w)"
    unfolding worldOk_def by blast+
  then have "iw_seenEpoch w = iw_epoch w" using of_nat_word_eq assms(2) by blast
  then show ?thesis using h by (auto simp: annotateRunners_def)
qed

definition samplePolicy :: inventoryPolicy where
  "samplePolicy = \<lparr>ip_prefix = ''ci'', ip_cacheTTL = 5 * second, ip_staleTTL = 10 * minute\<rparr>"

definition sampleRunner :: runner where
  "sampleRunner = \<lparr>r_ID = 7, r_Name = ''ci-1'', r_Status = ''online'', r_Busy = True, r_Labels = [], r_IsAuto = False\<rparr>"

definition sampleWorld :: inventoryWorld where
  "sampleWorld =
     \<lparr>iw_cache = \<lparr>ic_runners = [sampleRunner], ic_fetchedAt = 100, ic_suspended = False, ic_generation = 1\<rparr>,
      iw_fetch = None, iw_epoch = 1, iw_seenEpoch = 1\<rparr>"

lemma sampleWorld_reachable: "reachableWorld sampleWorld"
proof -
  let ?w1 = "startWorld\<lparr>iw_cache := cacheApply (iw_cache startWorld) OpResume, iw_epoch := Suc (iw_epoch startWorld)\<rparr>"
  let ?w2 = "?w1\<lparr>iw_fetch := Some (ic_generation (iw_cache ?w1), iw_epoch ?w1)\<rparr>"
  have "invStep startWorld ?w1" by (rule mutation)
  moreover have "invStep ?w1 ?w2" by (rule begin_fetch) (simp add: startWorld_def)
  moreover have "invStep ?w2 (?w2\<lparr>iw_fetch := None,
      iw_cache := storeRunnerCache (iw_cache ?w2) [sampleRunner] (ic_generation (iw_cache ?w1)) 100, iw_seenEpoch := iw_epoch ?w1\<rparr>)"
    by (rule fetch_stored) simp_all
  moreover have "?w2\<lparr>iw_fetch := None,
      iw_cache := storeRunnerCache (iw_cache ?w2) [sampleRunner] (ic_generation (iw_cache ?w1)) 100, iw_seenEpoch := iw_epoch ?w1\<rparr>
      = sampleWorld"
    by (simp add: sampleWorld_def startWorld_def emptyInventory_def storeRunnerCache_def ResumeRunnerInventoryCache_def)
  ultimately show ?thesis
    unfolding reachableWorld_def by (metis rtranclp.rtrancl_refl rtranclp.rtrancl_into_rtrancl)
qed

theorem cached_inventory_follows_mutations_witness:
  "\<exists>rs meta. cachedRunners samplePolicy (iw_cache sampleWorld) 200 False = Some (rs, meta) \<and>
     iw_seenEpoch sampleWorld = iw_epoch sampleWorld \<and> map r_ID rs = [7]"
proof -
  have "cachedRunners samplePolicy (iw_cache sampleWorld) 200 False \<noteq> None" by code_simp
  then obtain rs meta where h: "cachedRunners samplePolicy (iw_cache sampleWorld) 200 False = Some (rs, meta)"
    by auto
  have e: "iw_epoch sampleWorld < 2 ^ 64" "map r_ID (ic_runners (iw_cache sampleWorld)) = [7]" by code_simp+
  from cached_inventory_follows_mutations [OF sampleWorld_reachable e(1) h] e(2) h show ?thesis by auto
qed

lemma foldl_generation: "ic_generation (foldl cacheApply c ops) = ic_generation c + of_nat (length ops)"
  by (induction ops arbitrary: c) auto

lemma foldl_fetchedAt: "ops \<noteq> [] \<Longrightarrow> ic_fetchedAt (foldl cacheApply c ops) = 0"
  by (cases ops rule: rev_cases) auto

lemma generation_moved:
  assumes "length ops \<in> {1..<2 ^ 64}"
  shows "ic_generation (foldl cacheApply c ops) \<noteq> ic_generation c"
proof -
  have "(of_nat (length ops) :: 64 word) \<noteq> of_nat 0"
    using assms of_nat_word_eq [of 0 "length ops"] by auto
  then show ?thesis by (simp add: foldl_generation)
qed

text \<open>The reconciler gets the runners the API just answered or a fresh cached inventory, and
  an API error otherwise; the dashboards get an inventory even then if the cached one is not
  older than the stale TTL, and it is marked stale with the error. Nothing is stored by a fetch
  during which the cache was suspended, resumed or invalidated.\<close>

theorem stale_inventory_only_for_metrics:
  assumes "cachedRunners p c0 (clk 0) False = None" and "cachedRunners p c1 (clk 1) False = None"
  shows "(case fetched of
      Inl err \<Rightarrow> fst (ListRunnersFresh p clk c0 c1 fetched meanwhile) = Inl err \<and>
        (case fst (ListRunnersForMetrics p clk c0 c1 fetched meanwhile) of
           Inl err' \<Rightarrow> err' = err
         | Inr (rs, meta) \<Rightarrow> im_Stale meta \<and> im_Error meta = err \<and>
             map r_ID rs = map r_ID (ic_runners (foldl cacheApply c1 meanwhile)) \<and>
             time_sub (clk 2) (ic_fetchedAt (foldl cacheApply c1 meanwhile)) \<le> max (ip_cacheTTL p) (ip_staleTTL p))
    | Inr runners \<Rightarrow> fst (ListRunnersFresh p clk c0 c1 fetched meanwhile) = Inr (annotateRunners (ip_prefix p) runners)) \<and>
    (length meanwhile \<in> {1..<2 ^ 64} \<longrightarrow>
       ic_fetchedAt (snd (ListRunnersFresh p clk c0 c1 fetched meanwhile)) = 0)"
proof (rule conjI)
  let ?c = "foldl cacheApply c1 meanwhile"
  have miss: "listRunners p clk c0 c1 f meanwhile b =
    (case f of
       Inl err \<Rightarrow>
         (if b then (case cachedRunners p ?c (clk 2) True of
              Some (cached, meta) \<Rightarrow> (Inr (cached, meta\<lparr>im_Stale := True, im_Error := err\<rparr>), ?c)
            | None \<Rightarrow> (Inl err, ?c))
          else (Inl err, ?c))
     | Inr runners \<Rightarrow> (Inr (annotateRunners (ip_prefix p) runners, runnerInventoryMeta (clk 2) (clk 3) False),
          storeRunnerCache ?c runners (ic_generation c1) (clk 2)))" for f b
    using assms by (simp add: listRunners_def Let_def)
  show "case fetched of
      Inl err \<Rightarrow> fst (ListRunnersFresh p clk c0 c1 fetched meanwhile) = Inl err \<and>
        (case fst (ListRunnersForMetrics p clk c0 c1 fetched meanwhile) of
           Inl err' \<Rightarrow> err' = err
         | Inr (rs, meta) \<Rightarrow> im_Stale meta \<and> im_Error meta = err \<and>
             map r_ID rs = map r_ID (ic_runners ?c) \<and>
             time_sub (clk 2) (ic_fetchedAt ?c) \<le> max (ip_cacheTTL p) (ip_staleTTL p))
    | Inr runners \<Rightarrow> fst (ListRunnersFresh p clk c0 c1 fetched meanwhile) = Inr (annotateRunners (ip_prefix p) runners)"
  proof (cases fetched)
    case (Inl err)
    show ?thesis
    proof (cases "cachedRunners p ?c (clk 2) True")
      case (Some hit)
      obtain rs meta where [simp]: "hit = (rs, meta)" by force
      from cachedRunners_hit [OF Some [simplified]] Inl Some show ?thesis
        by (auto simp: ListRunnersFresh_def ListRunnersForMetrics_def miss annotateRunners_def)
    qed (simp add: Inl ListRunnersFresh_def ListRunnersForMetrics_def miss)
  qed (simp add: ListRunnersFresh_def miss)
  show "length meanwhile \<in> {1..<2 ^ 64} \<longrightarrow>
       ic_fetchedAt (snd (ListRunnersFresh p clk c0 c1 fetched meanwhile)) = 0"
  proof
    assume m: "length meanwhile \<in> {1..<2 ^ 64}"
    then have "ic_fetchedAt ?c = 0" by (intro foldl_fetchedAt) auto
    with generation_moved [OF m, of c1]
    show "ic_fetchedAt (snd (ListRunnersFresh p clk c0 c1 fetched meanwhile)) = 0"
      by (simp add: ListRunnersFresh_def miss storeRunnerCache_def split: sum.splits)
  qed
qed

theorem stale_inventory_only_for_metrics_witness:
  "fst (ListRunnersFresh samplePolicy (\<lambda>_. 600 * second) (iw_cache sampleWorld) (iw_cache sampleWorld) (Inl ''502'') []) = Inl ''502'' \<and>
   (\<exists>rs meta. fst (ListRunnersForMetrics samplePolicy (\<lambda>_. 600 * second) (iw_cache sampleWorld) (iw_cache sampleWorld)
      (Inl ''502'') []) = Inr (rs, meta) \<and> im_Stale meta \<and> map r_ID rs = [7])"
proof -
  let ?c = "iw_cache sampleWorld" and ?f = "Inl ''502'' :: runner list result"
  have m: "cachedRunners samplePolicy ?c ((\<lambda>_. 600 * second) (0::nat)) False = None"
    "cachedRunners samplePolicy ?c ((\<lambda>_. 600 * second) (1::nat)) False = None"
    and i: "isl (fst (ListRunnersForMetrics samplePolicy (\<lambda>_. 600 * second) ?c ?c ?f [])) = False"
    and r: "map r_ID (ic_runners ?c) = [7]"
    by code_simp+
  obtain rs meta where h: "fst (ListRunnersForMetrics samplePolicy (\<lambda>_. 600 * second) ?c ?c ?f []) = Inr (rs, meta)"
    using i by (cases "fst (ListRunnersForMetrics samplePolicy (\<lambda>_. 600 * second) ?c ?c ?f [])") auto
  from stale_inventory_only_for_metrics [OF m, of ?f "[]"] h r show ?thesis by simp
qed

end
