(* ===== verification/Github_Provider.thy ===== *)
theory Github_Provider
  imports Github_Inventory
begin

text \<open>
  The rest of the GitHub provider (\<open>provider/github/ci.go\<close> and
  \<open>workflow_metrics.go\<close>): token caches, paginated requests, the rotation over the
  repositories of an organisation, the audit of queued jobs and the collection and enrichment
  of workflow runs. The GitHub API, which the go-github client reaches, is the record
  \<open>ghApi\<close> of answer functions; \<open>ghRun\<close>, \<open>ghJob\<close> and \<open>ghStep\<close> hold what the
  getters of its values return. A page number 0 asks for the first page.
\<close>

section \<open>The API and the provider\<close>

record ghStep =
  gs_Name :: string
  gs_Conclusion :: string

record ghJob =
  gj_ID :: int
  gj_Name :: string
  gj_Status :: string
  gj_Conclusion :: string
  gj_Labels :: "string list"
  gj_CreatedAt :: gotime
  gj_StartedAt :: gotime
  gj_CompletedAt :: gotime
  gj_Steps :: "ghStep list"

record ghRun =
  gr_ID :: int
  gr_RunAttempt :: int
  gr_Name :: string
  gr_Status :: string
  gr_Conclusion :: string
  gr_RunNumber :: int
  gr_Event :: string
  gr_HeadBranch :: string
  gr_CreatedAt :: gotime
  gr_RunStartedAt :: gotime
  gr_UpdatedAt :: gotime

record ghApi =
  a_listRunners :: "int \<Rightarrow> (runner list \<times> int) result"
  a_listOrgRepos :: "int \<Rightarrow> (string list \<times> int) result"
  a_listRuns :: "string \<Rightarrow> bool \<Rightarrow> int \<Rightarrow> int \<Rightarrow> (ghRun list \<times> int) result"
  a_listJobs :: "string \<Rightarrow> int \<Rightarrow> int option \<Rightarrow> int \<Rightarrow> (ghJob list \<times> int) result"
  a_createRegistrationToken :: "(string \<times> gotime option) result"
  a_createRemoveToken :: "(string \<times> gotime option) result"
  a_removeRunner :: "int \<Rightarrow> gerror option"

record cachedToken =
  ct_value :: string
  ct_expiresAt :: gotime

record provider =
  gp_org :: string
  gp_repo :: string
  gp_prefix :: string
  gp_batchSize :: int
  gp_repoCacheTTL :: duration
  gp_repoCache :: "string list"
  gp_repoCacheExpiresAt :: gotime
  gp_cursor :: int
  gp_registrationToken :: cachedToken
  gp_removeToken :: cachedToken

definition noToken :: cachedToken where
  "noToken = \<lparr>ct_value = [], ct_expiresAt = 0\<rparr>"

definition newProvider :: "string \<Rightarrow> string \<Rightarrow> provider" where
  "newProvider org pfx =
     \<lparr>gp_org = trim_space org, gp_repo = [], gp_prefix = pfx, gp_batchSize = 25,
      gp_repoCacheTTL = 10 * minute, gp_repoCache = [], gp_repoCacheExpiresAt = 0, gp_cursor = 0,
      gp_registrationToken = noToken, gp_removeToken = noToken\<rparr>"

definition splitRepoFullName :: "string \<Rightarrow> (string \<times> string) option" where
  "splitRepoFullName repo =
     (let (owner, name, ok) = cut (trim_space repo) (CHR ''/'') in
      if \<not> ok \<or> owner = [] \<or> name = [] \<or> contains name ''/'' then None else Some (owner, name))"

definition newRepoProvider :: "string \<Rightarrow> string \<Rightarrow> provider result" where
  "newRepoProvider repoFullName pfx =
     (case splitRepoFullName repoFullName of
        None \<Rightarrow> Inl (''repo target must be in owner/name form: '' @ repoFullName)
      | Some (owner, repo) \<Rightarrow> Inr ((newProvider owner pfx)\<lparr>gp_repo := repo\<rparr>))"

definition SetWorkflowRepoBatchSize :: "int \<Rightarrow> provider \<Rightarrow> provider" where
  "SetWorkflowRepoBatchSize n p = p\<lparr>gp_batchSize := (if n < 0 then 0 else n)\<rparr>"

definition targetName :: "provider \<Rightarrow> string" where
  "targetName p = (if gp_repo p \<noteq> [] then gp_org p @ ''/'' @ gp_repo p else gp_org p)"

definition RegistrationURL :: "provider \<Rightarrow> string" where
  "RegistrationURL p = (if gp_repo p \<noteq> [] then ''https://github.com/'' @ gp_org p @ ''/'' @ gp_repo p
                        else ''https://github.com/'' @ gp_org p)"

definition ClassifyRunner :: "provider \<Rightarrow> string \<Rightarrow> bool" where
  "ClassifyRunner p name = has_prefix name (gp_prefix p)"

definition metricRepoName :: "provider \<Rightarrow> string \<Rightarrow> string" where
  "metricRepoName p repo = (if gp_repo p \<noteq> [] then targetName p else repo)"

definition apiRepoName :: "provider \<Rightarrow> string \<Rightarrow> string" where
  "apiRepoName p repo =
     (case splitRepoFullName repo of
        Some (owner, name) \<Rightarrow> if equal_fold owner (gp_org p) then name else repo
      | None \<Rightarrow> repo)"

section \<open>Tokens\<close>

definition tokenRefreshPadding :: duration where
  "tokenRefreshPadding = 5 * minute"

definition usableCachedToken :: "gotime \<Rightarrow> cachedToken \<Rightarrow> string option" where
  "usableCachedToken now tok =
     (if ct_value tok = [] \<or> isZero (ct_expiresAt tok) then None
      else if now + tokenRefreshPadding < ct_expiresAt tok then Some (ct_value tok) else None)"

definition cachedRegistrationToken :: "gotime \<Rightarrow> provider \<Rightarrow> string option" where
  [simp]: "cachedRegistrationToken now p = usableCachedToken now (gp_registrationToken p)"

definition storeRegistrationToken :: "string \<Rightarrow> gotime \<Rightarrow> provider \<Rightarrow> provider" where
  [simp]: "storeRegistrationToken value expiresAt p =
     p\<lparr>gp_registrationToken := \<lparr>ct_value = value, ct_expiresAt = expiresAt\<rparr>\<rparr>"

definition cachedRemoveToken :: "gotime \<Rightarrow> provider \<Rightarrow> string option" where
  [simp]: "cachedRemoveToken now p = usableCachedToken now (gp_removeToken p)"

definition storeRemoveToken :: "string \<Rightarrow> gotime \<Rightarrow> provider \<Rightarrow> provider" where
  [simp]: "storeRemoveToken value expiresAt p =
     p\<lparr>gp_removeToken := \<lparr>ct_value = value, ct_expiresAt = expiresAt\<rparr>\<rparr>"

definition tokenExpiresAt :: "gotime option \<Rightarrow> gotime" where
  "tokenExpiresAt ts = (case ts of None \<Rightarrow> 0 | Some t \<Rightarrow> t)"

text \<open>A token request: from the cache, again from the cache once the fetch lock is held, or from
  the API. Whenever it succeeds the inventory cache is suspended.\<close>

definition getRegistrationToken ::
  "ghApi \<Rightarrow> (nat \<Rightarrow> gotime) \<Rightarrow> provider \<Rightarrow> runnerInventoryCache
   \<Rightarrow> string result \<times> provider \<times> runnerInventoryCache" where
  "getRegistrationToken api clk p c =
     (case cachedRegistrationToken (clk 0) p of
        Some token \<Rightarrow> (Inr token, p, SuspendRunnerInventoryCache c)
      | None \<Rightarrow>
          (case cachedRegistrationToken (clk 1) p of
             Some token \<Rightarrow> (Inr token, p, SuspendRunnerInventoryCache c)
           | None \<Rightarrow>
               (case a_createRegistrationToken api of
                  Inl err \<Rightarrow> (Inl (''creating registration token: '' @ err), p, c)
                | Inr (value, ts) \<Rightarrow>
                    (Inr value,
                     storeRegistrationToken value (tokenExpiresAt ts) p,
                     SuspendRunnerInventoryCache c))))"

definition getRunnerRemoveToken ::
  "ghApi \<Rightarrow> (nat \<Rightarrow> gotime) \<Rightarrow> provider \<Rightarrow> runnerInventoryCache
   \<Rightarrow> string result \<times> provider \<times> runnerInventoryCache" where
  "getRunnerRemoveToken api clk p c =
     (case cachedRemoveToken (clk 0) p of
        Some token \<Rightarrow> (Inr token, p, SuspendRunnerInventoryCache c)
      | None \<Rightarrow>
          (case cachedRemoveToken (clk 1) p of
             Some token \<Rightarrow> (Inr token, p, SuspendRunnerInventoryCache c)
           | None \<Rightarrow>
               (case a_createRemoveToken api of
                  Inl err \<Rightarrow> (Inl (''creating remove token: '' @ err), p, c)
                | Inr (value, ts) \<Rightarrow>
                    (Inr value,
                     storeRemoveToken value (tokenExpiresAt ts) p,
                     SuspendRunnerInventoryCache c))))"

definition deleteRunner :: "ghApi \<Rightarrow> runnerInventoryCache \<Rightarrow> int \<Rightarrow> gerror option \<times> runnerInventoryCache" where
  "deleteRunner api c runnerID =
     (case a_removeRunner api runnerID of
        Some err \<Rightarrow> (Some (''deleting runner '' @ itoa runnerID @ '': '' @ err), c)
      | None \<Rightarrow> (None, invalidateRunnerCache c))"

section \<open>Pagination\<close>

text \<open>The loop of every paginated request; it ends when the API reports no next page.\<close>

partial_function (option) paginate ::
  "(int \<Rightarrow> ('a list \<times> int) result) \<Rightarrow> int \<Rightarrow> 'a list \<Rightarrow> 'a list result option" where
  "paginate request page acc =
     (case request page of
        Inl err \<Rightarrow> Some (Inl err)
      | Inr (items, nextPage) \<Rightarrow>
          (if nextPage = 0 then Some (Inr (acc @ items)) else paginate request nextPage (acc @ items)))"

declare paginate.simps [code]

text \<open>\<open>r\<close> is the outcome of following the pages from \<open>page\<close>.\<close>

inductive pageChain :: "(int \<Rightarrow> ('a list \<times> int) result) \<Rightarrow> int \<Rightarrow> 'a list result \<Rightarrow> bool" for request where
  page_error: "request page = Inl err \<Longrightarrow> pageChain request page (Inl err)"
| page_last: "request page = Inr (items, 0) \<Longrightarrow> pageChain request page (Inr items)"
| page_more: "request page = Inr (items, nextPage) \<Longrightarrow> nextPage \<noteq> 0 \<Longrightarrow> pageChain request nextPage r \<Longrightarrow>
    pageChain request page (map_sum id (append items) r)"

lemma paginate_chain: "pageChain request page r \<Longrightarrow> paginate request page acc = Some (map_sum id (append acc) r)"
proof (induction arbitrary: acc rule: pageChain.induct)
  case (page_more page items nextPage r)
  then show ?case by (subst paginate.simps) (cases r; simp)
qed (subst paginate.simps; simp)+

definition fetchRunners :: "ghApi \<Rightarrow> runner list result option" where
  "fetchRunners api =
     map_option (\<lambda>r. case r of Inl err \<Rightarrow> Inl (''listing runners: '' @ err)
                               | Inr rs \<Rightarrow> Inr (map (\<lambda>x. x\<lparr>r_IsAuto := False\<rparr>) rs))
       (paginate (a_listRunners api) 0 [])"

section \<open>Repositories of the target\<close>

text \<open>The outer \<open>option\<close> is \<open>None\<close> when the pagination does not end.\<close>

definition listOrgRepos ::
  "ghApi \<Rightarrow> (nat \<Rightarrow> gotime) \<Rightarrow> provider \<Rightarrow> (string list result \<times> provider) option" where
  "listOrgRepos api clk p =
     (if gp_repoCache p \<noteq> [] \<and> clk 0 < gp_repoCacheExpiresAt p then Some (Inr (gp_repoCache p), p)
      else (case paginate (a_listOrgRepos api) 0 [] of
        None \<Rightarrow> None
      | Some (Inl err) \<Rightarrow> Some (Inl err, p)
      | Some (Inr repos) \<Rightarrow>
          Some (Inr repos,
            p\<lparr>gp_repoCache := repos, gp_repoCacheExpiresAt := clk 1 + gp_repoCacheTTL p,
              gp_cursor := (if repos = [] then 0 else gp_cursor p mod int (length repos))\<rparr>)))"

definition listWorkflowRepos ::
  "ghApi \<Rightarrow> (nat \<Rightarrow> gotime) \<Rightarrow> provider \<Rightarrow> (string list result \<times> provider) option" where
  "listWorkflowRepos api clk p =
     (if gp_repo p \<noteq> [] then Some (Inr [gp_repo p], p) else listOrgRepos api clk p)"

text \<open>The next \<open>limit\<close> repositories in a rotation; the cursor is never negative.\<close>

definition workflowRepoBatch :: "provider \<Rightarrow> string list \<Rightarrow> string list \<times> provider" where
  "workflowRepoBatch p repos =
     (let limit = gp_batchSize p; n = int (length repos) in
      if limit = 0 \<or> n \<le> limit then (repos, p)
      else (let start = gp_cursor p mod n in
        (map (\<lambda>i. repos ! nat ((start + int i) mod n)) [0..<nat limit],
         p\<lparr>gp_cursor := (start + limit) mod n\<rparr>)))"

text \<open>\<open>listRepositoryWorkflowRuns\<close>: the loop over a page, and over the pages.\<close>

fun takeRuns :: "int \<Rightarrow> ghRun list \<Rightarrow> ghRun list \<Rightarrow> ghRun list \<times> bool" where
  "takeRuns limit acc [] = (acc, False)"
| "takeRuns limit acc (r # rs) =
     (let acc' = acc @ [r] in if int (length acc') = limit then (acc', True) else takeRuns limit acc' rs)"

partial_function (option) limitedRuns ::
  "(int \<Rightarrow> (ghRun list \<times> int) result) \<Rightarrow> int \<Rightarrow> int \<Rightarrow> ghRun list \<Rightarrow> ghRun list result option" where
  "limitedRuns request limit page acc =
     (case request page of
        Inl err \<Rightarrow> Some (Inl err)
      | Inr (items, nextPage) \<Rightarrow>
          (let (acc', full) = takeRuns limit acc items in
           if full then Some (Inr acc')
           else if nextPage = 0 then Some (Inr acc')
           else limitedRuns request limit nextPage acc'))"

declare limitedRuns.simps [code]

definition listRepositoryWorkflowRuns :: "ghApi \<Rightarrow> string \<Rightarrow> int \<Rightarrow> ghRun list result option" where
  "listRepositoryWorkflowRuns api repo limit =
     limitedRuns (a_listRuns api repo True (if limit > 100 then 100 else limit)) limit 0 []"

section \<open>The audit of queued jobs\<close>

definition queuedJobsOf :: "provider \<Rightarrow> string \<Rightarrow> gotime \<Rightarrow> ghJob list \<Rightarrow> queuedJob list" where
  "queuedJobsOf p repo now jobs =
     map (\<lambda>job. \<lparr>q_ID = gj_ID job, q_Repo = gp_org p @ ''/'' @ repo, q_Labels = gj_Labels job,
                q_QueuedAt = (if isZero (gj_CreatedAt job) then now else gj_CreatedAt job)\<rparr>)
       (filter (\<lambda>job. gj_Status job = ''queued'') jobs)"

text \<open>The jobs of the runs of one repository, from their first page of 100.\<close>

fun auditRuns :: "ghApi \<Rightarrow> provider \<Rightarrow> gotime \<Rightarrow> string \<Rightarrow> ghRun list \<Rightarrow> queuedJob list result" where
  "auditRuns api p now repo [] = Inr []"
| "auditRuns api p now repo (run # runs) =
     (if gr_Status run \<noteq> ''queued'' \<and> gr_Status run \<noteq> ''in_progress'' then auditRuns api p now repo runs
      else (case a_listJobs api repo (gr_ID run) None 0 of
        Inl err \<Rightarrow> Inl (''listing workflow jobs for '' @ repo @ '' run '' @ itoa (gr_ID run) @ '': '' @ err)
      | Inr (jobs, nextPage) \<Rightarrow>
          (case auditRuns api p now repo runs of
             Inl err \<Rightarrow> Inl err
           | Inr rest \<Rightarrow> Inr (queuedJobsOf p repo now jobs @ rest))))"

fun auditRepos :: "ghApi \<Rightarrow> provider \<Rightarrow> gotime \<Rightarrow> string list \<Rightarrow> queuedJob list result" where
  "auditRepos api p now [] = Inr []"
| "auditRepos api p now (repo # repos) =
     (case a_listRuns api repo False 20 0 of
        Inl err \<Rightarrow> Inl (''listing active workflow runs for '' @ repo @ '': '' @ err)
      | Inr (runs, nextPage) \<Rightarrow>
          (case auditRuns api p now repo runs of
             Inl err \<Rightarrow> Inl err
           | Inr jobs \<Rightarrow>
               (case auditRepos api p now repos of
                  Inl err \<Rightarrow> Inl err
                | Inr rest \<Rightarrow> Inr (jobs @ rest))))"

definition ListQueuedJobs ::
  "ghApi \<Rightarrow> (nat \<Rightarrow> gotime) \<Rightarrow> provider \<Rightarrow> (queuedJob list result \<times> provider) option" where
  "ListQueuedJobs api clk p =
     (case listWorkflowRepos api clk p of
        None \<Rightarrow> None
      | Some (Inl err, p1) \<Rightarrow> Some (Inl (''listing repositories for queue audit: '' @ err), p1)
      | Some (Inr repos, p1) \<Rightarrow>
          (let (batch, p2) = workflowRepoBatch p1 repos in Some (auditRepos api p2 (clk 2) batch, p2)))"

section \<open>Workflow runs\<close>

definition runMetrics :: "provider \<Rightarrow> string \<Rightarrow> ghRun \<Rightarrow> workflowMetrics" where
  "runMetrics p repo run =
     (let created = gr_CreatedAt run; started = gr_RunStartedAt run; updated = gr_UpdatedAt run;
          d0 = (if \<not> isZero started \<and> \<not> isZero updated then go_div (time_sub updated started) second
                else if \<not> isZero created \<and> \<not> isZero updated then go_div (time_sub updated created) second
                else 0);
          d = (if d0 < 0 then 0 else d0);
          completedAt = (if \<not> isZero updated then rfc3339 updated
                         else if \<not> isZero created then rfc3339 created else [])
      in \<lparr>wm_RunID = gr_ID run, wm_RunAttempt = gr_RunAttempt run, wm_Repo = metricRepoName p repo,
          wm_Workflow = gr_Name run, wm_Conclusion = gr_Conclusion run, wm_DurationS = d,
          wm_RunNumber = gr_RunNumber run, wm_Event = gr_Event run, wm_Branch = gr_HeadBranch run,
          wm_CompletedAt = completedAt, wm_FailedJob = [], wm_FailedStep = [], wm_FailureReason = []\<rparr>)"

text \<open>Repositories whose runs cannot be listed are skipped.\<close>

fun collectRuns :: "ghApi \<Rightarrow> provider \<Rightarrow> int \<Rightarrow> string list \<Rightarrow> workflowMetrics list option" where
  "collectRuns api p perRepo [] = Some []"
| "collectRuns api p perRepo (repo # repos) = do {
     runs \<leftarrow> listRepositoryWorkflowRuns api repo perRepo;
     rest \<leftarrow> collectRuns api p perRepo repos;
     Some ((case runs of Inl err \<Rightarrow> [] | Inr rs \<Rightarrow> map (runMetrics p repo) rs) @ rest)
   }"

definition ListRecentWorkflowRunsShallow ::
  "ghApi \<Rightarrow> (nat \<Rightarrow> gotime) \<Rightarrow> provider \<Rightarrow> int \<Rightarrow> (workflowMetrics list result \<times> provider) option" where
  "ListRecentWorkflowRunsShallow api clk p perRepo =
     (if perRepo \<le> 0 then Some (Inr [], p)
      else (case listWorkflowRepos api clk p of
        None \<Rightarrow> None
      | Some (Inl err, p1) \<Rightarrow> Some (Inl (''listing workflow repos: '' @ err), p1)
      | Some (Inr repos, p1) \<Rightarrow>
          (let (batch, p2) = workflowRepoBatch p1 repos in
           map_option (\<lambda>ms. (Inr ms, p2)) (collectRuns api p2 perRepo batch))))"

section \<open>Failure details (workflow_metrics.go)\<close>

definition shouldEnrichWorkflowFailure :: "string \<Rightarrow> bool" where
  "shouldEnrichWorkflowFailure conclusion \<longleftrightarrow> conclusion \<notin> set [[], ''success'', ''neutral'', ''skipped'']"

definition workflowJobOrderTime :: "ghJob \<Rightarrow> gotime" where
  "workflowJobOrderTime job =
     (if \<not> isZero (gj_StartedAt job) then gj_StartedAt job
      else if \<not> isZero (gj_CreatedAt job) then gj_CreatedAt job
      else if \<not> isZero (gj_CompletedAt job) then gj_CompletedAt job else 0)"

definition firstFailedStep :: "ghJob \<Rightarrow> string" where
  "firstFailedStep job =
     (case find (\<lambda>s. shouldEnrichWorkflowFailure (gs_Conclusion s)) (gj_Steps job) of
        None \<Rightarrow> [] | Some s \<Rightarrow> gs_Name s)"

definition listWorkflowJobsForRun :: "ghApi \<Rightarrow> string \<Rightarrow> int \<Rightarrow> int \<Rightarrow> ghJob list result option" where
  "listWorkflowJobsForRun api repo runID attempt =
     (if runID = 0 then Some (Inr [])
      else paginate (a_listJobs api repo runID (if attempt > 0 then Some attempt else None)) 0 [])"

text \<open>The failed job, the failed step, the reason and the error. Jobs are sorted by time, stably.\<close>

definition hydrateWorkflowFailureDetails ::
  "ghApi \<Rightarrow> string \<Rightarrow> int \<Rightarrow> int \<Rightarrow> string \<Rightarrow> (string \<times> string \<times> string \<times> gerror option) option" where
  "hydrateWorkflowFailureDetails api repo runID attempt conclusion =
     (case listWorkflowJobsForRun api repo runID attempt of
        None \<Rightarrow> None
      | Some (Inl err) \<Rightarrow> Some ([], [], conclusion,
          Some (''listing workflow jobs for '' @ repo @ '' run '' @ itoa runID @ '' attempt '' @ itoa attempt @ '': '' @ err))
      | Some (Inr jobs) \<Rightarrow>
          Some (case find (\<lambda>j. shouldEnrichWorkflowFailure (gj_Conclusion j)) (sort_key workflowJobOrderTime jobs) of
             None \<Rightarrow> ([], [], conclusion, None)
           | Some job \<Rightarrow>
               (let failedStep = firstFailedStep job;
                    reason = (if failedStep \<noteq> [] then failedStep
                              else if gj_Conclusion job \<noteq> [] then gj_Conclusion job else conclusion)
                in (gj_Name job, failedStep, reason, None))))"

text \<open>\<open>EnrichWorkflowMetrics\<close>: the loop keeps the first error.\<close>

fun enrichRuns :: "ghApi \<Rightarrow> provider \<Rightarrow> gerror option \<Rightarrow> workflowMetrics list \<Rightarrow> (workflowMetrics list \<times> gerror option) option" where
  "enrichRuns api p firstErr [] = Some ([], firstErr)"
| "enrichRuns api p firstErr (run # runs) =
     (if \<not> shouldEnrichWorkflowFailure (wm_Conclusion run)
      then map_option (\<lambda>(rs, e). (run # rs, e)) (enrichRuns api p firstErr runs)
      else (case hydrateWorkflowFailureDetails api (apiRepoName p (wm_Repo run)) (wm_RunID run) (wm_RunAttempt run)
                  (wm_Conclusion run) of
        None \<Rightarrow> None
      | Some (failedJob, failedStep, reason, err) \<Rightarrow>
          map_option (\<lambda>(rs, e).
              (run\<lparr>wm_FailedJob := failedJob, wm_FailedStep := failedStep, wm_FailureReason := reason\<rparr> # rs, e))
            (enrichRuns api p (case firstErr of None \<Rightarrow> err | Some e \<Rightarrow> Some e) runs)))"

definition EnrichWorkflowMetrics ::
  "ghApi \<Rightarrow> provider \<Rightarrow> workflowMetrics list \<Rightarrow> (workflowMetrics list \<times> gerror option) option" where
  "EnrichWorkflowMetrics api p runs = enrichRuns api p None runs"

definition ListRecentWorkflowRuns ::
  "ghApi \<Rightarrow> (nat \<Rightarrow> gotime) \<Rightarrow> provider \<Rightarrow> int \<Rightarrow> (workflowMetrics list result \<times> provider) option" where
  "ListRecentWorkflowRuns api clk p perRepo =
     (case ListRecentWorkflowRunsShallow api clk p perRepo of
        None \<Rightarrow> None
      | Some (Inl err, p1) \<Rightarrow> Some (Inl err, p1)
      | Some (Inr runs, p1) \<Rightarrow>
          (if runs = [] then Some (Inr runs, p1)
           else map_option (\<lambda>(enriched, err). (Inr (if enriched \<noteq> [] then enriched else runs), p1))
                  (EnrichWorkflowMetrics api p1 runs)))"

section \<open>Names of targets\<close>

lemma newProvider_sel:
  "gp_prefix (newProvider owner pfx) = pfx" "gp_org (newProvider owner pfx) = trim_space owner"
  "gp_repo (newProvider owner pfx) = []"
  by (simp_all add: newProvider_def)

lemma cut_parts:
  assumes "cut s c = (a, b, True)"
  shows "s = a @ c # b"
proof -
  have mem: "c \<in> set s" and a: "a = takeWhile (\<lambda>x. x \<noteq> c) s" and b: "b = tl (dropWhile (\<lambda>x. x \<noteq> c) s)"
    using assms by (auto simp: cut_def split: if_splits)
  from mem have "dropWhile (\<lambda>x. x \<noteq> c) s \<noteq> []" by auto
  then have "dropWhile (\<lambda>x. x \<noteq> c) s = c # b"
    using hd_dropWhile [of "\<lambda>x. x \<noteq> c" s] unfolding b by (cases "dropWhile (\<lambda>x. x \<noteq> c) s") auto
  with a show ?thesis using takeWhile_dropWhile_id [of "\<lambda>x. x \<noteq> c" s] by simp
qed

section \<open>Properties\<close>

text \<open>The batches of consecutive calls, with an unchanged list of repositories.\<close>

fun batches :: "nat \<Rightarrow> provider \<Rightarrow> string list \<Rightarrow> string list" where
  "batches 0 p repos = []"
| "batches (Suc k) p repos = (let (b, p') = workflowRepoBatch p repos in b @ batches k p' repos)"

lemma workflowRepoBatch_rotates:
  assumes "0 < gp_batchSize p" and "gp_batchSize p < int (length repos)"
  shows "batches k p repos =
     map (\<lambda>i. repos ! nat ((gp_cursor p + int i) mod int (length repos))) [0..<k * nat (gp_batchSize p)]"
  using assms
proof (induction k arbitrary: p)
  case (Suc k)
  let ?n = "int (length repos)" and ?l = "gp_batchSize p"
  let ?p = "p\<lparr>gp_cursor := (gp_cursor p mod ?n + ?l) mod ?n\<rparr>"
  have b: "workflowRepoBatch p repos =
      (map (\<lambda>i. repos ! nat ((gp_cursor p + int i) mod ?n)) [0..<nat ?l], ?p)"
    using Suc.prems by (simp add: workflowRepoBatch_def Let_def mod_add_left_eq)
  have r: "batches k ?p repos = map (\<lambda>i. repos ! nat ((gp_cursor p + ?l + int i) mod ?n)) [0..<k * nat ?l]"
    using Suc.IH [of ?p] Suc.prems by (simp add: mod_add_left_eq)
  have s: "[0..<Suc k * nat ?l] = [0..<nat ?l] @ map (\<lambda>i. i + nat ?l) [0..<k * nat ?l]"
    by (simp add: map_add_upt upt_add_eq_append [of 0 "nat ?l" "k * nat ?l", simplified] add.commute)
  have "map (\<lambda>i. repos ! nat ((gp_cursor p + ?l + int i) mod ?n)) [0..<k * nat ?l] =
      map (\<lambda>i. repos ! nat ((gp_cursor p + int i) mod ?n)) (map (\<lambda>i. i + nat ?l) [0..<k * nat ?l])"
    using Suc.prems by (simp add: algebra_simps)
  then show ?case unfolding batches.simps b s by (simp add: r)
qed simp

text \<open>A bounded audit reaches every repository: over any consecutive calls whose batches add
  up to the number of repositories, each repository of the list is in one of the batches, and no
  batch has another one.\<close>

theorem repo_rotation_covers_all:
  assumes "0 < gp_batchSize p" and "int (length repos) \<le> int k * gp_batchSize p"
  shows "set (batches k p repos) = set repos"
proof (cases "gp_batchSize p < int (length repos)")
  case False
  then have b: "workflowRepoBatch p repos = (repos, p)" by (simp add: workflowRepoBatch_def Let_def)
  have "set (batches k p repos) = (if k = 0 then {} else set repos)"
    by (induction k) (auto simp: b)
  then show ?thesis using assms by (cases "k = 0") auto
next
  case True
  let ?n = "int (length repos)" and ?f = "\<lambda>i. repos ! nat ((gp_cursor p + int i) mod int (length repos))"
  have e: "set (batches k p repos) = ?f ` {0..<k * nat (gp_batchSize p)}"
    unfolding workflowRepoBatch_rotates [OF assms(1) True] by simp
  have "set repos \<subseteq> ?f ` {0..<k * nat (gp_batchSize p)}"
  proof
    fix x assume "x \<in> set repos"
    then obtain j where j: "j < length repos" "repos ! j = x" by (auto simp: in_set_conv_nth)
    define i where "i = nat ((int j - gp_cursor p) mod ?n)"
    have n: "0 < ?n" using j by (cases repos) auto
    then have i: "int i = (int j - gp_cursor p) mod ?n" by (simp add: i_def)
    have "int i < ?n" using n unfolding i by simp
    then have "int i < int k * gp_batchSize p" using assms(2) by linarith
    also have "\<dots> = int (k * nat (gp_batchSize p))" using assms(1) by simp
    finally have "int i < int (k * nat (gp_batchSize p))" .
    moreover have "(gp_cursor p + int i) mod ?n = int j"
      using j(1) unfolding i by (simp add: mod_add_right_eq)
    ultimately show "x \<in> ?f ` {0..<k * nat (gp_batchSize p)}"
      using j(2) by (intro image_eqI [of _ _ i]) (simp_all only: of_nat_less_iff nat_int atLeastLessThan_iff, simp_all)
  qed
  moreover have "?f i \<in> set repos" for i
  proof (rule nth_mem)
    have "0 < ?n" using True assms(1) by linarith
    then have "0 \<le> (gp_cursor p + int i) mod ?n \<and> (gp_cursor p + int i) mod ?n < ?n" by simp
    then show "nat ((gp_cursor p + int i) mod ?n) < length repos" by (simp only: nat_less_iff)
  qed
  ultimately show ?thesis unfolding e by blast
qed

theorem repo_rotation_covers_all_witness:
  "set (batches 2 ((newProvider ''o'' ''ci'')\<lparr>gp_batchSize := 2, gp_cursor := 1\<rparr>) [''a'', ''b'', ''c'']) = {''a'', ''b'', ''c''}"
  using repo_rotation_covers_all [of "(newProvider ''o'' ''ci'')\<lparr>gp_batchSize := 2, gp_cursor := 1\<rparr>" "[''a'', ''b'', ''c'']" 2]
  by simp

text \<open>The jobs of a repository that an audit looks at: of its first page of runs those queued or
  in progress, and of each of these the first page of jobs.\<close>

definition activeRuns :: "ghRun list \<Rightarrow> ghRun list" where
  "activeRuns runs = filter (\<lambda>r. gr_Status r = ''queued'' \<or> gr_Status r = ''in_progress'') runs"

definition queuedInRun :: "ghApi \<Rightarrow> string \<Rightarrow> ghRun \<Rightarrow> int set" where
  "queuedInRun api repo run =
     (case a_listJobs api repo (gr_ID run) None 0 of
        Inl err \<Rightarrow> {}
      | Inr (jobs, nx) \<Rightarrow> set (map gj_ID (filter (\<lambda>j. gj_Status j = ''queued'') jobs)))"

definition queuedInRepo :: "ghApi \<Rightarrow> string \<Rightarrow> int set" where
  "queuedInRepo api repo =
     (case a_listRuns api repo False 20 0 of
        Inl err \<Rightarrow> {}
      | Inr (runs, nx) \<Rightarrow> (\<Union>run \<in> set (activeRuns runs). queuedInRun api repo run))"

lemma queuedJobsOf_IDs:
  "q_ID ` set (queuedJobsOf p repo now jobs) = set (map gj_ID (filter (\<lambda>j. gj_Status j = ''queued'') jobs))"
  by (simp add: queuedJobsOf_def image_image)

lemma auditRuns_Inr:
  "auditRuns api p now repo runs = Inr js \<Longrightarrow>
   q_ID ` set js = (\<Union>run \<in> set (activeRuns runs). queuedInRun api repo run)"
proof (induction runs arbitrary: js)
  case (Cons run runs)
  show ?case
  proof (cases "gr_Status run = ''queued'' \<or> gr_Status run = ''in_progress''")
    case True
    then obtain jobs nx rest where a: "a_listJobs api repo (gr_ID run) None 0 = Inr (jobs, nx)"
      "auditRuns api p now repo runs = Inr rest" "js = queuedJobsOf p repo now jobs @ rest"
      using Cons.prems by (auto split: sum.splits prod.splits if_splits)
    have act: "activeRuns (run # runs) = run # activeRuns runs"
      using True by (auto simp: activeRuns_def)
    have "queuedInRun api repo run = q_ID ` set (queuedJobsOf p repo now jobs)"
      unfolding queuedJobsOf_IDs by (simp add: queuedInRun_def a(1))
    then show ?thesis
      unfolding act a(3) using Cons.IH [OF a(2)] by (simp add: image_Un)
  next
    case False
    then have "auditRuns api p now repo runs = Inr js" "activeRuns (run # runs) = activeRuns runs"
      using Cons.prems by (auto simp: activeRuns_def)
    then show ?thesis using Cons.IH by metis
  qed
qed (simp add: activeRuns_def)

lemma auditRepos_Inr:
  "auditRepos api p now repos = Inr js \<Longrightarrow> q_ID ` set js = (\<Union>repo \<in> set repos. queuedInRepo api repo)"
proof (induction repos arbitrary: js)
  case (Cons repo repos)
  then obtain runs nx0 here rest where a: "a_listRuns api repo False 20 0 = Inr (runs, nx0)"
    "auditRuns api p now repo runs = Inr here" "auditRepos api p now repos = Inr rest" "js = here @ rest"
    by (auto split: sum.splits prod.splits)
  have "queuedInRepo api repo = q_ID ` set here"
    using auditRuns_Inr [OF a(2)] a(1) by (simp add: queuedInRepo_def)
  then show ?case
    using Cons.IH [OF a(3)] unfolding a(4) by (simp add: image_Un)
qed simp

text \<open>An audit that succeeds returns the queued jobs of the active runs of the repositories in
  its batch, all of them (of the first pages) and no others; if any request fails there is no
  result at all, so an incomplete audit never looks like an empty queue.\<close>

theorem audit_exact:
  assumes "ListQueuedJobs api clk p = Some (Inr jobs, p')"
  shows "\<exists>repos p1. listWorkflowRepos api clk p = Some (Inr repos, p1) \<and>
    q_ID ` set jobs = (\<Union>repo \<in> set (fst (workflowRepoBatch p1 repos)). queuedInRepo api repo)"
proof -
  obtain repos p1 where r: "listWorkflowRepos api clk p = Some (Inr repos, p1)"
    and a: "auditRepos api (snd (workflowRepoBatch p1 repos)) (clk 2) (fst (workflowRepoBatch p1 repos)) = Inr jobs"
    using assms by (auto simp: ListQueuedJobs_def Let_def case_prod_beta split: option.splits sum.splits)
  show ?thesis
    using r auditRepos_Inr [OF a] by blast
qed

definition sampleApi :: ghApi where
  "sampleApi =
     \<lparr>a_listRunners = (\<lambda>_. Inr ([], 0)), a_listOrgRepos = (\<lambda>_. Inr ([''r''], 0)),
      a_listRuns = (\<lambda>_ _ _ _. Inr ([\<lparr>gr_ID = 5, gr_RunAttempt = 1, gr_Name = ''ci'', gr_Status = ''in_progress'',
         gr_Conclusion = [], gr_RunNumber = 1, gr_Event = ''push'', gr_HeadBranch = ''main'', gr_CreatedAt = 1,
         gr_RunStartedAt = 2, gr_UpdatedAt = 3\<rparr>], 0)),
      a_listJobs = (\<lambda>_ _ _ _. Inr ([\<lparr>gj_ID = 9, gj_Name = ''build'', gj_Status = ''queued'', gj_Conclusion = [],
         gj_Labels = [''linux''], gj_CreatedAt = 1, gj_StartedAt = 0, gj_CompletedAt = 0, gj_Steps = []\<rparr>], 0)),
      a_createRegistrationToken = Inr (''new'', Some (3600 * second)), a_createRemoveToken = Inl ''502'',
      a_removeRunner = (\<lambda>_. None)\<rparr>"

theorem audit_exact_witness:
  "\<exists>jobs p'. ListQueuedJobs sampleApi (\<lambda>_. 10) ((newProvider ''o'' ''ci'')\<lparr>gp_repo := ''r''\<rparr>) = Some (Inr jobs, p') \<and>
     9 \<in> q_ID ` set jobs"
proof -
  let ?p = "(newProvider ''o'' ''ci'')\<lparr>gp_repo := ''r''\<rparr>"
  obtain jobs p' where h: "ListQueuedJobs sampleApi (\<lambda>_. 10) ?p = Some (Inr jobs, p')"
    by (simp add: ListQueuedJobs_def listWorkflowRepos_def workflowRepoBatch_def newProvider_def sampleApi_def Let_def)
  have r: "listWorkflowRepos sampleApi (\<lambda>_. 10) ?p = Some (Inr [''r''], ?p)"
    "fst (workflowRepoBatch ?p [''r'']) = [''r'']"
    by (simp_all add: listWorkflowRepos_def workflowRepoBatch_def newProvider_def)
  from audit_exact [OF h] r have "q_ID ` set jobs = queuedInRepo sampleApi ''r''" by simp
  also have "\<dots> = {9}" by code_simp
  finally show ?thesis using h by blast
qed

text \<open>A registration token that comes from the cache is valid for more than five minutes, any
  other is fresh from the API and is cached for the next call; whenever a token is given out the
  inventory cache is suspended and emptied, and nothing changes when the API fails.\<close>

theorem registration_token_usable:
  assumes "clk 0 \<le> clk (1::nat)"
  shows "case getRegistrationToken api clk p c of
      (Inl err, p', c') \<Rightarrow> p' = p \<and> c' = c
    | (Inr token, p', c') \<Rightarrow>
        ic_suspended c' \<and> ic_runners c' = [] \<and> ic_generation c' = ic_generation c + 1 \<and>
        ((p' = p \<and> token = ct_value (gp_registrationToken p) \<and> token \<noteq> [] \<and>
          clk 0 + 5 * minute < ct_expiresAt (gp_registrationToken p)) \<or>
         (\<exists>ts. a_createRegistrationToken api = Inr (token, ts) \<and> ct_value (gp_registrationToken p') = token))"
  using assms
  by (auto simp: getRegistrationToken_def usableCachedToken_def SuspendRunnerInventoryCache_def
      tokenRefreshPadding_def split: option.splits sum.splits prod.splits if_splits)

theorem registration_token_usable_witness:
  "case getRegistrationToken sampleApi (\<lambda>_. 10) (newProvider ''o'' ''ci'') emptyInventory of
      (Inl err, p', c') \<Rightarrow> False
    | (Inr token, p', c') \<Rightarrow> ic_suspended c' \<and> token = ''new''"
proof -
  have "fst (getRegistrationToken sampleApi (\<lambda>_. 10) (newProvider ''o'' ''ci'') emptyInventory) = Inr ''new''"
    by (simp add: getRegistrationToken_def usableCachedToken_def newProvider_def noToken_def sampleApi_def)
  then show ?thesis
    using registration_token_usable [where clk = "\<lambda>_. 10" and api = sampleApi and p = "newProvider ''o'' ''ci''"
        and c = emptyInventory]
    by (auto split: prod.splits)
qed

lemma enrichRuns_keeps:
  "enrichRuns api p e runs = Some (rs, e') \<Longrightarrow>
   list_all2 (\<lambda>r r'. r' = r \<or> (shouldEnrichWorkflowFailure (wm_Conclusion r) \<and>
      (\<exists>a b d. r' = r\<lparr>wm_FailedJob := a, wm_FailedStep := b, wm_FailureReason := d\<rparr>))) runs rs \<and>
   (e \<noteq> None \<longrightarrow> e' = e)"
proof (induction runs arbitrary: e rs e')
  case (Cons run runs)
  show ?case
  proof (cases "shouldEnrichWorkflowFailure (wm_Conclusion run)")
    case False
    then obtain rs1 where "enrichRuns api p e runs = Some (rs1, e')" "rs = run # rs1"
      using Cons.prems by auto
    then show ?thesis using Cons.IH by simp
  next
    case True
    then obtain a b d err rs1 where
      "enrichRuns api p (case e of None \<Rightarrow> err | Some x \<Rightarrow> Some x) runs = Some (rs1, e')"
      "rs = run\<lparr>wm_FailedJob := a, wm_FailedStep := b, wm_FailureReason := d\<rparr> # rs1"
      using Cons.prems by (auto split: option.splits prod.splits)
    then show ?thesis using Cons.IH True by (cases e) fastforce+
  qed
qed simp

text \<open>Enrichment keeps the runs, their number and their order; it changes only the failure
  details, and only of runs that neither succeeded nor were skipped or neutral.\<close>

theorem enrichment_preserves_runs:
  assumes "EnrichWorkflowMetrics api p runs = Some (enriched, err)"
  shows "list_all2 (\<lambda>r r'. r' = r \<or> (wm_Conclusion r \<notin> {[], ''success'', ''neutral'', ''skipped''} \<and>
      (\<exists>a b d. r' = r\<lparr>wm_FailedJob := a, wm_FailedStep := b, wm_FailureReason := d\<rparr>))) runs enriched"
  using enrichRuns_keeps [of api p None runs enriched err] assms
  by (auto simp: EnrichWorkflowMetrics_def shouldEnrichWorkflowFailure_def elim!: list_all2_mono)

theorem enrichment_preserves_runs_witness:
  "\<exists>e r'. EnrichWorkflowMetrics sampleApi (newProvider ''o'' ''ci'')
       [runMetrics (newProvider ''o'' ''ci'') ''r'' \<lparr>gr_ID = 5, gr_RunAttempt = 1, gr_Name = ''ci'', gr_Status = ''completed'',
         gr_Conclusion = ''failure'', gr_RunNumber = 1, gr_Event = ''push'', gr_HeadBranch = ''main'', gr_CreatedAt = 1,
         gr_RunStartedAt = 2, gr_UpdatedAt = 3\<rparr>] = Some ([r'], e) \<and> wm_RunID r' = 5"
proof -
  let ?r = "runMetrics (newProvider ''o'' ''ci'') ''r'' \<lparr>gr_ID = 5, gr_RunAttempt = 1, gr_Name = ''ci'', gr_Status = ''completed'',
         gr_Conclusion = ''failure'', gr_RunNumber = 1, gr_Event = ''push'', gr_HeadBranch = ''main'', gr_CreatedAt = 1,
         gr_RunStartedAt = 2, gr_UpdatedAt = 3\<rparr>"
  have "EnrichWorkflowMetrics sampleApi (newProvider ''o'' ''ci'') [?r] \<noteq> None" by code_simp
  then obtain rs e where h: "EnrichWorkflowMetrics sampleApi (newProvider ''o'' ''ci'') [?r] = Some (rs, e)" by auto
  from enrichment_preserves_runs [OF h] obtain r' where "rs = [r']" "wm_RunID r' = wm_RunID ?r"
    by (auto simp: list_all2_Cons1)
  with h show ?thesis by (auto simp: runMetrics_def Let_def)
qed

end
