(* ===== verification/Github_Webhook.thy ===== *)
theory Github_Webhook
  imports Github_Provider
begin

text \<open>
  Webhook signatures and payloads (\<open>provider/github/webhook.go\<close>). \<open>hmacSha256\<close>, the
  function from a key and a message to the bytes of the MAC, and \<open>ghParse\<close>, the parser of the
  go-github library, are parameters; \<open>ghEvent\<close> holds what the getters of its values return.
\<close>

section \<open>Signatures\<close>

definition hexDigit :: "nat \<Rightarrow> char" where
  "hexDigit n = (if n < 10 then char_of (48 + n) else char_of (87 + n))"

definition hexEncode :: "string \<Rightarrow> string" where
  "hexEncode bs = concat (map (\<lambda>c. let n = (of_char c :: nat) in [hexDigit (n div 16), hexDigit (n mod 16)]) bs)"

definition Validate :: "(string \<Rightarrow> string \<Rightarrow> string) \<Rightarrow> string \<Rightarrow> string \<Rightarrow> string \<Rightarrow> gerror option" where
  "Validate hmacSha256 secret payload signature =
     (if secret = [] then Some ''webhook secret not configured''
      else (let sig = trim_prefix signature ''sha256='' in
        if sig = signature then Some ''unsupported signature format (expected sha256=...)''
        else (let expected = hexEncode (hmacSha256 secret payload) in
          if expected \<noteq> sig then Some ''signature mismatch'' else None)))"

text \<open>The validator is \<open>None\<close> before \<open>SetValidator\<close>.\<close>

definition ValidateWebhookPayload ::
  "(string \<Rightarrow> string \<Rightarrow> string) \<Rightarrow> string option \<Rightarrow> string \<Rightarrow> string \<Rightarrow> gerror option" where
  "ValidateWebhookPayload hmacSha256 validator payload signature =
     (case validator of
        None \<Rightarrow> Some ''webhook validator not configured''
      | Some secret \<Rightarrow> Validate hmacSha256 secret payload signature)"

section \<open>Payloads\<close>

record ghWorkflowJobEvent =
  we_Action :: string
  we_Repo :: string
  we_HeadBranch :: string
  we_HeadSHA :: string
  we_WorkflowName :: string
  we_JobName :: string
  we_JobID :: int
  we_RunnerName :: string
  we_Status :: string
  we_Conclusion :: string
  we_RunID :: int
  we_RunAttempt :: int
  we_Labels :: "string list"

record ghPushEvent =
  pe_Ref :: string
  pe_After :: string
  pe_Repo :: string
  pe_DefaultBranch :: string

datatype ghEvent = GhWorkflowJob ghWorkflowJobEvent | GhPush ghPushEvent | GhOther string

definition shortSHA :: "string \<Rightarrow> string" where
  "shortSHA commit = (if length commit > 7 then take 7 commit else commit)"

text \<open>The type of the event of an action; other actions are ignored.\<close>

definition jobEventType :: "string \<Rightarrow> webhookEventType option" where
  "jobEventType action =
     (if action = ''queued'' then Some EventJobQueued
      else if action = ''completed'' then Some EventJobCompleted
      else if action = ''in_progress'' then Some EventJobInProgress else None)"

definition jobDetail :: "ghWorkflowJobEvent \<Rightarrow> string" where
  "jobDetail e =
     we_Action e @ '': '' @ we_Repo e @ '' / '' @ we_JobName e
     @ (if shortSHA (we_HeadSHA e) \<noteq> [] then '' ('' @ shortSHA (we_HeadSHA e) @ '')'' else [])
     @ (if we_RunnerName e \<noteq> [] then '' runner='' @ we_RunnerName e else [])"

definition parseWorkflowJob :: "(string \<Rightarrow> string \<Rightarrow> ghEvent result) \<Rightarrow> string \<Rightarrow> webhookEvent option result" where
  "parseWorkflowJob ghParse payload =
     (case ghParse ''workflow_job'' payload of
        Inl err \<Rightarrow> Inl (''parsing workflow_job: '' @ err)
      | Inr (GhPush e) \<Rightarrow> Inl ''parsing workflow_job: unexpected payload type *github.PushEvent''
      | Inr (GhOther t) \<Rightarrow> Inl (''parsing workflow_job: unexpected payload type '' @ t)
      | Inr (GhWorkflowJob e) \<Rightarrow>
          (case jobEventType (we_Action e) of
             None \<Rightarrow> Inr None
           | Some evType \<Rightarrow> Inr (Some
               \<lparr>w_Type = evType, w_EventType = ''workflow_job'', w_Action = we_Action e, w_Repo = we_Repo e,
                w_Ref = [], w_DefaultBranch = [], w_Branch = we_HeadBranch e, w_Commit = we_HeadSHA e,
                w_Workflow = we_WorkflowName e, w_Job = we_JobName e, w_JobID = we_JobID e,
                w_Runner = we_RunnerName e, w_Status = we_Status e, w_Conclusion = we_Conclusion e,
                w_RunID = we_RunID e, w_RunAttempt = we_RunAttempt e, w_Detail = jobDetail e,
                w_Labels = we_Labels e\<rparr>)))"

definition parsePush :: "(string \<Rightarrow> string \<Rightarrow> ghEvent result) \<Rightarrow> string \<Rightarrow> webhookEvent option result" where
  "parsePush ghParse payload =
     (case ghParse ''push'' payload of
        Inl err \<Rightarrow> Inl (''parsing push: '' @ err)
      | Inr (GhWorkflowJob e) \<Rightarrow> Inl ''parsing push: unexpected payload type *github.WorkflowJobEvent''
      | Inr (GhOther t) \<Rightarrow> Inl (''parsing push: unexpected payload type '' @ t)
      | Inr (GhPush e) \<Rightarrow> Inr (Some
          \<lparr>w_Type = EventPush, w_EventType = ''push'', w_Action = ''push'', w_Repo = pe_Repo e,
           w_Ref = pe_Ref e, w_DefaultBranch = pe_DefaultBranch e,
           w_Branch = trim_prefix (pe_Ref e) ''refs/heads/'', w_Commit = pe_After e,
           w_Workflow = [], w_Job = [], w_JobID = 0, w_Runner = [], w_Status = [], w_Conclusion = [],
           w_RunID = 0, w_RunAttempt = 0,
           w_Detail = ''push '' @ pe_Ref e @ '' to '' @ pe_Repo e @ '' ('' @ shortSHA (pe_After e) @ '')'',
           w_Labels = []\<rparr>))"

text \<open>Unknown event types are ignored: no event and no error.\<close>

definition ParseWebhookEvent ::
  "(string \<Rightarrow> string \<Rightarrow> ghEvent result) \<Rightarrow> string \<Rightarrow> string \<Rightarrow> webhookEvent option result" where
  "ParseWebhookEvent ghParse eventType payload =
     (if eventType = ''workflow_job'' then parseWorkflowJob ghParse payload
      else if eventType = ''push'' then parsePush ghParse payload
      else Inr None)"

section \<open>Properties\<close>

lemma trim_prefix_changed: "trim_prefix s p \<noteq> s \<longleftrightarrow> p \<noteq> [] \<and> has_prefix s p"
  by (auto simp: trim_prefix_def has_prefix_def) (metis append_take_drop_id self_append_conv2)

lemma has_prefix_drop: "has_prefix s p \<Longrightarrow> s = p @ drop (length p) s"
  by (metis append_take_drop_id has_prefix_def)

lemma hexEncode_length: "length (hexEncode bs) = 2 * length bs"
  by (induction bs) (auto simp: hexEncode_def Let_def)

text \<open>C20. A payload is accepted exactly when a secret is configured and the signature is
  \<open>sha256=\<close> followed by the hexadecimal MAC of the payload under this secret.\<close>

theorem signature_accepted_iff:
  "Validate hmacSha256 secret payload signature = None \<longleftrightarrow>
   secret \<noteq> [] \<and> signature = ''sha256='' @ hexEncode (hmacSha256 secret payload)"
proof -
  let ?p = "''sha256=''"
  have p: "?p \<noteq> []" by simp
  show ?thesis
  proof (cases "has_prefix signature ?p")
    case True
    then have t: "trim_prefix signature ?p = drop (length ?p) signature" "signature = ?p @ drop (length ?p) signature"
      using has_prefix_drop [OF True] by (simp_all only: trim_prefix_def if_True)
    have "trim_prefix signature ?p \<noteq> signature" using True p trim_prefix_changed by blast
    then have "Validate hmacSha256 secret payload signature = None \<longleftrightarrow>
        secret \<noteq> [] \<and> hexEncode (hmacSha256 secret payload) = drop (length ?p) signature"
      using t(1) by (simp add: Validate_def Let_def)
    also have "\<dots> \<longleftrightarrow> secret \<noteq> [] \<and> signature = ?p @ hexEncode (hmacSha256 secret payload)"
      using t(2) by (metis same_append_eq)
    finally show ?thesis .
  next
    case False
    then have "trim_prefix signature ?p = signature" by (simp only: trim_prefix_def if_False)
    moreover have "signature \<noteq> ?p @ x" for x using False has_prefix_append by metis
    ultimately show ?thesis by (simp add: Validate_def Let_def)
  qed
qed

end
