(* ===== verification/Shell.thy ===== *)
theory Shell
  imports Go_Prelude
begin

text \<open>
  How a POSIX shell divides a script into tokens, as far as the scripts of the program need it:
  blanks separate words, the operator characters and line ends are tokens of their own, single quotes
  keep every character, double quotes keep blanks and operators, a backslash outside quotes keeps the
  next character (within double quotes the scripts have none).
  What an expansion gives is not modelled: a dollar sign or a backquote stays in its word, and
  \<open>shellExpansions\<close> lists those a shell would expand.  A command is what stands between two operators.

  \<open>quoteWord\<close> is the quoting both scripts of the program use; \<open>tokens_quoteWord\<close>: it is read back as one
  word, whatever the text, and \<open>expansions_quoteWord\<close>: nothing in it is expanded.
\<close>

datatype quoting = Unquoted | SingleQuoted | DoubleQuoted

datatype token = Word string | Op char

definition isBlank :: "char \<Rightarrow> bool" where
  "isBlank c = (c = CHR '' '' \<or> c = CHR 0x09)"

definition isOperator :: "char \<Rightarrow> bool" where
  "isOperator c = (c = CHR 0x0A \<or> c \<in> set '';&|<>()'')"

fun endWord :: "string option \<Rightarrow> token list \<Rightarrow> token list" where
  "endWord None ts = ts"
| "endWord (Some w) ts = Word w # ts"

definition addChar :: "char \<Rightarrow> string option \<Rightarrow> string option" where
  "addChar c cur = Some ((case cur of None \<Rightarrow> [] | Some w \<Rightarrow> w) @ [c])"

definition openWord :: "string option \<Rightarrow> string option" where
  "openWord cur = Some (case cur of None \<Rightarrow> [] | Some w \<Rightarrow> w)"

text \<open>\<open>cur\<close> is the word being read, \<open>None\<close> between words; the result is \<open>None\<close> if a quote does not
  close.\<close>

fun shellTokens :: "quoting \<Rightarrow> string option \<Rightarrow> string \<Rightarrow> token list option" where
  "shellTokens q cur [] = (if q = Unquoted then Some (endWord cur []) else None)"
| "shellTokens Unquoted cur (c # s) =
     (if isBlank c then map_option (endWord cur) (shellTokens Unquoted None s)
      else if isOperator c then map_option (\<lambda>ts. endWord cur (Op c # ts)) (shellTokens Unquoted None s)
      else if c = CHR 0x27 then shellTokens SingleQuoted (openWord cur) s
      else if c = CHR 0x22 then shellTokens DoubleQuoted (openWord cur) s
      else if c = CHR 0x5C then (case s of [] \<Rightarrow> Some (endWord (addChar c cur) [])
                                 | d # s' \<Rightarrow> shellTokens Unquoted (addChar d cur) s')
      else shellTokens Unquoted (addChar c cur) s)"
| "shellTokens SingleQuoted cur (c # s) =
     (if c = CHR 0x27 then shellTokens Unquoted cur s else shellTokens SingleQuoted (addChar c cur) s)"
| "shellTokens DoubleQuoted cur (c # s) =
     (if c = CHR 0x22 then shellTokens Unquoted cur s else shellTokens DoubleQuoted (addChar c cur) s)"

text \<open>The commands of a script: the words between operators.\<close>

fun commandsOf :: "token list \<Rightarrow> string list list" where
  "commandsOf [] = [[]]"
| "commandsOf (Op c # ts) = [] # commandsOf ts"
| "commandsOf (Word w # ts) = (case commandsOf ts of [] \<Rightarrow> [[w]] | ws # wss \<Rightarrow> (w # ws) # wss)"

definition shellCommands :: "string \<Rightarrow> string list list option" where
  "shellCommands script = map_option commandsOf (shellTokens Unquoted None script)"

lemma shellCommands_examples:
  "shellCommands ''if [ -d x ]; then exit 0; fi'' = Some [[''if'', ''['', ''-d'', ''x'', '']''], [''then'', ''exit'', ''0''], [''fi'']]"
  "shellCommands (''echo a&&b '' @ [CHR 0x27] @ ''c d;'' @ [CHR 0x27]) = Some [[''echo'', ''a''], [], [''b'', ''c d;'']]"
  "shellCommands [CHR 0x27] = None"
  by code_simp+

text \<open>What a shell expands: for every dollar sign outside single quotes the name, or the parenthesis and
  command, that follows it, and every backquote.\<close>

definition isNameChar :: "char \<Rightarrow> bool" where
  "isNameChar c = (c \<in> set ''abcdefghijklmnopqrstuvwxyzABCDEFGHIJKLMNOPQRSTUVWXYZ0123456789_('')"

definition expansionName :: "string \<Rightarrow> string" where
  "expansionName s = takeWhile isNameChar s"

fun shellExpansions :: "quoting \<Rightarrow> string \<Rightarrow> string list" where
  "shellExpansions q [] = []"
| "shellExpansions Unquoted (c # s) =
     (if c = CHR 0x27 then shellExpansions SingleQuoted s
      else if c = CHR 0x22 then shellExpansions DoubleQuoted s
      else if c = CHR 0x5C then (case s of [] \<Rightarrow> [] | d # s' \<Rightarrow> shellExpansions Unquoted s')
      else if c = CHR ''$'' then expansionName s # shellExpansions Unquoted s
      else if c = CHR 0x60 then [c] # shellExpansions Unquoted s
      else shellExpansions Unquoted s)"
| "shellExpansions SingleQuoted (c # s) =
     (if c = CHR 0x27 then shellExpansions Unquoted s else shellExpansions SingleQuoted s)"
| "shellExpansions DoubleQuoted (c # s) =
     (if c = CHR 0x22 then shellExpansions Unquoted s
      else if c = CHR ''$'' then expansionName s # shellExpansions DoubleQuoted s
      else if c = CHR 0x60 then [c] # shellExpansions DoubleQuoted s
      else shellExpansions DoubleQuoted s)"

lemma shellExpansions_examples:
  \<open>shellExpansions Unquoted ''x=$(date +%s); rm "$lock" "$(id)"'' = [''(date'', ''lock'', ''(id'']\<close>
  "shellExpansions Unquoted (''echo '' @ [CHR 0x27] @ ''$(id) $HOME'' @ [CHR 0x27]) = []"
  by code_simp+

section \<open>Quoting\<close>

definition quoteWord :: "string \<Rightarrow> string" where
  "quoteWord v =
     [CHR 0x27] @ replace_char v (CHR 0x27) [CHR 0x27, CHR 0x22, CHR 0x27, CHR 0x22, CHR 0x27] @ [CHR 0x27]"

lemma tokens_escaped:
  "shellTokens SingleQuoted (Some w)
     (replace_char v (CHR 0x27) [CHR 0x27, CHR 0x22, CHR 0x27, CHR 0x22, CHR 0x27] @ CHR 0x27 # s)
   = shellTokens Unquoted (Some (w @ v)) s"
  by (induction v arbitrary: w)
    (auto simp: replace_char_def addChar_def openWord_def isBlank_def isOperator_def)

lemma tokens_quoteWord [simp]: "shellTokens Unquoted None (quoteWord v @ s) = shellTokens Unquoted (Some v) s"
  using tokens_escaped [of "[]" v s] by (simp add: quoteWord_def openWord_def isBlank_def isOperator_def)

lemma quoteWord_end [simp]: "quoteWord v \<noteq> []" "last (quoteWord v) = CHR 0x27"
  by (simp_all add: quoteWord_def)

lemma tokens_quoteWord_end [simp]: "shellTokens Unquoted None (quoteWord v) = Some [Word v]"
  using tokens_quoteWord [of v "[]"] by simp

lemma expansions_escaped:
  "shellExpansions SingleQuoted
     (replace_char v (CHR 0x27) [CHR 0x27, CHR 0x22, CHR 0x27, CHR 0x22, CHR 0x27] @ CHR 0x27 # s)
   = shellExpansions Unquoted s"
  by (induction v) (auto simp: replace_char_def)

lemma expansions_quoteWord [simp]: "shellExpansions Unquoted (quoteWord v @ s) = shellExpansions Unquoted s"
  using expansions_escaped [of v s] by (simp add: quoteWord_def)

text \<open>Characters that stand for themselves outside quotes.\<close>

definition plainChar :: "char \<Rightarrow> bool" where
  "plainChar c = (\<not> isBlank c \<and> \<not> isOperator c \<and> c \<noteq> CHR 0x27 \<and> c \<noteq> CHR 0x22 \<and> c \<noteq> CHR 0x5C)"

lemma tokens_plain:
  "list_all plainChar v \<Longrightarrow> shellTokens Unquoted (Some w) (v @ s) = shellTokens Unquoted (Some (w @ v)) s"
  by (induction v arbitrary: w) (auto simp: plainChar_def addChar_def)

lemma tokens_plain_start:
  assumes "list_all plainChar v" and "v \<noteq> []"
  shows "shellTokens Unquoted None (v @ s) = shellTokens Unquoted (Some v) s"
proof -
  obtain c u where v: "v = c # u" using assms(2) by (cases v) auto
  with assms(1) have "shellTokens Unquoted None (v @ s) = shellTokens Unquoted (Some [c]) (u @ s)"
    by (simp add: plainChar_def addChar_def)
  with assms(1) v show ?thesis by (simp add: tokens_plain)
qed

lemma itoa_nonempty [simp]: "itoa i \<noteq> []"
  by (simp add: itoa_def)

lemma nat_dec_plain: "list_all plainChar (nat_dec n)"
proof -
  have "plainChar c" if "c \<in> set (nat_dec n)" for c
    using nat_dec_digits [OF that] by (auto simp: plainChar_def isBlank_def isOperator_def)
  then show ?thesis by (simp add: list_all_iff)
qed

lemma itoa_plain: "0 \<le> i \<Longrightarrow> list_all plainChar (itoa i)"
  by (simp add: itoa_def nat_dec_plain)

lemma itoa_first_char:
  assumes "0 \<le> i" and "\<not> (48 \<le> (of_char c :: nat) \<and> (of_char c :: nat) \<le> 57)"
  shows "c # s \<noteq> itoa i"
proof
  assume "c # s = itoa i"
  then have "c \<in> set (nat_dec (nat i))" using assms(1) by (metis itoa_def leD list.set_intros(1))
  from nat_dec_digits [OF this] assms(2) show False by simp
qed

lemmas tokens_itoa = tokens_plain [OF itoa_plain] tokens_plain_start [OF itoa_plain itoa_nonempty]

lemma expansions_itoa: "0 \<le> i \<Longrightarrow> shellExpansions Unquoted (itoa i @ s) = shellExpansions Unquoted s"
proof -
  have "c \<noteq> CHR ''$'' \<and> c \<noteq> CHR 0x60" if "c \<in> set (nat_dec n)" for c n
    using nat_dec_digits [OF that] by auto
  then have "list_all (\<lambda>c. plainChar c \<and> c \<noteq> CHR ''$'' \<and> c \<noteq> CHR 0x60) (itoa i)" if "0 \<le> i"
    using itoa_plain [OF that] that by (simp add: itoa_def list_all_iff)
  moreover have "list_all (\<lambda>c. plainChar c \<and> c \<noteq> CHR ''$'' \<and> c \<noteq> CHR 0x60) v
      \<Longrightarrow> shellExpansions Unquoted (v @ s) = shellExpansions Unquoted s" for v
    by (induction v) (auto simp: plainChar_def)
  ultimately show "0 \<le> i \<Longrightarrow> shellExpansions Unquoted (itoa i @ s) = shellExpansions Unquoted s" by blast
qed

lemma tokens_blank: "shellTokens Unquoted (Some w) (CHR '' '' # s) = map_option (Cons (Word w)) (shellTokens Unquoted None s)"
proof -
  have "endWord (Some w) = Cons (Word w)" by (rule ext) simp
  then show ?thesis by (simp add: isBlank_def)
qed

lemma tokens_line_end:
  "shellTokens Unquoted cur (CHR 0x0A # s) = map_option (\<lambda>ts. endWord cur (Op CHR 0x0A # ts)) (shellTokens Unquoted None s)"
  by (simp add: isBlank_def isOperator_def)

lemmas shell_chars = isBlank_def isOperator_def addChar_def openWord_def

section \<open>Scripts made of lines\<close>

text \<open>A line is complete if it leaves no quote open and does not end with a backslash; complete lines
  are read one by one.\<close>

definition lineTokens :: "string \<Rightarrow> token list \<Rightarrow> bool" where
  "lineTokens line ts \<longleftrightarrow> shellTokens Unquoted None line = Some ts \<and> (line = [] \<or> last line \<noteq> CHR 0x5C)"

lemma tokens_then_line:
  "shellTokens q cur line = Some ts \<Longrightarrow> line = [] \<or> last line \<noteq> CHR 0x5C \<Longrightarrow>
    shellTokens q cur (line @ CHR 0x0A # s) = map_option (\<lambda>rest. ts @ Op CHR 0x0A # rest) (shellTokens Unquoted None s)"
proof (induction q cur line arbitrary: ts rule: shellTokens.induct)
  case (1 q cur)
  then show ?case
    by (cases cur) (auto simp: isBlank_def isOperator_def split: if_splits)
next
  case (2 cur c s')
  have last: "s' = [] \<or> last s' \<noteq> CHR 0x5C" using "2.prems"(2) by (auto split: if_splits)
  consider (blank) "isBlank c" | (op) "\<not> isBlank c" "isOperator c"
    | (single) "\<not> isBlank c" "\<not> isOperator c" "c = CHR 0x27"
    | (double) "\<not> isBlank c" "\<not> isOperator c" "c = CHR 0x22"
    | (escape) "\<not> isBlank c" "\<not> isOperator c" "c = CHR 0x5C"
    | (other) "\<not> isBlank c" "\<not> isOperator c" "c \<noteq> CHR 0x27" "c \<noteq> CHR 0x22" "c \<noteq> CHR 0x5C"
    by blast
  then show ?case
  proof cases
    case blank
    with 2 last show ?thesis by (cases cur) (auto simp: option.map_comp comp_def)
  next
    case op
    with 2 last show ?thesis by (cases cur) (auto simp: option.map_comp comp_def)
  next
    case single
    with 2 last show ?thesis by simp
  next
    case double
    with 2 last show ?thesis by simp
  next
    case escape
    then obtain d s'' where "s' = d # s''" using "2.prems"(2) by (cases s') auto
    with escape 2 last show ?thesis by (auto split: if_splits)
  next
    case other
    with 2 last show ?thesis by simp
  qed
next
  case (3 cur c s')
  then show ?case by (cases s') (auto split: if_splits)
next
  case (4 cur c s')
  then show ?case by (cases s') (auto split: if_splits)
qed

text \<open>A line end closes a name: what a shell expands is found line by line.\<close>

lemma expansionName_line: "expansionName (s @ CHR 0x0A # s') = expansionName s"
proof -
  have "\<not> isNameChar (CHR 0x0A)" by code_simp
  then show ?thesis by (induction s) (simp_all add: expansionName_def)
qed

lemma expansions_then_line:
  "shellTokens q cur line = Some ts \<Longrightarrow> line = [] \<or> last line \<noteq> CHR 0x5C \<Longrightarrow>
    shellExpansions q (line @ CHR 0x0A # s) = shellExpansions q line @ shellExpansions Unquoted s"
proof (induction q cur line arbitrary: ts rule: shellTokens.induct)
  case (2 cur c s')
  have last: "s' = [] \<or> last s' \<noteq> CHR 0x5C" using "2.prems"(2) by (auto split: if_splits)
  consider (blank) "isBlank c" | (op) "\<not> isBlank c" "isOperator c"
    | (single) "\<not> isBlank c" "\<not> isOperator c" "c = CHR 0x27"
    | (double) "\<not> isBlank c" "\<not> isOperator c" "c = CHR 0x22"
    | (escape) "\<not> isBlank c" "\<not> isOperator c" "c = CHR 0x5C"
    | (other) "\<not> isBlank c" "\<not> isOperator c" "c \<noteq> CHR 0x27" "c \<noteq> CHR 0x22" "c \<noteq> CHR 0x5C"
    by blast
  then show ?case
  proof cases
    case blank
    then have "c \<noteq> CHR 0x27" "c \<noteq> CHR 0x22" "c \<noteq> CHR 0x5C" by (auto simp: isBlank_def)
    with blank 2 last show ?thesis by (auto simp: expansionName_line)
  next
    case op
    then have "c \<noteq> CHR 0x27" "c \<noteq> CHR 0x22" "c \<noteq> CHR 0x5C" by (auto simp: isOperator_def)
    with op 2 last show ?thesis by (auto simp: expansionName_line)
  next
    case single
    with 2 last show ?thesis by simp
  next
    case double
    with 2 last show ?thesis by simp
  next
    case escape
    then obtain d s'' where "s' = d # s''" using "2.prems"(2) by (cases s') auto
    with escape 2 last show ?thesis by (auto split: if_splits)
  next
    case other
    with 2 last show ?thesis by (simp add: expansionName_line)
  qed
next
  case (3 cur c s')
  then show ?case by (cases s') (auto split: if_splits)
next
  case (4 cur c s')
  have last: "s' = [] \<or> last s' \<noteq> CHR 0x5C" using "4.prems"(2) by (auto split: if_splits)
  then show ?case using 4 by (auto simp: expansionName_line split: if_splits)
next
  case (1 q cur)
  then show ?case by (simp split: if_splits)
qed

lemma expansions_script:
  assumes "list_all2 lineTokens lines tss"
  shows "shellExpansions Unquoted (join [CHR 0x0A] lines) = concat (map (shellExpansions Unquoted) lines)"
  using assms
proof (induction rule: list_all2_induct)
  case (Cons line lines ts tss)
  then have "shellExpansions Unquoted (line @ CHR 0x0A # s) = shellExpansions Unquoted line @ shellExpansions Unquoted s" for s
    by (intro expansions_then_line) (auto simp: lineTokens_def)
  with Cons show ?case by (cases lines) auto
qed simp

lemma tokens_script:
  assumes "list_all2 lineTokens lines tss"
  shows "shellTokens Unquoted None (join [CHR 0x0A] lines) =
    Some (case tss of [] \<Rightarrow> [] | ts # rest \<Rightarrow> ts @ concat (map (\<lambda>us. Op CHR 0x0A # us) rest))"
  using assms
proof (induction rule: list_all2_induct)
  case (Cons line lines ts tss)
  then have "shellTokens Unquoted None (line @ CHR 0x0A # s) = map_option (\<lambda>rest. ts @ Op CHR 0x0A # rest) (shellTokens Unquoted None s)" for s
    by (intro tokens_then_line) (auto simp: lineTokens_def)
  with Cons show ?case
    by (cases lines; cases tss) (auto simp: lineTokens_def)
qed simp

lemma commands_nonempty [simp]: "commandsOf ts \<noteq> []"
  by (induction ts rule: commandsOf.induct) (auto split: list.splits)

lemma commands_line:
  "commandsOf (ts @ Op c # rest) = commandsOf ts @ commandsOf rest"
proof (induction ts)
  case (Cons t ts)
  then show ?case by (cases t) (auto split: list.splits)
qed simp

text \<open>A script of complete lines consists of the commands of its lines.\<close>

lemma commands_script:
  assumes "list_all2 lineTokens lines tss" and "lines \<noteq> []"
  shows "shellCommands (join [CHR 0x0A] lines) = Some (concat (map commandsOf tss))"
proof -
  have glue: "commandsOf (ts @ concat (map (\<lambda>us. Op CHR 0x0A # us) rest)) = commandsOf ts @ concat (map commandsOf rest)" for ts rest
  proof (induction rest arbitrary: ts)
    case (Cons us rest)
    then show ?case using commands_line [of "ts" "CHR 0x0A" "us @ concat (map (\<lambda>us. Op CHR 0x0A # us) rest)"] by simp
  qed simp
  from assms obtain ts rest where "tss = ts # rest" by (cases tss) auto
  then show ?thesis using tokens_script [OF assms(1)] glue by (simp add: shellCommands_def)
qed

text \<open>All commands of a complete line satisfy \<open>P\<close>.\<close>

definition lineOk :: "(string list \<Rightarrow> bool) \<Rightarrow> string \<Rightarrow> bool" where
  "lineOk P line = (case shellTokens Unquoted None line of None \<Rightarrow> False
     | Some ts \<Rightarrow> (line = [] \<or> last line \<noteq> CHR 0x5C) \<and> list_all P (commandsOf ts))"

lemma lineOk_tokens: "lineOk P line \<longleftrightarrow> (\<exists>ts. lineTokens line ts \<and> list_all P (commandsOf ts))"
  by (auto simp: lineOk_def lineTokens_def split: option.splits)

lemma script_commands_ok:
  assumes "list_all (lineOk P) lines" and "lines \<noteq> []"
  shows "\<exists>cmds. shellCommands (join [CHR 0x0A] lines) = Some cmds \<and> list_all P cmds"
proof -
  have "\<exists>tss. list_all2 lineTokens lines tss \<and> list_all P (concat (map commandsOf tss))"
    using assms(1)
  proof (induction lines)
    case (Cons line lines)
    then obtain ts tss where "lineTokens line ts" "list_all P (commandsOf ts)" "list_all2 lineTokens lines tss"
      "list_all P (concat (map commandsOf tss))"
      by (auto simp: lineOk_tokens)
    then show ?case by (intro exI [of _ "ts # tss"]) simp
  qed simp
  with commands_script assms(2) show ?thesis by blast
qed

lemma script_expansions:
  assumes "list_all (lineOk P) lines"
  shows "shellExpansions Unquoted (join [CHR 0x0A] lines) = concat (map (shellExpansions Unquoted) lines)"
proof -
  have "\<exists>tss. list_all2 lineTokens lines tss"
    using assms
  proof (induction lines)
    case (Cons line lines)
    then obtain ts tss where "lineTokens line ts" "list_all2 lineTokens lines tss" by (auto simp: lineOk_tokens)
    then show ?case by (intro exI [of _ "ts # tss"]) simp
  qed auto
  then show ?thesis using expansions_script by blast
qed

definition lineCommands :: "string \<Rightarrow> string list list" where
  "lineCommands line = (case shellTokens Unquoted None line of None \<Rightarrow> [] | Some ts \<Rightarrow> commandsOf ts)"

lemma script_lines:
  assumes "list_all (lineOk P) lines" and "lines \<noteq> []"
  shows "shellCommands (join [CHR 0x0A] lines) = Some (concat (map lineCommands lines))"
proof -
  have "\<exists>tss. list_all2 lineTokens lines tss \<and> map commandsOf tss = map lineCommands lines"
    using assms(1)
  proof (induction lines)
    case (Cons line lines)
    then obtain ts tss where "lineTokens line ts" "list_all2 lineTokens lines tss"
      "map commandsOf tss = map lineCommands lines"
      by (auto simp: lineOk_tokens)
    moreover from this have "lineCommands line = commandsOf ts" by (simp add: lineCommands_def lineTokens_def)
    ultimately show ?case by (intro exI [of _ "ts # tss"]) simp
  qed simp
  then obtain tss where "list_all2 lineTokens lines tss" "map commandsOf tss = map lineCommands lines" by blast
  with commands_script [of lines tss] assms(2) show ?thesis by simp
qed

end
