(* ===== verification/Webhook.thy ===== *)
theory Webhook
  imports Runner_Labels Demand_Tracker Effects Shell
begin

text \<open>
  The HTTP handlers of \<open>internal/daemon/webhook.go\<close> and the health handler of \<open>daemon.go\<close>:
  a webhook is authenticated, parsed, recorded, logged and turned into demand operations and
  debounced actions; a push to a tracked repository is turned into a debounced cache sync. The
  state is what the handlers change; \<open>hookEnv\<close> gives the CI provider's answers, the clocks and
  the disk.
\<close>

section \<open>Configuration, requests and state\<close>

record daemonConfig =
  dc_Prefix :: string
  dc_PollInterval :: duration
  dc_QueueAuditInterval :: duration
  dc_WebhookEnabled :: bool
  dc_WebhookPort :: int
  dc_WebhookDebounce :: duration
  dc_LogsToken :: string
  dc_MetricsEnabled :: bool
  dc_MetricsInterval :: duration
  dc_CollectWorkflows :: bool
  dc_CollectHost :: bool
  dc_CachePool :: string
  dc_StateDir :: string
  dc_DemandTTL :: duration
  dc_DistributionVersionFile :: string
  dc_SyncRepos :: "(string \<times> string) list"

record httpRequest =
  hr_Method :: string
  hr_Path :: string
  hr_Body :: "string result"
  hr_Signature :: string
  hr_EventType :: string
  hr_Authorization :: string

type_synonym httpResponse = "int \<times> string"

datatype hookAction = TriggerGroupAction string | SyncRepoAction string string string

record hookState =
  hk_demand :: "(tracker \<times> demandFile) option"
  hk_lastWebhookAt :: gotime
  hk_lastWebhookType :: string
  hk_lastWebhookDetail :: string
  hk_scheduled :: "(string \<times> duration \<times> hookAction) list"
  hk_log :: "(logLevel \<times> string \<times> logAttrs) list"

record hookEnv =
  he_validate :: "string \<Rightarrow> string \<Rightarrow> gerror option"
  he_parse :: "string \<Rightarrow> string \<Rightarrow> webhookEvent option result"
  he_now :: gotime
  he_groupNow :: "string \<Rightarrow> gotime"
  he_clock :: "string \<Rightarrow> clock"
  he_fault :: "string \<Rightarrow> nat \<Rightarrow> gerror option"

definition maxWebhookBodyBytes :: nat where
  "maxWebhookBodyBytes = 2 ^ 20"

text \<open>\<open>io.ReadAll\<close> of a body behind \<open>http.MaxBytesReader\<close>.\<close>

definition readBody :: "httpRequest \<Rightarrow> string result" where
  "readBody r = (case hr_Body r of
     Inl err \<Rightarrow> Inl err
   | Inr b \<Rightarrow> if length b > maxWebhookBodyBytes then Inl ''http: request body too large'' else Inr b)"

section \<open>Recording and logging\<close>

definition recordWebhook :: "gotime \<Rightarrow> string \<Rightarrow> webhookEvent option \<Rightarrow> hookState \<Rightarrow> hookState" where
  "recordWebhook now eventType event s =
     s\<lparr>hk_lastWebhookAt := now, hk_lastWebhookType := eventType,
       hk_lastWebhookDetail := (case event of Some e \<Rightarrow> w_Detail e | None \<Rightarrow> [])\<rparr>"

definition addLog :: "logLevel \<Rightarrow> string \<Rightarrow> logAttrs \<Rightarrow> hookState \<Rightarrow> hookState" where
  "addLog lvl msg attrs s = s\<lparr>hk_log := hk_log s @ [(lvl, msg, attrs)]\<rparr>"

definition optStr :: "string \<Rightarrow> string \<Rightarrow> logAttrs" where
  "optStr k v = (if v \<noteq> [] then [(k, LStr v)] else [])"

definition optInt :: "string \<Rightarrow> int \<Rightarrow> logAttrs" where
  "optInt k v = (if v \<noteq> 0 then [(k, LInt v)] else [])"

definition webhookLogArgs :: "webhookEvent \<Rightarrow> logAttrs" where
  "webhookLogArgs e =
     [(''event_type'', LStr (w_EventType e)), (''action'', LStr (w_Action e)), (''repo'', LStr (w_Repo e)),
      (''detail'', LStr (w_Detail e))]
     @ optStr ''workflow'' (w_Workflow e) @ optStr ''job'' (w_Job e) @ optInt ''job_id'' (w_JobID e)
     @ optStr ''runner'' (w_Runner e) @ optStr ''commit'' (w_Commit e) @ optStr ''branch'' (w_Branch e)
     @ optStr ''status'' (w_Status e) @ optStr ''conclusion'' (w_Conclusion e) @ optInt ''run_id'' (w_RunID e)
     @ optInt ''run_attempt'' (w_RunAttempt e)
     @ (if w_Labels e \<noteq> [] then [(''labels'', LStr (join '','' (w_Labels e)))] else [])"

definition logWebhookEvent :: "webhookEvent option \<Rightarrow> hookState \<Rightarrow> hookState" where
  "logWebhookEvent event s =
     (case event of None \<Rightarrow> s | Some e \<Rightarrow> addLog LevelInfo ''webhook event'' (webhookLogArgs e) s)"

definition scheduleAction :: "string \<Rightarrow> duration \<Rightarrow> hookAction \<Rightarrow> hookState \<Rightarrow> hookState" where
  "scheduleAction key delay a s = s\<lparr>hk_scheduled := hk_scheduled s @ [(key, delay, a)]\<rparr>"

section \<open>Pushes to tracked repositories\<close>

definition cacheSyncBranch :: "webhookEvent option \<Rightarrow> string option" where
  "cacheSyncBranch event =
     (case event of
        None \<Rightarrow> None
      | Some e \<Rightarrow>
          (if w_DefaultBranch e = [] then None
           else if w_Ref e \<noteq> ''refs/heads/'' @ w_DefaultBranch e then None
           else Some (w_DefaultBranch e)))"

text \<open>What follows the last slash.\<close>

definition baseRepoName :: "string \<Rightarrow> string" where
  "baseRepoName repo = rev (takeWhile (\<lambda>c. c \<noteq> CHR ''/'') (rev repo))"

definition handlePushEvent :: "daemonConfig \<Rightarrow> webhookEvent \<Rightarrow> hookState \<Rightarrow> hookState" where
  "handlePushEvent cfg event s =
     (case cacheSyncBranch (Some event) of
        None \<Rightarrow> s
      | Some branch \<Rightarrow>
          (case map_of (dc_SyncRepos cfg) (w_Repo event) of
             None \<Rightarrow> s
           | Some cachePath \<Rightarrow>
               scheduleAction (''sync-'' @ baseRepoName (w_Repo event)) (dc_WebhookDebounce cfg)
                 (SyncRepoAction (w_Repo event) branch cachePath)
                 (addLog LevelInfo ''push to tracked repo''
                    [(''event_type'', LStr ''cache_sync''), (''action'', LStr ''scheduled''), (''repo'', LStr (w_Repo event)),
                     (''branch'', LStr branch), (''commit'', LStr (w_Commit event)), (''detail'', LStr (w_Detail event)),
                     (''cache_path'', LStr cachePath)] s)))"

definition shellQuote :: "string \<Rightarrow> string" where
  "shellQuote v =
     [CHR 0x27] @ replace_char v (CHR 0x27) [CHR 0x27, CHR 0x22, CHR 0x27, CHR 0x22, CHR 0x27] @ [CHR 0x27]"

text \<open>The container for a sync: \<open>gh-runner\<close> when it runs, the first running one otherwise.\<close>

fun syncTarget :: "string \<Rightarrow> container list \<Rightarrow> string" where
  "syncTarget target [] = target"
| "syncTarget target (c # cs) =
     (if c_Status c \<noteq> StatusRunning then syncTarget target cs
      else if c_Name c = ''gh-runner'' then c_Name c
      else if target = [] then syncTarget (c_Name c) cs
      else syncTarget target cs)"

definition syncScript :: "string \<Rightarrow> string \<Rightarrow> string" where
  "syncScript cachePath branch =
     join [CHR 0x0A]
       [''set -eu'',
        ''git config --global --add safe.directory '' @ shellQuote cachePath,
        ''git -C '' @ shellQuote cachePath @ '' fetch --prune origin '' @ shellQuote branch,
        ''git -C '' @ shellQuote cachePath @ '' reset --hard FETCH_HEAD'']"

definition syncCacheRepo :: "env \<Rightarrow> string \<Rightarrow> string \<Rightarrow> string \<Rightarrow> unit prog" where
  "syncCacheRepo E repo branch cachePath = do {
     listed \<leftarrow> ListContainers E [];
     (case listed of
        Inl err \<Rightarrow> logp LevelError ''failed to list containers for sync'' [(''error'', LStr err)]
      | Inr containers \<Rightarrow>
          (let target = syncTarget [] containers in
           if target = [] then logp LevelError ''no running containers for cache sync'' []
           else do {
             res \<leftarrow> ExecCommand E target [''bash'', ''-c'', syncScript cachePath branch];
             (case res of
                Inl err \<Rightarrow> logp LevelError ''cache sync failed''
                  [(''event_type'', LStr ''cache_sync''), (''action'', LStr ''failed''), (''repo'', LStr repo),
                   (''branch'', LStr branch), (''container'', LStr target), (''runner'', LStr target), (''error'', LStr err)]
              | Inr out \<Rightarrow> logp LevelInfo ''cache sync completed''
                  [(''repo'', LStr repo), (''branch'', LStr branch), (''container'', LStr target),
                   (''event_type'', LStr ''cache_sync''), (''action'', LStr ''completed''), (''runner'', LStr target)])
           }))
   }"

section \<open>Jobs\<close>

text \<open>The demand operation of a job event for a group.\<close>

definition demandOpOf :: "hookEnv \<Rightarrow> webhookEvent \<Rightarrow> string \<Rightarrow> demandOp" where
  "demandOpOf H event groupID =
     (if w_Type event = EventJobQueued
      then OpQueue (he_clock H groupID) (he_fault H groupID) groupID
             \<lparr>q_ID = w_JobID event, q_Repo = w_Repo event, q_Labels = w_Labels event, q_QueuedAt = he_groupNow H groupID\<rparr>
      else OpClear (he_clock H groupID) (he_fault H groupID) groupID (w_JobID event))"

definition dispatchGroup :: "daemonConfig \<Rightarrow> hookEnv \<Rightarrow> webhookEvent \<Rightarrow> hookState \<Rightarrow> runnerGroup \<Rightarrow> hookState" where
  "dispatchGroup cfg H event s grp =
     (let groupID = g_ID grp;
          s1 = (case hk_demand s of
                  None \<Rightarrow> s
                | Some (t, file) \<Rightarrow>
                    (let (err, t', file') = applyOp t file (demandOpOf H event groupID);
                         s' = s\<lparr>hk_demand := Some (t', file')\<rparr>
                     in case err of
                          None \<Rightarrow> s'
                        | Some e \<Rightarrow> addLog LevelError ''failed to persist workflow demand''
                            [(''runner_group'', LStr groupID), (''job_id'', LInt (w_JobID event)), (''error'', LStr e)] s'))
      in scheduleAction (''scaler-'' @ groupID) (dc_WebhookDebounce cfg) (TriggerGroupAction groupID) s1)"

definition dispatchEvent ::
  "daemonConfig \<Rightarrow> hookEnv \<Rightarrow> runnerGroup list \<Rightarrow> webhookEvent \<Rightarrow> hookState \<Rightarrow> hookState" where
  "dispatchEvent cfg H dgroups event s =
     (if w_Type event \<in> {EventJobQueued, EventJobInProgress, EventJobCompleted}
      then foldl (dispatchGroup cfg H event) s (groupsForEvent dgroups (Some event))
      else if w_Type event = EventPush then handlePushEvent cfg event s
      else s)"

section \<open>Handlers\<close>

definition handleWebhook ::
  "daemonConfig \<Rightarrow> hookEnv \<Rightarrow> runnerGroup list \<Rightarrow> httpRequest \<Rightarrow> hookState \<Rightarrow> httpResponse \<times> hookState" where
  "handleWebhook cfg H dgroups r s =
     (if hr_Path r \<noteq> ''/'' then ((404, ''404 page not found''), s)
      else if hr_Method r = ''GET''
      then ((200, ''gh-runner-scaler webhook listener (/logs requires bearer auth)''), s)
      else if hr_Method r \<noteq> ''POST'' then ((405, ''method not allowed''), s)
      else (case readBody r of
        Inl err \<Rightarrow> ((400, ''read error''), s)
      | Inr payload \<Rightarrow>
          (case he_validate H payload (hr_Signature r) of
             Some err \<Rightarrow> ((401, ''invalid signature''), s)
           | None \<Rightarrow>
               (case he_parse H (hr_EventType r) payload of
                  Inl err \<Rightarrow> ((200, ''ok''), addLog LevelWarn ''failed to parse webhook event''
                      [(''type'', LStr (hr_EventType r)), (''error'', LStr err)] s)
                | Inr None \<Rightarrow> ((200, ''ok''), recordWebhook (he_now H) (hr_EventType r) None s)
                | Inr (Some event) \<Rightarrow>
                    ((200, ''ok''),
                     dispatchEvent cfg H dgroups event
                       (logWebhookEvent (Some event) (recordWebhook (he_now H) (hr_EventType r) (Some event) s)))))))"

definition authorizeLogsRequest :: "daemonConfig \<Rightarrow> httpRequest \<Rightarrow> bool" where
  "authorizeLogsRequest cfg r =
     (let token = trim_space (dc_LogsToken cfg) in
      if token = [] then False
      else (let auth = trim_space (hr_Authorization r) in
        if \<not> has_prefix auth ''Bearer '' then False
        else drop (length ''Bearer '') auth = token))"

definition handleHealth :: "httpRequest \<Rightarrow> httpResponse" where
  "handleHealth r =
     (if hr_Method r \<noteq> ''GET'' \<and> hr_Method r \<noteq> ''HEAD'' then (405, ''method not allowed'')
      else (200, if hr_Method r \<noteq> ''HEAD'' then ''ok'' else []))"

section \<open>Demand and webhooks\<close>

lemma dispatchGroup_demand:
  "hk_demand (dispatchGroup cfg H event s g) =
     map_option (\<lambda>ts. trackerStep ts (demandOpOf H event (g_ID g))) (hk_demand s)"
  by (auto simp: dispatchGroup_def scheduleAction_def addLog_def Let_def case_prod_beta split: option.splits)

lemma dispatch_demand:
  "hk_demand (foldl (dispatchGroup cfg H event) s gs) =
     map_option (\<lambda>ts. foldl trackerStep ts (map (\<lambda>g. demandOpOf H event (g_ID g)) gs)) (hk_demand s)"
  by (induction gs arbitrary: s) (auto simp: dispatchGroup_demand option.map_comp comp_def option.map_ident)

lemma recordWebhook_demand [simp]: "hk_demand (recordWebhook now t e s) = hk_demand s"
  by (simp add: recordWebhook_def)

lemma logWebhookEvent_demand [simp]: "hk_demand (logWebhookEvent e s) = hk_demand s"
  by (simp add: logWebhookEvent_def addLog_def split: option.splits)

definition isJobEvent :: "webhookEvent \<Rightarrow> bool" where
  "isJobEvent e \<longleftrightarrow> w_Type e \<in> {EventJobQueued, EventJobInProgress, EventJobCompleted}"

text \<open>The job event of a request, when the handler accepts the request.\<close>

definition acceptedJob :: "hookEnv \<Rightarrow> httpRequest \<Rightarrow> webhookEvent option" where
  "acceptedJob H r =
     (if hr_Path r \<noteq> ''/'' \<or> hr_Method r \<noteq> ''POST'' then None
      else (case readBody r of
        Inl err \<Rightarrow> None
      | Inr payload \<Rightarrow>
          (if he_validate H payload (hr_Signature r) \<noteq> None then None
           else (case he_parse H (hr_EventType r) payload of
             Inr (Some event) \<Rightarrow> if isJobEvent event then Some event else None
           | _ \<Rightarrow> None))))"

definition queuedFrom :: "hookEnv \<Rightarrow> webhookEvent \<Rightarrow> string \<Rightarrow> queuedJob" where
  "queuedFrom H event groupID =
     stampJob (he_clock H groupID 1)
       \<lparr>q_ID = w_JobID event, q_Repo = w_Repo event, q_Labels = w_Labels event, q_QueuedAt = he_groupNow H groupID\<rparr>"

text \<open>What a job event does to the IDs \<open>X\<close> that are outstanding in a group at the time \<open>T\<close>: a queued
  event with an ID adds its job, unless the job is older than \<open>ttl\<close> by then; an event in progress
  or completed takes it out.\<close>

definition jobEffect :: "duration \<Rightarrow> gotime \<Rightarrow> hookEnv \<Rightarrow> webhookEvent \<Rightarrow> string \<Rightarrow> int set \<Rightarrow> int set" where
  "jobEffect ttl T H e g X =
     (if w_Type e \<noteq> EventJobQueued then X - {w_JobID e}
      else if w_JobID e = 0 \<or> g = [] then X
      else if expiredJob ttl T (queuedFrom H e g) then X - {w_JobID e}
      else insert (w_JobID e) X)"

text \<open>The IDs that are outstanding in each group after the requests: those that are accepted have
  their effect on the groups the router picks.\<close>

fun outstandingAfter ::
  "duration \<Rightarrow> gotime \<Rightarrow> runnerGroup list \<Rightarrow> (string \<Rightarrow> int set) \<Rightarrow> (hookEnv \<times> httpRequest) list \<Rightarrow> (string \<Rightarrow> int set)" where
  "outstandingAfter ttl T dgroups W [] = W"
| "outstandingAfter ttl T dgroups W ((H, r) # rs) =
     outstandingAfter ttl T dgroups
       (case acceptedJob H r of
          None \<Rightarrow> W
        | Some e \<Rightarrow>
            (\<lambda>g. if g \<in> set (map g_ID (groupsForEvent dgroups (Some e))) then jobEffect ttl T H e g (W g) else W g)) rs"

lemma outstanding_job:
  "outstandingStep ttl T W (demandOpOf H e g) = W(g := jobEffect ttl T H e g (W g))"
  by (simp add: demandOpOf_def jobEffect_def queuedFrom_def fun_upd_idem)

lemma jobEffect_idem: "jobEffect ttl T H e g (jobEffect ttl T H e g X) = jobEffect ttl T H e g X"
  by (simp add: jobEffect_def)

lemma outstanding_fold:
  "foldl (outstandingStep ttl T) W (map (\<lambda>g. demandOpOf H e (g_ID g)) gs) =
    (\<lambda>g. if g \<in> set (map g_ID gs) then jobEffect ttl T H e g (W g) else W g)"
  by (induction gs arbitrary: W) (auto simp: outstanding_job jobEffect_idem fun_eq_iff)

text \<open>The daemon handles requests one after the other, each with its own environment.\<close>

definition handleAll ::
  "daemonConfig \<Rightarrow> runnerGroup list \<Rightarrow> hookState \<Rightarrow> (hookEnv \<times> httpRequest) list \<Rightarrow> hookState" where
  "handleAll cfg dgroups s rs = foldl (\<lambda>s (H, r). snd (handleWebhook cfg H dgroups r s)) s rs"

definition requestOps :: "runnerGroup list \<Rightarrow> hookEnv \<times> httpRequest \<Rightarrow> demandOp list" where
  "requestOps dgroups Hr =
     (case acceptedJob (fst Hr) (snd Hr) of
        None \<Rightarrow> []
      | Some e \<Rightarrow> map (\<lambda>g. demandOpOf (fst Hr) e (g_ID g)) (groupsForEvent dgroups (Some e)))"

lemma handlePush_demand [simp]: "hk_demand (handlePushEvent cfg e s) = hk_demand s"
  by (simp add: handlePushEvent_def scheduleAction_def addLog_def split: option.splits)

lemma dispatchEvent_demand:
  "hk_demand (dispatchEvent cfg H dgroups e s) =
     (if isJobEvent e
      then map_option (\<lambda>ts. foldl trackerStep ts (map (\<lambda>g. demandOpOf H e (g_ID g)) (groupsForEvent dgroups (Some e)))) (hk_demand s)
      else hk_demand s)"
  by (simp add: dispatchEvent_def isJobEvent_def dispatch_demand)

lemma addLog_demand [simp]: "hk_demand (addLog lvl msg attrs s) = hk_demand s"
  by (simp add: addLog_def)

lemma handleWebhook_demand:
  "hk_demand (snd (handleWebhook cfg H dgroups r s)) =
     map_option (\<lambda>ts. foldl trackerStep ts (requestOps dgroups (H, r))) (hk_demand s)"
  by (auto simp: handleWebhook_def requestOps_def acceptedJob_def dispatchEvent_demand option.map_ident
      split: sum.splits option.splits)

lemma handleAll_demand:
  "hk_demand (handleAll cfg dgroups s rs) =
     map_option (\<lambda>ts. foldl trackerStep ts (concat (map (requestOps dgroups) rs))) (hk_demand s)"
  unfolding handleAll_def
proof (induction rs arbitrary: s)
  case (Cons a rs)
  then show ?case
    by (cases a) (simp add: handleWebhook_demand option.map_comp comp_def)
qed (simp add: option.map_ident)

lemma requestOps_outstanding:
  "foldl (outstandingStep ttl T) W (concat (map (requestOps dgroups) rs)) = outstandingAfter ttl T dgroups W rs"
proof (induction rs arbitrary: W)
  case (Cons a rs)
  then show ?case by (cases a) (auto simp: requestOps_def outstanding_fold split: option.splits)
qed simp

lemma requestOps_past:
  assumes "\<forall>(H, r) \<in> set rs. \<forall>g. he_clock H g 0 \<le> T"
  shows "list_all (pastOp T) (concat (map (requestOps dgroups) rs))"
  using assms by (fastforce simp: list_all_iff requestOps_def demandOpOf_def pastOp_def split: option.splits)

section \<open>Properties\<close>

text \<open>A webhook request changes the state of the daemon (demand, schedules, log, status) only
  if it is a POST to the root whose body is readable, at most a mebibyte long, and passes the
  signature check.\<close>

theorem unauthenticated_webhook_ignored:
  assumes "snd (handleWebhook cfg H dgroups r s) \<noteq> s"
  shows "hr_Path r = ''/'' \<and> hr_Method r = ''POST'' \<and>
    (\<exists>payload. hr_Body r = Inr payload \<and> length payload \<le> 2 ^ 20 \<and> he_validate H payload (hr_Signature r) = None)"
proof -
  have "hr_Path r = ''/''" "hr_Method r = ''POST''"
    using assms unfolding handleWebhook_def by (auto split: if_splits)
  moreover obtain payload where "readBody r = Inr payload" "he_validate H payload (hr_Signature r) = None"
    using assms unfolding handleWebhook_def by (auto split: if_splits sum.splits option.splits)
  ultimately show ?thesis
    by (auto simp: readBody_def maxWebhookBodyBytes_def split: sum.splits if_splits)
qed

definition sampleConfig :: daemonConfig where
  "sampleConfig =
     \<lparr>dc_Prefix = ''ci'', dc_PollInterval = minute, dc_QueueAuditInterval = 5 * minute, dc_WebhookEnabled = True,
      dc_WebhookPort = 8080, dc_WebhookDebounce = 2 * second, dc_LogsToken = ''t'', dc_MetricsEnabled = False,
      dc_MetricsInterval = minute, dc_CollectWorkflows = False, dc_CollectHost = False, dc_CachePool = [],
      dc_StateDir = ''/var'', dc_DemandTTL = 30 * minute, dc_DistributionVersionFile = [],
      dc_SyncRepos = [(''o/r'', ''/cache/r'')]\<rparr>"

definition sampleEvent :: "webhookEventType \<Rightarrow> webhookEvent" where
  "sampleEvent ty =
     \<lparr>w_Type = ty, w_EventType = ''workflow_job'', w_Action = ''queued'', w_Repo = ''o/r'', w_Ref = [],
      w_DefaultBranch = [], w_Branch = ''main'', w_Commit = ''abc'', w_Workflow = ''ci'', w_Job = ''build'',
      w_JobID = 42, w_Runner = [], w_Status = ''queued'', w_Conclusion = [], w_RunID = 5, w_RunAttempt = 1,
      w_Detail = ''d'', w_Labels = [''linux'']\<rparr>"

definition sampleHook :: "webhookEventType \<Rightarrow> hookEnv" where
  "sampleHook ty =
     \<lparr>he_validate = (\<lambda>payload sig. if sig = ''good'' then None else Some ''signature mismatch''),
      he_parse = (\<lambda>_ _. Inr (Some (sampleEvent ty))), he_now = 10, he_groupNow = (\<lambda>_. 10),
      he_clock = (\<lambda>_ _. 10), he_fault = (\<lambda>_ _. None)\<rparr>"

definition sampleState :: hookState where
  "sampleState =
     \<lparr>hk_demand = Some (\<lparr>tk_path = ''p'', tk_ttl = 30 * minute, tk_groups = []\<rparr>, NoFile), hk_lastWebhookAt = 0,
      hk_lastWebhookType = [], hk_lastWebhookDetail = [], hk_scheduled = [], hk_log = []\<rparr>"

definition sampleGroups :: "runnerGroup list" where
  "sampleGroups =
     [\<lparr>g_ID = ''a'', g_Target = ''o'', g_RepoScoped = False, g_Prefix = ''ci'', g_MatchLabels = [''linux''], g_BaselineName = []\<rparr>,
      \<lparr>g_ID = ''b'', g_Target = ''o'', g_RepoScoped = False, g_Prefix = ''gpu'', g_MatchLabels = [''gpu''], g_BaselineName = []\<rparr>]"

definition sampleRequest :: httpRequest where
  "sampleRequest = \<lparr>hr_Method = ''POST'', hr_Path = ''/'', hr_Body = Inr ''{}'', hr_Signature = ''good'',
     hr_EventType = ''workflow_job'', hr_Authorization = []\<rparr>"

theorem unauthenticated_webhook_ignored_witness:
  "hk_lastWebhookType (snd (handleWebhook sampleConfig (sampleHook EventJobQueued) sampleGroups sampleRequest sampleState)) = ''workflow_job'' \<and>
   he_validate (sampleHook EventJobQueued) ''{}'' (hr_Signature sampleRequest) = None"
proof
  show t: "hk_lastWebhookType (snd (handleWebhook sampleConfig (sampleHook EventJobQueued) sampleGroups sampleRequest sampleState)) = ''workflow_job''"
    by code_simp
  moreover have "hk_lastWebhookType sampleState = []" by (simp add: sampleState_def)
  ultimately have "snd (handleWebhook sampleConfig (sampleHook EventJobQueued) sampleGroups sampleRequest sampleState) \<noteq> sampleState"
    by force
  from unauthenticated_webhook_ignored [OF this]
  show "he_validate (sampleHook EventJobQueued) ''{}'' (hr_Signature sampleRequest) = None"
    by (auto simp: sampleRequest_def)
qed

text \<open>C18. Whatever requests the webhook server handles, over disks that may fail, at any later time
  the tracker holds for every group exactly the jobs that are outstanding there: those alive
  before, and those that an accepted request reported queued with an ID, when the router picks the
  group for the event, except the ones that a later accepted request reported in progress or
  completed, and the ones that are then older than the demand TTL. A snapshot counts them.\<close>

theorem webhook_demand_is_outstanding_jobs:
  assumes "hk_demand s = Some (t, file)" "trackerOk t"
    and "\<forall>(H, r) \<in> set rs. \<forall>g. he_clock H g 0 \<le> clk 0"
  shows "\<exists>t' file'. hk_demand (handleAll cfg dgroups s rs) = Some (t', file') \<and>
    liveJobs t' (clk 0) = outstandingAfter (tk_ttl t) (clk 0) dgroups (liveJobs t (clk 0)) rs \<and>
    (\<forall>g. d_QueuedJobs (fst (Snapshot clk t' g)) = int (card (liveJobs t' (clk 0) g)))"
proof -
  let ?s = "foldl trackerStep (t, file) (concat (map (requestOps dgroups) rs))"
  have d: "hk_demand (handleAll cfg dgroups s rs) = Some ?s"
    using assms(1) by (simp add: handleAll_demand)
  have i: "trackerOk (fst (t, file)) \<and> tk_ttl (fst (t, file)) = tk_ttl t" using assms(2) by simp
  have "trackerOk (fst ?s)" using tracker.inv_history [OF i] by blast
  moreover have "liveJobs (fst ?s) (clk 0) = outstandingAfter (tk_ttl t) (clk 0) dgroups (liveJobs t (clk 0)) rs"
    using tracker.live_history [OF i requestOps_past [OF assms(3)]] by (simp add: requestOps_outstanding)
  ultimately show ?thesis using d snapshot_count by (cases ?s) auto
qed

theorem webhook_demand_is_outstanding_jobs_witness:
  "\<exists>t' file'. hk_demand (handleAll sampleConfig sampleGroups sampleState
       [(sampleHook EventJobQueued, sampleRequest), (sampleHook EventJobCompleted, sampleRequest\<lparr>hr_Signature := ''bad''\<rparr>)])
       = Some (t', file') \<and>
     liveJobs t' 20 ''a'' = {42} \<and> liveJobs t' 20 ''b'' = {}"
proof -
  let ?rs = "[(sampleHook EventJobQueued, sampleRequest), (sampleHook EventJobCompleted, sampleRequest\<lparr>hr_Signature := ''bad''\<rparr>)]"
  let ?t = "\<lparr>tk_path = ''p'', tk_ttl = 30 * minute, tk_groups = []\<rparr>"
  have g: "groupsForEvent sampleGroups (Some (sampleEvent EventJobQueued)) = [hd sampleGroups]" by code_simp
  have a: "acceptedJob (sampleHook EventJobQueued) sampleRequest = Some (sampleEvent EventJobQueued)"
    "acceptedJob (sampleHook EventJobCompleted) (sampleRequest\<lparr>hr_Signature := ''bad''\<rparr>) = None" by code_simp+
  have c: "\<forall>(H, r) \<in> set ?rs. \<forall>g. he_clock H g 0 \<le> (\<lambda>_. 20) 0" by (simp add: sampleHook_def)
  have d: "hk_demand sampleState = Some (?t, NoFile)" "trackerOk ?t"
    by (simp_all add: sampleState_def trackerOk_def)
  have w: "w_Type (sampleEvent EventJobQueued) = EventJobQueued" "w_JobID (sampleEvent EventJobQueued) = 42"
    "\<not> expiredJob (30 * minute) 20 (queuedFrom (sampleHook EventJobQueued) (sampleEvent EventJobQueued) ''a'')"
    "g_ID (hd sampleGroups) = ''a''"
    by (simp_all add: sampleEvent_def sampleGroups_def queuedFrom_def sampleHook_def stampJob_def expiredJob_def
        minute_def second_def)
  moreover have "liveJobs ?t 20 g = {}" for g by (simp add: liveJobs_def jobsOf_def)
  ultimately have "outstandingAfter (30 * minute) 20 sampleGroups (liveJobs ?t 20) ?rs ''a'' = {42}"
    "outstandingAfter (30 * minute) 20 sampleGroups (liveJobs ?t 20) ?rs ''b'' = {}"
    by (simp_all add: a g jobEffect_def)
  with webhook_demand_is_outstanding_jobs [OF d c, of sampleConfig sampleGroups] show ?thesis by auto
qed

text \<open>The router picks, in order and among the classes whose target owns the repository of the
  event, those whose labels the job has; it picks all of them when the event has no labels, and
  also when the job has the labels of none of them. Then the job is counted as demand of every
  class of the target.\<close>

theorem router_picks_groups:
  "groupsForEvent dgroups (Some e) =
     (let candidates = filter (\<lambda>g. groupMatchesRepo g (w_Repo e)) dgroups;
          matching = filter (\<lambda>g. labelsMatch (w_Labels e) (g_MatchLabels g)) candidates
      in if w_Labels e = [] \<or> matching = [] then candidates else matching)"
proof -
  have c: "groupsForRepo dgroups (w_Repo e) = filter (\<lambda>g. groupMatchesRepo g (w_Repo e)) dgroups"
  proof (cases "trim_space (w_Repo e) = []")
    case True
    then have "groupMatchesRepo g (w_Repo e)" for g
      by (simp add: groupMatchesRepo_def to_lower_def)
    with True show ?thesis by (simp add: groupsForRepo_def)
  qed (simp add: groupsForRepo_def)
  show ?thesis unfolding groupsForEvent_def option.case c Let_def by (auto simp: filter_empty_conv)
qed

lemma shellQuote_word: "shellQuote = quoteWord"
  by (rule ext) (simp add: shellQuote_def quoteWord_def)

text \<open>C24. A shell reads the script of a cache sync as four commands in which the path of the cache and
  the name of the branch are one word each, unchanged, and expands nothing in it: whatever the two
  contain, they cannot inject a command or a substitution.\<close>

theorem sync_script_commands:
  "shellCommands (syncScript cachePath branch) = Some
     [[''set'', ''-eu''],
      [''git'', ''config'', ''--global'', ''--add'', ''safe.directory'', cachePath],
      [''git'', ''-C'', cachePath, ''fetch'', ''--prune'', ''origin'', branch],
      [''git'', ''-C'', cachePath, ''reset'', ''--hard'', ''FETCH_HEAD'']]
   \<and> shellExpansions Unquoted (syncScript cachePath branch) = []"
proof -
  have lines: "list_all2 lineTokens
      [''set -eu'',
       ''git config --global --add safe.directory '' @ quoteWord cachePath,
       ''git -C '' @ quoteWord cachePath @ '' fetch --prune origin '' @ quoteWord branch,
       ''git -C '' @ quoteWord cachePath @ '' reset --hard FETCH_HEAD'']
      [map Word [''set'', ''-eu''],
       map Word [''git'', ''config'', ''--global'', ''--add'', ''safe.directory'', cachePath],
       map Word [''git'', ''-C'', cachePath, ''fetch'', ''--prune'', ''origin'', branch],
       map Word [''git'', ''-C'', cachePath, ''reset'', ''--hard'', ''FETCH_HEAD'']]"
    by (simp add: lineTokens_def isBlank_def isOperator_def addChar_def)
  have expansions: "shellExpansions Unquoted (quoteWord v) = []" for v
    using expansions_quoteWord [of v "[]"] by simp
  show ?thesis
    using commands_script [OF lines] expansions_script [OF lines]
    by (simp add: syncScript_def shellQuote_word expansions)
qed

lemma authorized_iff:
  "authorizeLogsRequest cfg r \<longleftrightarrow>
   trim_space (dc_LogsToken cfg) \<noteq> [] \<and> trim_space (hr_Authorization r) = ''Bearer '' @ trim_space (dc_LogsToken cfg)"
proof -
  have "has_prefix a p \<and> drop (length p) a = t \<longleftrightarrow> a = p @ t" for a p t
    by (metis append_eq_conv_conj append_take_drop_id has_prefix_append has_prefix_def)
  from this [of "trim_space (hr_Authorization r)" "''Bearer ''" "trim_space (dc_LogsToken cfg)"]
  show ?thesis by (auto simp: authorizeLogsRequest_def Let_def)
qed

end
