(* ===== verification/Debouncer.thy ===== *)
theory Debouncer
  imports "HOL-Library.Word" "HOL-Library.Multiset" Go_Prelude
begin

text \<open>
  The debouncer of \<open>src/internal/daemon/webhook.go\<close> (\<open>debounceEntry\<close>, \<open>debouncer\<close>, \<open>schedule\<close>).

  A state holds the map of entries, the timers armed by \<open>time.AfterFunc\<close> and the callbacks that
  have started, each with the place it has reached: before its first critical section
  (\<open>AtCheck\<close>), between the two sections, about to call the function (\<open>AtRun\<close>), and before the
  second section (\<open>AtCleanup\<close>).  Every critical section is one definition, and \<open>debStep\<close>
  interleaves them with the clock, with further calls of \<open>schedule\<close> and with the cancellation of
  the context.  Two components record the history: the timers scheduled and the timers whose
  function ran, with the moment.

  The theorems show that no function runs before its delay is over or twice, and, for the histories
  in which a key is not scheduled while a callback of it is in progress, that a superseded call
  does not run and that the latest call can always still run.  Outside these histories a call can
  be lost (\<open>debouncer_loses_schedule\<close>), because the second section of the callback deletes the entry
  of a later call: the generations of the new entry start again.
\<close>

section \<open>State\<close>

record debounceEntry =
  de_generation :: "64 word"
  de_timer :: "nat option"

record 'f armedTimer =
  at_id :: nat
  at_key :: string
  at_generation :: "64 word"
  at_since :: gotime
  at_due :: gotime
  at_fn :: 'f

datatype callbackPc = AtCheck | AtRun | AtCleanup

record 'f debouncer =
  db_timers :: "string \<Rightarrow> debounceEntry option"
  db_armed :: "'f armedTimer list"
  db_callbacks :: "('f armedTimer \<times> callbackPc) list"
  db_now :: gotime
  db_cancelled :: bool
  db_next :: nat
  db_scheduled :: "'f armedTimer list"
  db_ran :: "('f armedTimer \<times> gotime) list"

definition newDebouncer :: "gotime \<Rightarrow> 'f debouncer" where
  "newDebouncer now =
     \<lparr>db_timers = (\<lambda>k. None), db_armed = [], db_callbacks = [], db_now = now, db_cancelled = False,
      db_next = 0, db_scheduled = [], db_ran = []\<rparr>"

section \<open>The critical sections\<close>

definition entryOf :: "'f debouncer \<Rightarrow> string \<Rightarrow> debounceEntry" where
  "entryOf s key = (case db_timers s key of None \<Rightarrow> \<lparr>de_generation = 0, de_timer = None\<rparr> | Some e \<Rightarrow> e)"

text \<open>\<open>Timer.Stop\<close> of a timer that has fired, or was stopped, does nothing.\<close>

definition stopTimer :: "nat option \<Rightarrow> 'f armedTimer list \<Rightarrow> 'f armedTimer list" where
  "stopTimer t armed = (case t of None \<Rightarrow> armed | Some i \<Rightarrow> filter (\<lambda>tm. at_id tm \<noteq> i) armed)"

definition newTimer :: "string \<Rightarrow> duration \<Rightarrow> 'f \<Rightarrow> 'f debouncer \<Rightarrow> 'f armedTimer" where
  "newTimer key delay fn s =
     \<lparr>at_id = db_next s, at_key = key, at_generation = de_generation (entryOf s key) + 1,
      at_since = db_now s, at_due = db_now s + (if delay < 0 then 0 else delay), at_fn = fn\<rparr>"

definition schedule :: "string \<Rightarrow> duration \<Rightarrow> 'f \<Rightarrow> 'f debouncer \<Rightarrow> 'f debouncer" where
  "schedule key delay fn s =
     (let entry = entryOf s key; tm = newTimer key delay fn s
      in s\<lparr>db_timers := (db_timers s)(key \<mapsto> \<lparr>de_generation = at_generation tm, de_timer = Some (at_id tm)\<rparr>),
           db_armed := stopTimer (de_timer entry) (db_armed s) @ [tm],
           db_next := Suc (db_next s),
           db_scheduled := db_scheduled s @ [tm]\<rparr>)"

text \<open>\<open>fireTimer\<close>: the runtime starts the callback of a timer that is due.\<close>

definition fireTimer :: "'f armedTimer \<Rightarrow> 'f debouncer \<Rightarrow> 'f debouncer" where
  "fireTimer tm s = s\<lparr>db_armed := remove1 tm (db_armed s), db_callbacks := db_callbacks s @ [(tm, AtCheck)]\<rparr>"

definition currentGeneration :: "'f armedTimer \<Rightarrow> 'f debouncer \<Rightarrow> bool" where
  "currentGeneration tm s =
     (case db_timers s (at_key tm) of None \<Rightarrow> False | Some e \<Rightarrow> de_generation e = at_generation tm)"

definition deleteEntry :: "'f armedTimer \<Rightarrow> 'f debouncer \<Rightarrow> 'f debouncer" where
  "deleteEntry tm s = s\<lparr>db_timers := (db_timers s)(at_key tm := None)\<rparr>"

definition checkCallback :: "'f armedTimer \<Rightarrow> 'f debouncer \<Rightarrow> 'f debouncer" where
  "checkCallback tm s =
     (let others = remove1 (tm, AtCheck) (db_callbacks s) in
      if \<not> currentGeneration tm s then s\<lparr>db_callbacks := others\<rparr>
      else (deleteEntry tm s)\<lparr>db_callbacks := others @ [(tm, AtRun)]\<rparr>)"

definition runCallback :: "'f armedTimer \<Rightarrow> 'f debouncer \<Rightarrow> 'f debouncer" where
  "runCallback tm s =
     s\<lparr>db_callbacks := remove1 (tm, AtRun) (db_callbacks s) @ [(tm, AtCleanup)],
       db_ran := (if db_cancelled s then db_ran s else db_ran s @ [(tm, db_now s)])\<rparr>"

definition cleanupCallback :: "'f armedTimer \<Rightarrow> 'f debouncer \<Rightarrow> 'f debouncer" where
  "cleanupCallback tm s =
     (let s' = (if currentGeneration tm s then deleteEntry tm s else s)
      in s'\<lparr>db_callbacks := remove1 (tm, AtCleanup) (db_callbacks s)\<rparr>)"

section \<open>Interleavings\<close>

text \<open>\<open>internalStep\<close>: the steps in which no caller takes part; \<open>debStep\<close> adds the callers of
  \<open>schedule\<close> and the cancellation of the context; in \<open>quietStep\<close> no call of \<open>schedule\<close> meets a
  callback of its own key in progress.\<close>

inductive internalStep :: "'f debouncer \<Rightarrow> 'f debouncer \<Rightarrow> bool" where
  advance: "db_now s \<le> now \<Longrightarrow> internalStep s (s\<lparr>db_now := now\<rparr>)"
| fire: "tm \<in> set (db_armed s) \<Longrightarrow> at_due tm \<le> db_now s \<Longrightarrow> internalStep s (fireTimer tm s)"
| check: "(tm, AtCheck) \<in> set (db_callbacks s) \<Longrightarrow> internalStep s (checkCallback tm s)"
| run: "(tm, AtRun) \<in> set (db_callbacks s) \<Longrightarrow> internalStep s (runCallback tm s)"
| cleanup: "(tm, AtCleanup) \<in> set (db_callbacks s) \<Longrightarrow> internalStep s (cleanupCallback tm s)"

inductive debStep :: "'f debouncer \<Rightarrow> 'f debouncer \<Rightarrow> bool" where
  internal: "internalStep s s' \<Longrightarrow> debStep s s'"
| cancel: "debStep s (s\<lparr>db_cancelled := True\<rparr>)"
| call: "debStep s (schedule key delay fn s)"

definition inProgress :: "string \<Rightarrow> 'f debouncer \<Rightarrow> bool" where
  "inProgress key s = list_ex (\<lambda>(tm, pc). at_key tm = key) (db_callbacks s)"

inductive quietStep :: "'f debouncer \<Rightarrow> 'f debouncer \<Rightarrow> bool" where
  internal: "internalStep s s' \<Longrightarrow> quietStep s s'"
| cancel: "quietStep s (s\<lparr>db_cancelled := True\<rparr>)"
| call: "\<not> inProgress key s \<Longrightarrow> quietStep s (schedule key delay fn s)"

inductive_cases internalStep_cases: "internalStep s s'"
inductive_cases debStep_cases: "debStep s s'"
inductive_cases quietStep_cases: "quietStep s s'"

lemmas deb_defs = schedule_def fireTimer_def checkCallback_def runCallback_def cleanupCallback_def
  deleteEntry_def Let_def

lemma quiet_is_deb: "quietStep s s' \<Longrightarrow> debStep s s'"
  by (auto elim!: quietStep_cases intro: debStep.intros)

section \<open>No function runs early or twice\<close>

text \<open>The timers that exist: armed, in a callback, or run.\<close>

definition liveIds :: "'f debouncer \<Rightarrow> nat list" where
  "liveIds s = map at_id (db_armed s) @ map (at_id \<circ> fst) (filter (\<lambda>(tm, pc). pc \<noteq> AtCleanup) (db_callbacks s))
     @ map (at_id \<circ> fst) (db_ran s)"

definition historyOk :: "'f debouncer \<Rightarrow> bool" where
  "historyOk s \<longleftrightarrow>
     (\<forall>(tm, t) \<in> set (db_ran s). tm \<in> set (db_scheduled s) \<and> at_due tm \<le> t \<and> t \<le> db_now s) \<and>
     (\<forall>(tm, pc) \<in> set (db_callbacks s). tm \<in> set (db_scheduled s) \<and> at_due tm \<le> db_now s) \<and>
     set (db_armed s) \<subseteq> set (db_scheduled s) \<and>
     (\<forall>tm \<in> set (db_scheduled s). at_id tm < db_next s \<and> at_since tm \<le> at_due tm \<and> at_since tm \<le> db_now s) \<and>
     distinct (map at_id (db_scheduled s))"

definition timedOk :: "'f debouncer \<Rightarrow> bool" where
  "timedOk s \<longleftrightarrow> historyOk s \<and> distinct (liveIds s)"

lemma remove1_obtain:
  assumes "x \<in> set xs"
  obtains ls rs where "xs = ls @ x # rs" "remove1 x xs = ls @ rs"
  using split_list_first [OF assms] by (auto simp: remove1_append)

lemma stopTimer_subset: "set (stopTimer t xs) \<subseteq> set xs"
  by (auto simp: stopTimer_def split: option.splits)

lemma distinct_stopTimer: "distinct (map f xs) \<Longrightarrow> distinct (map f (stopTimer t xs))"
  by (auto simp: stopTimer_def distinct_map_filter split: option.splits)

lemma distinct_extend:
  "distinct (xs @ ys) \<Longrightarrow> distinct xs' \<Longrightarrow> set xs' \<subseteq> set xs \<Longrightarrow> x \<notin> set (xs @ ys) \<Longrightarrow>
   distinct ((xs' @ [x]) @ ys)"
  by auto

lemma liveIds_scheduled:
  assumes "timedOk s" "i \<in> set (liveIds s)" shows "\<exists>tm\<in>set (db_scheduled s). at_id tm = i \<and> at_id tm < db_next s"
  using assms by (fastforce simp: timedOk_def historyOk_def liveIds_def)

lemma timedOk_new: "timedOk (newDebouncer now)"
  by (simp add: timedOk_def historyOk_def newDebouncer_def liveIds_def)

lemma timedOk_schedule:
  assumes "timedOk s" shows "timedOk (schedule key delay fn s)"
proof -
  let ?tm = "newTimer key delay fn s" and ?s = "schedule key delay fn s"
    and ?A = "stopTimer (de_timer (entryOf s key)) (db_armed s)"
  have new: "at_id ?tm = db_next s" "at_since ?tm = db_now s" "db_now s \<le> at_due ?tm"
    by (simp_all add: newTimer_def)
  have upd: "db_armed ?s = ?A @ [?tm]" "db_callbacks ?s = db_callbacks s" "db_ran ?s = db_ran s"
      "db_scheduled ?s = db_scheduled s @ [?tm]" "db_next ?s = Suc (db_next s)" "db_now ?s = db_now s"
    by (simp_all add: schedule_def Let_def)
  have fresh: "db_next s \<notin> set (liveIds s)" using liveIds_scheduled [OF assms] by fastforce
  have fresh': "db_next s \<notin> at_id ` set (db_scheduled s)" using assms by (auto simp: timedOk_def historyOk_def)
  have live: "distinct (liveIds s)" using assms by (simp add: timedOk_def)
  have sub: "set ?A \<subseteq> set (db_armed s)" by (rule stopTimer_subset)
  have "distinct (map at_id (db_armed s))" using live by (simp add: liveIds_def)
  then have "distinct (map at_id ?A)" by (rule distinct_stopTimer)
  moreover have "set (map at_id ?A) \<subseteq> set (map at_id (db_armed s))" using sub by auto
  ultimately have "distinct (liveIds ?s)"
    using distinct_extend [OF live [unfolded liveIds_def], of "map at_id ?A" "db_next s"] fresh
    by (simp add: liveIds_def upd new)
  moreover
  have ok: "historyOk s" using assms by (simp add: timedOk_def)
  note ok = ok [unfolded historyOk_def]
  have "\<forall>tm\<in>set (db_scheduled s). at_id tm < Suc (db_next s)" using ok by fastforce
  then have "\<forall>tm\<in>set (db_scheduled s @ [?tm]).
      at_id tm < Suc (db_next s) \<and> at_since tm \<le> at_due tm \<and> at_since tm \<le> db_now s"
    using ok new by simp
  moreover have "set (?A @ [?tm]) \<subseteq> set (db_scheduled s @ [?tm])" using ok sub by auto
  moreover have "distinct (map at_id (db_scheduled s @ [?tm]))" using ok fresh' new by simp
  moreover have "\<forall>(tm, t)\<in>set (db_ran s). tm \<in> set (db_scheduled s @ [?tm]) \<and> at_due tm \<le> t \<and> t \<le> db_now s"
    using conjunct1 [OF ok] by auto
  moreover have "\<forall>(tm, pc)\<in>set (db_callbacks s). tm \<in> set (db_scheduled s @ [?tm]) \<and> at_due tm \<le> db_now s"
    using conjunct1 [OF conjunct2 [OF ok]] by auto
  ultimately show ?thesis unfolding timedOk_def historyOk_def upd by (intro conjI)
qed

lemma distinct_subset_mset:
  assumes "distinct xs" "mset ys \<subseteq># mset xs" shows "distinct ys"
proof -
  obtain zs where "mset xs = mset (ys @ zs)"
    using assms(2) by (metis ex_mset mset_append subset_mset.le_iff_add)
  then show ?thesis using assms(1) by (metis distinct_append mset_eq_imp_distinct_iff)
qed

lemma liveIds_internal:
  assumes "internalStep s s'" shows "mset (liveIds s') \<subseteq># mset (liveIds s)"
  using assms
proof cases
  case (fire tm)
  obtain ls rs where "db_armed s = ls @ tm # rs" "remove1 tm (db_armed s) = ls @ rs"
    using remove1_obtain [OF fire(2)] .
  then show ?thesis by (simp add: fire(1) liveIds_def fireTimer_def)
next
  case (check tm)
  obtain ls rs where "db_callbacks s = ls @ (tm, AtCheck) # rs"
      "remove1 (tm, AtCheck) (db_callbacks s) = ls @ rs"
    using remove1_obtain [OF check(2)] .
  then show ?thesis
    by (cases "currentGeneration tm s") (simp_all add: check(1) liveIds_def checkCallback_def deleteEntry_def Let_def)
next
  case (run tm)
  obtain ls rs where "db_callbacks s = ls @ (tm, AtRun) # rs"
      "remove1 (tm, AtRun) (db_callbacks s) = ls @ rs"
    using remove1_obtain [OF run(2)] .
  then show ?thesis by (simp add: run(1) liveIds_def runCallback_def)
next
  case (cleanup tm)
  obtain ls rs where "db_callbacks s = ls @ (tm, AtCleanup) # rs"
      "remove1 (tm, AtCleanup) (db_callbacks s) = ls @ rs"
    using remove1_obtain [OF cleanup(2)] .
  then show ?thesis
    by (cases "currentGeneration tm s") (simp_all add: cleanup(1) liveIds_def cleanupCallback_def deleteEntry_def Let_def)
qed (simp add: liveIds_def)

lemma distinct_liveIds_internal:
  "distinct (liveIds s) \<Longrightarrow> internalStep s s' \<Longrightarrow> distinct (liveIds s')"
  by (rule distinct_subset_mset [OF _ liveIds_internal])

lemma historyOk_internal:
  assumes "historyOk s" "internalStep s s'" shows "historyOk s'"
  using assms(2)
proof cases
  case (advance now)
  then show ?thesis using assms(1) unfolding historyOk_def by (auto intro: order_trans)
next
  case (fire tm)
  then show ?thesis using assms(1) unfolding historyOk_def fireTimer_def
    by (auto dest: set_remove1_subset [THEN subsetD])
next
  case (check tm)
  then show ?thesis using assms(1) unfolding historyOk_def checkCallback_def deleteEntry_def Let_def
    by (auto dest: set_remove1_subset [THEN subsetD])
next
  case (run tm)
  then show ?thesis using assms(1) unfolding historyOk_def runCallback_def
    by (auto dest: set_remove1_subset [THEN subsetD])
next
  case (cleanup tm)
  then show ?thesis using assms(1) unfolding historyOk_def cleanupCallback_def deleteEntry_def Let_def
    by (auto dest: set_remove1_subset [THEN subsetD])
qed

lemma timedOk_internal: "timedOk s \<Longrightarrow> internalStep s s' \<Longrightarrow> timedOk s'"
  by (auto simp: timedOk_def dest: distinct_liveIds_internal historyOk_internal)

lemma timedOk_step:
  assumes "timedOk s" "debStep s s'" shows "timedOk s'"
  using assms(2)
proof cases
  case cancel
  then show ?thesis using assms(1) by (simp add: timedOk_def historyOk_def liveIds_def)
qed (use assms(1) timedOk_internal timedOk_schedule in auto)

lemma timedOk_reach:
  assumes "debStep\<^sup>*\<^sup>* (newDebouncer now) s" shows "timedOk s"
  using assms by induction (auto intro: timedOk_new timedOk_step)

text \<open>A timer that is no longer live stays so.\<close>

lemma liveIds_step:
  assumes "timedOk s" "debStep s s'" "i \<in> set (liveIds s')" "i < db_next s"
  shows "i \<in> set (liveIds s)"
  using assms(2)
proof cases
  case internal
  then show ?thesis using liveIds_internal [of s s'] assms(3) by (metis mset_subset_eqD set_mset_mset)
next
  case cancel
  then show ?thesis using assms(3) by (simp add: liveIds_def)
next
  case (call key delay fn)
  then show ?thesis using assms(3,4) stopTimer_subset [of "de_timer (entryOf s key)" "db_armed s"]
    by (auto simp: liveIds_def schedule_def Let_def newTimer_def)
qed

lemma next_mono: "debStep s s' \<Longrightarrow> db_next s \<le> db_next s'"
  by (auto elim!: debStep_cases internalStep_cases simp: deb_defs)

lemma dead_stays:
  assumes "debStep\<^sup>*\<^sup>* s s'" "timedOk s" "i \<notin> set (liveIds s)" "i < db_next s"
  shows "i \<notin> set (liveIds s') \<and> timedOk s' \<and> i < db_next s'"
  using assms
proof induction
  case (step y z)
  then show ?case using liveIds_step [of y z i] timedOk_step [of y z] next_mono [of y z] by auto
qed simp

section \<open>Quiet histories\<close>

definition latest :: "'f debouncer \<Rightarrow> string \<Rightarrow> 'f armedTimer option" where
  "latest s key = find (\<lambda>tm. at_key tm = key) (rev (db_scheduled s))"

definition ranTimer :: "'f debouncer \<Rightarrow> 'f armedTimer \<Rightarrow> bool" where
  "ranTimer s tm \<longleftrightarrow> tm \<in> fst ` set (db_ran s)"

definition entryFor :: "'f armedTimer \<Rightarrow> debounceEntry" where
  "entryFor tm = \<lparr>de_generation = at_generation tm, de_timer = Some (at_id tm)\<rparr>"

definition pendingTimer :: "'f debouncer \<Rightarrow> 'f armedTimer \<Rightarrow> bool" where
  "pendingTimer s tm \<longleftrightarrow> tm \<in> set (db_armed s) \<or> (tm, AtCheck) \<in> set (db_callbacks s)"

definition quietOk :: "'f debouncer \<Rightarrow> bool" where
  "quietOk s \<longleftrightarrow>
     distinct (map at_key (db_armed s @ map fst (db_callbacks s))) \<and>
     (\<forall>tm. pendingTimer s tm \<longrightarrow> db_timers s (at_key tm) = Some (entryFor tm)) \<and>
     (\<forall>k. db_timers s k \<noteq> None \<longrightarrow> (\<exists>tm. pendingTimer s tm \<and> at_key tm = k)) \<and>
     (\<forall>tm. pendingTimer s tm \<or> (tm, AtRun) \<in> set (db_callbacks s) \<longrightarrow> latest s (at_key tm) = Some tm) \<and>
     (\<forall>k tm. latest s k = Some tm \<longrightarrow>
        pendingTimer s tm \<or> (tm, AtRun) \<in> set (db_callbacks s) \<or> ranTimer s tm \<or> db_cancelled s)"

lemma latest_schedule:
  "latest (schedule key delay fn s) k = (if k = key then Some (newTimer key delay fn s) else latest s k)"
  by (simp add: latest_def schedule_def Let_def newTimer_def)

lemma quiet_run_entry:
  assumes "quietOk s" "(tm, pc) \<in> set (db_callbacks s)" "pc \<noteq> AtCheck"
  shows "db_timers s (at_key tm) = None"
proof (rule ccontr)
  assume "db_timers s (at_key tm) \<noteq> None"
  then obtain tm' where tm': "pendingTimer s tm'" "at_key tm' = at_key tm"
    using assms(1) by (auto simp: quietOk_def)
  obtain ls rs where split: "db_callbacks s = ls @ (tm, pc) # rs" using split_list [OF assms(2)] by blast
  have "distinct (map at_key (db_armed s @ map fst (db_callbacks s)))" using assms(1) by (simp add: quietOk_def)
  moreover have "tm' \<in> set (db_armed s) \<or> (tm', AtCheck) \<in> set ls \<or> (tm', AtCheck) \<in> set rs"
    using tm'(1) assms(3) by (auto simp: pendingTimer_def split)
  ultimately show False using tm'(2) by (force simp: split image_iff)
qed

lemma stop_quiet:
  assumes ok: "quietOk s" "timedOk s" and idle: "\<not> inProgress key s"
  shows "set (stopTimer (de_timer (entryOf s key)) (db_armed s)) = {tm \<in> set (db_armed s). at_key tm \<noteq> key}"
proof (cases "db_timers s key")
  case None
  then show ?thesis using ok(1) by (auto simp: entryOf_def stopTimer_def quietOk_def pendingTimer_def)
next
  case (Some e)
  then obtain tm where tm: "pendingTimer s tm" "at_key tm = key" using ok(1) by (auto simp: quietOk_def)
  then have armed: "tm \<in> set (db_armed s)" using idle by (auto simp: pendingTimer_def inProgress_def list_ex_iff)
  have e: "e = entryFor tm" using ok(1) tm Some by (auto simp: quietOk_def)
  have "distinct (liveIds s)" using ok(2) by (simp add: timedOk_def)
  then have "distinct (map at_id (db_armed s))" by (simp add: liveIds_def)
  then have ids: "at_id t = at_id tm \<longleftrightarrow> t = tm" if "t \<in> set (db_armed s)" for t
    using that armed by (meson distinct_map inj_onD)
  have "distinct (map at_key (db_armed s))" using ok(1) by (simp add: quietOk_def)
  then have keys: "at_key t = key \<longleftrightarrow> t = tm" if "t \<in> set (db_armed s)" for t
    using that armed tm(2) by (meson distinct_map inj_onD)
  show ?thesis using ids keys by (auto simp: entryOf_def Some stopTimer_def e entryFor_def)
qed

lemma quietOk_new: "quietOk (newDebouncer now)"
  by (simp add: quietOk_def newDebouncer_def pendingTimer_def latest_def)

lemma quietOk_schedule:
  assumes ok: "quietOk s" "timedOk s" and idle: "\<not> inProgress key s"
  shows "quietOk (schedule key delay fn s)"
proof -
  let ?tm = "newTimer key delay fn s" and ?s = "schedule key delay fn s"
    and ?A = "stopTimer (de_timer (entryOf s key)) (db_armed s)"
  note A = stop_quiet [OF ok idle]
  have key: "at_key ?tm = key" by (simp add: newTimer_def)
  have upd: "db_armed ?s = ?A @ [?tm]" "db_callbacks ?s = db_callbacks s" "db_ran ?s = db_ran s"
      "db_timers ?s = (db_timers s)(key \<mapsto> entryFor ?tm)" "db_cancelled ?s = db_cancelled s"
    by (simp_all add: schedule_def Let_def entryFor_def)
  have pend: "pendingTimer ?s tm \<longleftrightarrow> tm = ?tm \<or> pendingTimer s tm \<and> at_key tm \<noteq> key" for tm
    using idle by (auto simp: pendingTimer_def upd A inProgress_def list_ex_iff)
  have run: "(tm, AtRun) \<in> set (db_callbacks s) \<Longrightarrow> at_key tm \<noteq> key" for tm
    using idle by (auto simp: inProgress_def list_ex_iff)
  have dist: "distinct (map at_key (db_armed s @ map fst (db_callbacks s)))" using ok(1) by (simp add: quietOk_def)
  then have "distinct (map at_key ?A)" by (simp add: distinct_stopTimer)
  moreover have "key \<notin> at_key ` set ?A" using A by auto
  moreover have "key \<notin> at_key ` fst ` set (db_callbacks s)" using idle by (auto simp: inProgress_def list_ex_iff)
  ultimately have keys: "distinct (map at_key (db_armed ?s @ map fst (db_callbacks ?s)))"
    using dist key A by (auto simp: upd)
  show ?thesis unfolding quietOk_def
  proof (intro conjI allI impI)
    show "distinct (map at_key (db_armed ?s @ map fst (db_callbacks ?s)))" by (rule keys)
  next
    fix tm assume "pendingTimer ?s tm"
    then show "db_timers ?s (at_key tm) = Some (entryFor tm)"
      using ok(1) key by (auto simp: pend upd quietOk_def)
  next
    fix k assume "db_timers ?s k \<noteq> None"
    then show "\<exists>tm. pendingTimer ?s tm \<and> at_key tm = k"
      using ok(1) key by (cases "k = key") (auto simp: pend upd quietOk_def)
  next
    fix tm assume "pendingTimer ?s tm \<or> (tm, AtRun) \<in> set (db_callbacks ?s)"
    then show "latest ?s (at_key tm) = Some tm"
      using ok(1) key run [of tm] by (auto simp: pend upd quietOk_def latest_schedule)
  next
    fix k tm assume l: "latest ?s k = Some tm"
    show "pendingTimer ?s tm \<or> (tm, AtRun) \<in> set (db_callbacks ?s) \<or> ranTimer ?s tm \<or> db_cancelled ?s"
    proof (cases "k = key")
      case True
      then show ?thesis using l by (simp add: latest_schedule pend)
    next
      case False
      then have l': "latest s k = Some tm" using l by (simp add: latest_schedule)
      then have "at_key tm = k" unfolding latest_def by (metis (mono_tags, lifting) find_Some_iff)
      then show ?thesis using l' ok(1) False by (auto simp: pend upd quietOk_def ranTimer_def)
    qed
  qed
qed

text \<open>What an internal step does to the timers in progress.\<close>

lemma quiet_distinct:
  assumes "quietOk s" shows "distinct (db_armed s)" "distinct (db_callbacks s)"
proof -
  have d: "distinct (map at_key (db_armed s @ map fst (db_callbacks s)))" using assms by (simp add: quietOk_def)
  then have "distinct (map at_key (db_armed s))" "distinct (map at_key (map fst (db_callbacks s)))" by simp_all
  then show "distinct (db_armed s)" "distinct (db_callbacks s)" by (simp_all only: distinct_map)
qed

lemma quietOk_fire:
  assumes ok: "quietOk s" and tm: "tm \<in> set (db_armed s)" shows "quietOk (fireTimer tm s)"
proof -
  have set: "set (remove1 tm (db_armed s)) = set (db_armed s) - {tm}"
    using quiet_distinct(1) [OF ok] by simp
  have pend: "pendingTimer (fireTimer tm s) t = pendingTimer s t" for t
    using tm by (auto simp: pendingTimer_def fireTimer_def set)
  obtain ls rs where "db_armed s = ls @ tm # rs" "remove1 tm (db_armed s) = ls @ rs"
    using remove1_obtain [OF tm] .
  then have "distinct (map at_key (db_armed (fireTimer tm s) @ map fst (db_callbacks (fireTimer tm s))))"
    using ok unfolding quietOk_def by (auto simp: fireTimer_def)
  then show ?thesis using ok unfolding quietOk_def pend
    by (simp add: fireTimer_def ranTimer_def latest_def)
qed

lemma quietOk_check:
  assumes ok: "quietOk s" and tm: "(tm, AtCheck) \<in> set (db_callbacks s)"
  shows "quietOk (checkCallback tm s)"
proof -
  let ?s = "checkCallback tm s" and ?others = "remove1 (tm, AtCheck) (db_callbacks s)"
  obtain ls rs where split: "db_callbacks s = ls @ (tm, AtCheck) # rs" and rem: "?others = ls @ rs"
    using remove1_obtain [OF tm] .
  have pend: "pendingTimer s tm" using tm by (simp add: pendingTimer_def)
  have e: "db_timers s (at_key tm) = Some (entryFor tm)" using ok pend by (simp add: quietOk_def)
  then have "currentGeneration tm s" by (simp add: currentGeneration_def entryFor_def)
  then have upd: "db_armed ?s = db_armed s" "db_callbacks ?s = ls @ rs @ [(tm, AtRun)]" "db_ran ?s = db_ran s"
      "db_timers ?s = (db_timers s)(at_key tm := None)" "db_cancelled ?s = db_cancelled s"
      "db_scheduled ?s = db_scheduled s"
    by (simp_all add: checkCallback_def deleteEntry_def Let_def rem)
  have dist: "distinct (map at_key (db_armed s @ map fst (db_callbacks s)))" using ok by (simp add: quietOk_def)
  have armed: "t \<in> set (db_armed s) \<Longrightarrow> at_key t \<noteq> at_key tm"
    and others: "(t, pc) \<in> set (ls @ rs) \<Longrightarrow> at_key t \<noteq> at_key tm" for t pc
    using dist unfolding split by (force simp: image_iff)+
  have pend': "pendingTimer ?s t \<longleftrightarrow> pendingTimer s t \<and> at_key t \<noteq> at_key tm" for t
    using armed [of t] others [of t AtCheck] by (auto simp: pendingTimer_def upd split)
  have run': "(t, AtRun) \<in> set (db_callbacks ?s) \<longleftrightarrow> t = tm \<or> (t, AtRun) \<in> set (db_callbacks s)" for t
    by (auto simp: upd split)
  have lat: "latest ?s k = latest s k" for k by (simp add: latest_def upd)
  show ?thesis unfolding quietOk_def
  proof (intro conjI allI impI)
    show "distinct (map at_key (db_armed ?s @ map fst (db_callbacks ?s)))"
      using dist by (auto simp: upd split)
  next
    fix t assume "pendingTimer ?s t"
    then show "db_timers ?s (at_key t) = Some (entryFor t)" using ok by (simp add: pend' upd quietOk_def)
  next
    fix k assume k: "db_timers ?s k \<noteq> None"
    then have "k \<noteq> at_key tm" "db_timers s k \<noteq> None" by (auto simp: upd split: if_splits)
    then show "\<exists>t. pendingTimer ?s t \<and> at_key t = k" using ok unfolding pend' quietOk_def by blast
  next
    fix t assume "pendingTimer ?s t \<or> (t, AtRun) \<in> set (db_callbacks ?s)"
    then show "latest ?s (at_key t) = Some t" using ok pend by (auto simp: pend' run' lat quietOk_def)
  next
    fix k t assume "latest ?s k = Some t"
    then have l: "latest s k = Some t" by (simp add: lat)
    then have key: "at_key t = k" unfolding latest_def by (metis (mono_tags, lifting) find_Some_iff)
    have "pendingTimer s t \<or> (t, AtRun) \<in> set (db_callbacks s) \<or> ranTimer s t \<or> db_cancelled s"
      using ok l by (simp add: quietOk_def)
    moreover have "pendingTimer s t \<Longrightarrow> at_key t = at_key tm \<Longrightarrow> t = tm"
      using ok pend by (metis (no_types, lifting) option.inject quietOk_def)
    ultimately show "pendingTimer ?s t \<or> (t, AtRun) \<in> set (db_callbacks ?s) \<or> ranTimer ?s t \<or> db_cancelled ?s"
      unfolding pend' run' by (auto simp: upd(3,5) ranTimer_def)
  qed
qed

lemma quietOk_run:
  assumes ok: "quietOk s" and tm: "(tm, AtRun) \<in> set (db_callbacks s)"
  shows "quietOk (runCallback tm s)"
proof -
  let ?s = "runCallback tm s"
  obtain ls rs where split: "db_callbacks s = ls @ (tm, AtRun) # rs"
      and rem: "remove1 (tm, AtRun) (db_callbacks s) = ls @ rs"
    using remove1_obtain [OF tm] .
  have upd: "db_callbacks ?s = ls @ rs @ [(tm, AtCleanup)]" "db_armed ?s = db_armed s" "db_timers ?s = db_timers s"
      "db_scheduled ?s = db_scheduled s" "db_cancelled ?s = db_cancelled s"
      "db_ran ?s = (if db_cancelled s then db_ran s else db_ran s @ [(tm, db_now s)])"
    by (simp_all add: runCallback_def rem)
  have pend: "pendingTimer ?s t = pendingTimer s t" for t by (auto simp: pendingTimer_def upd split)
  have lat: "latest ?s k = latest s k" for k by (simp add: latest_def upd)
  have run: "(t, AtRun) \<in> set (db_callbacks s) \<longleftrightarrow> (t, AtRun) \<in> set (db_callbacks ?s) \<or> t = tm" for t
    by (auto simp: upd split)
  have ran: "ranTimer ?s t \<or> db_cancelled s \<longleftrightarrow> ranTimer s t \<or> t = tm \<or> db_cancelled s" for t
    by (auto simp: ranTimer_def upd)
  have "distinct (map at_key (db_armed s @ map fst (db_callbacks s)))" using ok by (simp add: quietOk_def)
  then have "distinct (map at_key (db_armed ?s @ map fst (db_callbacks ?s)))" by (auto simp: upd split)
  then show ?thesis using ok unfolding quietOk_def pend run lat upd(3,5) by (metis ran)
qed

lemma quietOk_cleanup:
  assumes ok: "quietOk s" and tm: "(tm, AtCleanup) \<in> set (db_callbacks s)"
  shows "quietOk (cleanupCallback tm s)"
proof -
  let ?s = "cleanupCallback tm s"
  obtain ls rs where split: "db_callbacks s = ls @ (tm, AtCleanup) # rs"
      and rem: "remove1 (tm, AtCleanup) (db_callbacks s) = ls @ rs"
    using remove1_obtain [OF tm] .
  have "db_timers s (at_key tm) = None" using quiet_run_entry [OF ok tm] by simp
  then have upd: "?s = s\<lparr>db_callbacks := ls @ rs\<rparr>"
    by (simp add: cleanupCallback_def currentGeneration_def Let_def rem)
  have pend: "pendingTimer ?s t = pendingTimer s t" for t by (auto simp: pendingTimer_def upd split)
  have run: "(t, AtRun) \<in> set (db_callbacks s) \<longleftrightarrow> (t, AtRun) \<in> set (db_callbacks ?s)" for t
    by (auto simp: upd split)
  have "distinct (map at_key (db_armed ?s @ map fst (db_callbacks ?s)))"
    using ok unfolding quietOk_def by (auto simp: upd split)
  then show ?thesis using ok unfolding quietOk_def pend run
    by (simp add: upd latest_def ranTimer_def)
qed

lemma quietOk_internal:
  assumes "quietOk s" "internalStep s s'" shows "quietOk s'"
  using assms(2)
proof cases
  case (advance now)
  then show ?thesis using assms(1) by (simp add: quietOk_def pendingTimer_def latest_def ranTimer_def)
qed (use assms(1) quietOk_fire quietOk_check quietOk_run quietOk_cleanup in auto)

lemma quietOk_step:
  assumes "quietOk s" "timedOk s" "quietStep s s'" shows "quietOk s'"
  using assms(3)
proof cases
  case cancel
  then show ?thesis using assms(1) by (simp add: quietOk_def pendingTimer_def latest_def ranTimer_def)
qed (use assms(1,2) quietOk_internal quietOk_schedule in auto)

lemma quiet_reach:
  assumes "quietStep\<^sup>*\<^sup>* (newDebouncer now) s" shows "quietOk s \<and> timedOk s"
  using assms
  by induction (auto intro: quietOk_new timedOk_new quietOk_step timedOk_step quiet_is_deb)

lemma quiet_reach_deb: "quietStep\<^sup>*\<^sup>* s s' \<Longrightarrow> debStep\<^sup>*\<^sup>* s s'"
  by (induction rule: rtranclp_induct) (auto dest: quiet_is_deb)

lemma internal_reach_deb: "internalStep\<^sup>*\<^sup>* s s' \<Longrightarrow> debStep\<^sup>*\<^sup>* s s'"
  by (induction rule: rtranclp_induct) (auto intro: debStep.internal rtranclp.rtrancl_into_rtrancl)

text \<open>The internal steps that take the latest timer of a key to its run.\<close>

lemma run_from_AtRun:
  assumes "(tm, AtRun) \<in> set (db_callbacks s)" "\<not> db_cancelled s"
  shows "\<exists>s'. internalStep\<^sup>*\<^sup>* s s' \<and> ranTimer s' tm"
  using internalStep.run [OF assms(1)] assms(2)
  by (intro exI [of _ "runCallback tm s"]) (auto simp: ranTimer_def runCallback_def)

lemma run_from_AtCheck:
  assumes "quietOk s" "(tm, AtCheck) \<in> set (db_callbacks s)" "\<not> db_cancelled s"
  shows "\<exists>s'. internalStep\<^sup>*\<^sup>* s s' \<and> ranTimer s' tm"
proof -
  have "db_timers s (at_key tm) = Some (entryFor tm)"
    using assms(1,2) by (simp add: quietOk_def pendingTimer_def)
  then have "(tm, AtRun) \<in> set (db_callbacks (checkCallback tm s))" "\<not> db_cancelled (checkCallback tm s)"
    using assms(3) by (simp_all add: checkCallback_def currentGeneration_def entryFor_def deleteEntry_def Let_def)
  then obtain s' where "internalStep\<^sup>*\<^sup>* (checkCallback tm s) s'" "ranTimer s' tm"
    using run_from_AtRun by blast
  then show ?thesis using internalStep.check [OF assms(2)] by (meson converse_rtranclp_into_rtranclp)
qed

lemma run_from_armed:
  assumes "quietOk s" "tm \<in> set (db_armed s)" "\<not> db_cancelled s"
  shows "\<exists>s'. internalStep\<^sup>*\<^sup>* s s' \<and> ranTimer s' tm"
proof -
  let ?t = "s\<lparr>db_now := max (db_now s) (at_due tm)\<rparr>"
  have adv: "internalStep s ?t" by (rule internalStep.advance) simp
  have fire: "internalStep ?t (fireTimer tm ?t)" using assms(2) by (intro internalStep.fire) simp_all
  have "quietOk (fireTimer tm ?t)" using assms(1) adv fire quietOk_internal by blast
  moreover have "(tm, AtCheck) \<in> set (db_callbacks (fireTimer tm ?t))" "\<not> db_cancelled (fireTimer tm ?t)"
    using assms(3) by (simp_all add: fireTimer_def)
  ultimately obtain s' where "internalStep\<^sup>*\<^sup>* (fireTimer tm ?t) s'" "ranTimer s' tm"
    using run_from_AtCheck by blast
  then show ?thesis using adv fire by (meson converse_rtranclp_into_rtranclp)
qed

lemma live_timer:
  assumes "i \<in> set (liveIds s)"
  obtains t where "at_id t = i" "pendingTimer s t \<or> (t, AtRun) \<in> set (db_callbacks s) \<or> ranTimer s t"
proof -
  consider (armed) t where "t \<in> set (db_armed s)" "i = at_id t"
    | (callback) t pc where "(t, pc) \<in> set (db_callbacks s)" "pc \<noteq> AtCleanup" "i = at_id t"
    | (ran) t u where "(t, u) \<in> set (db_ran s)" "i = at_id t"
    using assms unfolding liveIds_def by force
  then show thesis
  proof cases
    case (callback t pc)
    then show ?thesis using that [of t] by (cases pc) (auto simp: pendingTimer_def)
  qed (use that in \<open>force simp: pendingTimer_def ranTimer_def\<close>)+
qed

lemma live_scheduled:
  assumes "pendingTimer s t \<or> (t, AtRun) \<in> set (db_callbacks s) \<or> ranTimer s t" "historyOk s"
  shows "t \<in> set (db_scheduled s)"
  using assms unfolding historyOk_def pendingTimer_def ranTimer_def by fastforce

lemma superseded_dead:
  assumes ok: "quietOk s" "timedOk s" and tm: "latest s (at_key old) = Some tm" "old \<noteq> tm"
    and old: "old \<in> set (db_scheduled s)" "\<not> ranTimer s old"
  shows "at_id old \<notin> set (liveIds s)"
proof
  assume "at_id old \<in> set (liveIds s)"
  then obtain t where t: "at_id t = at_id old" "pendingTimer s t \<or> (t, AtRun) \<in> set (db_callbacks s) \<or> ranTimer s t"
    by (rule live_timer)
  have hist: "historyOk s" using ok(2) by (simp add: timedOk_def)
  have "t \<in> set (db_scheduled s)" using t(2) hist by (rule live_scheduled)
  moreover have "inj_on at_id (set (db_scheduled s))" using hist by (simp add: historyOk_def distinct_map)
  ultimately have eq: "t = old" using inj_onD t(1) old(1) by metis
  have "pendingTimer s old \<or> (old, AtRun) \<in> set (db_callbacks s)" using t(2) old(2) unfolding eq by simp
  then have "latest s (at_key old) = Some old" using ok(1) unfolding quietOk_def by blast
  then show False using tm by simp
qed

section \<open>Properties\<close>

text \<open>C16. Whatever the interleaving of calls, timers and callbacks: the functions that have run
  belong to calls of \<open>schedule\<close>, no call has run its function twice, and none before the delay of
  the call was over.\<close>

theorem debounce_not_early_not_twice:
  assumes "debStep\<^sup>*\<^sup>* (newDebouncer now) s"
  shows "distinct (map (at_id \<circ> fst) (db_ran s)) \<and>
    (\<forall>(tm, t) \<in> set (db_ran s). tm \<in> set (db_scheduled s) \<and> at_since tm \<le> at_due tm \<and> at_due tm \<le> t)"
  using timedOk_reach [OF assms] by (fastforce simp: timedOk_def historyOk_def liveIds_def)

text \<open>The two histories used below: a second call for a key before the first has run, and a call
  while the callback of an earlier one runs its function.\<close>

definition coalesced :: "unit debouncer" where
  "coalesced = schedule ''scaler-a'' 5 () (schedule ''scaler-a'' 5 () (newDebouncer 0))"

definition firstTimer :: "unit armedTimer" where
  "firstTimer = newTimer ''scaler-a'' 5 () (newDebouncer 0)"

definition secondTimer :: "unit armedTimer" where
  "secondTimer = newTimer ''scaler-a'' 5 () (schedule ''scaler-a'' 5 () (newDebouncer 0))"

definition firstRunning :: "unit debouncer" where
  "firstRunning =
     checkCallback firstTimer (fireTimer firstTimer ((schedule ''scaler-a'' 5 () (newDebouncer 0))\<lparr>db_now := 5\<rparr>))"

definition laterTimer :: "unit armedTimer" where
  "laterTimer = newTimer ''scaler-a'' 5 () firstRunning"

definition firstDone :: "unit debouncer" where
  "firstDone = cleanupCallback firstTimer (runCallback firstTimer (schedule ''scaler-a'' 5 () firstRunning))"

definition lostCall :: "unit debouncer" where
  "lostCall = checkCallback laterTimer (fireTimer laterTimer (firstDone\<lparr>db_now := 10\<rparr>))"

lemmas sample_defs = coalesced_def firstTimer_def secondTimer_def firstRunning_def laterTimer_def firstDone_def
  lostCall_def newTimer_def entryOf_def newDebouncer_def stopTimer_def currentGeneration_def deb_defs

lemma coalesced_reached: "quietStep\<^sup>*\<^sup>* (newDebouncer 0) coalesced"
proof -
  have "quietStep (newDebouncer 0) (schedule ''scaler-a'' 5 () (newDebouncer 0))"
    by (rule quietStep.call) (simp add: inProgress_def newDebouncer_def)
  moreover have "quietStep (schedule ''scaler-a'' 5 () (newDebouncer 0)) coalesced"
    unfolding coalesced_def by (rule quietStep.call) (simp add: inProgress_def sample_defs)
  ultimately show ?thesis by auto
qed

lemma firstRunning_reached: "debStep\<^sup>*\<^sup>* (newDebouncer 0) firstRunning"
proof -
  let ?s1 = "schedule ''scaler-a'' 5 () (newDebouncer 0)"
  let ?s2 = "?s1\<lparr>db_now := 5\<rparr>" and ?s3 = "fireTimer firstTimer (?s1\<lparr>db_now := 5\<rparr>)"
  have "debStep (newDebouncer 0) ?s1" by (rule debStep.call)
  moreover have "debStep ?s1 ?s2" by (intro debStep.internal internalStep.advance) (simp add: sample_defs)
  moreover have "debStep ?s2 ?s3" by (intro debStep.internal internalStep.fire) (simp_all add: sample_defs)
  moreover have "debStep ?s3 firstRunning" unfolding firstRunning_def
    by (intro debStep.internal internalStep.check) (simp add: fireTimer_def)
  ultimately show ?thesis by (meson converse_rtranclp_into_rtranclp rtranclp.rtrancl_refl)
qed

lemma firstDone_reached: "debStep\<^sup>*\<^sup>* (newDebouncer 0) firstDone"
proof -
  let ?s5 = "schedule ''scaler-a'' 5 () firstRunning"
  let ?s6 = "runCallback firstTimer ?s5"
  have "debStep firstRunning ?s5" by (rule debStep.call)
  moreover have "debStep ?s5 ?s6" by (intro debStep.internal internalStep.run) (simp add: sample_defs)
  moreover have "debStep ?s6 firstDone" unfolding firstDone_def
    by (intro debStep.internal internalStep.cleanup) (simp add: runCallback_def)
  ultimately show ?thesis using firstRunning_reached by (meson rtranclp.rtrancl_into_rtrancl)
qed

lemma lostCall_reached: "debStep\<^sup>*\<^sup>* (newDebouncer 0) lostCall"
proof -
  let ?s8 = "firstDone\<lparr>db_now := 10\<rparr>" and ?s9 = "fireTimer laterTimer (firstDone\<lparr>db_now := 10\<rparr>)"
  have "debStep firstDone ?s8" by (intro debStep.internal internalStep.advance) (simp add: sample_defs)
  moreover have "debStep ?s8 ?s9" by (intro debStep.internal internalStep.fire) (simp_all add: sample_defs)
  moreover have "debStep ?s9 lostCall" unfolding lostCall_def
    by (intro debStep.internal internalStep.check) (simp add: fireTimer_def)
  ultimately show ?thesis using firstDone_reached by (meson rtranclp.rtrancl_into_rtrancl)
qed

theorem debounce_not_early_not_twice_witness:
  "distinct (map (at_id \<circ> fst) (db_ran lostCall)) \<and> map fst (db_ran lostCall) = [firstTimer] \<and>
   list_all (\<lambda>(tm, t). tm \<in> set (db_scheduled lostCall) \<and> at_due tm \<le> t) (db_ran lostCall)"
  using debounce_not_early_not_twice [OF lostCall_reached] by (auto simp: sample_defs list_all_iff)

text \<open>The call made while the first one runs is lost: nothing is armed or in progress any more, the
  context lives, and its function has not run.\<close>

lemma debouncer_loses_schedule:
  "\<exists>s :: unit debouncer. \<exists>tm. debStep\<^sup>*\<^sup>* (newDebouncer 0) s \<and> latest s ''scaler-a'' = Some tm \<and>
     db_armed s = [] \<and> db_callbacks s = [] \<and> \<not> db_cancelled s \<and> \<not> ranTimer s tm"
  using lostCall_reached
  by (intro exI [of _ lostCall] exI [of _ laterTimer] conjI) (simp_all add: sample_defs latest_def ranTimer_def)

text \<open>C15. In the histories in which a key is not scheduled while a callback of the key is in
  progress: the latest call of a key has run or can still run, by steps of the runtime alone, unless
  the context is cancelled, and an earlier call of the key that has not run never runs.\<close>

theorem debounce_runs_latest:
  assumes "quietStep\<^sup>*\<^sup>* (newDebouncer now) s" "\<not> db_cancelled s" "latest s key = Some tm"
  shows "(\<exists>s'. internalStep\<^sup>*\<^sup>* s s' \<and> ranTimer s' tm) \<and>
    (\<forall>old s'. old \<in> set (db_scheduled s) \<and> at_key old = key \<and> old \<noteq> tm \<and> \<not> ranTimer s old \<and> debStep\<^sup>*\<^sup>* s s'
       \<longrightarrow> \<not> ranTimer s' old)"
proof (intro conjI allI impI)
  have ok: "quietOk s" "timedOk s" using quiet_reach [OF assms(1)] by simp_all
  have "pendingTimer s tm \<or> (tm, AtRun) \<in> set (db_callbacks s) \<or> ranTimer s tm"
    using ok(1) assms(2,3) unfolding quietOk_def by blast
  then show "\<exists>s'. internalStep\<^sup>*\<^sup>* s s' \<and> ranTimer s' tm"
    using run_from_armed [OF ok(1)] run_from_AtCheck [OF ok(1)] run_from_AtRun [of tm s] assms(2)
    unfolding pendingTimer_def by blast
  fix old s'
  assume old: "old \<in> set (db_scheduled s) \<and> at_key old = key \<and> old \<noteq> tm \<and> \<not> ranTimer s old \<and> debStep\<^sup>*\<^sup>* s s'"
  then have "at_id old \<notin> set (liveIds s)" using superseded_dead [OF ok] assms(3) by blast
  moreover have "at_id old < db_next s" using ok(2) old by (simp add: timedOk_def historyOk_def)
  ultimately have "at_id old \<notin> set (liveIds s')" using dead_stays old ok(2) by blast
  then show "\<not> ranTimer s' old" by (auto simp: liveIds_def ranTimer_def)
qed

theorem debounce_runs_latest_witness:
  "\<exists>s'. internalStep\<^sup>*\<^sup>* coalesced s' \<and> ranTimer s' secondTimer \<and> \<not> ranTimer s' firstTimer"
proof -
  have "\<not> db_cancelled coalesced" "latest coalesced ''scaler-a'' = Some secondTimer"
      "firstTimer \<in> set (db_scheduled coalesced)" "at_key firstTimer = ''scaler-a''" "firstTimer \<noteq> secondTimer"
      "\<not> ranTimer coalesced firstTimer"
    by (simp_all add: sample_defs latest_def ranTimer_def)
  then show ?thesis using debounce_runs_latest [OF coalesced_reached] internal_reach_deb by blast
qed

end
