(* ===== verification/Daemon_Loop.thy ===== *)
theory Daemon_Loop
  imports "HOL-Library.Word" Runner_Labels
begin

text \<open>
  The reconcile loop of \<open>src/internal/daemon/daemon.go\<close>: triggers (\<open>triggerGroup\<close>), the loop
  that receives them (\<open>reconcileLoop\<close>, \<open>doReconcileGroups\<close>) and the groups a pass is for
  (\<open>selectedGroups\<close>).  What a pass does is in \<open>Daemon_Passes\<close>.

  \<open>loopState\<close> is the part of \<open>Daemon\<close> behind \<open>d.mu\<close> together with the channel \<open>triggerCh\<close> and
  the place the loop has reached.  \<open>triggerGroup\<close> takes two steps, the critical section and the
  send, and \<open>loopNext\<close> is one step of the loop, between two accesses to what it shares with the
  triggers.  \<open>loopStep\<close> interleaves them.  Two history components record which groups are owed a
  pass: by any trigger, and by the triggers that reached the channel.

  The theorems show that a trigger that reached the channel is followed by a pass over its group,
  and that a daemon with a single group loses no trigger at all.  With several groups it may: a
  trigger between the start of a run of \<open>doReconcileGroups\<close> and the reading of the sequence number
  is dropped (\<open>two_groups_lose_trigger\<close>), and a pass over all groups that finds a trigger in the
  channel narrows to the group of this trigger (\<open>full_pass_narrows\<close>).
\<close>

section \<open>Requested groups\<close>

text \<open>A nil slice of requested groups is the empty list: the code only asks for its length.\<close>

definition mergeRequestedGroups :: "string list \<Rightarrow> string list \<Rightarrow> string list" where
  "mergeRequestedGroups current pending =
     (if pending = [] then current else if current = [] then pending else current @ pending)"

definition selectedGroups :: "runnerGroup list \<Rightarrow> string list \<Rightarrow> runnerGroup list" where
  "selectedGroups groups requested =
     (if requested = [] \<or> [] \<in> set requested then groups
      else filter (\<lambda>g. g_ID g \<in> set requested) groups)"

definition selectedIDs :: "runnerGroup list \<Rightarrow> string list \<Rightarrow> string set" where
  "selectedIDs groups requested = g_ID ` set (selectedGroups groups requested)"

lemma merge_Nil_iff [simp]: "mergeRequestedGroups r p = [] \<longleftrightarrow> r = [] \<and> p = []"
  by (simp add: mergeRequestedGroups_def)

lemma set_merge: "set (mergeRequestedGroups r p) = set r \<union> set p"
  by (auto simp: mergeRequestedGroups_def)

lemma selectedIDs_mono:
  "r \<noteq> [] \<Longrightarrow> set r \<subseteq> set r' \<Longrightarrow> selectedIDs gs r \<subseteq> selectedIDs gs r'"
  by (auto simp: selectedIDs_def selectedGroups_def)

section \<open>The state of the loop\<close>

text \<open>Where the loop is: in the \<open>select\<close> of \<open>reconcileLoop\<close>, before the critical section of
  \<open>doReconcileGroups\<close>, at the top of its \<open>for\<close>, after the first drain, after the reading of the
  sequence number, before the second check of the context, and in \<open>reconcileTargets\<close>.\<close>

datatype loopPc =
    Waiting
  | Entering "string list"
  | PassTop "string list"
  | Drained "string list"
  | Started "string list" "64 word"
  | Ready "string list" "64 word"
  | Reconciling "string list" "64 word"
  | Stopped

record loopStats =
  ls_reconcileRuns :: "64 word"
  ls_reconcileFailures :: "64 word"
  ls_lastReconcileStartedAt :: gotime
  ls_lastReconcileFinishedAt :: gotime
  ls_lastSuccessfulReconcileAt :: gotime
  ls_lastReconcileError :: string

record loopState =
  dl_triggerSeq :: "64 word"
  dl_reconcileRunning :: bool
  dl_triggerCh :: "string list"
  dl_pc :: loopPc
  dl_senders :: "string list"
  dl_cancelled :: bool
  dl_stats :: loopStats
  dl_count :: nat
  dl_owed :: "string set"
  dl_queued :: "string set"

definition newLoop :: loopState where
  "newLoop =
     \<lparr>dl_triggerSeq = 0, dl_reconcileRunning = False, dl_triggerCh = [], dl_pc = Entering [], dl_senders = [],
      dl_cancelled = False,
      dl_stats = \<lparr>ls_reconcileRuns = 0, ls_reconcileFailures = 0, ls_lastReconcileStartedAt = 0,
        ls_lastReconcileFinishedAt = 0, ls_lastSuccessfulReconcileAt = 0, ls_lastReconcileError = []\<rparr>,
      dl_count = 0, dl_owed = {}, dl_queued = {}\<rparr>"

section \<open>Triggers\<close>

text \<open>The critical section of \<open>triggerGroup\<close>.  A caller that saw no run in progress goes on to
  send.\<close>

definition triggerBegin :: "runnerGroup list \<Rightarrow> string \<Rightarrow> loopState \<Rightarrow> loopState" where
  "triggerBegin groups groupID s =
     s\<lparr>dl_triggerSeq := dl_triggerSeq s + 1,
       dl_senders := (if dl_reconcileRunning s then dl_senders s else dl_senders s @ [groupID]),
       dl_count := Suc (dl_count s),
       dl_owed := dl_owed s \<union> selectedIDs groups [groupID]\<rparr>"

definition triggerCapacity :: "runnerGroup list \<Rightarrow> nat" where
  "triggerCapacity groups = length groups + 1"

definition triggerSend :: "runnerGroup list \<Rightarrow> string \<Rightarrow> loopState \<Rightarrow> loopState" where
  "triggerSend groups groupID s =
     (let s' = s\<lparr>dl_senders := remove1 groupID (dl_senders s)\<rparr> in
      if length (dl_triggerCh s) < triggerCapacity groups
      then s'\<lparr>dl_triggerCh := dl_triggerCh s @ [groupID],
              dl_queued := dl_queued s \<union> selectedIDs groups [groupID]\<rparr>
      else s')"

section \<open>The loop\<close>

definition drainTriggerSignals :: "loopState \<Rightarrow> string list \<times> loopState" where
  "drainTriggerSignals s = (dl_triggerCh s, s\<lparr>dl_triggerCh := []\<rparr>)"

definition leavePass :: "loopState \<Rightarrow> loopState" where
  "leavePass s = s\<lparr>dl_reconcileRunning := False, dl_pc := Waiting\<rparr>"

definition recordPass :: "gerror option \<Rightarrow> gotime \<Rightarrow> loopStats \<Rightarrow> loopStats" where
  "recordPass err finishedAt st =
     (let st1 = st\<lparr>ls_reconcileRuns := ls_reconcileRuns st + 1, ls_lastReconcileFinishedAt := finishedAt\<rparr> in
      case err of
        Some e \<Rightarrow> st1\<lparr>ls_reconcileFailures := ls_reconcileFailures st + 1, ls_lastReconcileError := e\<rparr>
      | None \<Rightarrow> st1\<lparr>ls_lastSuccessfulReconcileAt := finishedAt, ls_lastReconcileError := []\<rparr>)"

definition finishPass :: "64 word \<Rightarrow> gerror option \<Rightarrow> gotime \<Rightarrow> loopState \<Rightarrow> loopState" where
  "finishPass startSeq err now s =
     (let s1 = s\<lparr>dl_stats := recordPass err now (dl_stats s)\<rparr>;
          rerun = (dl_triggerSeq s \<noteq> startSeq \<and> \<not> dl_cancelled s)
      in if rerun then s1\<lparr>dl_pc := PassTop []\<rparr> else leavePass s1)"

text \<open>One step of the loop.  \<open>tick\<close>: the ticker fires (its channel and \<open>triggerCh\<close> may both be
  ready, and \<open>select\<close> takes any of them); \<open>err\<close>: the result of \<open>reconcileTargets\<close>.\<close>

definition loopNext :: "runnerGroup list \<Rightarrow> bool \<Rightarrow> gerror option \<Rightarrow> gotime \<Rightarrow> loopState \<Rightarrow> loopState" where
  "loopNext groups tick err now s =
     (case dl_pc s of
        Waiting \<Rightarrow>
          (if dl_cancelled s then s\<lparr>dl_pc := Stopped\<rparr>
           else if tick then s\<lparr>dl_pc := Entering []\<rparr>
           else (case dl_triggerCh s of
                   [] \<Rightarrow> s
                 | groupID # rest \<Rightarrow> s\<lparr>dl_pc := Entering [groupID], dl_triggerCh := rest\<rparr>))
      | Entering requested \<Rightarrow>
          (if dl_reconcileRunning s then s\<lparr>dl_pc := Waiting\<rparr>
           else s\<lparr>dl_reconcileRunning := True, dl_pc := PassTop requested\<rparr>)
      | PassTop requested \<Rightarrow>
          (if dl_cancelled s then leavePass s
           else (let (pending, s') = drainTriggerSignals s
                 in s'\<lparr>dl_pc := Drained (mergeRequestedGroups requested pending)\<rparr>))
      | Drained requested \<Rightarrow>
          s\<lparr>dl_pc := Started requested (dl_triggerSeq s),
            dl_stats := (dl_stats s)\<lparr>ls_lastReconcileStartedAt := now\<rparr>\<rparr>
      | Started requested startSeq \<Rightarrow>
          (let (pending, s') = drainTriggerSignals s
           in s'\<lparr>dl_pc := Ready (mergeRequestedGroups requested pending) startSeq\<rparr>)
      | Ready requested startSeq \<Rightarrow>
          (if dl_cancelled s then leavePass s
           else s\<lparr>dl_pc := Reconciling requested startSeq,
                  dl_owed := dl_owed s - selectedIDs groups requested,
                  dl_queued := dl_queued s - selectedIDs groups requested\<rparr>)
      | Reconciling requested startSeq \<Rightarrow> finishPass startSeq err now s
      | Stopped \<Rightarrow> s)"

inductive loopStep :: "runnerGroup list \<Rightarrow> loopState \<Rightarrow> loopState \<Rightarrow> bool" for groups where
  trigger: "groupID = [] \<or> groupID \<in> g_ID ` set groups \<Longrightarrow> loopStep groups s (triggerBegin groups groupID s)"
| send: "groupID \<in> set (dl_senders s) \<Longrightarrow> loopStep groups s (triggerSend groups groupID s)"
| loop: "loopStep groups s (loopNext groups tick err now s)"
| cancel: "loopStep groups s (s\<lparr>dl_cancelled := True\<rparr>)"

inductive_cases loopStep_cases: "loopStep groups s s'"

lemmas loop_defs = triggerBegin_def triggerSend_def drainTriggerSignals_def leavePass_def finishPass_def
  recordPass_def loopNext_def Let_def

section \<open>A queued trigger is followed by a pass\<close>

text \<open>The requested groups of a run that has not started its pass yet.\<close>

fun upcoming :: "loopPc \<Rightarrow> string list option" where
  "upcoming (Entering r) = Some r"
| "upcoming (PassTop r) = Some r"
| "upcoming (Drained r) = Some r"
| "upcoming (Started r q) = Some r"
| "upcoming (Ready r q) = Some r"
| "upcoming pc = None"

definition willServe :: "runnerGroup list \<Rightarrow> loopState \<Rightarrow> string \<Rightarrow> bool" where
  "willServe groups s g \<longleftrightarrow>
     (\<exists>x \<in> set (dl_triggerCh s). g \<in> selectedIDs groups [x]) \<or>
     (\<exists>r. upcoming (dl_pc s) = Some r \<and> r \<noteq> [] \<and> g \<in> selectedIDs groups r)"

definition runningPc :: "loopPc \<Rightarrow> bool" where
  "runningPc pc = (case pc of PassTop r \<Rightarrow> True | Drained r \<Rightarrow> True | Started r q \<Rightarrow> True | Ready r q \<Rightarrow> True
     | Reconciling r q \<Rightarrow> True | _ \<Rightarrow> False)"

definition queuedOk :: "runnerGroup list \<Rightarrow> loopState \<Rightarrow> bool" where
  "queuedOk groups s \<longleftrightarrow>
     (dl_reconcileRunning s \<longleftrightarrow> runningPc (dl_pc s)) \<and>
     (dl_pc s = Stopped \<longrightarrow> dl_cancelled s) \<and>
     (\<not> dl_cancelled s \<longrightarrow> (\<forall>g \<in> dl_queued s. willServe groups s g))"

lemma selected_member: "x \<in> set r \<Longrightarrow> selectedIDs groups [x] \<subseteq> selectedIDs groups r"
  by (rule selectedIDs_mono) auto

lemma willServe_drain:
  assumes "willServe groups s g" "upcoming (dl_pc s) = Some r"
    and "upcoming (dl_pc s') = Some (mergeRequestedGroups r (dl_triggerCh s))"
  shows "willServe groups s' g"
proof -
  consider (channel) x where "x \<in> set (dl_triggerCh s)" "g \<in> selectedIDs groups [x]"
    | (request) "r \<noteq> []" "g \<in> selectedIDs groups r"
    using assms(1,2) by (auto simp: willServe_def)
  then show ?thesis
  proof cases
    case channel
    then have "g \<in> selectedIDs groups (mergeRequestedGroups r (dl_triggerCh s))"
      using selected_member [of x "mergeRequestedGroups r (dl_triggerCh s)" groups] by (auto simp: set_merge)
    then show ?thesis using assms(3) channel(1) by (auto simp: willServe_def)
  next
    case request
    then have "g \<in> selectedIDs groups (mergeRequestedGroups r (dl_triggerCh s))"
      using selectedIDs_mono [of r "mergeRequestedGroups r (dl_triggerCh s)" groups] by (auto simp: set_merge)
    then show ?thesis using assms(3) request(1) by (auto simp: willServe_def)
  qed
qed

lemma queuedOk_new: "queuedOk groups newLoop"
  by (simp add: queuedOk_def newLoop_def runningPc_def)

lemma willServe_same:
  "dl_triggerCh s' = dl_triggerCh s \<Longrightarrow> upcoming (dl_pc s') = upcoming (dl_pc s) \<Longrightarrow>
   willServe groups s' g = willServe groups s g"
  by (simp add: willServe_def)

lemma queuedOk_trigger: "queuedOk groups s \<Longrightarrow> queuedOk groups (triggerBegin groups g s)"
  by (simp add: queuedOk_def triggerBegin_def willServe_def)

lemma queuedOk_send: "queuedOk groups s \<Longrightarrow> queuedOk groups (triggerSend groups g s)"
  by (auto simp: queuedOk_def triggerSend_def willServe_def Let_def)

lemma queuedOk_recv:
  assumes ok: "queuedOk groups s" and pc: "dl_pc s = Waiting" and ch: "dl_triggerCh s = x # rest"
  shows "queuedOk groups (s\<lparr>dl_pc := Entering [x], dl_triggerCh := rest\<rparr>)"
proof -
  have "willServe groups (s\<lparr>dl_pc := Entering [x], dl_triggerCh := rest\<rparr>) g"
    if "willServe groups s g" for g
    using that pc ch by (auto simp: willServe_def)
  then show ?thesis using ok pc by (auto simp: queuedOk_def runningPc_def)
qed

lemma queuedOk_loop:
  assumes ok: "queuedOk groups s" shows "queuedOk groups (loopNext groups tick err now s)"
proof (cases "dl_pc s")
  case Waiting
  then show ?thesis using ok queuedOk_recv [OF ok Waiting]
    by (auto simp: loopNext_def queuedOk_def runningPc_def willServe_def split: list.splits)
next
  case (PassTop r)
  have "willServe groups (s\<lparr>dl_triggerCh := [], dl_pc := Drained (mergeRequestedGroups r (dl_triggerCh s))\<rparr>) g"
    if "willServe groups s g" for g
    using willServe_drain [OF that] PassTop by simp
  then show ?thesis using ok PassTop
    by (auto simp: loopNext_def queuedOk_def runningPc_def drainTriggerSignals_def leavePass_def)
next
  case (Started r q)
  have "willServe groups (s\<lparr>dl_triggerCh := [], dl_pc := Ready (mergeRequestedGroups r (dl_triggerCh s)) q\<rparr>) g"
    if "willServe groups s g" for g
    using willServe_drain [OF that] Started by simp
  then show ?thesis using ok Started
    by (auto simp: loopNext_def queuedOk_def runningPc_def drainTriggerSignals_def)
next
  case (Ready r q)
  then show ?thesis using ok
    by (auto simp: loopNext_def queuedOk_def runningPc_def leavePass_def willServe_def)
next
  case (Reconciling r q)
  then show ?thesis using ok
    by (auto simp: loopNext_def queuedOk_def runningPc_def finishPass_def leavePass_def willServe_def Let_def)
qed (use ok in \<open>auto simp: loopNext_def queuedOk_def runningPc_def willServe_def\<close>)

lemma queuedOk_step: "queuedOk groups s \<Longrightarrow> loopStep groups s s' \<Longrightarrow> queuedOk groups s'"
  by (erule loopStep_cases)
     (auto simp: queuedOk_trigger queuedOk_send queuedOk_loop queuedOk_def [of groups "s\<lparr>dl_cancelled := True\<rparr>"]
       queuedOk_def [of groups s])

lemma queuedOk_reach: "(loopStep groups)\<^sup>*\<^sup>* newLoop s \<Longrightarrow> queuedOk groups s"
  by (induction rule: rtranclp_induct) (auto intro: queuedOk_new queuedOk_step)

text \<open>What the loop does alone: it reaches the next pass in a bounded number of steps.\<close>

definition loopAlone :: "runnerGroup list \<Rightarrow> loopState \<Rightarrow> loopState" where
  "loopAlone groups = loopNext groups False None 0"

lemma loopAlone_simps:
  "dl_pc s = Entering r \<Longrightarrow> \<not> dl_reconcileRunning s \<Longrightarrow>
     loopAlone groups s = s\<lparr>dl_reconcileRunning := True, dl_pc := PassTop r\<rparr>"
  "dl_pc s = PassTop r \<Longrightarrow> \<not> dl_cancelled s \<Longrightarrow>
     loopAlone groups s = s\<lparr>dl_triggerCh := [], dl_pc := Drained (mergeRequestedGroups r (dl_triggerCh s))\<rparr>"
  "dl_pc s = Drained r \<Longrightarrow>
     loopAlone groups s = s\<lparr>dl_pc := Started r (dl_triggerSeq s), dl_stats := (dl_stats s)\<lparr>ls_lastReconcileStartedAt := 0\<rparr>\<rparr>"
  "dl_pc s = Started r q \<Longrightarrow>
     loopAlone groups s = s\<lparr>dl_triggerCh := [], dl_pc := Ready (mergeRequestedGroups r (dl_triggerCh s)) q\<rparr>"
  "dl_pc s = Ready r q \<Longrightarrow> \<not> dl_cancelled s \<Longrightarrow>
     loopAlone groups s = s\<lparr>dl_pc := Reconciling r q, dl_owed := dl_owed s - selectedIDs groups r,
       dl_queued := dl_queued s - selectedIDs groups r\<rparr>"
  "dl_pc s = Waiting \<Longrightarrow> \<not> dl_cancelled s \<Longrightarrow> dl_triggerCh s = x # rest \<Longrightarrow>
     loopAlone groups s = s\<lparr>dl_pc := Entering [x], dl_triggerCh := rest\<rparr>"
  by (simp_all add: loopAlone_def loopNext_def drainTriggerSignals_def)

text \<open>The contract of a history component \<open>owing\<close> with the loop: requests that cover it keep
  covering it when more (valid) requests are merged, and a pass over a covering request clears it.
  Under this contract a loop with a covering request, in the channel or accepted, clears the
  component within the steps to its next pass.\<close>

locale pass_progress =
  fixes groups :: "runnerGroup list"
    and covers :: "string list \<Rightarrow> bool"
    and valid :: "string \<Rightarrow> bool"
    and owing :: "loopState \<Rightarrow> bool"
  assumes merge_covers: "covers r \<Longrightarrow> list_all valid p \<Longrightarrow> covers (mergeRequestedGroups r p)"
    and pending_covers:
      "x \<in> set p \<Longrightarrow> covers [x] \<Longrightarrow> list_all valid r \<Longrightarrow> list_all valid p \<Longrightarrow> covers (mergeRequestedGroups r p)"
    and pass_clears: "dl_pc s = Ready r q \<Longrightarrow> \<not> dl_cancelled s \<Longrightarrow> covers r \<Longrightarrow> \<not> owing (loopAlone groups s)"
begin

definition validRequests :: "loopState \<Rightarrow> bool" where
  "validRequests s \<longleftrightarrow> list_all valid (dl_triggerCh s) \<and> (\<forall>r. upcoming (dl_pc s) = Some r \<longrightarrow> list_all valid r)"

definition willServe :: "loopState \<Rightarrow> bool" where
  "willServe s \<longleftrightarrow>
     (\<exists>x \<in> set (dl_triggerCh s). covers [x]) \<or> (\<exists>r. upcoming (dl_pc s) = Some r \<and> covers r)"

definition servedWithin :: "nat \<Rightarrow> loopState \<Rightarrow> bool" where
  "servedWithin n s \<longleftrightarrow> (\<exists>k \<le> n. \<not> owing ((loopAlone groups ^^ k) s))"

lemma served_step: "servedWithin n (loopAlone groups s) \<Longrightarrow> servedWithin (Suc n) s"
  unfolding servedWithin_def by (metis Suc_le_mono comp_apply funpow_Suc_right)

lemma served_mono: "servedWithin n s \<Longrightarrow> n \<le> m \<Longrightarrow> servedWithin m s"
  unfolding servedWithin_def by (meson order_trans)

lemma drain_covers:
  assumes "willServe s" "validRequests s" "upcoming (dl_pc s) = Some r"
  shows "covers (mergeRequestedGroups r (dl_triggerCh s))"
  using assms merge_covers pending_covers unfolding willServe_def validRequests_def by auto

lemma merge_valid: "list_all valid r \<Longrightarrow> list_all valid p \<Longrightarrow> list_all valid (mergeRequestedGroups r p)"
  by (auto simp: list_all_iff set_merge)

lemma served_Ready:
  assumes "dl_pc s = Ready r q" "\<not> dl_cancelled s" "covers r" shows "servedWithin 1 s"
proof -
  have "servedWithin 0 (loopAlone groups s)" using pass_clears [OF assms] by (simp add: servedWithin_def)
  then show ?thesis using served_step [of 0 s] by simp
qed

lemma served_Started:
  assumes "dl_pc s = Started r q" "\<not> dl_cancelled s" "willServe s" "validRequests s"
  shows "servedWithin 2 s"
  using served_step [of 1 s] drain_covers [OF assms(3,4)] assms
    served_Ready [of "loopAlone groups s" "mergeRequestedGroups r (dl_triggerCh s)" q]
  by (simp add: loopAlone_simps numeral_2_eq_2)

lemma served_Drained:
  assumes "dl_pc s = Drained r" "\<not> dl_cancelled s" "willServe s" "validRequests s"
  shows "servedWithin 3 s"
proof -
  let ?s = "loopAlone groups s"
  have "willServe ?s" "validRequests ?s" "dl_pc ?s = Started r (dl_triggerSeq s)" "\<not> dl_cancelled ?s"
    using assms by (auto simp: loopAlone_simps willServe_def validRequests_def)
  then have "servedWithin 2 ?s" by (rule served_Started [rotated 2])
  then show ?thesis using served_step [of 2 s] by (simp add: numeral_3_eq_3 numeral_2_eq_2)
qed

lemma served_PassTop:
  assumes "dl_pc s = PassTop r" "\<not> dl_cancelled s" "willServe s" "validRequests s"
  shows "servedWithin 4 s"
proof -
  let ?s = "loopAlone groups s"
  have "willServe ?s" using drain_covers [OF assms(3,4)] assms(1,2) by (simp add: loopAlone_simps willServe_def)
  moreover have "validRequests ?s" using assms(1,2,4) merge_valid by (auto simp: loopAlone_simps validRequests_def)
  ultimately have "servedWithin 3 ?s" using assms(1,2)
    by (intro served_Drained [of ?s "mergeRequestedGroups r (dl_triggerCh s)"]) (simp_all add: loopAlone_simps)
  then show ?thesis using served_step [of 3 s] by simp
qed

lemma served_Entering:
  assumes "dl_pc s = Entering r" "\<not> dl_cancelled s" "\<not> dl_reconcileRunning s" "willServe s" "validRequests s"
  shows "servedWithin 5 s"
proof -
  let ?s = "loopAlone groups s"
  have "servedWithin 4 ?s" using assms
    by (intro served_PassTop [of ?s r]) (auto simp: loopAlone_simps willServe_def validRequests_def)
  then show ?thesis using served_step [of 4 s] by simp
qed

lemma served_Waiting:
  assumes "dl_pc s = Waiting" "\<not> dl_cancelled s" "\<not> dl_reconcileRunning s" "willServe s" "validRequests s"
  shows "servedWithin 6 s"
proof -
  let ?s = "loopAlone groups s"
  obtain x rest where ch: "dl_triggerCh s = x # rest"
    using assms(1,4) by (cases "dl_triggerCh s") (auto simp: willServe_def)
  have "servedWithin 5 ?s" using assms ch
    by (intro served_Entering [of ?s "[x]"]) (auto simp: loopAlone_simps willServe_def validRequests_def)
  then show ?thesis using served_step [of 5 s] by simp
qed

text \<open>A pass in progress ends first; if it is to be run again, any request over all groups covers.\<close>

lemma served_Reconciling:
  assumes "dl_pc s = Reconciling r q" "\<not> dl_cancelled s" "validRequests s"
    and "willServe s \<or> dl_triggerSeq s \<noteq> q \<and> covers []"
  shows "servedWithin 7 s"
proof -
  let ?s = "loopAlone groups s"
  have "?s = finishPass q None 0 s" using assms(1) by (simp add: loopAlone_def loopNext_def)
  then have s: "\<not> dl_cancelled ?s" "dl_triggerCh ?s = dl_triggerCh s"
      "if dl_triggerSeq s \<noteq> q then dl_pc ?s = PassTop [] else dl_pc ?s = Waiting \<and> \<not> dl_reconcileRunning ?s"
    using assms(2) by (auto simp: finishPass_def leavePass_def Let_def)
  have w: "willServe ?s" using assms(1,4) s(2,3) by (auto simp: willServe_def split: if_splits)
  have v: "validRequests ?s" using assms(3) s(2,3) by (auto simp: validRequests_def split: if_splits)
  have "servedWithin 6 ?s"
    using served_PassTop [of ?s "[]"] served_mono [of 4 ?s 6] served_Waiting [of ?s] s w v
    by (auto split: if_splits)
  then show ?thesis using served_step [of 6 s] by simp
qed

theorem served_soon:
  assumes c: "\<not> dl_cancelled s" and run: "dl_reconcileRunning s \<longleftrightarrow> runningPc (dl_pc s)"
    and stop: "dl_pc s = Stopped \<longrightarrow> dl_cancelled s"
    and w: "willServe s \<or> (\<exists>r q. dl_pc s = Reconciling r q \<and> dl_triggerSeq s \<noteq> q \<and> covers [])"
    and v: "validRequests s"
  shows "servedWithin 8 s"
proof (cases "dl_pc s")
  case (Ready r q)
  let ?s = "loopAlone groups s"
  have s: "dl_pc ?s = Reconciling r q" "\<not> dl_cancelled ?s" "dl_triggerCh ?s = dl_triggerCh s"
    using Ready c by (simp_all add: loopAlone_simps)
  show ?thesis
  proof (cases "covers r")
    case True
    then show ?thesis using served_mono [OF served_Ready [OF Ready c]] by simp
  next
    case False
    then have "willServe ?s" "validRequests ?s" using w v s Ready by (auto simp: willServe_def validRequests_def)
    then show ?thesis using served_step [of 7 s] served_Reconciling [OF s(1,2)] by simp
  qed
next
  case (Entering r)
  then show ?thesis using served_mono [OF served_Entering [OF Entering c], of 8] run w v by (simp add: runningPc_def)
next
  case (PassTop r)
  then show ?thesis using served_mono [OF served_PassTop [OF PassTop c], of 8] w v by simp
next
  case (Drained r)
  then show ?thesis using served_mono [OF served_Drained [OF Drained c], of 8] w v by simp
next
  case (Started r q)
  then show ?thesis using served_mono [OF served_Started [OF Started c], of 8] w v by simp
next
  case (Reconciling r q)
  then show ?thesis using served_mono [OF served_Reconciling [OF Reconciling c v], of 8] w by simp
next
  case Waiting
  then show ?thesis using served_mono [OF served_Waiting [OF Waiting c], of 8] run w v by (simp add: runningPc_def)
qed (use stop c in simp)

end

interpretation queued: pass_progress groups "\<lambda>r. r \<noteq> [] \<and> g \<in> selectedIDs groups r" "\<lambda>x. True" "\<lambda>s. g \<in> dl_queued s"
  for groups :: "runnerGroup list" and g :: string
proof
  fix r p
  assume "r \<noteq> [] \<and> g \<in> selectedIDs groups r"
  then show "mergeRequestedGroups r p \<noteq> [] \<and> g \<in> selectedIDs groups (mergeRequestedGroups r p)"
    using selectedIDs_mono [of r "mergeRequestedGroups r p" groups] by (auto simp: set_merge)
next
  fix x r p
  assume "x \<in> set p" "[x] \<noteq> [] \<and> g \<in> selectedIDs groups [x]"
  then show "mergeRequestedGroups r p \<noteq> [] \<and> g \<in> selectedIDs groups (mergeRequestedGroups r p)"
    using selected_member [of x "mergeRequestedGroups r p" groups] by (auto simp: set_merge)
qed (simp add: loopAlone_simps)

lemma queued_served:
  assumes "queuedOk groups s" "\<not> dl_cancelled s" "g \<in> dl_queued s"
  shows "\<exists>k \<le> 8. g \<notin> dl_queued ((loopAlone groups ^^ k) s)"
proof -
  have "queued.willServe g groups s"
    using assms unfolding queuedOk_def willServe_def queued.willServe_def by auto
  moreover have "queued.validRequests s" by (simp add: queued.validRequests_def list_all_iff)
  ultimately have "queued.servedWithin groups g 8 s"
    using assms(1,2) queued.served_soon [where s = s and groups = groups and g = g] by (simp add: queuedOk_def)
  then show ?thesis by (simp add: queued.servedWithin_def)
qed

section \<open>A single group loses no trigger\<close>

definition singleRequest :: "runnerGroup \<Rightarrow> string \<Rightarrow> bool" where
  "singleRequest grp x \<longleftrightarrow> x = [] \<or> x = g_ID grp"

lemma single_covers: "list_all (singleRequest grp) r \<Longrightarrow> selectedIDs [grp] r = {g_ID grp}"
  by (cases r) (auto simp: selectedIDs_def selectedGroups_def singleRequest_def)

interpretation single: pass_progress "[grp]" "list_all (singleRequest grp)" "singleRequest grp"
  "\<lambda>s. g_ID grp \<in> dl_owed s" for grp :: runnerGroup
proof
  fix r p
  assume "list_all (singleRequest grp) r" "list_all (singleRequest grp) p"
  then show "list_all (singleRequest grp) (mergeRequestedGroups r p)" by (auto simp: list_all_iff set_merge)
qed (auto simp: loopAlone_simps single_covers list_all_iff set_merge)

text \<open>The count of all triggers tells the sequence number, and its value at the start of the pass.\<close>

definition seqOk :: "loopState \<Rightarrow> bool" where
  "seqOk s \<longleftrightarrow> dl_triggerSeq s = of_nat (dl_count s) \<and>
     (\<forall>r q. dl_pc s = Started r q \<or> dl_pc s = Ready r q \<or> dl_pc s = Reconciling r q \<longrightarrow>
        (\<exists>c \<le> dl_count s. q = of_nat c))"

definition singleOk :: "runnerGroup \<Rightarrow> loopState \<Rightarrow> bool" where
  "singleOk grp s \<longleftrightarrow>
     seqOk s \<and>
     (dl_reconcileRunning s \<longleftrightarrow> runningPc (dl_pc s)) \<and>
     (dl_pc s = Stopped \<longrightarrow> dl_cancelled s) \<and>
     dl_owed s \<subseteq> {g_ID grp} \<and>
     list_all (singleRequest grp) (dl_senders s) \<and>
     list_all (singleRequest grp) (dl_triggerCh s) \<and>
     (\<forall>r. upcoming (dl_pc s) = Some r \<longrightarrow> list_all (singleRequest grp) r) \<and>
     (\<not> dl_cancelled s \<and> dl_owed s \<noteq> {} \<longrightarrow>
        dl_senders s \<noteq> [] \<or> dl_triggerCh s \<noteq> [] \<or> upcoming (dl_pc s) \<noteq> None \<or>
        (\<exists>r c. dl_pc s = Reconciling r (of_nat c) \<and> c < dl_count s))"

lemma seqOk_new: "seqOk newLoop" by (simp add: seqOk_def newLoop_def)

lemma seqOk_step: "seqOk s \<Longrightarrow> loopStep groups s s' \<Longrightarrow> seqOk s'"
  by (erule loopStep_cases)
     (auto simp: seqOk_def loop_defs le_Suc_eq split: loopPc.splits list.splits option.splits)

lemma singleOk_new: "singleOk grp newLoop"
  using seqOk_new by (simp add: singleOk_def newLoop_def runningPc_def)

lemma count_mono: "loopStep groups s s' \<Longrightarrow> dl_count s \<le> dl_count s'"
  by (erule loopStep_cases) (auto simp: loop_defs split: loopPc.splits list.splits option.splits)

lemma seq_counts: "c < n \<Longrightarrow> n < 2 ^ 64 \<Longrightarrow> (of_nat c :: 64 word) \<noteq> of_nat n"
  by (auto simp: word_of_nat_eq_iff take_bit_nat_eq_self)

lemma single_trigger:
  assumes ok: "singleOk grp s" and g: "singleRequest grp g"
  shows "singleOk grp (triggerBegin [grp] g s)"
proof -
  have seq: "seqOk (triggerBegin [grp] g s)"
    using ok g loopStep.trigger [of g "[grp]" s] seqOk_step by (auto simp: singleOk_def singleRequest_def)
  have "\<exists>r c. dl_pc s = Reconciling r (of_nat c) \<and> c < Suc (dl_count s)"
    if run: "dl_reconcileRunning s" and up: "upcoming (dl_pc s) = None"
  proof -
    have "runningPc (dl_pc s)" using ok run by (simp add: singleOk_def)
    then obtain r q where pc: "dl_pc s = Reconciling r q" using up by (cases "dl_pc s") (auto simp: runningPc_def)
    moreover have "seqOk s" using ok by (simp add: singleOk_def)
    ultimately obtain c where "c \<le> dl_count s" "q = of_nat c" unfolding seqOk_def by blast
    then show ?thesis using pc by auto
  qed
  moreover have "selectedIDs [grp] [g] = {g_ID grp}" using g single_covers [of grp "[g]"] by simp
  ultimately show ?thesis using ok g seq unfolding singleOk_def
    by (auto simp: triggerBegin_def runningPc_def split: loopPc.splits)
qed

lemma single_send:
  assumes ok: "singleOk grp s" and g: "g \<in> set (dl_senders s)"
  shows "singleOk grp (triggerSend [grp] g s)"
proof -
  have "singleRequest grp g" using ok g by (auto simp: singleOk_def list_all_iff)
  moreover have "list_all (singleRequest grp) (remove1 g (dl_senders s))"
    using ok by (auto simp: singleOk_def list_all_iff dest: set_remove1_subset [THEN subsetD])
  moreover have "seqOk (triggerSend [grp] g s)"
    using ok loopStep.send [OF g] seqOk_step by (auto simp: singleOk_def)
  ultimately show ?thesis using ok unfolding singleOk_def
    by (cases "dl_triggerCh s") (auto simp: triggerSend_def triggerCapacity_def Let_def)
qed

lemma single_loop:
  assumes ok: "singleOk grp s" and n: "dl_count s < 2 ^ 64"
  shows "singleOk grp (loopNext [grp] tick err now s)"
proof -
  have seq: "seqOk (loopNext [grp] tick err now s)"
    using ok loopStep.loop [of "[grp]" s tick err now] seqOk_step by (auto simp: singleOk_def)
  have merge: "list_all (singleRequest grp) (mergeRequestedGroups r (dl_triggerCh s))"
    if "upcoming (dl_pc s) = Some r" for r
    using ok that by (auto simp: singleOk_def list_all_iff set_merge)
  show ?thesis
  proof (cases "dl_pc s")
    case Waiting
    then show ?thesis using ok seq unfolding singleOk_def
      by (auto simp: loopNext_def runningPc_def split: list.splits)
  next
    case (Ready r q)
    then have "selectedIDs [grp] r = {g_ID grp}" using ok single_covers by (auto simp: singleOk_def)
    moreover have "dl_owed s \<subseteq> {g_ID grp}" using ok by (simp add: singleOk_def)
    ultimately show ?thesis using ok seq Ready unfolding singleOk_def
      by (auto simp: loopNext_def runningPc_def leavePass_def)
  next
    case (Reconciling r q)
    have "dl_triggerSeq s \<noteq> q"
      if pend: "\<not> dl_cancelled s" "dl_owed s \<noteq> {}" "dl_senders s = []" "dl_triggerCh s = []"
    proof -
      obtain c where "q = of_nat c" "c < dl_count s" using ok pend Reconciling by (auto simp: singleOk_def)
      moreover have "dl_triggerSeq s = of_nat (dl_count s)" using ok by (simp add: singleOk_def seqOk_def)
      ultimately show ?thesis using seq_counts [of c "dl_count s"] n by auto
    qed
    then show ?thesis using ok seq Reconciling unfolding singleOk_def
      by (auto simp: loopNext_def finishPass_def runningPc_def leavePass_def Let_def)
  qed (use ok seq merge in \<open>auto simp: singleOk_def loopNext_def runningPc_def drainTriggerSignals_def leavePass_def\<close>)
qed

lemma singleOk_reach:
  assumes "(loopStep [grp])\<^sup>*\<^sup>* newLoop s" "dl_count s < 2 ^ 64" shows "singleOk grp s"
  using assms
proof (induction rule: rtranclp_induct)
  case base
  show ?case by (rule singleOk_new)
next
  case (step s s')
  have n: "dl_count s < 2 ^ 64" using count_mono [OF step.hyps(2)] step.prems by simp
  then have ok: "singleOk grp s" by (rule step.IH)
  show ?case using step.hyps(2)
  proof cases
    case (trigger g)
    then show ?thesis using single_trigger [OF ok, of g] by (auto simp: singleRequest_def)
  next
    case (send g)
    then show ?thesis using single_send [OF ok] by simp
  next
    case loop
    then show ?thesis using single_loop [OF ok n] by simp
  next
    case cancel
    then show ?thesis using ok by (auto simp: singleOk_def seqOk_def)
  qed
qed

section \<open>Histories\<close>

lemma loopAlone_reach: "(loopStep groups)\<^sup>*\<^sup>* s ((loopAlone groups ^^ k) s)"
proof (induction k)
  case (Suc k)
  then show ?case unfolding loopAlone_def by (simp add: loopStep.loop rtranclp.rtrancl_into_rtrancl)
qed simp

lemma trigger_reach:
  "groupID = [] \<or> groupID \<in> g_ID ` set groups \<Longrightarrow> (loopStep groups)\<^sup>*\<^sup>* s (triggerBegin groups groupID s)"
  by (simp add: loopStep.trigger r_into_rtranclp)

lemma send_reach:
  "groupID \<in> set (dl_senders s) \<Longrightarrow> (loopStep groups)\<^sup>*\<^sup>* s (triggerSend groups groupID s)"
  by (simp add: loopStep.send r_into_rtranclp)

definition sampleGroup :: "string \<Rightarrow> runnerGroup" where
  "sampleGroup i =
     \<lparr>g_ID = i, g_Target = ''acme'', g_RepoScoped = False, g_Prefix = i, g_MatchLabels = [], g_BaselineName = []\<rparr>"

text \<open>After its first pass the loop waits; a trigger for \<open>g\<close> is sent.\<close>

definition idleLoop :: "runnerGroup list \<Rightarrow> loopState" where
  "idleLoop groups = (loopAlone groups ^^ 6) newLoop"

definition triggeredLoop :: "runnerGroup list \<Rightarrow> string \<Rightarrow> loopState" where
  "triggeredLoop groups g = triggerSend groups g (triggerBegin groups g (idleLoop groups))"

lemma idle_state:
  "dl_pc (idleLoop groups) = Waiting \<and> \<not> dl_reconcileRunning (idleLoop groups) \<and> dl_triggerCh (idleLoop groups) = []
   \<and> dl_senders (idleLoop groups) = [] \<and> \<not> dl_cancelled (idleLoop groups) \<and> dl_count (idleLoop groups) = 0
   \<and> dl_triggerSeq (idleLoop groups) = 0 \<and> dl_owed (idleLoop groups) = {} \<and> dl_queued (idleLoop groups) = {}"
  by (simp add: idleLoop_def newLoop_def loopAlone_def loopNext_def drainTriggerSignals_def mergeRequestedGroups_def
      finishPass_def leavePass_def recordPass_def Let_def eval_nat_numeral)

lemma idle_reached: "(loopStep groups)\<^sup>*\<^sup>* newLoop (idleLoop groups)"
  unfolding idleLoop_def by (rule loopAlone_reach)

lemma triggered_reached:
  assumes "g = [] \<or> g \<in> g_ID ` set groups"
  shows "(loopStep groups)\<^sup>*\<^sup>* newLoop (triggeredLoop groups g)"
proof -
  have "(loopStep groups)\<^sup>*\<^sup>* newLoop (triggerBegin groups g (idleLoop groups))"
    using idle_reached trigger_reach [OF assms] by (rule rtranclp_trans)
  moreover have "g \<in> set (dl_senders (triggerBegin groups g (idleLoop groups)))"
    using idle_state [of groups] by (simp add: triggerBegin_def)
  ultimately show ?thesis unfolding triggeredLoop_def using send_reach rtranclp_trans by metis
qed

section \<open>Properties of the loop\<close>

text \<open>C12. A trigger that reached the channel is followed by a pass over its group: in every reachable
  state of a daemon that is not shut down, at most eight steps of the loop alone lead to the start of a pass
  over a group that is owed one, however many groups there are and whatever other triggers came.\<close>

theorem queued_trigger_served:
  assumes "(loopStep groups)\<^sup>*\<^sup>* newLoop s" "\<not> dl_cancelled s" "g \<in> dl_queued s"
  shows "\<exists>k \<le> 8. g \<notin> dl_queued ((loopNext groups False None 0 ^^ k) s)"
  using queued_served [OF queuedOk_reach [OF assms(1)] assms(2,3)] unfolding loopAlone_def .

theorem queued_trigger_served_witness:
  "\<exists>k \<le> 8. ''a'' \<notin> dl_queued ((loopNext [sampleGroup ''a'', sampleGroup ''b''] False None 0 ^^ k)
     (triggeredLoop [sampleGroup ''a'', sampleGroup ''b''] ''a''))"
proof (rule queued_trigger_served)
  let ?gs = "[sampleGroup ''a'', sampleGroup ''b'']"
  show "(loopStep ?gs)\<^sup>*\<^sup>* newLoop (triggeredLoop ?gs ''a'')"
    by (rule triggered_reached) (simp add: sampleGroup_def)
  show "\<not> dl_cancelled (triggeredLoop ?gs ''a'')" "''a'' \<in> dl_queued (triggeredLoop ?gs ''a'')"
    using idle_state [of ?gs]
    by (simp_all add: triggeredLoop_def triggerSend_def triggerBegin_def Let_def triggerCapacity_def
        selectedIDs_def selectedGroups_def sampleGroup_def)
qed

text \<open>C13. A daemon with one runner group loses no trigger: in every reachable state that no shutdown
  and fewer than \<open>2 ^ 64\<close> triggers precede and in which no trigger is about to be sent, a group that is owed
  a pass by any trigger, sent, dropped or made while a pass ran, gets one within eight steps of
  the loop alone.\<close>

theorem single_group_loses_no_trigger:
  assumes "(loopStep [grp])\<^sup>*\<^sup>* newLoop s" "\<not> dl_cancelled s" "dl_count s < 2 ^ 64"
    and "g_ID grp \<in> dl_owed s" "dl_senders s = []"
  shows "\<exists>k \<le> 8. g_ID grp \<notin> dl_owed ((loopNext [grp] False None 0 ^^ k) s)"
proof -
  have ok: "singleOk grp s" by (rule singleOk_reach) (use assms in auto)
  then have seq: "dl_triggerSeq s = of_nat (dl_count s)" by (simp add: singleOk_def seqOk_def)
  have valid: "single.validRequests grp s" using ok by (simp add: singleOk_def single.validRequests_def)
  have "dl_triggerCh s \<noteq> [] \<or> upcoming (dl_pc s) \<noteq> None \<or> (\<exists>r c. dl_pc s = Reconciling r (of_nat c) \<and> c < dl_count s)"
    using ok assms unfolding singleOk_def by blast
  then have "single.willServe grp s \<or> (\<exists>r q. dl_pc s = Reconciling r q \<and> dl_triggerSeq s \<noteq> q \<and> list_all (singleRequest grp) [])"
  proof (elim disjE exE conjE)
    assume "dl_triggerCh s \<noteq> []"
    then show ?thesis using valid
      by (cases "dl_triggerCh s") (auto simp: single.willServe_def single.validRequests_def)
  next
    assume "upcoming (dl_pc s) \<noteq> None"
    then show ?thesis using valid by (auto simp: single.willServe_def single.validRequests_def)
  next
    fix r c
    assume "dl_pc s = Reconciling r (of_nat c)" "c < dl_count s"
    then show ?thesis using seq seq_counts [of c "dl_count s"] assms(3) by auto
  qed
  then have "single.servedWithin grp 8 s"
    using single.served_soon [OF assms(2) _ _ _ valid] ok by (simp add: singleOk_def)
  then show ?thesis by (simp add: single.servedWithin_def loopAlone_def)
qed

theorem single_group_loses_no_trigger_witness:
  "\<exists>k \<le> 8. ''a'' \<notin> dl_owed ((loopNext [sampleGroup ''a''] False None 0 ^^ k) (triggeredLoop [sampleGroup ''a''] ''a''))"
proof -
  let ?gs = "[sampleGroup ''a'']"
  have "(loopStep ?gs)\<^sup>*\<^sup>* newLoop (triggeredLoop ?gs ''a'')"
    by (rule triggered_reached) (simp add: sampleGroup_def)
  moreover have "\<not> dl_cancelled (triggeredLoop ?gs ''a'')" "dl_count (triggeredLoop ?gs ''a'') < 2 ^ 64"
      "g_ID (sampleGroup ''a'') \<in> dl_owed (triggeredLoop ?gs ''a'')" "dl_senders (triggeredLoop ?gs ''a'') = []"
    using idle_state [of ?gs]
    by (simp_all add: triggeredLoop_def triggerSend_def triggerBegin_def Let_def triggerCapacity_def
        selectedIDs_def selectedGroups_def sampleGroup_def)
  moreover have "g_ID (sampleGroup ''a'') = ''a''" by (simp add: sampleGroup_def)
  ultimately show ?thesis using single_group_loses_no_trigger [of "sampleGroup ''a''"] by metis
qed

section \<open>Triggers that are lost\<close>

text \<open>What the loop makes of a received trigger, and of a run that nothing else joins.\<close>

lemma receive_trigger:
  assumes "dl_pc s = Waiting" "\<not> dl_cancelled s" "\<not> dl_reconcileRunning s" "dl_triggerCh s = [x]"
  shows "(loopAlone groups ^^ 2) s = s\<lparr>dl_reconcileRunning := True, dl_triggerCh := [], dl_pc := PassTop [x]\<rparr>"
  using assms by (simp add: eval_nat_numeral loopAlone_simps)

lemma undisturbed_run:
  assumes "dl_pc s = PassTop r" "\<not> dl_cancelled s" "mergeRequestedGroups r (dl_triggerCh s) = r'"
  shows "(loopAlone groups ^^ 4) s =
    s\<lparr>dl_triggerCh := [], dl_pc := Reconciling r' (dl_triggerSeq s),
      dl_stats := (dl_stats s)\<lparr>ls_lastReconcileStartedAt := 0\<rparr>,
      dl_owed := dl_owed s - selectedIDs groups r', dl_queued := dl_queued s - selectedIDs groups r'\<rparr>"
  using assms by (simp add: eval_nat_numeral loopAlone_simps) (simp add: mergeRequestedGroups_def)

lemma undisturbed_end:
  assumes "dl_pc s = Reconciling r (dl_triggerSeq s)"
  shows "loopAlone groups s = leavePass (s\<lparr>dl_stats := recordPass None 0 (dl_stats s)\<rparr>)"
  using assms by (simp add: loopAlone_def loopNext_def finishPass_def Let_def)

lemma triggered_state:
  "dl_pc (triggeredLoop groups g) = Waiting \<and> \<not> dl_reconcileRunning (triggeredLoop groups g)
   \<and> \<not> dl_cancelled (triggeredLoop groups g) \<and> dl_triggerCh (triggeredLoop groups g) = [g]
   \<and> dl_senders (triggeredLoop groups g) = [] \<and> dl_triggerSeq (triggeredLoop groups g) = 1"
  using idle_state [of groups]
  by (simp add: triggeredLoop_def triggerSend_def triggerBegin_def triggerCapacity_def Let_def)

text \<open>With two groups: a trigger for \<open>b\<close> after the run for \<open>a\<close> has begun and before the sequence
  number is read.  The caller sees a run in progress and does not send, and the run does not see a
  new number at its end: the loop waits again, with nothing in the channel, and \<open>b\<close> is owed a pass.\<close>

definition lostTrigger :: loopState where
  "lostTrigger =
     (let gs = [sampleGroup ''a'', sampleGroup ''b''] in
      loopAlone gs ((loopAlone gs ^^ 4) (triggerBegin gs ''b'' ((loopAlone gs ^^ 2) (triggeredLoop gs ''a'')))))"

lemma two_groups_lose_trigger:
  "(loopStep [sampleGroup ''a'', sampleGroup ''b''])\<^sup>*\<^sup>* newLoop lostTrigger \<and>
   dl_pc lostTrigger = Waiting \<and> dl_triggerCh lostTrigger = [] \<and> dl_senders lostTrigger = [] \<and>
   \<not> dl_cancelled lostTrigger \<and> ''b'' \<in> dl_owed lostTrigger"
proof -
  let ?gs = "[sampleGroup ''a'', sampleGroup ''b'']"
  let ?u = "triggerBegin ?gs ''b'' ((loopAlone ?gs ^^ 2) (triggeredLoop ?gs ''a''))"
  have alone: "(loopStep ?gs)\<^sup>*\<^sup>* s (loopAlone ?gs s)" for s using loopAlone_reach [of ?gs s 1] by simp
  have "(loopStep ?gs)\<^sup>*\<^sup>* newLoop ((loopAlone ?gs ^^ 2) (triggeredLoop ?gs ''a''))"
    by (rule rtranclp_trans [OF triggered_reached loopAlone_reach]) (simp add: sampleGroup_def)
  moreover have "(loopStep ?gs)\<^sup>*\<^sup>* s (triggerBegin ?gs ''b'' s)" for s
    by (rule trigger_reach) (simp add: sampleGroup_def)
  ultimately have "(loopStep ?gs)\<^sup>*\<^sup>* newLoop ((loopAlone ?gs ^^ 4) ?u)" by (meson loopAlone_reach rtranclp_trans)
  then have reach: "(loopStep ?gs)\<^sup>*\<^sup>* newLoop lostTrigger"
    unfolding lostTrigger_def Let_def by (rule rtranclp_trans [OF _ alone])
  have u: "dl_pc ?u = PassTop [''a'']" "\<not> dl_cancelled ?u" "dl_triggerCh ?u = []" "dl_senders ?u = []"
      "''b'' \<in> dl_owed ?u"
    using triggered_state [of ?gs "''a''"]
    by (simp_all add: receive_trigger triggerBegin_def selectedIDs_def selectedGroups_def sampleGroup_def)
  have sel: "''b'' \<notin> selectedIDs ?gs [''a'']"
    by (simp add: selectedIDs_def selectedGroups_def sampleGroup_def)
  have "mergeRequestedGroups [''a''] (dl_triggerCh ?u) = [''a'']" using u(3) by (simp add: mergeRequestedGroups_def)
  note run = undisturbed_run [OF u(1,2) this, of ?gs]
  have lost: "lostTrigger = leavePass (((loopAlone ?gs ^^ 4) ?u)\<lparr>dl_stats := recordPass None 0 (dl_stats ((loopAlone ?gs ^^ 4) ?u))\<rparr>)"
    unfolding lostTrigger_def Let_def
    by (intro undisturbed_end) (simp add: run)
  have "dl_pc lostTrigger = Waiting \<and> dl_triggerCh lostTrigger = [] \<and> dl_senders lostTrigger = [] \<and>
      \<not> dl_cancelled lostTrigger \<and> ''b'' \<in> dl_owed lostTrigger"
    unfolding lost run leavePass_def using u(2-5) sel by simp
  then show ?thesis using reach by simp
qed

text \<open>A tick of the poll timer asks for all groups.  A trigger for \<open>a\<close> that arrives before the run
  begins is drained into the request, which then asks for \<open>a\<close> only.\<close>

lemma full_pass_narrows:
  assumes "dl_pc s = PassTop []" "\<not> dl_cancelled s" "dl_triggerCh s = [''a'']"
  shows "dl_pc ((loopAlone groups ^^ 4) s) = Reconciling [''a''] (dl_triggerSeq s)"
  using undisturbed_run [OF assms(1,2), of "[''a'']"] assms(3) by (simp add: mergeRequestedGroups_def)

end
