(* ===== verification/Daemon_Passes.thy ===== *)
theory Daemon_Passes
  imports Daemon_Loop Reconciler_Claims Demand_Tracker
begin

text \<open>
  What a pass of the daemon does (\<open>reconcileTargets\<close> of \<open>src/internal/daemon/daemon.go\<close>): one
  reconcile of every selected group, with the demand the tracker holds for the group, and the
  audit that replaces this demand by the queued jobs the CI platform reports
  (\<open>auditQueuedJobs\<close>).  The components meet here: the loop selects the groups, the tracker gives
  their demand, the reconciler acts on it.

  The theorems show that a group whose reconcile fails keeps no other group from its turn and that
  every group clones at most for its own waiting jobs, and that an audit leaves as the demand of
  a group the jobs of the audit that belong to it.
\<close>

section \<open>Passes over the selected groups\<close>

text \<open>A group with its reconciler (nil when the group has none).  Every reconciler has its own
  services, so each pass has a trace of its own.  \<open>demand\<close> is the tracker, if any; each group reads
  its snapshot when its turn comes, at the readings \<open>dg_Clock\<close> of the clock.\<close>

record daemonGroup =
  dg_Group :: runnerGroup
  dg_Reconciler :: "reconciler option"
  dg_Env :: env
  dg_Clock :: clock

abbreviation dg_ID :: "daemonGroup \<Rightarrow> string" where "dg_ID grp \<equiv> g_ID (dg_Group grp)"

definition groupPass :: "tracker option \<Rightarrow> daemonGroup \<Rightarrow> reconciler \<Rightarrow> (gerror option \<times> trace) \<times> tracker option" where
  "groupPass demand grp r =
     (case demand of
        None \<Rightarrow> (run_state (Reconcile (dg_Env grp) r) [], None)
      | Some t \<Rightarrow> (let (d, t') = Snapshot (dg_Clock grp) t (dg_ID grp)
                   in (run_state (ReconcileDemand (dg_Env grp) r d) [], Some t')))"

text \<open>\<open>errs\<close> of the loop are the errors of the passes, in order; the passes are kept with their
  results and traces.\<close>

fun reconcileEach ::
  "daemonGroup list \<Rightarrow> tracker option \<Rightarrow> (string \<times> gerror option \<times> trace) list \<times> tracker option" where
  "reconcileEach [] demand = ([], demand)"
| "reconcileEach (grp # targets) demand =
     (case dg_Reconciler grp of
        None \<Rightarrow> reconcileEach targets demand
      | Some r \<Rightarrow>
          (let (res, demand') = groupPass demand grp r;
               (passes, demand'') = reconcileEach targets demand'
           in ((dg_ID grp, res) # passes, demand'')))"

fun passErrors :: "(string \<times> gerror option \<times> trace) list \<Rightarrow> gerror list" where
  "passErrors [] = []"
| "passErrors ((groupID, None, tr) # passes) = passErrors passes"
| "passErrors ((groupID, Some e, tr) # passes) = (groupID @ '': '' @ e) # passErrors passes"

definition selectedTargets :: "daemonGroup list \<Rightarrow> string list \<Rightarrow> daemonGroup list" where
  "selectedTargets groups requested =
     (if requested = [] \<or> [] \<in> set requested then groups
      else filter (\<lambda>g. dg_ID g \<in> set requested) groups)"

definition reconcileTargets ::
  "daemonGroup list \<Rightarrow> tracker option \<Rightarrow> string list
   \<Rightarrow> gerror option \<times> (string \<times> gerror option \<times> trace) list \<times> tracker option" where
  "reconcileTargets groups demand requested =
     (let (passes, demand') = reconcileEach (selectedTargets groups requested) demand;
          errs = passErrors passes
      in (if errs = [] then None else Some (join_errors errs), passes, demand'))"

lemma selectedTargets_groups:
  "map dg_Group (selectedTargets groups requested) = selectedGroups (map dg_Group groups) requested"
  by (simp add: selectedTargets_def selectedGroups_def filter_map o_def)

lemma passErrors_Nil: "passErrors passes = [] \<longleftrightarrow> (\<forall>(groupID, e, tr) \<in> set passes. e = None)"
  by (induction passes rule: passErrors.induct) auto

text \<open>A pass of \<open>grp\<close> that ran on the demand \<open>live\<close> holds for the group.\<close>

definition passFor :: "(gotime \<Rightarrow> string \<Rightarrow> int set) \<Rightarrow> daemonGroup \<Rightarrow> string \<times> gerror option \<times> trace \<Rightarrow> bool" where
  "passFor live grp outcome \<longleftrightarrow>
     (\<exists>r d. dg_Reconciler grp = Some r \<and> fst outcome = dg_ID grp \<and>
        d_QueuedJobs d = int (card (live (dg_Clock grp 0) (dg_ID grp))) \<and>
        snd outcome = run_state (ReconcileDemand (dg_Env grp) r d) [])"

lemma snapshot_tracker:
  "snd (Snapshot clk t g) = pruneLocked (clk 0) t"
  by (simp add: Snapshot_def Let_def)

lemma passFor_cong:
  "passFor live grp outcome \<Longrightarrow> live (dg_Clock grp 0) = live' (dg_Clock grp 0) \<Longrightarrow> passFor live' grp outcome"
  by (simp add: passFor_def)

lemma reconcileEach_passes:
  assumes "trackerOk t" "sorted (map (\<lambda>g. dg_Clock g 0) targets)"
  shows "list_all2 (passFor (liveJobs t)) (filter (\<lambda>g. dg_Reconciler g \<noteq> None) targets)
           (fst (reconcileEach targets (Some t)))"
  using assms
proof (induction targets arbitrary: t)
  case (Cons grp targets)
  show ?case
  proof (cases "dg_Reconciler grp")
    case None
    then show ?thesis using Cons by simp
  next
    case (Some r)
    let ?t = "pruneLocked (dg_Clock grp 0) t" and ?rest = "filter (\<lambda>g. dg_Reconciler g \<noteq> None) targets"
    obtain d where d: "Snapshot (dg_Clock grp) t (dg_ID grp) = (d, ?t)"
      using snapshot_tracker [of "dg_Clock grp" t "dg_ID grp"] by (metis prod.collapse)
    have "passFor (liveJobs t) grp (dg_ID grp, run_state (ReconcileDemand (dg_Env grp) r d) [])"
      using snapshot_count [OF Cons.prems(1), of "dg_Clock grp" "dg_ID grp"] Some d
      unfolding passFor_def by (intro exI [of _ r] exI [of _ d]) simp
    moreover have "list_all2 (passFor (liveJobs ?t)) ?rest (fst (reconcileEach targets (Some ?t)))"
      using Cons.IH [of ?t] Cons.prems by simp
    then have "list_all2 (passFor (liveJobs t)) ?rest (fst (reconcileEach targets (Some ?t)))"
    proof (rule list.rel_mono_strong)
      fix g outcome assume "g \<in> set ?rest" "passFor (liveJobs ?t) g outcome"
      moreover from this have "dg_Clock grp 0 \<le> dg_Clock g 0" using Cons.prems(2) by auto
      ultimately show "passFor (liveJobs t) g outcome"
        using live_prune_fun [OF Cons.prems(1)] by (auto intro: passFor_cong)
    qed
    ultimately show ?thesis using Some d
      by (simp add: groupPass_def split_def Let_def)
  qed
qed simp

section \<open>The audit of queued jobs\<close>

text \<open>\<open>au_Audit g\<close>: what \<open>ListQueuedJobs\<close> of the CI provider of the group \<open>g\<close> answers, \<open>None\<close>
  if the provider is no auditor; \<open>au_Clock\<close> and \<open>au_Fault\<close>: the clock and the disk of the
  replacement for the group.\<close>

record auditEnv =
  au_Audit :: "string \<Rightarrow> queuedJob list result option"
  au_Clock :: "string \<Rightarrow> clock"
  au_Fault :: "string \<Rightarrow> nat \<Rightarrow> gerror option"

record auditState =
  as_demand :: "tracker \<times> demandFile"
  as_triggers :: "string list"
  as_log :: "(logLevel \<times> string \<times> logAttrs) list"

definition matchedJobs :: "runnerGroup \<Rightarrow> queuedJob list \<Rightarrow> queuedJob list" where
  "matchedJobs grp jobs =
     filter (\<lambda>job. groupMatchesRepo grp (q_Repo job) \<and> labelsMatch (q_Labels job) (g_MatchLabels grp)) jobs"

definition auditLog :: "logLevel \<Rightarrow> string \<Rightarrow> string \<Rightarrow> gerror \<Rightarrow> auditState \<Rightarrow> auditState" where
  "auditLog lvl msg groupID err s =
     s\<lparr>as_log := as_log s @ [(lvl, msg, [(''runner_group'', LStr groupID), (''error'', LStr err)])]\<rparr>"

definition auditGroup :: "auditEnv \<Rightarrow> auditState \<Rightarrow> runnerGroup \<Rightarrow> auditState" where
  "auditGroup A s grp =
     (case au_Audit A (g_ID grp) of
        None \<Rightarrow> s
      | Some (Inl err) \<Rightarrow> auditLog LevelWarn ''queued job audit failed'' (g_ID grp) err s
      | Some (Inr jobs) \<Rightarrow>
          (let matched = matchedJobs grp jobs;
               (err, t, file) = ReplaceJobs (au_Clock A (g_ID grp)) (au_Fault A (g_ID grp))
                 (fst (as_demand s)) (snd (as_demand s)) (g_ID grp) matched;
               s1 = s\<lparr>as_demand := (t, file)\<rparr>;
               s2 = (case err of None \<Rightarrow> s1
                     | Some e \<Rightarrow> auditLog LevelError ''failed to persist queued job audit'' (g_ID grp) e s1)
           in if matched \<noteq> [] then s2\<lparr>as_triggers := as_triggers s2 @ [g_ID grp]\<rparr> else s2))"

definition auditQueuedJobs :: "auditEnv \<Rightarrow> runnerGroup list \<Rightarrow> auditState \<Rightarrow> auditState" where
  "auditQueuedJobs A groups s = foldl (auditGroup A) s groups"

text \<open>The replacements an audit makes, and what they leave waiting.\<close>

fun auditOps :: "auditEnv \<Rightarrow> runnerGroup list \<Rightarrow> demandOp list" where
  "auditOps A [] = []"
| "auditOps A (grp # groups) =
     (case au_Audit A (g_ID grp) of
        Some (Inr jobs) \<Rightarrow>
          OpReplace (au_Clock A (g_ID grp)) (au_Fault A (g_ID grp)) (g_ID grp) (matchedJobs grp jobs) # auditOps A groups
      | _ \<Rightarrow> auditOps A groups)"

definition auditedJobs :: "auditEnv \<Rightarrow> runnerGroup \<Rightarrow> queuedJob list option" where
  "auditedJobs A grp =
     (case au_Audit A (g_ID grp) of Some (Inr jobs) \<Rightarrow> Some (matchedJobs grp jobs) | _ \<Rightarrow> None)"

lemma auditLog_demand [simp]:
  "as_demand (auditLog lvl msg g err s) = as_demand s" "as_triggers (auditLog lvl msg g err s) = as_triggers s"
  by (simp_all add: auditLog_def)

lemma audit_demand: "as_demand (auditQueuedJobs A groups s) = foldl trackerStep (as_demand s) (auditOps A groups)"
  unfolding auditQueuedJobs_def
proof (induction groups arbitrary: s)
  case (Cons grp groups)
  then show ?case
    by (auto simp: auditGroup_def Let_def split_def split: option.splits sum.splits) (metis trackerStep.simps prod.collapse applyOp.simps(3) snd_conv)+
qed simp

lemma audit_triggers:
  "as_triggers (auditQueuedJobs A groups s) =
     as_triggers s @ map g_ID (filter (\<lambda>g. \<exists>js. auditedJobs A g = Some js \<and> js \<noteq> []) groups)"
  unfolding auditQueuedJobs_def
proof (induction groups arbitrary: s)
  case (Cons grp groups)
  then show ?case
    by (auto simp: auditGroup_def auditedJobs_def Let_def split_def split: option.splits sum.splits)
qed simp

lemma auditOps_other: "g \<notin> g_ID ` set groups \<Longrightarrow> foldl (outstandingStep ttl T) W (auditOps A groups) g = W g"
  by (induction groups arbitrary: W) (auto split: option.splits sum.splits)

lemma auditOps_past: "\<forall>g \<in> set groups. au_Clock A (g_ID g) 0 \<le> T \<Longrightarrow> list_all (pastOp T) (auditOps A groups)"
  by (induction groups) (auto simp: pastOp_def split: option.splits sum.splits)

lemma auditOps_outstanding:
  assumes "distinct (map g_ID groups)" "grp \<in> set groups" "g_ID grp \<noteq> []"
  shows "foldl (outstandingStep ttl T) W (auditOps A groups) (g_ID grp) =
    (case auditedJobs A grp of Some js \<Rightarrow> aliveIn ttl T (stampJobs (au_Clock A (g_ID grp)) 1 js) | None \<Rightarrow> W (g_ID grp))"
  using assms
proof (induction groups arbitrary: W)
  case (Cons g groups)
  show ?case
  proof (cases "g = grp")
    case True
    then have "g_ID grp \<notin> g_ID ` set groups" using Cons.prems(1) by simp
    then show ?thesis using True Cons.prems(3)
      by (auto simp: auditedJobs_def auditOps_other split: option.splits sum.splits)
  next
    case False
    then have "grp \<in> set groups" "g_ID g \<noteq> g_ID grp" using Cons.prems(1,2) by auto
    then show ?thesis using Cons by (auto split: option.splits sum.splits)
  qed
qed simp

section \<open>Properties\<close>

text \<open>C11. One call of the loop gives every selected group that has a reconciler its turn, in order
  and whatever happens to the groups before it; it reports success exactly if all of them
  succeeded; and in its turn a group clones at most as many containers as the jobs that wait for this group at
  this time exceed its idle online runners.\<close>

theorem every_group_gets_its_turn:
  assumes "trackerOk t" "sorted (map (\<lambda>g. dg_Clock g 0) (selectedTargets groups requested))"
    and "reconcileTargets groups (Some t) requested = (err, passes, demand)"
  shows "map fst passes = map dg_ID (filter (\<lambda>g. dg_Reconciler g \<noteq> None) (selectedTargets groups requested)) \<and>
    (err = None \<longleftrightarrow> (\<forall>(groupID, e, es) \<in> set passes. e = None)) \<and>
    list_all2 (\<lambda>grp (groupID, e, es). \<forall>r. dg_Reconciler grp = Some r \<and> baselineApart r \<and> 0 < rc_IdleTimeout (cfg r) \<longrightarrow>
        count (autoCloneOk (rc_Prefix (cfg r))) es
          \<le> max 0 (int (card (liveJobs t (dg_Clock grp 0) groupID)) - runnersAvailable r es))
      (filter (\<lambda>g. dg_Reconciler g \<noteq> None) (selectedTargets groups requested)) passes"
proof (intro conjI)
  let ?targets = "filter (\<lambda>g. dg_Reconciler g \<noteq> None) (selectedTargets groups requested)"
  have passes: "passes = fst (reconcileEach (selectedTargets groups requested) (Some t))"
    and err: "err = (if passErrors passes = [] then None else Some (join_errors (passErrors passes)))"
    using assms(3) by (auto simp: reconcileTargets_def Let_def split_def)
  have each: "list_all2 (passFor (liveJobs t)) ?targets passes"
    unfolding passes by (rule reconcileEach_passes [OF assms(1,2)])
  then show "map fst passes = map dg_ID ?targets"
    by (induction rule: list_all2_induct) (auto simp: passFor_def)
  show "err = None \<longleftrightarrow> (\<forall>(groupID, e, es) \<in> set passes. e = None)"
    using err passErrors_Nil [of passes] by auto
  from each show "list_all2 (\<lambda>grp (groupID, e, es). \<forall>r. dg_Reconciler grp = Some r \<and> baselineApart r \<and> 0 < rc_IdleTimeout (cfg r) \<longrightarrow>
      count (autoCloneOk (rc_Prefix (cfg r))) es
        \<le> max 0 (int (card (liveJobs t (dg_Clock grp 0) groupID)) - runnersAvailable r es)) ?targets passes"
  proof (rule list.rel_mono_strong)
    fix grp outcome
    assume "passFor (liveJobs t) grp outcome"
    then obtain r d e es where o: "dg_Reconciler grp = Some r" "outcome = (dg_ID grp, e, es)"
        "d_QueuedJobs d = int (card (liveJobs t (dg_Clock grp 0) (dg_ID grp)))"
        "run_state (ReconcileDemand (dg_Env grp) r d) [] = (e, es)"
      unfolding passFor_def by (metis prod.collapse)
    have "count (autoCloneOk (rc_Prefix (cfg r))) es \<le> max 0 (d_QueuedJobs d - runnersAvailable r es)"
      if "baselineApart r" "0 < rc_IdleTimeout (cfg r)"
      using pass_safe [OF that o(4)] unfolding safePass_def Let_def by blast
    then show "case outcome of (groupID, e, es) \<Rightarrow>
        \<forall>r. dg_Reconciler grp = Some r \<and> baselineApart r \<and> 0 < rc_IdleTimeout (cfg r) \<longrightarrow>
          count (autoCloneOk (rc_Prefix (cfg r))) es
            \<le> max 0 (int (card (liveJobs t (dg_Clock grp 0) groupID)) - runnersAvailable r es)"
      using o(1,2,3) by simp
  qed
qed

definition sampleDaemonGroup :: "string \<Rightarrow> env \<Rightarrow> daemonGroup" where
  "sampleDaemonGroup i E =
     \<lparr>dg_Group = sampleGroup i, dg_Reconciler = Some sampleReconciler, dg_Env = E, dg_Clock = (\<lambda>k. 20)\<rparr>"

definition sampleTargets :: "daemonGroup list" where
  "sampleTargets =
     [sampleDaemonGroup ''a'' (sampleEnv\<lparr>e_ListRunners := (\<lambda>tr. Inl ''down'')\<rparr>), sampleDaemonGroup ''b'' sampleEnv]"

definition sampleTracker :: tracker where
  "sampleTracker = \<lparr>tk_path = ''p'', tk_ttl = 100, tk_groups = [(''b'', [(1, sampleJob 1 9)])]\<rparr>"

text \<open>The CI platform of the first group is down; the second group clones for its waiting job.\<close>

theorem every_group_gets_its_turn_witness:
  "map (\<lambda>(groupID, e, es). (groupID, e, count (autoCloneOk ''ci'') es))
       (fst (snd (reconcileTargets sampleTargets (Some sampleTracker) []))) =
     [(''a'', Some ''listing runners: down'', 0), (''b'', None, 1)] \<and>
   map fst (fst (snd (reconcileTargets sampleTargets (Some sampleTracker) []))) = [''a'', ''b'']"
proof -
  have "trackerOk sampleTracker" by code_simp
  moreover have "sorted (map (\<lambda>g. dg_Clock g 0) (selectedTargets sampleTargets []))"
    by (simp add: selectedTargets_def sampleTargets_def sampleDaemonGroup_def)
  moreover obtain err passes demand where run: "reconcileTargets sampleTargets (Some sampleTracker) [] = (err, passes, demand)"
    by (metis prod.collapse)
  ultimately have "map fst passes = map dg_ID (filter (\<lambda>g. dg_Reconciler g \<noteq> None) (selectedTargets sampleTargets []))"
    using every_group_gets_its_turn by blast
  then have "map fst passes = [''a'', ''b'']"
    by (simp add: selectedTargets_def sampleTargets_def sampleDaemonGroup_def sampleGroup_def)
  moreover have "map (\<lambda>(groupID, e, es). (groupID, e, count (autoCloneOk ''ci'') es))
       (fst (snd (reconcileTargets sampleTargets (Some sampleTracker) []))) =
     [(''a'', Some ''listing runners: down'', 0), (''b'', None, 1)]" by code_simp
  ultimately show ?thesis using run by simp
qed

text \<open>C14. After an audit, at any later time, the jobs that wait for a group are those of the audit that
  belong to its repository, carry its labels, have an ID and are not older than the demand TTL at
  that time, counted from the time GitHub reports or else from the audit (of two entries with one ID the last); for a
  group whose audit failed, or that has no auditor, they are those of before.  A pass is requested
  exactly for the groups that the audit found jobs for, expired ones included.  Failures of the
  disk change nothing of this.\<close>

theorem audit_replaces_demand:
  assumes "trackerOk (fst (as_demand s))" "distinct (map g_ID groups)"
    and "\<forall>g \<in> set groups. au_Clock A (g_ID g) 0 \<le> T"
    and "grp \<in> set groups" "g_ID grp \<noteq> []"
  shows "liveJobs (fst (as_demand (auditQueuedJobs A groups s))) T (g_ID grp) =
      (case auditedJobs A grp of
         Some js \<Rightarrow> aliveIn (tk_ttl (fst (as_demand s))) T (stampJobs (au_Clock A (g_ID grp)) 1 js)
       | None \<Rightarrow> liveJobs (fst (as_demand s)) T (g_ID grp)) \<and>
    as_triggers (auditQueuedJobs A groups s) =
      as_triggers s @ map g_ID (filter (\<lambda>g. \<exists>js. auditedJobs A g = Some js \<and> js \<noteq> []) groups)"
proof -
  have "trackerOk (fst (as_demand s)) \<and> tk_ttl (fst (as_demand s)) = tk_ttl (fst (as_demand s))"
    using assms(1) by simp
  from tracker.live_history [OF this auditOps_past [OF assms(3)]] show ?thesis
    by (simp add: audit_demand audit_triggers auditOps_outstanding [OF assms(2,4,5)])
qed

definition sampleAudit :: auditEnv where
  "sampleAudit =
     \<lparr>au_Audit = (\<lambda>g. if g = ''a'' then Some (Inr [sampleJob 4 15, (sampleJob 5 15)\<lparr>q_Repo := ''acme/x''\<rparr>,
          (sampleJob 6 2)\<lparr>q_Repo := ''acme/x''\<rparr>])
        else Some (Inl ''rate limit'')),
      au_Clock = (\<lambda>g k. 20), au_Fault = (\<lambda>g k. Some ''disk full'')\<rparr>"

definition beforeAudit :: auditState where
  "beforeAudit = \<lparr>as_demand = (sampleTracker, NoFile), as_triggers = [], as_log = []\<rparr>"

text \<open>Job 4 belongs to another repository, and job 6 has expired at time 105.\<close>

theorem audit_replaces_demand_witness:
  "liveJobs (fst (as_demand (auditQueuedJobs sampleAudit [sampleGroup ''a'', sampleGroup ''b''] beforeAudit))) 105 ''a'' = {5} \<and>
   as_triggers (auditQueuedJobs sampleAudit [sampleGroup ''a'', sampleGroup ''b''] beforeAudit) = [''a'']"
proof -
  let ?gs = "[sampleGroup ''a'', sampleGroup ''b'']"
  let ?js = "[(sampleJob 5 15)\<lparr>q_Repo := ''acme/x''\<rparr>, (sampleJob 6 2)\<lparr>q_Repo := ''acme/x''\<rparr>]"
  have ok: "trackerOk (fst (as_demand beforeAudit))" "distinct (map g_ID ?gs)" by code_simp+
  have jobs: "auditedJobs sampleAudit (sampleGroup ''a'') = Some ?js"
      "auditedJobs sampleAudit (sampleGroup ''b'') = None" by code_simp+
  have clocks: "\<forall>g \<in> set ?gs. au_Clock sampleAudit (g_ID g) 0 \<le> 105" by (simp add: sampleAudit_def)
  have "aliveIn 100 105 (stampJobs (\<lambda>k. 20) 1 ?js) = {5}"
    by (auto simp: aliveIn_def lastJob_Cons expiredJob_def stampJob_def sampleJob_def split: if_splits)
  with audit_replaces_demand [OF ok clocks, of "sampleGroup ''a''"] jobs show ?thesis
    by (simp add: beforeAudit_def sampleGroup_def sampleAudit_def sampleTracker_def)
qed

end
