(* ===== verification/Log_Entry.thy ===== *)
theory Log_Entry
  imports Scaler_Domain File_System Go_Unmarshal "HOL-Library.List_Lexorder" "HOL-Library.Char_ord"
begin

text \<open>
  The JSON form of \<open>domain.LogEntry\<close>: what \<open>encodeLogEntry\<close> of \<open>internal/daemon/logs.go\<close> appends
  to \<open>daemon_logs.jsonl\<close> and what \<open>json.Unmarshal\<close> makes of a line of it.  \<open>decode_encode\<close>: an
  entry with printable time and ASCII text is read back as it was written, up to the order of its
  attributes.  \<open>decode_torn\<close>: of a line cut anywhere, what \<open>json.Unmarshal\<close> reports.
\<close>

section \<open>Encoding\<close>

text \<open>The fields in the order of the struct; \<open>omitempty\<close> leaves out empty strings, zero numbers and
  empty maps.  The keys of a map are sorted.\<close>

definition textMember :: "string \<Rightarrow> string \<Rightarrow> (string \<times> json) list" where
  "textMember k s = (if s = [] then [] else [(k, JStr s)])"

definition intMember :: "string \<Rightarrow> int \<Rightarrow> (string \<times> json) list" where
  "intMember k i = (if i = 0 then [] else [(k, JNum (itoa i))])"

definition attrMember :: "(string \<times> string) list \<Rightarrow> (string \<times> json) list" where
  "attrMember m =
     (if m = [] then [] else [(''attributes'', JObj (map (\<lambda>(k, v). (k, JStr v)) (sort_key fst m)))])"

definition entryMembers :: "logEntry \<Rightarrow> (string \<times> json) list" where
  "entryMembers e =
     [(''time'', JStr (rfc3339Nano (le_Time e))), (''level'', JStr (le_Level e)), (''message'', JStr (le_Message e))]
     @ textMember ''component'' (le_Component e) @ textMember ''event_type'' (le_EventType e)
     @ textMember ''action'' (le_Action e) @ textMember ''repo'' (le_Repo e)
     @ textMember ''workflow'' (le_Workflow e) @ textMember ''job'' (le_Job e)
     @ intMember ''job_id'' (le_JobID e) @ textMember ''runner'' (le_Runner e)
     @ textMember ''container'' (le_Container e) @ textMember ''commit'' (le_Commit e)
     @ textMember ''branch'' (le_Branch e) @ textMember ''status'' (le_Status e)
     @ textMember ''conclusion'' (le_Conclusion e) @ textMember ''detail'' (le_Detail e)
     @ textMember ''cache_path'' (le_CachePath e) @ intMember ''run_id'' (le_RunID e)
     @ intMember ''run_attempt'' (le_RunAttempt e) @ textMember ''error'' (le_Error e)
     @ attrMember (le_Attributes e)"

definition entryJson :: "logEntry \<Rightarrow> json" where
  "entryJson e = JObj (entryMembers e)"

definition marshalEntry :: "logEntry \<Rightarrow> string result" where
  "marshalEntry e =
     (if yearInRange (le_Time e) then Inr (printJson (entryJson e))
      else Inl yearError)"

definition encodeLogEntry :: "logEntry \<Rightarrow> string result" where
  "encodeLogEntry e =
     (case marshalEntry e of
        Inl err \<Rightarrow> Inl (''encoding log entry: '' @ err)
      | Inr payload \<Rightarrow> Inr (payload @ [CHR 0x0A]))"

section \<open>Decoding\<close>

definition zeroEntry :: logEntry where
  "zeroEntry = \<lparr>le_Time = 0, le_Level = [], le_Message = [], le_Component = [], le_EventType = [], le_Action = [],
     le_Repo = [], le_Workflow = [], le_Job = [], le_JobID = 0, le_Runner = [], le_Container = [], le_Commit = [],
     le_Branch = [], le_Status = [], le_Conclusion = [], le_Detail = [], le_CachePath = [], le_RunID = 0,
     le_RunAttempt = 0, le_Error = [], le_Attributes = []\<rparr>"

text \<open>An object is merged into the map the field has, \<open>null\<close> sets it to nil; a \<open>null\<close> in the
  object is the empty string.\<close>

fun mergeAttrs :: "(string \<times> json) list \<Rightarrow> (string \<times> string) list \<Rightarrow> (string \<times> string) list result" where
  "mergeAttrs [] m = Inr m"
| "mergeAttrs ((k, v) # ms) m =
     (case decodeText v [] of Inl err \<Rightarrow> Inl err | Inr s \<Rightarrow> mergeAttrs ms (AList.update k s m))"

fun decodeAttrs :: "json \<Rightarrow> (string \<times> string) list \<Rightarrow> (string \<times> string) list result" where
  "decodeAttrs (JObj ms) old = mergeAttrs ms old"
| "decodeAttrs JNull old = Inr []"
| "decodeAttrs v old = Inl (typeError ''map[string]string'')"

text \<open>A member goes to the field its key names, upper and lower case alike; other keys are skipped.\<close>

definition setMember :: "string \<Rightarrow> json \<Rightarrow> logEntry \<Rightarrow> logEntry result" where
  "setMember key v e =
     (let k = to_lower key in
      if k = ''time'' then mapResult (\<lambda>t. e\<lparr>le_Time := t\<rparr>) (decodeTime v (le_Time e))
      else if k = ''level'' then mapResult (\<lambda>s. e\<lparr>le_Level := s\<rparr>) (decodeText v (le_Level e))
      else if k = ''message'' then mapResult (\<lambda>s. e\<lparr>le_Message := s\<rparr>) (decodeText v (le_Message e))
      else if k = ''component'' then mapResult (\<lambda>s. e\<lparr>le_Component := s\<rparr>) (decodeText v (le_Component e))
      else if k = ''event_type'' then mapResult (\<lambda>s. e\<lparr>le_EventType := s\<rparr>) (decodeText v (le_EventType e))
      else if k = ''action'' then mapResult (\<lambda>s. e\<lparr>le_Action := s\<rparr>) (decodeText v (le_Action e))
      else if k = ''repo'' then mapResult (\<lambda>s. e\<lparr>le_Repo := s\<rparr>) (decodeText v (le_Repo e))
      else if k = ''workflow'' then mapResult (\<lambda>s. e\<lparr>le_Workflow := s\<rparr>) (decodeText v (le_Workflow e))
      else if k = ''job'' then mapResult (\<lambda>s. e\<lparr>le_Job := s\<rparr>) (decodeText v (le_Job e))
      else if k = ''job_id'' then mapResult (\<lambda>i. e\<lparr>le_JobID := i\<rparr>) (decodeInt v (le_JobID e))
      else if k = ''runner'' then mapResult (\<lambda>s. e\<lparr>le_Runner := s\<rparr>) (decodeText v (le_Runner e))
      else if k = ''container'' then mapResult (\<lambda>s. e\<lparr>le_Container := s\<rparr>) (decodeText v (le_Container e))
      else if k = ''commit'' then mapResult (\<lambda>s. e\<lparr>le_Commit := s\<rparr>) (decodeText v (le_Commit e))
      else if k = ''branch'' then mapResult (\<lambda>s. e\<lparr>le_Branch := s\<rparr>) (decodeText v (le_Branch e))
      else if k = ''status'' then mapResult (\<lambda>s. e\<lparr>le_Status := s\<rparr>) (decodeText v (le_Status e))
      else if k = ''conclusion'' then mapResult (\<lambda>s. e\<lparr>le_Conclusion := s\<rparr>) (decodeText v (le_Conclusion e))
      else if k = ''detail'' then mapResult (\<lambda>s. e\<lparr>le_Detail := s\<rparr>) (decodeText v (le_Detail e))
      else if k = ''cache_path'' then mapResult (\<lambda>s. e\<lparr>le_CachePath := s\<rparr>) (decodeText v (le_CachePath e))
      else if k = ''run_id'' then mapResult (\<lambda>i. e\<lparr>le_RunID := i\<rparr>) (decodeInt v (le_RunID e))
      else if k = ''run_attempt'' then mapResult (\<lambda>i. e\<lparr>le_RunAttempt := i\<rparr>) (decodeInt v (le_RunAttempt e))
      else if k = ''error'' then mapResult (\<lambda>s. e\<lparr>le_Error := s\<rparr>) (decodeText v (le_Error e))
      else if k = ''attributes'' then mapResult (\<lambda>m. e\<lparr>le_Attributes := m\<rparr>) (decodeAttrs v (le_Attributes e))
      else Inr e)"

fun setMembers :: "(string \<times> json) list \<Rightarrow> logEntry \<Rightarrow> logEntry result" where
  "setMembers [] e = Inr e"
| "setMembers ((k, v) # ms) e = (case setMember k v e of Inl err \<Rightarrow> Inl err | Inr e' \<Rightarrow> setMembers ms e')"

fun decodeEntry :: "json \<Rightarrow> logEntry result" where
  "decodeEntry (JObj ms) = setMembers ms zeroEntry"
| "decodeEntry JNull = Inr zeroEntry"
| "decodeEntry v = Inl (typeError ''domain.LogEntry'')"

text \<open>\<open>json.Unmarshal([]byte(line), &entry)\<close>; a time is kept as an instant, so that
  \<open>entry.Time.UTC()\<close> is the identity.\<close>

definition unmarshalEntry :: "string \<Rightarrow> logEntry result" where
  "unmarshalEntry line = unmarshal decodeEntry line"

section \<open>Round trip\<close>

text \<open>Entries the daemon writes: a printable time, ASCII text and natural numbers of 64 bits.\<close>

definition entryTexts :: "logEntry \<Rightarrow> string list" where
  "entryTexts e =
     [le_Level e, le_Message e, le_Component e, le_EventType e, le_Action e, le_Repo e, le_Workflow e, le_Job e,
      le_Runner e, le_Container e, le_Commit e, le_Branch e, le_Status e, le_Conclusion e, le_Detail e,
      le_CachePath e, le_Error e] @ map fst (le_Attributes e) @ map snd (le_Attributes e)"

definition storable :: "logEntry \<Rightarrow> bool" where
  "storable e \<longleftrightarrow> printableTime (le_Time e) \<and> list_all asciiText (entryTexts e)
     \<and> list_all (\<lambda>i. 0 \<le> i \<and> i < 2 ^ 63) [le_JobID e, le_RunID e, le_RunAttempt e] \<and> goMap (le_Attributes e)"

definition sortedAttrs :: "logEntry \<Rightarrow> logEntry" where
  "sortedAttrs e = e\<lparr>le_Attributes := sort_key fst (le_Attributes e)\<rparr>"

lemma setMembers_append:
  "setMembers (xs @ ys) e = (case setMembers xs e of Inl err \<Rightarrow> Inl err | Inr e' \<Rightarrow> setMembers ys e')"
  by (induction xs e rule: setMembers.induct) (auto split: sum.splits)

lemma setMembers_text:
  "setMembers (textMember k s) e = (if s = [] then Inr e else setMember k (JStr s) e)"
  by (simp add: textMember_def split: sum.splits)

lemma setMembers_int:
  "setMembers (intMember k i) e = (if i = 0 then Inr e else setMember k (JNum (itoa i)) e)"
  by (simp add: intMember_def split: sum.splits)

lemma to_lower_names:
  "to_lower ''time'' = ''time''" "to_lower ''level'' = ''level''" "to_lower ''message'' = ''message''"
  "to_lower ''component'' = ''component''" "to_lower ''event_type'' = ''event_type''" "to_lower ''action'' = ''action''"
  "to_lower ''repo'' = ''repo''" "to_lower ''workflow'' = ''workflow''" "to_lower ''job'' = ''job''"
  "to_lower ''job_id'' = ''job_id''" "to_lower ''runner'' = ''runner''" "to_lower ''container'' = ''container''"
  "to_lower ''commit'' = ''commit''" "to_lower ''branch'' = ''branch''" "to_lower ''status'' = ''status''"
  "to_lower ''conclusion'' = ''conclusion''" "to_lower ''detail'' = ''detail''" "to_lower ''cache_path'' = ''cache_path''"
  "to_lower ''run_id'' = ''run_id''" "to_lower ''run_attempt'' = ''run_attempt''" "to_lower ''error'' = ''error''"
  "to_lower ''attributes'' = ''attributes''"
  by (simp_all add: to_lower_def lower_char_def)

text \<open>Writing a field into an entry that does not have it yet.\<close>

lemma setMember_first:
  "setMember ''time'' v e = mapResult (\<lambda>t. e\<lparr>le_Time := t\<rparr>) (decodeTime v (le_Time e))"
  "setMember ''level'' v e = mapResult (\<lambda>s. e\<lparr>le_Level := s\<rparr>) (decodeText v (le_Level e))"
  "setMember ''message'' v e = mapResult (\<lambda>s. e\<lparr>le_Message := s\<rparr>) (decodeText v (le_Message e))"
  "setMember ''attributes'' v e = mapResult (\<lambda>m. e\<lparr>le_Attributes := m\<rparr>) (decodeAttrs v (le_Attributes e))"
  by (simp_all add: setMember_def to_lower_names)

lemma set_text:
  "le_Component e = [] \<Longrightarrow> setMembers (textMember ''component'' s) e = Inr (e\<lparr>le_Component := s\<rparr>)"
  "le_EventType e = [] \<Longrightarrow> setMembers (textMember ''event_type'' s) e = Inr (e\<lparr>le_EventType := s\<rparr>)"
  "le_Action e = [] \<Longrightarrow> setMembers (textMember ''action'' s) e = Inr (e\<lparr>le_Action := s\<rparr>)"
  "le_Repo e = [] \<Longrightarrow> setMembers (textMember ''repo'' s) e = Inr (e\<lparr>le_Repo := s\<rparr>)"
  "le_Workflow e = [] \<Longrightarrow> setMembers (textMember ''workflow'' s) e = Inr (e\<lparr>le_Workflow := s\<rparr>)"
  "le_Job e = [] \<Longrightarrow> setMembers (textMember ''job'' s) e = Inr (e\<lparr>le_Job := s\<rparr>)"
  "le_Runner e = [] \<Longrightarrow> setMembers (textMember ''runner'' s) e = Inr (e\<lparr>le_Runner := s\<rparr>)"
  "le_Container e = [] \<Longrightarrow> setMembers (textMember ''container'' s) e = Inr (e\<lparr>le_Container := s\<rparr>)"
  "le_Commit e = [] \<Longrightarrow> setMembers (textMember ''commit'' s) e = Inr (e\<lparr>le_Commit := s\<rparr>)"
  "le_Branch e = [] \<Longrightarrow> setMembers (textMember ''branch'' s) e = Inr (e\<lparr>le_Branch := s\<rparr>)"
  "le_Status e = [] \<Longrightarrow> setMembers (textMember ''status'' s) e = Inr (e\<lparr>le_Status := s\<rparr>)"
  "le_Conclusion e = [] \<Longrightarrow> setMembers (textMember ''conclusion'' s) e = Inr (e\<lparr>le_Conclusion := s\<rparr>)"
  "le_Detail e = [] \<Longrightarrow> setMembers (textMember ''detail'' s) e = Inr (e\<lparr>le_Detail := s\<rparr>)"
  "le_CachePath e = [] \<Longrightarrow> setMembers (textMember ''cache_path'' s) e = Inr (e\<lparr>le_CachePath := s\<rparr>)"
  "le_Error e = [] \<Longrightarrow> setMembers (textMember ''error'' s) e = Inr (e\<lparr>le_Error := s\<rparr>)"
  by (simp_all add: setMembers_text setMember_def to_lower_names mapResult_def)

abbreviation storableInt :: "int \<Rightarrow> bool" where
  "storableInt i \<equiv> 0 \<le> i \<and> i < 2 ^ 63"

lemma set_int:
  "le_JobID e = 0 \<Longrightarrow> storableInt i \<Longrightarrow> setMembers (intMember ''job_id'' i) e = Inr (e\<lparr>le_JobID := i\<rparr>)"
  "le_RunID e = 0 \<Longrightarrow> storableInt i \<Longrightarrow> setMembers (intMember ''run_id'' i) e = Inr (e\<lparr>le_RunID := i\<rparr>)"
  "le_RunAttempt e = 0 \<Longrightarrow> storableInt i \<Longrightarrow> setMembers (intMember ''run_attempt'' i) e = Inr (e\<lparr>le_RunAttempt := i\<rparr>)"
  by (simp_all add: setMembers_int setMember_def to_lower_names mapResult_def parse_int_itoa)

lemma mergeAttrs_fresh:
  "distinct (map fst (m @ as)) \<Longrightarrow> mergeAttrs (map (\<lambda>(k, v). (k, JStr v)) as) m = Inr (m @ as)"
proof (induction as arbitrary: m)
  case (Cons a as)
  obtain k v where [simp]: "a = (k, v)" by force
  have "k \<notin> fst ` set m" using Cons.prems by auto
  then have "AList.update k v m = m @ [(k, v)]" by (induction m) auto
  then show ?case using Cons.IH [of "m @ [(k, v)]"] Cons.prems by simp
qed simp

lemma set_attrs:
  assumes "le_Attributes e = []" "goMap m"
  shows "setMembers (attrMember m) e = Inr (e\<lparr>le_Attributes := sort_key fst m\<rparr>)"
proof (cases "m = []")
  case False
  have "distinct (map fst (sort_key fst m))"
    using assms(2) by (simp add: distinct_map goMap_def)
  then have "mergeAttrs (map (\<lambda>(k, v). (k, JStr v)) (sort_key fst m)) [] = Inr (sort_key fst m)"
    using mergeAttrs_fresh [of "[]" "sort_key fst m"] by simp
  then show ?thesis using False assms(1) by (simp add: attrMember_def setMember_first mapResult_def)
qed (use assms(1) in \<open>simp add: attrMember_def\<close>)

lemma decode_members:
  assumes "storable e" shows "setMembers (entryMembers e) zeroEntry = Inr (sortedAttrs e)"
proof -
  have n: "storableInt (le_JobID e)" "storableInt (le_RunID e)" "storableInt (le_RunAttempt e)"
    and t: "printableTime (le_Time e)" and a: "goMap (le_Attributes e)"
    using assms by (simp_all add: storable_def)
  show ?thesis
    unfolding entryMembers_def sortedAttrs_def zeroEntry_def
    by (simp add: setMembers_append set_text set_int [OF _ n(1)] set_int [OF _ n(2)] set_int [OF _ n(3)]
        set_attrs [OF _ a] setMember_first mapResult_def parse_rfc3339Nano [OF t])
qed

section \<open>The text of an entry\<close>

lemma recordMembers_append: "recordMembers (xs @ ys) \<longleftrightarrow> recordMembers xs \<and> recordMembers ys"
  by (induction xs) auto

lemma record_text: "asciiText k \<Longrightarrow> asciiText s \<Longrightarrow> recordMembers (textMember k s)"
  by (simp add: textMember_def)

lemma record_int: "asciiText k \<Longrightarrow> 0 \<le> i \<Longrightarrow> recordMembers (intMember k i)"
  by (auto simp: intMember_def itoa_def)

lemma record_attrs:
  assumes "list_all asciiText (map fst m @ map snd m)" shows "recordMembers (attrMember m)"
proof -
  have "recordMembers (map (\<lambda>(k, v). (k, JStr v)) xs)" if "\<forall>(k, v) \<in> set xs. asciiText k \<and> asciiText v" for xs
    using that by (induction xs) auto
  moreover have "\<forall>(k, v) \<in> set (sort_key fst m). asciiText k \<and> asciiText v"
    using assms by (force simp: list_all_iff)
  ultimately have "recordMembers (map (\<lambda>(k, v). (k, JStr v)) (sort_key fst m))" by blast
  then show ?thesis by (simp add: attrMember_def)
qed

lemma record_entry:
  assumes "storable e" shows "recordJson (entryJson e)"
proof -
  have a: "recordMembers (attrMember (le_Attributes e))"
    using assms by (intro record_attrs) (simp add: storable_def entryTexts_def)
  show ?thesis
    using assms a
    by (simp add: entryJson_def entryMembers_def recordMembers_append record_text record_int rfc3339Nano_def
        formatTime_ascii storable_def entryTexts_def)
qed

definition entryText :: "logEntry \<Rightarrow> string" where
  "entryText e = printJson (entryJson e)"

lemma encode_storable: "storable e \<Longrightarrow> encodeLogEntry e = Inr (entryText e @ [CHR 0x0A])"
  by (simp add: encodeLogEntry_def marshalEntry_def printable_year storable_def entryText_def)

theorem decode_encode: "storable e \<Longrightarrow> unmarshalEntry (entryText e) = Inr (sortedAttrs e)"
  using parse_print [OF record_plain(1), OF record_entry] decode_members
  by (simp add: unmarshalEntry_def unmarshal_def entryText_def entryJson_def)

theorem decode_torn:
  assumes "storable e" "k < length (entryText e)"
  shows "unmarshalEntry (take k (entryText e)) =
    Inl (if midEscape (take k (entryText e)) then ''invalid character in JSON text'' else ''unexpected end of JSON input'')"
  using parse_torn [of "entryMembers e" k] record_entry [OF assms(1)] assms(2)
  by (simp add: unmarshalEntry_def unmarshal_def entryText_def entryJson_def)

text \<open>An entry is one line.\<close>

lemma escapeChar_line:
  assumes "(of_char c :: nat) < 128" shows "CHR 0x0A \<notin> set (escapeChar c)"
proof -
  have h: "CHR 0x0A \<noteq> hexLower n" if "n < 16" for n
  proof -
    have "(of_char (hexLower n) :: nat) \<noteq> 10" using that by (simp add: hexLower_def)
    then show ?thesis by (auto dest: arg_cong [where f = "of_char :: char \<Rightarrow> nat"])
  qed
  then have "CHR 0x0A \<notin> set (escapeU (of_char c))"
    using assms h [of "of_char c div 16"] h [of "of_char c mod 16"] by (simp add: escapeU_def)
  then show ?thesis by (auto simp: escapeChar_def Let_def)
qed

lemma printStr_line: "asciiText s \<Longrightarrow> CHR 0x0A \<notin> set (printStr s)"
  using escapeChar_line by (auto simp: printStr_def asciiText_set)

lemma nat_dec_line: "CHR 0x0A \<notin> set (nat_dec n)"
  by (rule nat_dec_no_char) simp

lemma print_line:
  "recordJson j \<Longrightarrow> CHR 0x0A \<notin> set (printJson j)"
  "recordItems xs \<Longrightarrow> CHR 0x0A \<notin> set (printItems xs)"
  "recordMembers ms \<Longrightarrow> CHR 0x0A \<notin> set (printMembers ms)"
  by (induction j and xs and ms rule: recordJson_recordItems_recordMembers.induct)
    (auto simp: printStr_line nat_dec_line)

lemma entryText_line: "storable e \<Longrightarrow> CHR 0x0A \<notin> set (entryText e)"
  unfolding entryText_def by (rule print_line(1) [OF record_entry])

lemma entryText_ends: "\<exists>t. entryText e = CHR ''{'' # t @ [CHR ''}'']"
  by (simp add: entryText_def entryJson_def)

end
