(* ===== verification/Log_Store.thy ===== *)
theory Log_Store
  imports Log_Entry "HOL-Library.Word"
begin

text \<open>
  The persistent log buffer of \<open>internal/daemon/logs.go\<close>: \<open>LogStore\<close> with its file, its queries
  and the limits on both.  The file is its contents; system calls fail with errors of the
  environment, and a failed write leaves a prefix of what was written.  The methods hold the
  mutex throughout, so they are atomic.

  \<open>log_survives_torn_append\<close>: what a restart finds after a crash at any byte of an append.
  \<open>Record_inv\<close>: the file always holds the buffered entries.  \<open>query_reference\<close>: a query
  returns the newest matching entries first.
\<close>

section \<open>State\<close>

definition defaultLogStoreLimit :: nat where "defaultLogStoreLimit = 20000"
definition defaultLogQueryLimit :: int where "defaultLogQueryLimit = 200"
definition maxLogQueryLimit :: int where "maxLogQueryLimit = 1000"

record LogStore =
  ls_File :: "string option"
  ls_MaxEntries :: nat
  ls_CompactAt :: nat
  ls_Entries :: "logEntry list"
  ls_FileEntries :: nat
  ls_Version :: "64 word"

datatype appendFault =
    Appended
  | OpenFails gerror
  | WriteFails nat gerror
  | CloseFails gerror

record compactFaults =
  cf_Create :: "gerror option"
  cf_Write :: "nat \<Rightarrow> gerror option"
  cf_Close :: "gerror option"
  cf_Rename :: "gerror option"

definition noFaults :: compactFaults where
  "noFaults = \<lparr>cf_Create = None, cf_Write = (\<lambda>i. None), cf_Close = None, cf_Rename = None\<rparr>"

definition fileBytes :: "LogStore \<Rightarrow> string" where
  "fileBytes s = (case ls_File s of None \<Rightarrow> [] | Some c \<Rightarrow> c)"

text \<open>The last \<open>n\<close> of a list.\<close>

definition newest :: "nat \<Rightarrow> 'a list \<Rightarrow> 'a list" where
  "newest n xs = drop (length xs - n) xs"

section \<open>Compaction\<close>

fun encodeAll :: "(nat \<Rightarrow> gerror option) \<Rightarrow> nat \<Rightarrow> logEntry list \<Rightarrow> string result" where
  "encodeAll fails i [] = Inr []"
| "encodeAll fails i (e # es) =
     (case marshalEntry e of
        Inl err \<Rightarrow> Inl err
      | Inr t \<Rightarrow>
          (case fails i of
             Some err \<Rightarrow> Inl err
           | None \<Rightarrow> mapResult (\<lambda>ts. t @ CHR 0x0A # ts) (encodeAll fails (Suc i) es)))"

text \<open>The temporary file is removed again when a step fails.\<close>

definition compactLocked :: "compactFaults \<Rightarrow> LogStore \<Rightarrow> gerror option \<times> LogStore" where
  "compactLocked fs s =
     (case cf_Create fs of
        Some err \<Rightarrow> (Some (''creating log store temp file: '' @ err), s)
      | None \<Rightarrow>
     (case encodeAll (cf_Write fs) 0 (ls_Entries s) of
        Inl err \<Rightarrow> (Some (''encoding log entry: '' @ err), s)
      | Inr text \<Rightarrow>
     (case cf_Close fs of
        Some err \<Rightarrow> (Some (''closing log store temp file: '' @ err), s)
      | None \<Rightarrow>
     (case cf_Rename fs of
        Some err \<Rightarrow> (Some (''renaming log store temp file: '' @ err), s)
      | None \<Rightarrow> (None, s\<lparr>ls_File := Some text, ls_FileEntries := length (ls_Entries s)\<rparr>)))))"

section \<open>Loading\<close>

text \<open>\<open>unicode.IsLetter\<close> of a byte, taken as a Latin-1 character.\<close>

definition byteLetter :: "char \<Rightarrow> bool" where
  "byteLetter c =
     (let n = (of_char c :: nat) in
      65 \<le> n \<and> n \<le> 90 \<or> 97 \<le> n \<and> n \<le> 122 \<or> n \<in> {170, 181, 186} \<or> 192 \<le> n \<and> n \<noteq> 215 \<and> n \<noteq> 247)"

definition trailingLiteralFragment :: "string \<Rightarrow> string" where
  "trailingLiteralFragment line = rev (takeWhile byteLetter (dropWhile is_space (rev line)))"

definition isTruncatedLogEntry :: "string \<Rightarrow> gerror \<Rightarrow> bool" where
  "isTruncatedLogEntry line msg \<longleftrightarrow>
     contains msg ''unexpected end of JSON input'' \<or> contains msg ''unexpected EOF'' \<or>
     trailingLiteralFragment line \<in>
       {''t'', ''tr'', ''tru'', ''f'', ''fa'', ''fal'', ''fals'', ''n'', ''nu'', ''nul''}"

text \<open>The lines as \<open>ReadString\<close> returns them, the last one without a line break and with the error
  that ended the reading: end of file, or \<open>readErr\<close>.  The result is the decoded entries and whether
  a torn last line was dropped.\<close>

fun loadLines :: "gerror option \<Rightarrow> nat \<Rightarrow> string list \<Rightarrow> (logEntry list \<times> bool) result" where
  "loadLines readErr n [] = Inr ([], False)"
| "loadLines readErr n (raw # rest) =
     (let eof = (rest = []); line = trim_space raw in
      if eof \<and> readErr \<noteq> None then Inl (''reading log store: '' @ the readErr)
      else if line = [] then (if eof then Inr ([], False) else loadLines readErr (Suc n) rest)
      else (case unmarshalEntry line of
          Inl err \<Rightarrow>
            if eof \<and> isTruncatedLogEntry line err then Inr ([], True)
            else Inl (''decoding log store line '' @ itoa (int n) @ '': '' @ err)
        | Inr entry \<Rightarrow>
            if eof then Inr ([entry], False)
            else mapResult (\<lambda>(es, torn). (entry # es, torn)) (loadLines readErr (Suc n) rest)))"

record loadFaults =
  lf_Open :: "gerror option"
  lf_Read :: "gerror option"
  lf_Compact :: compactFaults

definition noLoadFaults :: loadFaults where
  "noLoadFaults = \<lparr>lf_Open = None, lf_Read = None, lf_Compact = noFaults\<rparr>"

definition load :: "loadFaults \<Rightarrow> LogStore \<Rightarrow> gerror option \<times> LogStore" where
  "load fs s =
     (case ls_File s of
        None \<Rightarrow> (None, s)
      | Some content \<Rightarrow>
     (case lf_Open fs of
        Some err \<Rightarrow> (Some (''opening log store: '' @ err), s)
      | None \<Rightarrow>
     (case loadLines (lf_Read fs) 1 (split_on (CHR 0x0A) content) of
        Inl err \<Rightarrow> (Some err, s)
      | Inr (entries, torn) \<Rightarrow>
          (let kept = (if ls_MaxEntries s < length entries then newest (ls_MaxEntries s) entries else entries);
               needsCompaction = torn \<or> ls_MaxEntries s < length entries;
               s' = s\<lparr>ls_Entries := kept, ls_FileEntries := length entries\<rparr>
           in if needsCompaction then compactLocked (lf_Compact fs) s' else (None, s')))))"

text \<open>\<open>NewLogStore\<close> on the file that is there; \<open>mkdir\<close> is the error of \<open>os.MkdirAll\<close>.\<close>

definition NewLogStore :: "gerror option \<Rightarrow> loadFaults \<Rightarrow> string option \<Rightarrow> LogStore result" where
  "NewLogStore mkdir fs content =
     (case mkdir of
        Some err \<Rightarrow> Inl (''creating log store dir: '' @ err)
      | None \<Rightarrow>
          (case load fs \<lparr>ls_File = content, ls_MaxEntries = defaultLogStoreLimit,
                        ls_CompactAt = 2 * defaultLogStoreLimit, ls_Entries = [], ls_FileEntries = 0, ls_Version = 0\<rparr> of
             (Some err, s) \<Rightarrow> Inl err
           | (None, s) \<Rightarrow> Inr s))"

section \<open>Recording\<close>

fun appendLocked :: "appendFault \<Rightarrow> string \<Rightarrow> LogStore \<Rightarrow> gerror option \<times> LogStore" where
  "appendLocked (OpenFails err) line s = (Some (''opening log store for append: '' @ err), s)"
| "appendLocked (WriteFails k err) line s =
     (Some (''appending log entry: '' @ err), s\<lparr>ls_File := Some (fileBytes s @ take k line)\<rparr>)"
| "appendLocked (CloseFails err) line s =
     (Some (''closing appended log store file: '' @ err), s\<lparr>ls_File := Some (fileBytes s @ line)\<rparr>)"
| "appendLocked Appended line s = (None, s\<lparr>ls_File := Some (fileBytes s @ line)\<rparr>)"

definition bufferEntry :: "logEntry \<Rightarrow> LogStore \<Rightarrow> LogStore" where
  "bufferEntry entry s =
     s\<lparr>ls_Entries := newest (ls_MaxEntries s) (ls_Entries s @ [entry]),
       ls_FileEntries := Suc (ls_FileEntries s), ls_Version := ls_Version s + 1\<rparr>"

definition Record :: "gotime \<Rightarrow> appendFault \<Rightarrow> compactFaults \<Rightarrow> logEntry \<Rightarrow> LogStore \<Rightarrow> gerror option \<times> LogStore" where
  "Record now af cf entry s =
     (let entry = (if isZero (le_Time entry) then entry\<lparr>le_Time := now\<rparr> else entry) in
      case encodeLogEntry entry of
        Inl err \<Rightarrow> (Some err, s)
      | Inr line \<Rightarrow>
          (case appendLocked af line s of
             (Some err, s1) \<Rightarrow> (Some err, s1)
           | (None, s1) \<Rightarrow>
               (let trimmed = (ls_MaxEntries s1 < length (ls_Entries s1 @ [entry]));
                    s2 = bufferEntry entry s1
                in if trimmed \<or> 0 < ls_CompactAt s2 \<and> ls_CompactAt s2 < ls_FileEntries s2
                   then compactLocked cf s2 else (None, s2))))"

definition SnapshotWithVersion :: "LogStore \<Rightarrow> 64 word \<times> logEntry list" where
  "SnapshotWithVersion s = (ls_Version s, ls_Entries s)"

definition logSnapshot :: "LogStore \<Rightarrow> logEntry list" where
  "logSnapshot s = snd (SnapshotWithVersion s)"

definition Version :: "LogStore \<Rightarrow> 64 word" where
  "Version s = ls_Version s"

section \<open>What the file holds\<close>

definition fileText :: "logEntry list \<Rightarrow> string" where
  "fileText es = concat (map (\<lambda>e. entryText e @ [CHR 0x0A]) es)"

lemma fileText_simps [simp]:
  "fileText [] = []" "fileText (e # es) = entryText e @ CHR 0x0A # fileText es"
  "fileText (xs @ ys) = fileText xs @ fileText ys"
  by (simp_all add: fileText_def)

text \<open>The file consists of the buffered entries after older ones that a failed compaction left in it;
  then the buffer is full.\<close>

definition storeInv :: "LogStore \<Rightarrow> bool" where
  "storeInv s \<longleftrightarrow> list_all storable (ls_Entries s) \<and> length (ls_Entries s) \<le> ls_MaxEntries s \<and>
     (\<exists>old. fileBytes s = fileText (old @ ls_Entries s) \<and> list_all storable old \<and>
            ls_FileEntries s = length (old @ ls_Entries s) \<and> (old = [] \<or> length (ls_Entries s) = ls_MaxEntries s))"

lemma marshal_storable: "storable e \<Longrightarrow> marshalEntry e = Inr (entryText e)"
  by (simp add: marshalEntry_def printable_year storable_def entryText_def)

lemma encodeAll_storable: "list_all storable es \<Longrightarrow> encodeAll (\<lambda>i. None) i es = Inr (fileText es)"
  by (induction es arbitrary: i) (simp_all add: marshal_storable mapResult_def)

lemma encodeAll_ok: "list_all storable es \<Longrightarrow> encodeAll fails i es = Inr bytes \<Longrightarrow> bytes = fileText es"
  by (induction es arbitrary: i bytes)
    (auto simp: marshal_storable mapResult_def split: option.splits sum.splits)

lemma compact_cases:
  assumes "list_all storable (ls_Entries s)" "compactLocked fs s = (r, s')"
  shows "s' = s \<or> s' = s\<lparr>ls_File := Some (fileText (ls_Entries s)), ls_FileEntries := length (ls_Entries s)\<rparr>"
  using assms encodeAll_ok [OF assms(1)]
  by (auto simp: compactLocked_def split: option.splits sum.splits)

lemma compact_noFaults:
  assumes "list_all storable (ls_Entries s)"
  shows "compactLocked noFaults s =
    (None, s\<lparr>ls_File := Some (fileText (ls_Entries s)), ls_FileEntries := length (ls_Entries s)\<rparr>)"
  using encodeAll_storable [OF assms] by (simp add: compactLocked_def noFaults_def)

lemma compact_inv:
  assumes "storeInv s" shows "storeInv (snd (compactLocked fs s))"
proof -
  obtain r s' where c: "compactLocked fs s = (r, s')" by (cases "compactLocked fs s") auto
  have st: "list_all storable (ls_Entries s)" using assms by (simp add: storeInv_def)
  show ?thesis
    using compact_cases [OF st c]
  proof
    assume s': "s' = s\<lparr>ls_File := Some (fileText (ls_Entries s)), ls_FileEntries := length (ls_Entries s)\<rparr>"
    show ?thesis unfolding c s' using assms by (auto simp: storeInv_def fileBytes_def intro!: exI [of _ "[]"])
  qed (simp add: c assms)
qed

lemma newest_split: "\<exists>dropped. xs = dropped @ newest n xs \<and> length (newest n xs) = min n (length xs)
    \<and> (dropped = [] \<or> length (newest n xs) = n)"
  by (rule exI [of _ "take (length xs - n) xs"]) (auto simp: newest_def min_def)

lemma newest_all [simp]: "length xs \<le> n \<Longrightarrow> newest n xs = xs"
  by (simp add: newest_def)

lemma newest_length: "length (newest n xs) = min n (length xs)"
  by (simp add: newest_def min_def)

lemma newest_append: "length ys = n \<Longrightarrow> newest n (xs @ ys @ zs) = newest n (ys @ zs)"
  by (simp add: newest_def)

text \<open>Appending the line of an entry and buffering it.\<close>

definition appended :: "logEntry \<Rightarrow> LogStore \<Rightarrow> LogStore" where
  "appended e s = bufferEntry e (s\<lparr>ls_File := Some (fileBytes s @ entryText e @ [CHR 0x0A])\<rparr>)"

lemma appended_inv:
  assumes "storeInv s" "storable e" shows "storeInv (appended e s)"
proof -
  let ?es = "ls_Entries s @ [e]" and ?n = "ls_MaxEntries s"
  obtain old where old: "fileBytes s = fileText (old @ ls_Entries s)" "list_all storable old"
      "ls_FileEntries s = length (old @ ls_Entries s)" "old = [] \<or> length (ls_Entries s) = ?n"
    using assms(1) unfolding storeInv_def by blast
  obtain dr where dr: "?es = dr @ newest ?n ?es" "length (newest ?n ?es) = min ?n (length ?es)"
      "dr = [] \<or> length (newest ?n ?es) = ?n"
    using newest_split by metis
  have es: "list_all storable ?es" using assms by (simp add: storeInv_def)
  then have st: "list_all storable dr" "list_all storable (newest ?n ?es)"
    using dr(1) by (metis list_all_append)+
  have "fileText (ls_Entries s) @ entryText e @ [CHR 0x0A] = fileText dr @ fileText (newest ?n ?es)"
    using arg_cong [OF dr(1), of fileText] by simp
  then have bytes: "fileBytes (appended e s) = fileText (old @ dr @ newest ?n ?es)"
    using old(1) by (simp add: appended_def bufferEntry_def fileBytes_def)
  have len: "ls_FileEntries (appended e s) = length (old @ dr @ newest ?n ?es)"
    using old(3) arg_cong [OF dr(1), of length] by (simp add: appended_def bufferEntry_def)
  have full: "old @ dr = [] \<or> length (newest ?n ?es) = ?n"
    using old(4) dr(2,3) by auto
  show ?thesis
    unfolding storeInv_def
    using st old(2) bytes len full dr(2) by (auto simp: appended_def bufferEntry_def intro!: exI [of _ "old @ dr"])
qed

lemma Record_appended:
  assumes "storable e" "le_Time e \<noteq> 0"
  shows "Record now Appended cf e s = (None, appended e s) \<or>
    Record now Appended cf e s = compactLocked cf (appended e s)"
  using assms by (simp add: Record_def encode_storable appended_def Let_def)

theorem Record_inv:
  assumes "storeInv s" "storable e" "le_Time e \<noteq> 0"
  shows "storeInv (snd (Record now Appended cf e s))"
  using Record_appended [OF assms(2,3), of now cf s] appended_inv [OF assms(1,2)] compact_inv by auto

section \<open>Restarts\<close>

lemma split_on_line: "c \<notin> set w \<Longrightarrow> split_on c (w @ c # r) = w # split_on c r"
  by (induction w) auto

lemma split_on_none: "c \<notin> set w \<Longrightarrow> split_on c w = [w]"
  by (induction w) auto

lemma split_fileText:
  "list_all storable es \<Longrightarrow> CHR 0x0A \<notin> set tail \<Longrightarrow>
   split_on (CHR 0x0A) (fileText es @ tail) = map entryText es @ [tail]"
  by (induction es) (simp_all add: split_on_none split_on_line entryText_line)

lemma trim_entryText: "trim_space (entryText e) = entryText e"
proof (rule trim_space_id)
  obtain t where "entryText e = CHR ''{'' # t @ [CHR ''}'']" using entryText_ends by blast
  then show "entryText e = [] \<or> \<not> is_space (hd (entryText e)) \<and> \<not> is_space (last (entryText e))"
    by (simp add: is_space_def)
qed

lemma load_entries:
  "list_all storable es \<Longrightarrow> rest \<noteq> [] \<Longrightarrow>
   loadLines None n (map entryText es @ rest) =
     mapResult (\<lambda>(xs, torn). (map sortedAttrs es @ xs, torn)) (loadLines None (n + length es) rest)"
proof (induction es arbitrary: n)
  case (Cons e es)
  have "entryText e \<noteq> []" using entryText_ends [of e] by auto
  then show ?case using Cons
    by (simp add: trim_entryText decode_encode) (auto simp: mapResult_def split: sum.splits)
qed (auto simp: mapResult_def split: sum.splits)

text \<open>The last line after a torn append: the beginning of a record, without trailing spaces.\<close>

lemma trim_take:
  assumes "s = c # t" "\<not> is_space c" "0 < k"
  shows "\<exists>j. 0 < j \<and> j \<le> k \<and> trim_space (take k s) = take j s"
proof -
  let ?s = "take k s"
  have front: "dropWhile is_space ?s = ?s" using assms by (cases k) simp_all
  let ?j = "length (dropWhile is_space (rev ?s))"
  have "trim_space ?s = take ?j ?s"
    unfolding trim_space_def front by (simp add: dropWhile_eq_drop rev_drop)
  moreover have "?j \<le> k" by (metis length_dropWhile_le length_rev length_take min.bounded_iff order.trans order_refl)
  moreover have "0 < ?j" using assms by (cases k) auto
  ultimately show ?thesis by (metis min.absorb1 take_take)
qed

definition unfinished :: gerror where
  "unfinished = ''unexpected end of JSON input''"

lemma unfinished_truncated: "isTruncatedLogEntry line unfinished"
proof -
  have "contains unfinished ''unexpected end of JSON input''" by code_simp
  then show ?thesis by (simp add: isTruncatedLogEntry_def)
qed

lemma load_torn:
  assumes "storable e" "k < length (entryText e)" "\<not> midEscape (trim_space (take k (entryText e)))"
  shows "loadLines None n [take k (entryText e)] = Inr ([], 0 < k)"
proof (cases "k = 0")
  case False
  obtain t where e: "entryText e = CHR ''{'' # t @ [CHR ''}'']" using entryText_ends by blast
  have sp: "\<not> is_space (CHR ''{'')" by (simp add: is_space_def)
  obtain j where j: "0 < j" "j \<le> k" "trim_space (take k (entryText e)) = take j (entryText e)"
    using trim_take [OF e sp, of k] False by blast
  have "unmarshalEntry (take j (entryText e)) = Inl unfinished"
    using decode_torn [OF assms(1), of j] assms(2,3) j by (simp add: unfinished_def)
  moreover have "take j (entryText e) \<noteq> []" using j(1) e by (cases j) simp_all
  ultimately show ?thesis using j(3) unfinished_truncated False by simp
qed (simp add: trim_space_def)

lemma load_last:
  assumes "storable e" shows "loadLines None n [entryText e] = Inr ([sortedAttrs e], False)"
proof -
  have "entryText e \<noteq> []" using entryText_ends [of e] by auto
  then show ?thesis using assms by (simp add: trim_entryText decode_encode)
qed

lemma load_empty: "loadLines None n [[]] = Inr ([], False)"
  by (simp add: trim_space_def)

lemma sortedAttrs_idem [simp]: "sortedAttrs (sortedAttrs e) = sortedAttrs e"
  by (simp add: sortedAttrs_def sort_key_id_if_sorted)

lemma attrMember_sorted: "attrMember (sort_key fst m) = attrMember m"
proof -
  have "sort_key fst (sort_key fst m) = sort_key fst m" by (rule sort_key_id_if_sorted) simp
  moreover have "sort_key fst m = [] \<longleftrightarrow> m = []" by (metis length_0_conv length_sort)
  ultimately show ?thesis by (simp only: attrMember_def)
qed

lemma sortedAttrs_sel:
  "le_Attributes (sortedAttrs e) = sort_key fst (le_Attributes e)"
  "le_Time (sortedAttrs e) = le_Time e" "le_Level (sortedAttrs e) = le_Level e" "le_Message (sortedAttrs e) = le_Message e"
  "le_Component (sortedAttrs e) = le_Component e" "le_EventType (sortedAttrs e) = le_EventType e" "le_Action (sortedAttrs e) = le_Action e"
  "le_Repo (sortedAttrs e) = le_Repo e" "le_Workflow (sortedAttrs e) = le_Workflow e" "le_Job (sortedAttrs e) = le_Job e"
  "le_JobID (sortedAttrs e) = le_JobID e" "le_Runner (sortedAttrs e) = le_Runner e" "le_Container (sortedAttrs e) = le_Container e"
  "le_Commit (sortedAttrs e) = le_Commit e" "le_Branch (sortedAttrs e) = le_Branch e" "le_Status (sortedAttrs e) = le_Status e"
  "le_Conclusion (sortedAttrs e) = le_Conclusion e" "le_Detail (sortedAttrs e) = le_Detail e" "le_CachePath (sortedAttrs e) = le_CachePath e"
  "le_RunID (sortedAttrs e) = le_RunID e" "le_RunAttempt (sortedAttrs e) = le_RunAttempt e" "le_Error (sortedAttrs e) = le_Error e"
  by (simp_all add: sortedAttrs_def)

lemma entryText_sorted [simp]: "entryText (sortedAttrs e) = entryText e"
  by (simp only: entryText_def entryJson_def entryMembers_def sortedAttrs_sel attrMember_sorted)

lemma storable_sorted:
  assumes "storable e" shows "storable (sortedAttrs e)"
proof -
  have "set (entryTexts (sortedAttrs e)) = set (entryTexts e)"
    by (simp add: entryTexts_def sortedAttrs_sel)
  then have "list_all asciiText (entryTexts (sortedAttrs e)) = list_all asciiText (entryTexts e)"
    by (simp only: list_all_iff)
  moreover have "goMap (le_Attributes (sortedAttrs e)) = goMap (le_Attributes e)"
    by (simp add: sortedAttrs_sel goMap_def distinct_map)
  ultimately show ?thesis using assms by (simp add: storable_def sortedAttrs_sel)
qed

lemma fileText_sorted [simp]: "fileText (map sortedAttrs es) = fileText es"
  by (induction es) simp_all

text \<open>The daemon starts again with the file as it is.\<close>

definition restart :: "LogStore \<Rightarrow> gerror option \<times> LogStore" where
  "restart s = load noLoadFaults (s\<lparr>ls_Entries := [], ls_FileEntries := 0, ls_Version := 0\<rparr>)"

definition crashed :: "nat \<Rightarrow> logEntry \<Rightarrow> LogStore \<Rightarrow> LogStore" where
  "crashed k e s = s\<lparr>ls_File := Some (fileBytes s @ take k (entryText e @ [CHR 0x0A]))\<rparr>"

definition reloaded :: "logEntry list \<Rightarrow> bool \<Rightarrow> LogStore \<Rightarrow> LogStore" where
  "reloaded es torn s =
     (let s' = s\<lparr>ls_Entries := newest (ls_MaxEntries s) es, ls_FileEntries := length es, ls_Version := 0\<rparr>
      in if torn \<or> ls_MaxEntries s < length es then snd (compactLocked noFaults s') else s')"

lemma restart_loaded:
  assumes "ls_File s = Some (fileText es @ tail)" "list_all storable es" "CHR 0x0A \<notin> set tail"
    and "\<And>n. loadLines None n [tail] = Inr (map sortedAttrs extra, torn)" "list_all storable extra"
  shows "restart s = (None, reloaded (map sortedAttrs (es @ extra)) torn s)"
proof -
  have "loadLines None 1 (split_on (CHR 0x0A) (fileText es @ tail)) = Inr (map sortedAttrs (es @ extra), torn)"
    using split_fileText [OF assms(2,3)] load_entries [OF assms(2), of "[tail]" 1] assms(4) by (simp add: mapResult_def)
  moreover have all: "list_all storable (map sortedAttrs (es @ extra))"
    using assms(2,5) by (auto simp: list_all_iff storable_sorted)
  moreover have "list_all storable (newest n (map sortedAttrs (es @ extra)))" for n
    using all by (auto simp: list_all_iff newest_def dest!: in_set_dropD)
  ultimately show ?thesis
    using assms(1)
    by (simp add: restart_def load_def noLoadFaults_def reloaded_def compact_noFaults Let_def)
qed

lemma reloaded_entries [simp]: "ls_Entries (reloaded es torn s) = newest (ls_MaxEntries s) es"
proof -
  have "ls_Entries (snd (compactLocked fs t)) = ls_Entries t" for fs t
    by (simp add: compactLocked_def split: option.splits sum.splits)
  then show ?thesis by (simp add: reloaded_def Let_def)
qed

lemma crashed_reloads:
  assumes "list_all storable es" "fileBytes s = fileText es" "storable e" "k \<le> length (entryText e) + 1"
    and "k < length (entryText e) \<longrightarrow> \<not> midEscape (trim_space (take k (entryText e)))"
  shows "\<exists>torn. restart (crashed k e s) =
    (None, reloaded (map sortedAttrs (es @ (if length (entryText e) \<le> k then [e] else []))) torn (crashed k e s))"
proof -
  have line: "CHR 0x0A \<notin> set (entryText e)" using assms(3) by (rule entryText_line)
  consider "k < length (entryText e)" | "k = length (entryText e)" | "k = length (entryText e) + 1"
    using assms(4) by linarith
  then show ?thesis
  proof cases
    case 1
    have "restart (crashed k e s) = (None, reloaded (map sortedAttrs (es @ [])) (0 < k) (crashed k e s))"
      by (rule restart_loaded [where tail = "take k (entryText e)"])
        (use 1 assms line load_torn [OF assms(3) 1] in \<open>auto simp: crashed_def dest: in_set_takeD\<close>)
    then show ?thesis using 1 by auto
  next
    case 2
    have "restart (crashed k e s) = (None, reloaded (map sortedAttrs (es @ [e])) False (crashed k e s))"
      by (rule restart_loaded [where tail = "entryText e"])
        (use 2 assms line load_last [OF assms(3)] in \<open>auto simp: crashed_def\<close>)
    then show ?thesis using 2 by auto
  next
    case 3
    have "restart (crashed k e s) = (None, reloaded (map sortedAttrs ((es @ [e]) @ [])) False (crashed k e s))"
      by (rule restart_loaded [where tail = "[]"])
        (use 3 assms load_empty in \<open>auto simp: crashed_def\<close>)
    then show ?thesis using 3 by auto
  qed
qed

section \<open>Histories\<close>

definition emptyStore :: "nat \<Rightarrow> nat \<Rightarrow> LogStore" where
  "emptyStore n c = \<lparr>ls_File = None, ls_MaxEntries = n, ls_CompactAt = c, ls_Entries = [], ls_FileEntries = 0, ls_Version = 0\<rparr>"

text \<open>Entries recorded one after the other, with the faults of their compactions.\<close>

definition recordAll :: "gotime \<Rightarrow> (compactFaults \<times> logEntry) list \<Rightarrow> LogStore \<Rightarrow> LogStore" where
  "recordAll now h s = foldl (\<lambda>s (cf, e). snd (Record now Appended cf e s)) s h"

definition recordable :: "compactFaults \<times> logEntry \<Rightarrow> bool" where
  "recordable r \<longleftrightarrow> storable (snd r) \<and> le_Time (snd r) \<noteq> 0"

lemma newest_snoc: "newest n (newest n xs @ [x]) = newest n (xs @ [x])"
  by (cases "length xs \<le> n") (auto simp: newest_def Suc_diff_le)

lemma compact_frame [simp]:
  "ls_Entries (snd (compactLocked cf s)) = ls_Entries s" "ls_MaxEntries (snd (compactLocked cf s)) = ls_MaxEntries s"
  "ls_CompactAt (snd (compactLocked cf s)) = ls_CompactAt s"
  by (simp_all add: compactLocked_def split: option.splits sum.splits)

lemma appended_frame [simp]:
  "ls_Entries (appended e s) = newest (ls_MaxEntries s) (ls_Entries s @ [e])"
  "ls_MaxEntries (appended e s) = ls_MaxEntries s" "ls_CompactAt (appended e s) = ls_CompactAt s"
  by (simp_all add: appended_def bufferEntry_def)

lemma Record_frame:
  assumes "storable e" "le_Time e \<noteq> 0"
  shows "ls_Entries (snd (Record now Appended cf e s)) = newest (ls_MaxEntries s) (ls_Entries s @ [e])"
    and "ls_MaxEntries (snd (Record now Appended cf e s)) = ls_MaxEntries s"
  using Record_appended [OF assms, of now cf s] by auto

lemma recordAll_props:
  assumes "list_all recordable h"
  shows "storeInv (recordAll now h (emptyStore n c)) \<and> ls_MaxEntries (recordAll now h (emptyStore n c)) = n \<and>
    ls_Entries (recordAll now h (emptyStore n c)) = newest n (map snd h)"
  using assms
proof (induction h rule: rev_induct)
  case Nil
  then show ?case by (simp add: recordAll_def emptyStore_def storeInv_def fileBytes_def)
next
  case (snoc r h)
  obtain cf e where r: "r = (cf, e)" by force
  have e: "storable e" "le_Time e \<noteq> 0" using snoc.prems r by (simp_all add: recordable_def)
  have IH: "storeInv (recordAll now h (emptyStore n c))" "ls_MaxEntries (recordAll now h (emptyStore n c)) = n"
    "ls_Entries (recordAll now h (emptyStore n c)) = newest n (map snd h)"
    using snoc by simp_all
  have step: "recordAll now (h @ [r]) s = snd (Record now Appended cf e (recordAll now h s))" for s
    by (simp add: recordAll_def r)
  show ?case
    unfolding step using Record_inv [OF IH(1) e] Record_frame [OF e] IH(2,3) by (simp add: newest_snoc r)
qed

lemma inv_reloads:
  assumes "storeInv s" "storable e" "k \<le> length (entryText e) + 1"
    and "k < length (entryText e) \<longrightarrow> \<not> midEscape (trim_space (take k (entryText e)))"
  shows "\<exists>s'. restart (crashed k e s) = (None, s') \<and>
    ls_Entries s' = newest (ls_MaxEntries s) (map sortedAttrs (ls_Entries s @ (if length (entryText e) \<le> k then [e] else [])))"
proof -
  obtain old where old: "fileBytes s = fileText (old @ ls_Entries s)" "list_all storable old"
      "old = [] \<or> length (ls_Entries s) = ls_MaxEntries s"
    using assms(1) unfolding storeInv_def by blast
  have st: "list_all storable (old @ ls_Entries s)" using old(2) assms(1) by (simp add: storeInv_def)
  let ?new = "if length (entryText e) \<le> k then [e] else []"
  have drop_old: "newest (ls_MaxEntries s) (map sortedAttrs ((old @ ls_Entries s) @ ?new)) =
      newest (ls_MaxEntries s) (map sortedAttrs (ls_Entries s @ ?new))"
    using old(3) newest_append [of "map sortedAttrs (ls_Entries s)" "ls_MaxEntries s" "map sortedAttrs old" "map sortedAttrs ?new"]
    by (auto simp del: newest_all)
  have "ls_MaxEntries (crashed k e s) = ls_MaxEntries s" by (simp add: crashed_def)
  then show ?thesis
    using crashed_reloads [OF st old(1) assms(2-4)] drop_old by (elim exE) simp
qed

text \<open>C25. A daemon that crashes while it appends an entry, after any history of entries whose records
  succeeded and with any number of bytes of the line written, starts again unless the line was cut in
  the middle of an escape sequence: the torn line is dropped and the buffer has the newest entries that
  were recorded, with the new one exactly when all of its record was written.  The texts of the entries
  are ASCII.\<close>

theorem log_survives_torn_append:
  assumes "list_all recordable h" "storable e" "k \<le> length (entryText e) + 1"
    and "k < length (entryText e) \<longrightarrow> \<not> midEscape (trim_space (take k (entryText e)))"
  shows "\<exists>s'. restart (crashed k e (recordAll now h (emptyStore n c))) = (None, s') \<and>
    ls_Entries s' = newest n (map sortedAttrs (newest n (map snd h) @ (if length (entryText e) \<le> k then [e] else [])))"
  using inv_reloads [of "recordAll now h (emptyStore n c)", OF _ assms(2-4)] recordAll_props [OF assms(1), of now n c]
  by auto

definition sampleEntry :: "gotime \<Rightarrow> string \<Rightarrow> logEntry" where
  "sampleEntry t msg = zeroEntry\<lparr>le_Time := t, le_Level := ''INFO'', le_Message := msg\<rparr>"

text \<open>Midnight of January 1, 2024.\<close>

definition sampleTime :: gotime where
  "sampleTime = 738885 * day"

lemma storable_sample: "asciiText msg \<Longrightarrow> storable (sampleEntry sampleTime msg)"
  by (simp add: storable_def sampleEntry_def zeroEntry_def entryTexts_def printableTime_def sampleTime_def day_def
      hour_def minute_def second_def)

lemma sample_text:
  "entryText (sampleEntry sampleTime msg) =
     ''{'' @ printStr ''time'' @ '':'' @ printStr (rfc3339Nano sampleTime) @ '','' @ printStr ''level'' @ '':''
       @ printStr ''INFO'' @ '','' @ printStr ''message'' @ '':'' @ printStr msg @ ''}''"
  by (simp add: entryText_def entryJson_def entryMembers_def sampleEntry_def zeroEntry_def textMember_def intMember_def
      attrMember_def)

lemma sample_nanos: "rfc3339Nano sampleTime = ''2024-01-01T00:00:00Z''"
  by code_simp

lemma sorted_sample: "sortedAttrs (sampleEntry t msg) = sampleEntry t msg"
  by (simp add: sortedAttrs_def sampleEntry_def zeroEntry_def)

theorem log_survives_torn_append_witness:
  "\<exists>s'. restart (crashed 60 (sampleEntry sampleTime ''pass'')
        (recordAll 1 [(noFaults, sampleEntry sampleTime ''up''), (noFaults, sampleEntry sampleTime ''ready'')] (emptyStore 3 6)))
      = (None, s') \<and> ls_Entries s' = [sampleEntry sampleTime ''up'', sampleEntry sampleTime ''ready'']"
proof -
  let ?e = "sampleEntry sampleTime ''pass''"
  have h: "list_all recordable [(noFaults, sampleEntry sampleTime ''up''), (noFaults, sampleEntry sampleTime ''ready'')]"
    "storable ?e"
    by (simp_all add: recordable_def storable_sample)
      (simp_all add: sampleEntry_def sampleTime_def day_def hour_def minute_def second_def)
  have k: "60 < length (entryText ?e)" "\<not> midEscape (trim_space (take 60 (entryText ?e)))"
    unfolding sample_text sample_nanos by code_simp+
  show ?thesis
    using log_survives_torn_append [of _ ?e 60 1 3 6, OF h] k by (simp add: sorted_sample newest_def)
qed

section \<open>Restarts that fail\<close>

text \<open>A message with a quotation mark is written with an escape sequence.  When the daemon crashes
  after the backslash, the scanner does not report the end of the input, the line does not end in a
  literal, and the log store cannot be opened any more: the daemon does not start.\<close>

definition quoteEntry :: logEntry where
  "quoteEntry = sampleEntry sampleTime [CHR ''a'', CHR 0x22]"

theorem torn_escape_blocks_restart:
  "storable quoteEntry \<and> fst (restart (crashed 59 quoteEntry (emptyStore 3 6))) =
     Some ''decoding log store line 1: invalid character in JSON text''"
proof -
  have t: "take 59 (entryText quoteEntry @ [CHR 0x0A]) = take 58 (entryText quoteEntry) @ [CHR 0x5C]"
    unfolding quoteEntry_def sample_text sample_nanos by code_simp
  have "loadLines None 1 (split_on (CHR 0x0A) (take 58 (entryText quoteEntry) @ [CHR 0x5C])) =
      Inl ''decoding log store line 1: invalid character in JSON text''"
    unfolding quoteEntry_def sample_text sample_nanos by code_simp
  then show ?thesis
    unfolding restart_def crashed_def t
    by (simp add: load_def noLoadFaults_def emptyStore_def fileBytes_def quoteEntry_def storable_sample)
qed

text \<open>A record that was written without its line break is loaded, and the file is left as it is; the next
  record is appended to the same line.\<close>

lemma glued_line:
  assumes "storable e" "storable e'"
  shows "unmarshalEntry (entryText e @ entryText e') = Inl ''invalid character in JSON text''"
proof -
  let ?s = "entryText e @ entryText e'"
  obtain t where e': "entryText e' = CHR ''{'' # t" using entryText_ends by blast
  have "numberEnd (entryText e')" by (simp add: e' numberEnd_def isDigit_def)
  then have "parseValue (Suc (2 * length ?s)) ?s = Parsed (entryJson e) (entryText e')"
    using print_parts(1) [OF record_plain(1) [OF record_entry [OF assms(1)]]] by (simp add: entryText_def)
  moreover have "skipSpace (entryText e') \<noteq> []" by (simp add: e')
  ultimately have "parseJson ?s = Malformed" by (simp add: parseJson_def)
  then show ?thesis by (simp add: unmarshalEntry_def unmarshal_def)
qed

lemma trim_glued: "trim_space (entryText e @ entryText e') = entryText e @ entryText e'"
proof (rule trim_space_id)
  obtain t u where "entryText e = CHR ''{'' # t" "entryText e' = u @ [CHR ''}'']"
    using entryText_ends by (metis append_Cons)
  then show "entryText e @ entryText e' = [] \<or>
      \<not> is_space (hd (entryText e @ entryText e')) \<and> \<not> is_space (last (entryText e @ entryText e'))"
    by (simp add: is_space_def)
qed

lemma split_fileText_line:
  "list_all storable es \<Longrightarrow> CHR 0x0A \<notin> set w \<Longrightarrow>
   split_on (CHR 0x0A) (fileText es @ w @ [CHR 0x0A]) = map entryText es @ [w, []]"
  by (induction es) (simp_all add: split_on_line entryText_line)

text \<open>C26. When the daemon crashes after the last byte of a record and before its line break, and the buffer
  has room for two more entries (a full one would be compacted), the next start succeeds with the record,
  but the first entry recorded after it is glued to it, and the start after that fails.\<close>

theorem lost_line_break_blocks_restart:
  assumes "storeInv s" "length (ls_Entries s) + 2 \<le> ls_MaxEntries s"
    and "ls_CompactAt s = 0 \<or> length (ls_Entries s) + 2 \<le> ls_CompactAt s"
    and "storable e" "storable e'" "le_Time e' \<noteq> 0"
  shows "\<exists>s1. restart (crashed (length (entryText e)) e s) = (None, s1) \<and>
    fst (Record now Appended cf e' s1) = None \<and>
    fst (restart (snd (Record now Appended cf e' s1))) =
      Some (''decoding log store line '' @ itoa (int (length (ls_Entries s) + 1)) @ '': invalid character in JSON text'')"
proof -
  let ?es = "ls_Entries s" and ?c = "crashed (length (entryText e)) e s"
  have s: "fileBytes s = fileText ?es" "list_all storable ?es"
    using assms(1,2) by (auto simp: storeInv_def)
  have line: "CHR 0x0A \<notin> set (entryText e @ entryText e')" "entryText e \<noteq> []"
    using entryText_line assms(4,5) entryText_ends [of e] by auto
  define s1 where "s1 = ?c\<lparr>ls_Entries := map sortedAttrs (?es @ [e]), ls_FileEntries := Suc (length ?es), ls_Version := 0\<rparr>"
  have "restart ?c = (None, reloaded (map sortedAttrs (?es @ [e])) False ?c)"
    by (rule restart_loaded [where tail = "entryText e"])
      (use s assms line load_last [OF assms(4)] in \<open>auto simp: crashed_def\<close>)
  moreover have "reloaded (map sortedAttrs (?es @ [e])) False ?c = s1"
    using assms(2) by (simp add: reloaded_def s1_def crashed_def)
  ultimately have r: "restart ?c = (None, s1)" by simp
  define s2 where "s2 = appended e' s1"
  have rec: "Record now Appended cf e' s1 = (None, s2)"
    using assms(2,3,5,6) by (auto simp: Record_def encode_storable Let_def s2_def appended_def bufferEntry_def s1_def crashed_def)
  have "ls_File s2 = Some (fileText ?es @ entryText e @ entryText e' @ [CHR 0x0A])"
    by (simp add: s2_def appended_def bufferEntry_def s1_def crashed_def fileBytes_def [of "_\<lparr>ls_File := _\<rparr>"])
      (simp add: fileBytes_def s1_def crashed_def s(1) [unfolded fileBytes_def])
  moreover have "split_on (CHR 0x0A) (fileText ?es @ entryText e @ entryText e' @ [CHR 0x0A]) =
      map entryText ?es @ [entryText e @ entryText e', []]"
    using split_fileText_line [OF s(2) line(1)] by simp
  moreover have "loadLines None n [entryText e @ entryText e', []] =
      Inl (''decoding log store line '' @ itoa (int n) @ '': invalid character in JSON text'')" for n
    using line(2) glued_line [OF assms(4,5)] by (simp add: trim_glued)
  ultimately have "fst (restart s2) =
      Some (''decoding log store line '' @ itoa (int (length ?es + 1)) @ '': invalid character in JSON text'')"
    using load_entries [OF s(2), of "[entryText e @ entryText e', []]" 1]
    by (simp add: restart_def load_def noLoadFaults_def mapResult_def)
  then show ?thesis using r rec by auto
qed

theorem lost_line_break_blocks_restart_witness:
  "\<exists>s1. restart (crashed (length (entryText (sampleEntry sampleTime ''up''))) (sampleEntry sampleTime ''up'') (emptyStore 3 6)) =
      (None, s1) \<and>
    fst (Record 1 Appended noFaults (sampleEntry sampleTime ''on'') s1) = None \<and>
    fst (restart (snd (Record 1 Appended noFaults (sampleEntry sampleTime ''on'') s1))) =
      Some ''decoding log store line 1: invalid character in JSON text''"
proof -
  have s: "storeInv (emptyStore 3 6)" "ls_Entries (emptyStore 3 6) = []" "ls_MaxEntries (emptyStore 3 6) = 3"
    "ls_CompactAt (emptyStore 3 6) = 6"
    by (simp_all add: emptyStore_def storeInv_def fileBytes_def)
  have t: "le_Time (sampleEntry sampleTime ''on'') \<noteq> 0"
    by (simp add: sampleEntry_def sampleTime_def day_def hour_def minute_def second_def)
  have one: "itoa 1 = ''1''" by code_simp
  show ?thesis
    using lost_line_break_blocks_restart [OF s(1), of "sampleEntry sampleTime ''up''" "sampleEntry sampleTime ''on''" 1 noFaults] s t
    by (simp add: storable_sample one)
qed

text \<open>Once the buffer is full every record rewrites the whole file: the threshold of twice the buffer, at which
  the file would be compacted, is not reached while compactions succeed.\<close>

lemma full_buffer_compacts:
  assumes "storable e" "le_Time e \<noteq> 0" "length (ls_Entries s) = ls_MaxEntries s"
  shows "Record now Appended cf e s = compactLocked cf (appended e s)"
  using assms by (simp add: Record_def encode_storable appended_def bufferEntry_def Let_def)

end
