(* ===== verification/Log_Query.thy ===== *)
theory Log_Query
  imports Log_Store Webhook
begin

text \<open>
  Queries of the log store in \<open>internal/daemon/logs.go\<close>, their form in a URL, and the handler of
  \<open>/logs\<close> in \<open>webhook.go\<close>.  \<open>query_newest_first\<close>: the loop of \<open>Query\<close> against a reference;
  \<open>logs_response\<close>: who gets an answer, and that it is a complete one.
\<close>

section \<open>Matching\<close>

record logQuery =
  lq_Limit :: int
  lq_Since :: gotime
  lq_Until :: gotime
  lq_Level :: string
  lq_Component :: string
  lq_EventType :: string
  lq_Action :: string
  lq_Repo :: string
  lq_Workflow :: string
  lq_Job :: string
  lq_Runner :: string
  lq_Commit :: string
  lq_Branch :: string
  lq_Search :: string

definition normalizeLimit :: "int \<Rightarrow> int" where
  "normalizeLimit limit =
     (if limit \<le> 0 then defaultLogQueryLimit
      else if limit > maxLogQueryLimit then maxLogQueryLimit
      else limit)"

definition containsFold :: "string \<Rightarrow> string \<Rightarrow> bool" where
  "containsFold haystack needle = (if needle = [] then True else contains (to_lower haystack) (to_lower needle))"

definition logEntryContains :: "logEntry \<Rightarrow> string \<Rightarrow> bool" where
  "logEntryContains e query =
     (list_ex (\<lambda>field. containsFold field query)
        [le_Message e, le_Detail e, le_Repo e, le_Workflow e, le_Job e, le_Runner e, le_Container e,
         le_Commit e, le_Branch e, le_Error e]
      \<or> list_ex (\<lambda>(key, value). containsFold key query \<or> containsFold value query) (le_Attributes e))"

definition matchesLogQuery :: "logEntry \<Rightarrow> logQuery \<Rightarrow> bool" where
  "matchesLogQuery e q =
     (if \<not> isZero (lq_Since q) \<and> le_Time e < lq_Since q then False
      else if \<not> isZero (lq_Until q) \<and> le_Time e > lq_Until q then False
      else if lq_Level q \<noteq> [] \<and> \<not> equal_fold (le_Level e) (lq_Level q) then False
      else if lq_Component q \<noteq> [] \<and> \<not> equal_fold (le_Component e) (lq_Component q) then False
      else if lq_EventType q \<noteq> [] \<and> \<not> equal_fold (le_EventType e) (lq_EventType q) then False
      else if lq_Action q \<noteq> [] \<and> \<not> equal_fold (le_Action e) (lq_Action q) then False
      else if lq_Repo q \<noteq> [] \<and> \<not> equal_fold (le_Repo e) (lq_Repo q) then False
      else if lq_Workflow q \<noteq> [] \<and> \<not> containsFold (le_Workflow e) (lq_Workflow q) then False
      else if lq_Job q \<noteq> [] \<and> \<not> containsFold (le_Job e) (lq_Job q) then False
      else if lq_Runner q \<noteq> [] \<and> \<not> equal_fold (le_Runner e) (lq_Runner q)
              \<and> \<not> equal_fold (le_Container e) (lq_Runner q) then False
      else if lq_Commit q \<noteq> [] \<and> \<not> has_prefix (to_lower (le_Commit e)) (to_lower (lq_Commit q)) then False
      else if lq_Branch q \<noteq> [] \<and> \<not> equal_fold (le_Branch e) (lq_Branch q) then False
      else if lq_Search q \<noteq> [] \<and> \<not> logEntryContains e (lq_Search q) then False
      else True)"

text \<open>The loop over the entries from the last one down; \<open>newer\<close> are those before index \<open>i\<close>, the newest
  first.\<close>

fun queryLoop :: "logQuery \<Rightarrow> int \<Rightarrow> logEntry list \<Rightarrow> logEntry list \<Rightarrow> logEntry list" where
  "queryLoop q limit [] results = results"
| "queryLoop q limit (e # newer) results =
     (if \<not> matchesLogQuery e q then queryLoop q limit newer results
      else (let results = results @ [e] in
            if int (length results) = limit then results else queryLoop q limit newer results))"

definition Query :: "logQuery \<Rightarrow> LogStore \<Rightarrow> logEntry list" where
  "Query q s = queryLoop q (normalizeLimit (lq_Limit q)) (rev (ls_Entries s)) []"

section \<open>Queries in a URL\<close>

type_synonym urlValues = "(string \<times> string list) list"

definition firstQueryValue :: "urlValues \<Rightarrow> string \<Rightarrow> string" where
  "firstQueryValue values key =
     (case map_of values key of None \<Rightarrow> [] | Some vs \<Rightarrow> (case vs of [] \<Rightarrow> [] | v # rest \<Rightarrow> trim_space v))"

definition parseOptionalTime :: "string \<Rightarrow> gotime result" where
  "parseOptionalTime value =
     (if value = [] then Inr 0
      else (case parseRfc3339 value of
              None \<Rightarrow> Inl (''invalid time '' @ quoted value @ '', expected RFC3339'')
            | Some t \<Rightarrow> Inr t))"

definition parseLimit :: "string \<Rightarrow> int result" where
  "parseLimit limitText =
     (if limitText \<noteq> [] then
        (case parse_int limitText of None \<Rightarrow> Inl (''invalid limit '' @ quoted limitText) | Some l \<Rightarrow> Inr l)
      else Inr 0)"

definition parseLogQuery :: "urlValues \<Rightarrow> logQuery result" where
  "parseLogQuery values =
     (case parseLimit (firstQueryValue values ''limit'') of
        Inl err \<Rightarrow> Inl err
      | Inr limit \<Rightarrow>
     (case parseOptionalTime (firstQueryValue values ''since'') of
        Inl err \<Rightarrow> Inl err
      | Inr since \<Rightarrow>
     (case parseOptionalTime (firstQueryValue values ''until'') of
        Inl err \<Rightarrow> Inl err
      | Inr until \<Rightarrow>
          Inr \<lparr>lq_Limit = limit, lq_Since = since, lq_Until = until,
               lq_Level = firstQueryValue values ''level'', lq_Component = firstQueryValue values ''component'',
               lq_EventType = firstQueryValue values ''event_type'', lq_Action = firstQueryValue values ''action'',
               lq_Repo = firstQueryValue values ''repo'', lq_Workflow = firstQueryValue values ''workflow'',
               lq_Job = firstQueryValue values ''job'', lq_Runner = firstQueryValue values ''runner'',
               lq_Commit = firstQueryValue values ''commit'', lq_Branch = firstQueryValue values ''branch'',
               lq_Search = firstQueryValue values ''q''\<rparr>)))"

section \<open>The handler of /logs\<close>

definition logResponseJson :: "logEntry list \<Rightarrow> json" where
  "logResponseJson es = JObj [(''count'', JNum (itoa (int (length es)))), (''entries'', JArr (map entryJson es))]"

text \<open>The encoder writes nothing when an entry cannot be encoded; the error is logged then.\<close>

definition encodeLogResponse :: "logEntry list \<Rightarrow> string result" where
  "encodeLogResponse es =
     (if list_all (\<lambda>e. yearInRange (le_Time e)) es then Inr (printJson (logResponseJson es) @ [CHR 0x0A])
      else Inl ''json: error calling MarshalJSON for type time.Time: year outside of range [0,9999]'')"

definition handleLogs :: "daemonConfig \<Rightarrow> LogStore option \<Rightarrow> urlValues \<Rightarrow> httpRequest \<Rightarrow> httpResponse \<times> gerror option" where
  "handleLogs cfg logStore values r =
     (if hr_Method r \<noteq> ''GET'' then ((405, ''method not allowed''), None)
      else (case logStore of
        None \<Rightarrow> ((503, ''log store unavailable''), None)
      | Some store \<Rightarrow>
          (if \<not> authorizeLogsRequest cfg r then ((401, ''unauthorized''), None)
           else (case parseLogQuery values of
               Inl err \<Rightarrow> ((400, err), None)
             | Inr query \<Rightarrow>
                 (case encodeLogResponse (Query query store) of
                    Inl err \<Rightarrow> ((200, []), Some err)
                  | Inr body \<Rightarrow> ((200, body), None))))))"

section \<open>Properties\<close>

lemma queryLoop_take:
  assumes "int (length results) < limit"
  shows "queryLoop q limit es results =
    results @ take (nat limit - length results) (filter (\<lambda>e. matchesLogQuery e q) es)"
  using assms
proof (induction es arbitrary: results)
  case (Cons e es)
  show ?case
  proof (cases "matchesLogQuery e q")
    case True
    show ?thesis
    proof (cases "int (length (results @ [e])) = limit")
      case last: True
      then have "nat limit - length results = Suc 0" by simp
      then show ?thesis using True last by simp
    next
      case False
      then have "nat limit - length results = Suc (nat limit - length (results @ [e]))" using Cons.prems by simp
      then show ?thesis using True False Cons.IH [of "results @ [e]"] Cons.prems by simp
    qed
  qed (use Cons in simp)
qed simp

lemma limit_bounds: "1 \<le> normalizeLimit l" "normalizeLimit l \<le> 1000"
  by (simp_all add: normalizeLimit_def defaultLogQueryLimit_def maxLogQueryLimit_def)

lemma query_filter:
  "Query q s = take (nat (normalizeLimit (lq_Limit q))) (filter (\<lambda>e. matchesLogQuery e q) (rev (ls_Entries s)))"
  using queryLoop_take [of "[]" "normalizeLimit (lq_Limit q)" q] limit_bounds [of "lq_Limit q"]
  by (simp add: Query_def)

text \<open>C27. A query returns the entries that match, the newest first, and of those at most the limit: 200 when
  none is asked for, never more than 1000.\<close>

theorem query_newest_first:
  "Query q s = take (nat (normalizeLimit (lq_Limit q))) (filter (\<lambda>e. matchesLogQuery e q) (rev (ls_Entries s))) \<and>
   length (Query q s) \<le> 1000"
  using query_filter [of q s] limit_bounds [of "lq_Limit q"] by simp

lemma query_storable: "list_all storable (ls_Entries s) \<Longrightarrow> list_all storable (Query q s)"
  by (auto simp: query_filter list_all_iff dest!: in_set_takeD)

lemma plain_response: "list_all storable es \<Longrightarrow> plainJson (logResponseJson es)"
proof -
  assume "list_all storable es"
  then have "plainItems (map entryJson es)" by (induction es) (auto intro: record_plain(1) record_entry)
  then show ?thesis by (auto simp: logResponseJson_def)
qed

text \<open>C28. \<open>/logs\<close> answers only a GET that carries the configured token, and the token must not be empty; the
  body of the answer is JSON that gives the number of the entries and the entries themselves, and a
  reader of it gets every one of them back.\<close>

theorem logs_response:
  assumes "handleLogs cfg (Some s) values r = ((200, body), None)" "list_all storable (ls_Entries s)"
  shows "hr_Method r = ''GET'' \<and> trim_space (dc_LogsToken cfg) \<noteq> [] \<and>
    trim_space (hr_Authorization r) = ''Bearer '' @ trim_space (dc_LogsToken cfg) \<and>
    (\<exists>q. parseLogQuery values = Inr q \<and>
      parseJson (butlast body) = Parsed (JObj [(''count'', JNum (itoa (int (length (Query q s))))),
                                              (''entries'', JArr (map entryJson (Query q s)))]) [])"
proof -
  obtain q where q: "hr_Method r = ''GET''" "authorizeLogsRequest cfg r" "parseLogQuery values = Inr q"
      "encodeLogResponse (Query q s) = Inr body"
    using assms(1) by (auto simp: handleLogs_def split: if_splits sum.splits)
  have j: "plainJson (logResponseJson (Query q s))"
    using plain_response [OF query_storable [OF assms(2)]] .
  have body: "body = printJson (logResponseJson (Query q s)) @ [CHR 0x0A]"
    using q(4) by (simp add: encodeLogResponse_def split: if_splits)
  have "butlast body = printJson (logResponseJson (Query q s))" unfolding body by (rule butlast_snoc)
  then have "parseJson (butlast body) = Parsed (logResponseJson (Query q s)) []" using parse_print [OF j] by simp
  then show ?thesis
    using q(1-3) authorized_iff [of cfg r] by (auto simp: logResponseJson_def)
qed

definition sampleLogs :: LogStore where
  "sampleLogs = (emptyStore 5 10)\<lparr>ls_Entries :=
     [sampleEntry sampleTime ''up'', sampleEntry sampleTime ''ready'', sampleEntry sampleTime ''Upgrade'']\<rparr>"

definition logsConfig :: daemonConfig where
  "logsConfig = \<lparr>dc_Prefix = ''ci'', dc_PollInterval = minute, dc_QueueAuditInterval = hour, dc_WebhookEnabled = True,
     dc_WebhookPort = 8080, dc_WebhookDebounce = second, dc_LogsToken = ''s3cret'', dc_MetricsEnabled = False,
     dc_MetricsInterval = minute, dc_CollectWorkflows = False, dc_CollectHost = False, dc_CachePool = [],
     dc_StateDir = [], dc_DemandTTL = hour, dc_DistributionVersionFile = [], dc_SyncRepos = []\<rparr>"

definition logsRequest :: httpRequest where
  "logsRequest = \<lparr>hr_Method = ''GET'', hr_Path = ''/logs'', hr_Body = Inr [], hr_Signature = [], hr_EventType = [],
     hr_Authorization = ''Bearer s3cret''\<rparr>"

theorem logs_response_witness:
  "\<exists>q. parseLogQuery [(''q'', ['' UP'']), (''limit'', [''1''])] = Inr q \<and>
     parseJson (printJson (logResponseJson [sampleEntry sampleTime ''Upgrade''])) =
       Parsed (JObj [(''count'', JNum (itoa (int (length (Query q sampleLogs))))),
                     (''entries'', JArr (map entryJson (Query q sampleLogs)))]) []"
proof -
  have h: "handleLogs logsConfig (Some sampleLogs) [(''q'', ['' UP'']), (''limit'', [''1''])] logsRequest =
      ((200, printJson (logResponseJson [sampleEntry sampleTime ''Upgrade'']) @ [CHR 0x0A]), None)"
    by code_simp
  have s: "list_all storable (ls_Entries sampleLogs)"
    by (simp add: sampleLogs_def storable_sample)
  show ?thesis using logs_response [OF h s] by (simp only: butlast_snoc)
qed

end
