(* ===== verification/Go_Duration.thy ===== *)
theory Go_Duration
  imports Go_Time "HOL-Library.Log_Nat"
begin

text \<open>
  The text form of durations: \<open>Duration.String\<close> and \<open>ParseDuration\<close> of package \<open>time\<close>, with the 64 bit
  floating-point arithmetic the latter uses for fractions.
\<close>

section \<open>Printing\<close>

text \<open>\<open>Duration.String\<close>: seconds with a fraction of nine digits without trailing zeros after hours and
  minutes; below a second a smaller unit.\<close>

definition decimals :: "nat \<Rightarrow> int \<Rightarrow> string" where
  "decimals p u =
     (let v = u mod 10 ^ p in
      if v = 0 then [] else CHR ''.'' # rev (dropWhile (\<lambda>c. c = CHR ''0'') (rev (pad p v))))"

definition microSign :: string where
  "microSign = [char_of (194 :: nat), char_of (181 :: nat)]"

definition durationString :: "duration \<Rightarrow> string" where
  "durationString d =
     (let u = \<bar>d\<bar>;
          s = (if u = 0 then ''0s''
               else if u < 1000 then itoa u @ ''ns''
               else if u < 1000000 then itoa (u div 1000) @ decimals 3 u @ microSign @ ''s''
               else if u < second then itoa (u div 1000000) @ decimals 6 u @ ''ms''
               else (let w = u div second; m = w div 60; h = m div 60 in
                  (if m > 0 then (if h > 0 then itoa h @ ''h'' else []) @ itoa (m mod 60) @ ''m'' else [])
                  @ itoa (w mod 60) @ decimals 9 u @ ''s''))
      in if d < 0 then CHR ''-'' # s else s)"

section \<open>Floating point\<close>

text \<open>A positive rational rounded to 53 significant bits, to the nearest, ties to even; \<open>binaryExponent x\<close>
  is the exponent of the largest power of two that is at most \<open>x\<close>.  Exponents are unbounded: where those of a \<open>float64\<close> are
  exceeded below, the result is less than 1 either way.\<close>

definition binaryExponent :: "rat \<Rightarrow> int" where
  "binaryExponent x =
     (let (a, b) = quotient_of x; e = int (floorlog 2 (nat a)) - int (floorlog 2 (nat b))
      in if x < 2 powi e then e - 1 else e)"

definition roundEven :: "rat \<Rightarrow> int" where
  "roundEven x =
     (let n = \<lfloor>x\<rfloor>; r = x - of_int n in
      if r < 1 / 2 then n else if 1 / 2 < r then n + 1 else if even n then n else n + 1)"

definition float64 :: "rat \<Rightarrow> rat" where
  "float64 x =
     (if x = 0 then 0
      else let ulp = 2 powi (binaryExponent x - 52) in of_int (roundEven (x / ulp)) * ulp)"

section \<open>Parsing\<close>

text \<open>\<open>leadingInt\<close>: the leading digits and the rest; \<open>None\<close> when they exceed 2^63.\<close>

definition digitValue :: "char \<Rightarrow> nat" where
  "digitValue c = of_char c - 48"

fun leadingInt :: "nat \<Rightarrow> string \<Rightarrow> (nat \<times> string) option" where
  "leadingInt x [] = Some (x, [])"
| "leadingInt x (c # s) =
     (if \<not> isDigit c then Some (x, c # s)
      else if x > 2 ^ 63 div 10 then None
      else let x = x * 10 + digitValue c in if x > 2 ^ 63 then None else leadingInt x s)"

text \<open>\<open>leadingFraction\<close>: the digits are \<open>x\<close>, in units of \<open>1 / scale\<close>; after an overflow they are skipped.\<close>

fun leadingFraction :: "nat \<Rightarrow> rat \<Rightarrow> bool \<Rightarrow> string \<Rightarrow> nat \<times> rat \<times> string" where
  "leadingFraction x scale overflow [] = (x, scale, [])"
| "leadingFraction x scale overflow (c # s) =
     (if \<not> isDigit c then (x, scale, c # s)
      else if overflow \<or> x > (2 ^ 63 - 1) div 10 then leadingFraction x scale True s
      else let y = x * 10 + digitValue c in
        if y > 2 ^ 63 then leadingFraction x scale True s
        else leadingFraction y (float64 (scale * 10)) False s)"

definition unitMap :: "string \<Rightarrow> int option" where
  "unitMap = map_of [(''ns'', 1), (''us'', 1000), (microSign @ ''s'', 1000),
     ([char_of (206 :: nat), char_of (188 :: nat)] @ ''s'', 1000),
     (''ms'', 1000000), (''s'', second), (''m'', minute), (''h'', hour)]"

text \<open>\<open>quote\<close> of package \<open>time\<close> escapes what is not printable ASCII byte by byte.\<close>

definition timeQuote :: "string \<Rightarrow> string" where
  "timeQuote s = [CHR 0x22] @ concat (map (\<lambda>c. let n = (of_char c :: nat) in
       if n \<ge> 128 \<or> n < 32 then [CHR 0x5C, CHR ''x'', hexLower (n div 16), hexLower (n mod 16)]
       else if c = CHR 0x22 \<or> c = CHR 0x5C then [CHR 0x5C, c] else [c]) s) @ [CHR 0x22]"

definition invalidDuration :: "string \<Rightarrow> gerror" where
  "invalidDuration orig = ''time: invalid duration '' @ timeQuote orig"

text \<open>One term, a number and its unit: the nanoseconds and the rest.\<close>

definition unitEnd :: "char \<Rightarrow> bool" where
  "unitEnd c \<longleftrightarrow> c = CHR ''.'' \<or> isDigit c"

definition termValue :: "string \<Rightarrow> nat \<Rightarrow> nat \<Rightarrow> rat \<Rightarrow> string \<Rightarrow> (nat \<times> string) result" where
  "termValue orig v f scale s =
     (let u = takeWhile (\<lambda>c. \<not> unitEnd c) s in
      if u = [] then Inl (''time: missing unit in duration '' @ timeQuote orig)
      else case unitMap u of
        None \<Rightarrow> Inl (''time: unknown unit '' @ timeQuote u @ '' in duration '' @ timeQuote orig)
      | Some unit \<Rightarrow>
          if v > 2 ^ 63 div nat unit then Inl (invalidDuration orig)
          else let v = v * nat unit;
                   v = (if f > 0 then v + nat \<lfloor>float64 (float64 (of_nat f) * float64 (of_int unit / scale))\<rfloor> else v)
               in if v > 2 ^ 63 then Inl (invalidDuration orig) else Inr (v, drop (length u) s))"

definition durationTerm :: "string \<Rightarrow> string \<Rightarrow> (nat \<times> string) result" where
  "durationTerm orig s =
     (if s = [] \<or> \<not> unitEnd (hd s) then Inl (invalidDuration orig)
      else case leadingInt 0 s of
        None \<Rightarrow> Inl (invalidDuration orig)
      | Some (v, s1) \<Rightarrow>
          let pre = length s1 \<noteq> length s;
              (f, scale, s2, post) =
                (if s1 \<noteq> [] \<and> hd s1 = CHR ''.''
                 then (case leadingFraction 0 1 False (tl s1) of (f, scale, s2) \<Rightarrow>
                         (f, scale, s2, length s2 \<noteq> length (tl s1)))
                 else (0, 1, s1, False))
          in if \<not> pre \<and> \<not> post then Inl (invalidDuration orig)
             else termValue orig v f scale s2)"

lemma leadingInt_length: "leadingInt x s = Some (v, s') \<Longrightarrow> length s' \<le> length s"
  by (induction x s rule: leadingInt.induct) (auto simp: Let_def split: if_splits)

lemma leadingFraction_length: "leadingFraction x scale ovf s = (f, scale', s') \<Longrightarrow> length s' \<le> length s"
proof (induction x scale ovf s rule: leadingFraction.induct)
  case (2 x scale ovf c s)
  then show ?case by (fastforce simp: Let_def split: if_splits)
qed simp

lemma termValue_length: "termValue orig v f scale s = Inr (n, s') \<Longrightarrow> length s' < length s"
  by (cases s) (auto simp: termValue_def Let_def split: if_splits option.splits)

lemma durationTerm_length:
  assumes "durationTerm orig s = Inr (v, s')" shows "length s' < length s"
proof -
  obtain v1 s1 where s1: "leadingInt 0 s = Some (v1, s1)"
    using assms by (auto simp: durationTerm_def split: if_splits option.splits)
  obtain f scale s2 where s2: "leadingFraction 0 1 False (tl s1) = (f, scale, s2)" by (metis prod_cases3)
  have "length s1 \<le> length s" "length s2 \<le> length (tl s1)" "length (tl s1) \<le> length s1"
    using leadingInt_length [OF s1] leadingFraction_length [OF s2] by simp_all
  moreover have "length s' < length s1 \<or> length s' < length s2"
    using assms s1 s2 by (auto simp: durationTerm_def Let_def dest!: termValue_length split: if_splits)
  ultimately show ?thesis by linarith
qed

text \<open>The terms are added up in 64 bits without sign.\<close>

function durationTerms :: "string \<Rightarrow> nat \<Rightarrow> string \<Rightarrow> nat result" where
  "durationTerms orig d s =
     (if s = [] then Inr d
      else case durationTerm orig s of
        Inl err \<Rightarrow> Inl err
      | Inr (v, s') \<Rightarrow>
          let d = (d + v) mod 2 ^ 64 in
          if d > 2 ^ 63 then Inl (invalidDuration orig) else durationTerms orig d s')"
  by pat_completeness auto
termination
  by (relation "measure (\<lambda>(orig, d, s). length s)") (auto dest: durationTerm_length)

declare durationTerms.simps [simp del]

definition parseDuration :: "string \<Rightarrow> duration result" where
  "parseDuration orig =
     (let (neg, s) = (case orig of [] \<Rightarrow> (False, [])
        | c # t \<Rightarrow> if c = CHR ''-'' \<or> c = CHR ''+'' then (c = CHR ''-'', t) else (False, orig))
      in if s = ''0'' then Inr 0
         else if s = [] then Inl (invalidDuration orig)
         else case durationTerms orig 0 s of
           Inl err \<Rightarrow> Inl err
         | Inr d \<Rightarrow>
             if neg then Inr (- int d)
             else if d > 2 ^ 63 - 1 then Inl (invalidDuration orig)
             else Inr (int d))"

end
