(* ===== verification/Log_Handler.thy ===== *)
theory Log_Handler
  imports Log_Store Webhook Go_Duration
begin

text \<open>
  The \<open>slog\<close> handler of \<open>internal/daemon/logs.go\<close> that mirrors every record of the daemon's logger
  into the log store: \<open>buildLogEntry\<close> flattens groups into dotted keys and moves the known keys into
  the fields of the entry.  Values are resolved; a value that is neither an error nor one of the basic
  kinds is given by the string \<open>fmt.Sprint\<close> makes of it, and the decimal form of a floating
  point number is a parameter.
\<close>

section \<open>Values\<close>

datatype slogValue =
    VString string
  | VInt64 int
  | VUint64 nat
  | VFloat64 rat
  | VBool bool
  | VDuration duration
  | VTime gotime
  | VError gerror
  | VAny string
  | VNil
  | VGroup "(string \<times> slogValue) list"

fun slogValueString :: "(rat \<Rightarrow> string) \<Rightarrow> slogValue \<Rightarrow> string" where
  "slogValueString ff (VString s) = s"
| "slogValueString ff (VInt64 i) = itoa i"
| "slogValueString ff (VUint64 n) = nat_dec n"
| "slogValueString ff (VFloat64 x) = ff x"
| "slogValueString ff (VBool b) = (if b then ''true'' else ''false'')"
| "slogValueString ff (VDuration d) = durationString d"
| "slogValueString ff (VTime t) = rfc3339Nano t"
| "slogValueString ff (VError err) = err"
| "slogValueString ff (VAny s) = s"
| "slogValueString ff VNil = ''<nil>''"
| "slogValueString ff (VGroup attrs) = []"

definition parseLogInt :: "string \<Rightarrow> int" where
  "parseLogInt value = (case parse_int value of None \<Rightarrow> 0 | Some i \<Rightarrow> i)"

section \<open>Building an entry\<close>

definition setLogField :: "logEntry \<Rightarrow> string \<Rightarrow> string \<Rightarrow> logEntry" where
  "setLogField e key v =
     (if key = ''component'' then e\<lparr>le_Component := v\<rparr>
      else if key = ''event_type'' then e\<lparr>le_EventType := v\<rparr>
      else if key = ''action'' then e\<lparr>le_Action := v\<rparr>
      else if key = ''repo'' then e\<lparr>le_Repo := v\<rparr>
      else if key = ''workflow'' then e\<lparr>le_Workflow := v\<rparr>
      else if key = ''job'' then e\<lparr>le_Job := v\<rparr>
      else if key = ''job_id'' then e\<lparr>le_JobID := parseLogInt v\<rparr>
      else if key = ''runner'' then e\<lparr>le_Runner := v\<rparr>
      else if key = ''container'' then e\<lparr>le_Container := v\<rparr>
      else if key = ''commit'' then e\<lparr>le_Commit := v\<rparr>
      else if key = ''branch'' then e\<lparr>le_Branch := v\<rparr>
      else if key = ''status'' then e\<lparr>le_Status := v\<rparr>
      else if key = ''conclusion'' then e\<lparr>le_Conclusion := v\<rparr>
      else if key = ''detail'' then e\<lparr>le_Detail := v\<rparr>
      else if key = ''cache_path'' then e\<lparr>le_CachePath := v\<rparr>
      else if key = ''run_id'' then e\<lparr>le_RunID := parseLogInt v\<rparr>
      else if key = ''run_attempt'' then e\<lparr>le_RunAttempt := parseLogInt v\<rparr>
      else if key = ''error'' then e\<lparr>le_Error := v\<rparr>
      else e\<lparr>le_Attributes := AList.update key v (le_Attributes e)\<rparr>)"

text \<open>The empty attribute is skipped; the attributes of a group are applied one after the other.\<close>

fun applyLogAttr :: "(rat \<Rightarrow> string) \<Rightarrow> string list \<Rightarrow> string \<times> slogValue \<Rightarrow> logEntry \<Rightarrow> logEntry"
and applyLogAttrs :: "(rat \<Rightarrow> string) \<Rightarrow> string list \<Rightarrow> (string \<times> slogValue) list \<Rightarrow> logEntry \<Rightarrow> logEntry" where
  "applyLogAttr ff groups (key, v) e =
     (if key = [] \<and> v = VNil then e
      else (let keyParts = (if key \<noteq> [] then groups @ [key] else groups) in
            case v of
              VGroup attrs \<Rightarrow> applyLogAttrs ff keyParts attrs e
            | _ \<Rightarrow> setLogField e (join ''.'' keyParts) (slogValueString ff v)))"
| "applyLogAttrs ff groups [] e = e"
| "applyLogAttrs ff groups (a # as) e = applyLogAttrs ff groups as (applyLogAttr ff groups a e)"

record slogRecord =
  sr_Time :: gotime
  sr_Level :: string
  sr_Message :: string
  sr_Attrs :: "(string \<times> slogValue) list"

definition buildLogEntry ::
  "(rat \<Rightarrow> string) \<Rightarrow> slogRecord \<Rightarrow> (string \<times> slogValue) list \<Rightarrow> string list \<Rightarrow> logEntry" where
  "buildLogEntry ff r baseAttrs groups =
     (let e = zeroEntry\<lparr>le_Time := sr_Time r, le_Level := sr_Level r, le_Message := sr_Message r\<rparr>;
          e = applyLogAttrs ff groups baseAttrs e;
          e = applyLogAttrs ff groups (sr_Attrs r) e
      in if le_Runner e = [] \<and> le_Container e \<noteq> [] then e\<lparr>le_Runner := le_Container e\<rparr> else e)"

section \<open>The handler\<close>

text \<open>The state of a handler is its attributes and groups; \<open>nextErr\<close> is what the handler it wraps
  returns for the record.\<close>

record logStoreHandler =
  lh_store :: "LogStore option"
  lh_attrs :: "(string \<times> slogValue) list"
  lh_groups :: "string list"

definition NewLogHandler :: "LogStore option \<Rightarrow> logStoreHandler" where
  "NewLogHandler store = \<lparr>lh_store = store, lh_attrs = [], lh_groups = []\<rparr>"

definition WithAttrs :: "(string \<times> slogValue) list \<Rightarrow> logStoreHandler \<Rightarrow> logStoreHandler" where
  "WithAttrs attrs h = h\<lparr>lh_attrs := lh_attrs h @ attrs\<rparr>"

definition WithGroup :: "string \<Rightarrow> logStoreHandler \<Rightarrow> logStoreHandler" where
  "WithGroup name h = h\<lparr>lh_groups := lh_groups h @ [name]\<rparr>"

definition Handle ::
  "(rat \<Rightarrow> string) \<Rightarrow> gotime \<Rightarrow> appendFault \<Rightarrow> compactFaults \<Rightarrow> gerror option \<Rightarrow> slogRecord \<Rightarrow> logStoreHandler \<Rightarrow>
   gerror option \<times> logStoreHandler" where
  "Handle ff now af cf nextErr r h =
     (case lh_store h of
        None \<Rightarrow> (nextErr, h)
      | Some store \<Rightarrow>
          (case Record now af cf (buildLogEntry ff r (lh_attrs h) (lh_groups h)) store of
             (Some storeErr, store') \<Rightarrow> (if nextErr = None then Some storeErr else nextErr, h\<lparr>lh_store := Some store'\<rparr>)
           | (None, store') \<Rightarrow> (nextErr, h\<lparr>lh_store := Some store'\<rparr>)))"

section \<open>What is mirrored\<close>

fun slogOf :: "logVal \<Rightarrow> slogValue" where
  "slogOf (LStr s) = VString s"
| "slogOf (LInt i) = VInt64 i"
| "slogOf (LBool b) = VBool b"
| "slogOf (LDur d) = VDuration d"

definition slogAttrs :: "logAttrs \<Rightarrow> (string \<times> slogValue) list" where
  "slogAttrs attrs = map (\<lambda>(k, v). (k, slogOf v)) attrs"

lemma slogAttrs_simps [simp]:
  "slogAttrs [] = []" "slogAttrs ((k, v) # as) = (k, slogOf v) # slogAttrs as" "slogAttrs (as @ bs) = slogAttrs as @ slogAttrs bs"
  by (simp_all add: slogAttrs_def)

lemma applyLogAttrs_append:
  "applyLogAttrs ff gs (as @ bs) e = applyLogAttrs ff gs bs (applyLogAttrs ff gs as e)"
  by (induction as arbitrary: e) simp_all

lemma setLogField_goMap: "goMap (le_Attributes e) \<Longrightarrow> goMap (le_Attributes (setLogField e k v))"
  by (simp add: setLogField_def)

lemma apply_goMap:
  "goMap (le_Attributes e) \<Longrightarrow> goMap (le_Attributes (applyLogAttr ff gs a e))"
  "goMap (le_Attributes e) \<Longrightarrow> goMap (le_Attributes (applyLogAttrs ff gs as e))"
proof (induction gs a e and gs as e rule: applyLogAttr_applyLogAttrs.induct)
  case (1 ff gs key v e)
  then show ?case by (cases v) (auto simp: Let_def setLogField_goMap)
qed simp_all

lemma parseLogInt_itoa: "- (2 ^ 63) \<le> i \<Longrightarrow> i < 2 ^ 63 \<Longrightarrow> parseLogInt (itoa i) = i"
  by (simp add: parseLogInt_def parse_int_itoa)

abbreviation int64 :: "int \<Rightarrow> bool" where
  "int64 i \<equiv> - (2 ^ 63) \<le> i \<and> i < 2 ^ 63"

lemma apply_optional:
  "le_Workflow e = [] \<Longrightarrow> applyLogAttrs ff [] (slogAttrs (optStr ''workflow'' v)) e = e\<lparr>le_Workflow := v\<rparr>"
  "le_Job e = [] \<Longrightarrow> applyLogAttrs ff [] (slogAttrs (optStr ''job'' v)) e = e\<lparr>le_Job := v\<rparr>"
  "le_Runner e = [] \<Longrightarrow> applyLogAttrs ff [] (slogAttrs (optStr ''runner'' v)) e = e\<lparr>le_Runner := v\<rparr>"
  "le_Commit e = [] \<Longrightarrow> applyLogAttrs ff [] (slogAttrs (optStr ''commit'' v)) e = e\<lparr>le_Commit := v\<rparr>"
  "le_Branch e = [] \<Longrightarrow> applyLogAttrs ff [] (slogAttrs (optStr ''branch'' v)) e = e\<lparr>le_Branch := v\<rparr>"
  "le_Status e = [] \<Longrightarrow> applyLogAttrs ff [] (slogAttrs (optStr ''status'' v)) e = e\<lparr>le_Status := v\<rparr>"
  "le_Conclusion e = [] \<Longrightarrow> applyLogAttrs ff [] (slogAttrs (optStr ''conclusion'' v)) e = e\<lparr>le_Conclusion := v\<rparr>"
  "le_JobID e = 0 \<Longrightarrow> int64 i \<Longrightarrow> applyLogAttrs ff [] (slogAttrs (optInt ''job_id'' i)) e = e\<lparr>le_JobID := i\<rparr>"
  "le_RunID e = 0 \<Longrightarrow> int64 i \<Longrightarrow> applyLogAttrs ff [] (slogAttrs (optInt ''run_id'' i)) e = e\<lparr>le_RunID := i\<rparr>"
  "le_RunAttempt e = 0 \<Longrightarrow> int64 i \<Longrightarrow> applyLogAttrs ff [] (slogAttrs (optInt ''run_attempt'' i)) e = e\<lparr>le_RunAttempt := i\<rparr>"
  by (simp_all add: optStr_def optInt_def setLogField_def parseLogInt_itoa Let_def)

text \<open>The record of a webhook event, as \<open>logWebhookEvent\<close> logs it.\<close>

definition webhookRecord :: "gotime \<Rightarrow> webhookEvent \<Rightarrow> slogRecord" where
  "webhookRecord t e =
     \<lparr>sr_Time = t, sr_Level = ''INFO'', sr_Message = ''webhook event'', sr_Attrs = slogAttrs (webhookLogArgs e)\<rparr>"

lemma apply_event:
  "applyLogAttrs ff [] (slogAttrs [(''event_type'', LStr a), (''action'', LStr b), (''repo'', LStr c), (''detail'', LStr d)]) e =
     e\<lparr>le_EventType := a, le_Action := b, le_Repo := c, le_Detail := d\<rparr>"
  by (simp add: setLogField_def)

lemma apply_labels:
  "le_Attributes e = [] \<Longrightarrow>
   applyLogAttrs ff [] (slogAttrs (if ls \<noteq> [] then [(''labels'', LStr (join '','' ls))] else [])) e =
     e\<lparr>le_Attributes := (if ls = [] then [] else [(''labels'', join '','' ls)])\<rparr>"
  by (simp add: setLogField_def)

lemma apply_webhook:
  assumes "int64 (w_JobID e)" "int64 (w_RunID e)" "int64 (w_RunAttempt e)"
  shows "applyLogAttrs ff [] (slogAttrs (webhookLogArgs e)) (zeroEntry\<lparr>le_Time := t, le_Level := l, le_Message := m\<rparr>) =
    zeroEntry\<lparr>le_Time := t, le_Level := l, le_Message := m, le_EventType := w_EventType e,
      le_Action := w_Action e, le_Repo := w_Repo e, le_Detail := w_Detail e, le_Workflow := w_Workflow e, le_Job := w_Job e,
      le_JobID := w_JobID e, le_Runner := w_Runner e, le_Commit := w_Commit e, le_Branch := w_Branch e,
      le_Status := w_Status e, le_Conclusion := w_Conclusion e, le_RunID := w_RunID e,
      le_RunAttempt := w_RunAttempt e,
      le_Attributes := (if w_Labels e = [] then [] else [(''labels'', join '','' (w_Labels e))])\<rparr>"
  unfolding webhookLogArgs_def slogAttrs_simps(3) applyLogAttrs_append apply_event
  by ((subst apply_optional, simp add: zeroEntry_def, (intro conjI assms)?)+)
    (simp only: apply_labels zeroEntry_def logEntry.simps)

text \<open>The entry that \<open>/logs\<close> shows for a webhook has every field of the event, the numbers included.\<close>

theorem webhook_event_mirrored:
  assumes "int64 (w_JobID e)" "int64 (w_RunID e)" "int64 (w_RunAttempt e)"
  shows "buildLogEntry ff (webhookRecord t e) [] [] =
    zeroEntry\<lparr>le_Time := t, le_Level := ''INFO'', le_Message := ''webhook event'', le_EventType := w_EventType e,
      le_Action := w_Action e, le_Repo := w_Repo e, le_Detail := w_Detail e, le_Workflow := w_Workflow e,
      le_Job := w_Job e, le_JobID := w_JobID e, le_Runner := w_Runner e, le_Commit := w_Commit e,
      le_Branch := w_Branch e, le_Status := w_Status e, le_Conclusion := w_Conclusion e, le_RunID := w_RunID e,
      le_RunAttempt := w_RunAttempt e,
      le_Attributes := (if w_Labels e = [] then [] else [(''labels'', join '','' (w_Labels e))])\<rparr>"
proof -
  let ?e = "zeroEntry\<lparr>le_Time := t, le_Level := ''INFO'', le_Message := ''webhook event''\<rparr>"
  let ?r = "applyLogAttrs ff [] (slogAttrs (webhookLogArgs e)) ?e"
  have "le_Container ?r = []" unfolding apply_webhook [OF assms] by (simp add: zeroEntry_def)
  then have "buildLogEntry ff (webhookRecord t e) [] [] = ?r" by (simp add: buildLogEntry_def webhookRecord_def)
  then show ?thesis unfolding apply_webhook [OF assms] .
qed

definition sampleJobEvent :: webhookEvent where
  "sampleJobEvent = \<lparr>w_Type = EventJobQueued, w_EventType = ''workflow_job'', w_Action = ''queued'', w_Repo = ''o/r'',
     w_Ref = [], w_DefaultBranch = [], w_Branch = ''main'', w_Commit = ''0123456'', w_Workflow = ''CI'', w_Job = ''test'',
     w_JobID = 42, w_Runner = [], w_Status = ''queued'', w_Conclusion = [], w_RunID = 7, w_RunAttempt = 1,
     w_Detail = ''o/r test'', w_Labels = [''self-hosted'', ''linux'']\<rparr>"

theorem webhook_event_mirrored_witness:
  "buildLogEntry (\<lambda>x. []) (webhookRecord 5 sampleJobEvent) [] [] =
    zeroEntry\<lparr>le_Time := 5, le_Level := ''INFO'', le_Message := ''webhook event'', le_EventType := ''workflow_job'',
      le_Action := ''queued'', le_Repo := ''o/r'', le_Detail := ''o/r test'', le_Workflow := ''CI'',
      le_Job := ''test'', le_JobID := 42, le_Commit := ''0123456'', le_Branch := ''main'', le_Status := ''queued'',
      le_RunID := 7, le_RunAttempt := 1, le_Attributes := [(''labels'', ''self-hosted,linux'')]\<rparr>"
  using webhook_event_mirrored [of sampleJobEvent "\<lambda>x. []" 5] by (simp add: sampleJobEvent_def zeroEntry_def)

text \<open>The attributes a logger got before \<open>WithGroup\<close> are put under the group as well, so that their keys
  miss the fields of the entry.\<close>

lemma group_qualifies_earlier_attrs:
  "buildLogEntry ff \<lparr>sr_Time = t, sr_Level = ''INFO'', sr_Message = m, sr_Attrs = []\<rparr>
      (lh_attrs (WithGroup ''g'' (WithAttrs [(''repo'', VString r)] (NewLogHandler store))))
      (lh_groups (WithGroup ''g'' (WithAttrs [(''repo'', VString r)] (NewLogHandler store)))) =
   zeroEntry\<lparr>le_Time := t, le_Level := ''INFO'', le_Message := m, le_Attributes := [(''g.repo'', r)]\<rparr>"
  by (simp add: WithGroup_def WithAttrs_def NewLogHandler_def buildLogEntry_def setLogField_def zeroEntry_def)

end
