(* ===== verification/Metric_Domain.thy ===== *)
theory Metric_Domain
  imports Scaler_Domain
begin

text \<open>
  The payloads of \<open>internal/domain/types.go\<close> that are pushed to the metrics backend.
\<close>

record RunnerMetrics =
  rm_GroupID :: string
  rm_TotalRunners :: int
  rm_BusyRunners :: int
  rm_IdleRunners :: int
  rm_AvailableOnlineRunners :: int
  rm_OnlineRunners :: int
  rm_OfflineRunners :: int
  rm_AutoRunners :: int
  rm_PermanentRunners :: int
  rm_ProvisioningRunners :: int
  rm_QueuedJobs :: int
  rm_OldestQueuedS :: int
  rm_BaselineConfigured :: bool
  rm_BaselineOnline :: bool
  rm_OverflowRunners :: int
  rm_RunnerDistribution :: string
  rm_UtilizationPct :: rat
  rm_RunnerInventoryStale :: bool
  rm_RunnerInventoryAgeS :: int
  rm_RunnerInventoryAt :: string
  rm_RunnerInventoryError :: string
  rm_Runners :: "runnerDetail list"

record IssueEvent =
  ie_Level :: string
  ie_Kind :: string
  ie_Reason :: string
  ie_Message :: string
  ie_Error :: string
  ie_Detail :: string
  ie_EventType :: string
  ie_Action :: string
  ie_Repo :: string
  ie_Branch :: string
  ie_Workflow :: string
  ie_Job :: string
  ie_JobID :: int
  ie_Runner :: string
  ie_Container :: string
  ie_RunID :: int
  ie_RunAttempt :: int
  ie_Conclusion :: string
  ie_ObservedAt :: string

record HostMetrics =
  hm_GroupID :: string
  hm_ContainersRunning :: int
  hm_ContainersStopped :: int
  hm_RunnerContainersRunning :: "int option"
  hm_RunnerContainersStopped :: "int option"
  hm_CachePoolUsedGB :: rat
  hm_CachePoolTotalGB :: rat
  hm_CachePoolPct :: rat

end
