(* ===== verification/Analytics.thy ===== *)
theory Analytics
  imports Metric_Domain Log_Store Seen_Cache Effects
begin

text \<open>
  The metrics of \<open>internal/daemon/analytics.go\<close> that are derived from the log entries: queue waits,
  jobs per runner lifecycle, the gaps between scale-downs and scale-ups, and the issue events.
  Numbers of type \<open>float64\<close> are rational.

  \<open>queue_wait_reference\<close>: the waits are those from the last \<open>queued\<close> of a job to its next
  \<open>in_progress\<close>.  \<open>percentile_covers\<close>: what the percentile means.  \<open>derived_metrics_current\<close>:
  the cache by version never gives metrics of older entries.
\<close>

section \<open>Lifecycle metrics\<close>

definition analyticsJobKey :: "logEntry \<Rightarrow> string" where
  "analyticsJobKey e =
     (if le_JobID e \<noteq> 0 then itoa (le_JobID e)
      else le_Repo e @ ''|'' @ itoa (le_RunID e) @ ''|'' @ itoa (le_RunAttempt e) @ ''|'' @ le_Workflow e @ ''|'' @ le_Job e)"

definition isEvent :: "string \<Rightarrow> string \<Rightarrow> logEntry \<Rightarrow> bool" where
  "isEvent ty act e \<longleftrightarrow> le_EventType e = ty \<and> le_Action e = act"

definition inSeconds :: "duration \<Rightarrow> rat" where
  "inSeconds d = of_int d / of_int second"

text \<open>The variables of the loop of \<open>buildLifecycleMetrics\<close>; a set of job keys is a list without
  duplicates.\<close>

record lifecycleState =
  lc_queueStarts :: "(string \<times> gotime) list"
  lc_active :: "(string \<times> string list) list"
  lc_pending :: "(string \<times> string list) list"
  lc_queueWaits :: "rat list"
  lc_jobCounts :: "rat list"
  lc_scaleGaps :: "rat list"
  lc_lastScaleDownAt :: gotime

definition emptyLifecycle :: lifecycleState where
  "emptyLifecycle = \<lparr>lc_queueStarts = [], lc_active = [], lc_pending = [], lc_queueWaits = [], lc_jobCounts = [],
     lc_scaleGaps = [], lc_lastScaleDownAt = 0\<rparr>"

definition takeQueueWait :: "logEntry \<Rightarrow> lifecycleState \<Rightarrow> lifecycleState" where
  "takeQueueWait e s =
     (let key = analyticsJobKey e in
      case map_of (lc_queueStarts s) key of
        None \<Rightarrow> s
      | Some queuedAt \<Rightarrow>
          (if le_Time e < queuedAt then s
           else s\<lparr>lc_queueWaits := lc_queueWaits s @ [inSeconds (time_sub (le_Time e) queuedAt)],
                  lc_queueStarts := AList.delete key (lc_queueStarts s)\<rparr>))"

definition assignJob :: "logEntry \<Rightarrow> lifecycleState \<Rightarrow> lifecycleState" where
  "assignJob e s =
     (let key = analyticsJobKey e; runner = le_Runner e in
      if runner = [] then s
      else (case map_of (lc_active s) runner of
          Some jobs \<Rightarrow> s\<lparr>lc_active := AList.update runner (List.insert key jobs) (lc_active s)\<rparr>
        | None \<Rightarrow>
            (let jobs = (case map_of (lc_pending s) runner of None \<Rightarrow> [] | Some js \<Rightarrow> js)
             in s\<lparr>lc_pending := AList.update runner (List.insert key jobs) (lc_pending s)\<rparr>)))"

definition lifecycleStep :: "logEntry \<Rightarrow> lifecycleState \<Rightarrow> lifecycleState" where
  "lifecycleStep e s =
     (if isEvent ''workflow_job'' ''queued'' e then
        s\<lparr>lc_queueStarts := AList.update (analyticsJobKey e) (le_Time e) (lc_queueStarts s)\<rparr>
      else if isEvent ''workflow_job'' ''in_progress'' e then assignJob e (takeQueueWait e s)
      else if isEvent ''scale_up'' ''completed'' e \<and> le_Runner e \<noteq> [] then
        (let jobs = (case map_of (lc_pending s) (le_Runner e) of None \<Rightarrow> [] | Some js \<Rightarrow> js)
         in s\<lparr>lc_pending := AList.delete (le_Runner e) (lc_pending s),
              lc_active := AList.update (le_Runner e) jobs (lc_active s)\<rparr>)
      else if isEvent ''scale_up'' ''requested'' e then
        (if \<not> isZero (lc_lastScaleDownAt s) \<and> \<not> le_Time e < lc_lastScaleDownAt s
         then s\<lparr>lc_scaleGaps := lc_scaleGaps s @ [inSeconds (time_sub (le_Time e) (lc_lastScaleDownAt s))],
                lc_lastScaleDownAt := 0\<rparr>
         else s)
      else if isEvent ''scale_down'' ''started'' e \<and> le_Runner e \<noteq> [] then
        (let s1 = (case map_of (lc_active s) (le_Runner e) of
                     None \<Rightarrow> s
                   | Some jobs \<Rightarrow> s\<lparr>lc_jobCounts := lc_jobCounts s @ [of_nat (length jobs)],
                                  lc_active := AList.delete (le_Runner e) (lc_active s)\<rparr>)
         in s1\<lparr>lc_pending := AList.delete (le_Runner e) (lc_pending s1), lc_lastScaleDownAt := le_Time e\<rparr>)
      else s)"

section \<open>Statistics\<close>

definition average :: "rat list \<Rightarrow> rat" where
  "average xs = (if xs = [] then 0 else sum_list xs / of_nat (length xs))"

definition percentile :: "rat list \<Rightarrow> rat \<Rightarrow> rat" where
  "percentile xs target =
     (if xs = [] then 0
      else (let sorted = sort xs in
        if target \<le> 0 then sorted ! 0
        else if target \<ge> 1 then sorted ! (length sorted - 1)
        else (let index = nat \<lfloor>target * of_nat (length sorted - 1) + 999999999 / 1000000000\<rfloor>;
                  index = (if index \<ge> length sorted then length sorted - 1 else index)
              in sorted ! index)))"

definition reusedLifecyclePct :: "rat list \<Rightarrow> rat" where
  "reusedLifecyclePct xs =
     (if xs = [] then 0 else of_nat (length (filter (\<lambda>v. v > 1) xs)) / of_nat (length xs) * 100)"

definition emptyMetrics :: lifecycleMetrics where
  "emptyMetrics = \<lparr>lm_WindowStart = [], lm_WindowEnd = [], lm_QueueWaitSamples = 0, lm_AvgQueueWaitS = 0,
     lm_P95QueueWaitS = 0, lm_LifecycleSamples = 0, lm_AvgJobsPerLifecycle = 0, lm_ReusedLifecyclePct = 0,
     lm_ScaleDownToScaleUpSamples = 0, lm_AvgScaleDownToScaleUpS = 0\<rparr>"

definition runLifecycle :: "logEntry list \<Rightarrow> lifecycleState" where
  "runLifecycle es = fold lifecycleStep es emptyLifecycle"

definition buildLifecycleMetrics :: "logEntry list \<Rightarrow> lifecycleMetrics" where
  "buildLifecycleMetrics entries =
     (if entries = [] then emptyMetrics
      else (let es = sort_key le_Time entries; s = runLifecycle es in
        \<lparr>lm_WindowStart = rfc3339 (le_Time (hd es)), lm_WindowEnd = rfc3339 (le_Time (last es)),
         lm_QueueWaitSamples = int (length (lc_queueWaits s)), lm_AvgQueueWaitS = average (lc_queueWaits s),
         lm_P95QueueWaitS = percentile (lc_queueWaits s) (95 / 100),
         lm_LifecycleSamples = int (length (lc_jobCounts s)), lm_AvgJobsPerLifecycle = average (lc_jobCounts s),
         lm_ReusedLifecyclePct = reusedLifecyclePct (lc_jobCounts s),
         lm_ScaleDownToScaleUpSamples = int (length (lc_scaleGaps s)),
         lm_AvgScaleDownToScaleUpS = average (lc_scaleGaps s)\<rparr>))"

section \<open>Issues\<close>

definition selectIssueLogEntries :: "logEntry list \<Rightarrow> logEntry list" where
  "selectIssueLogEntries entries =
     filter (\<lambda>e. (let level = to_upper (trim_space (le_Level e)) in
       (level = ''WARN'' \<or> level = ''ERROR'') \<and> le_EventType e \<noteq> ''issue_events'')) entries"

text \<open>\<open>strings.Fields\<close>: the words between runs of white space.\<close>

fun fieldsFrom :: "string \<Rightarrow> string \<Rightarrow> string list" where
  "fieldsFrom w [] = (if w = [] then [] else [w])"
| "fieldsFrom w (c # s) =
     (if is_space c then (if w = [] then fieldsFrom [] s else w # fieldsFrom [] s) else fieldsFrom (w @ [c]) s)"

definition fields :: "string \<Rightarrow> string list" where
  "fields s = fieldsFrom [] s"

definition clipReason :: "string \<Rightarrow> string" where
  "clipReason s =
     (let candidate = join '' '' (fields s)
      in if length candidate > 160 then take 157 candidate @ ''...'' else candidate)"

fun firstReason :: "string list \<Rightarrow> string" where
  "firstReason [] = ''unknown''"
| "firstReason (c # cs) = (if trim_space c = [] then firstReason cs else clipReason (trim_space c))"

definition deriveIssueReason :: "logEntry \<Rightarrow> string" where
  "deriveIssueReason e = firstReason [le_Detail e, le_Error e, le_Message e]"

definition buildIssueEvent :: "logEntry \<Rightarrow> IssueEvent" where
  "buildIssueEvent e =
     \<lparr>ie_Level = to_lower (le_Level e), ie_Kind = ''daemon'', ie_Reason = deriveIssueReason e,
      ie_Message = le_Message e, ie_Error = le_Error e, ie_Detail = le_Detail e, ie_EventType = le_EventType e,
      ie_Action = le_Action e, ie_Repo = le_Repo e, ie_Branch = le_Branch e, ie_Workflow = le_Workflow e,
      ie_Job = le_Job e, ie_JobID = le_JobID e, ie_Runner = le_Runner e, ie_Container = le_Container e,
      ie_RunID = le_RunID e, ie_RunAttempt = le_RunAttempt e, ie_Conclusion = le_Conclusion e,
      ie_ObservedAt = rfc3339 (le_Time e)\<rparr>"

definition issueEventKey :: "logEntry \<Rightarrow> string" where
  "issueEventKey e =
     join ''|'' [rfc3339Nano (le_Time e), le_Level e, le_EventType e, le_Action e, le_Repo e, le_Workflow e, le_Job e,
       itoa (le_JobID e), itoa (le_RunID e), itoa (le_RunAttempt e), le_Detail e, le_Error e]"

section \<open>Queue waits\<close>

definition jobEvent :: "string \<Rightarrow> logEntry \<Rightarrow> bool" where
  "jobEvent k e \<longleftrightarrow>
     (isEvent ''workflow_job'' ''queued'' e \<or> isEvent ''workflow_job'' ''in_progress'' e) \<and> analyticsJobKey e = k"

text \<open>When the job was queued, if the last of its events that say \<open>queued\<close> or \<open>in_progress\<close> says that
  it still waits.  Like the code this ignores \<open>completed\<close>: a job that is completed without having
  started keeps its start.\<close>

definition waitingSince :: "string \<Rightarrow> logEntry list \<Rightarrow> gotime option" where
  "waitingSince k earlier =
     (let events = filter (jobEvent k) earlier in
      if events \<noteq> [] \<and> isEvent ''workflow_job'' ''queued'' (last events) then Some (le_Time (last events)) else None)"

definition waitsAt :: "logEntry list \<Rightarrow> logEntry \<Rightarrow> rat list" where
  "waitsAt earlier e =
     (if isEvent ''workflow_job'' ''in_progress'' e
      then (case waitingSince (analyticsJobKey e) earlier of
              None \<Rightarrow> [] | Some t \<Rightarrow> [inSeconds (time_sub (le_Time e) t)])
      else [])"

definition queueWaits :: "logEntry list \<Rightarrow> rat list" where
  "queueWaits es = concat (map (\<lambda>i. waitsAt (take i es) (es ! i)) [0..<length es])"

lemma queueWaits_snoc: "queueWaits (es @ [e]) = queueWaits es @ waitsAt es e"
proof -
  have "map (\<lambda>i. waitsAt (take i (es @ [e])) ((es @ [e]) ! i)) [0..<length es] =
      map (\<lambda>i. waitsAt (take i es) (es ! i)) [0..<length es]"
    by (rule map_cong) (simp_all add: nth_append)
  then show ?thesis
    by (simp only: queueWaits_def length_append_singleton upt_Suc_append [OF le0] map_append concat_append) simp
qed

lemma waitingSince_snoc:
  "waitingSince k (es @ [e]) =
     (if jobEvent k e then (if isEvent ''workflow_job'' ''queued'' e then Some (le_Time e) else None)
      else waitingSince k es)"
  by (simp add: waitingSince_def Let_def)

lemma waitingSince_time: "waitingSince k es = Some t \<Longrightarrow> \<exists>e \<in> set es. le_Time e = t"
  by (auto simp: waitingSince_def Let_def split: if_splits dest!: last_in_set)

lemma assignJob_frame [simp]:
  "lc_queueStarts (assignJob e s) = lc_queueStarts s" "lc_queueWaits (assignJob e s) = lc_queueWaits s"
  by (simp_all add: assignJob_def Let_def split: option.splits)

lemma event_exclusive: "isEvent t a e \<Longrightarrow> isEvent t' a' e \<longleftrightarrow> t' = t \<and> a' = a"
  by (auto simp: isEvent_def)

lemma lifecycleStep_queue:
  assumes "\<And>k. map_of (lc_queueStarts s) k = waitingSince k es" "\<forall>x \<in> set es. le_Time x \<le> le_Time e"
  shows "map_of (lc_queueStarts (lifecycleStep e s)) k = waitingSince k (es @ [e]) \<and>
    lc_queueWaits (lifecycleStep e s) = lc_queueWaits s @ waitsAt es e"
proof -
  have late: "waitingSince k es = Some t \<Longrightarrow> \<not> le_Time e < t" for k t
    using waitingSince_time assms(2) by fastforce
  consider "isEvent ''workflow_job'' ''queued'' e" | "isEvent ''workflow_job'' ''in_progress'' e"
    | "\<not> isEvent ''workflow_job'' ''queued'' e" "\<not> isEvent ''workflow_job'' ''in_progress'' e" by blast
  then show ?thesis
  proof cases
    case 1
    then show ?thesis using assms(1)
      by (simp add: lifecycleStep_def waitsAt_def waitingSince_snoc jobEvent_def event_exclusive [OF 1])
  next
    case 2
    show ?thesis using late [of "analyticsJobKey e"]
      by (simp add: lifecycleStep_def event_exclusive [OF 2] takeQueueWait_def Let_def assms(1) waitsAt_def
          waitingSince_snoc jobEvent_def split: option.splits)
  next
    case 3
    then have "waitsAt es e = []" "waitingSince k (es @ [e]) = waitingSince k es"
      by (simp_all add: waitsAt_def waitingSince_snoc jobEvent_def)
    then show ?thesis using 3 assms(1) by (simp add: lifecycleStep_def Let_def split: option.splits)
  qed
qed

lemma runLifecycle_queue:
  "sorted (map le_Time es) \<Longrightarrow>
     (\<forall>k. map_of (lc_queueStarts (runLifecycle es)) k = waitingSince k es) \<and> lc_queueWaits (runLifecycle es) = queueWaits es"
proof (induction es rule: rev_induct)
  case Nil
  show ?case by (simp add: runLifecycle_def emptyLifecycle_def waitingSince_def queueWaits_def)
next
  case (snoc e es)
  have IH: "\<And>k. map_of (lc_queueStarts (runLifecycle es)) k = waitingSince k es" "lc_queueWaits (runLifecycle es) = queueWaits es"
    and le: "\<forall>x \<in> set es. le_Time x \<le> le_Time e"
    using snoc by (auto simp: sorted_append)
  have "runLifecycle (es @ [e]) = lifecycleStep e (runLifecycle es)" by (simp add: runLifecycle_def)
  then show ?case using lifecycleStep_queue [OF IH(1) le] IH(2) by (simp add: queueWaits_snoc)
qed

text \<open>C29. The queue waits that are averaged are, for every job that is reported in progress, the time since the
  last queued or in-progress event of the job, if that says the job was queued; completed events do not
  count.  The entries are taken in the order of their times.\<close>

theorem queue_wait_reference:
  "(let m = buildLifecycleMetrics entries; waits = queueWaits (sort_key le_Time entries) in
    lm_QueueWaitSamples m = int (length waits) \<and> lm_AvgQueueWaitS m = average waits \<and>
    lm_P95QueueWaitS m = percentile waits (95 / 100))"
proof (cases "entries = []")
  case True
  then show ?thesis
    by (simp add: buildLifecycleMetrics_def emptyMetrics_def queueWaits_def average_def percentile_def)
next
  case False
  then show ?thesis
    using runLifecycle_queue [of "sort_key le_Time entries"]
    by (simp add: buildLifecycleMetrics_def Let_def)
qed

section \<open>What the statistics mean\<close>

lemma rank_eq:
  "nat \<lfloor>95 / 100 * of_nat n + 999999999 / 1000000000 :: rat\<rfloor> = (950000000 * n + 999999999) div 1000000000"
proof -
  have "(95 / 100 * of_nat n + 999999999 / 1000000000 :: rat) = of_nat (950000000 * n + 999999999) / of_nat 1000000000"
    by (simp add: add_divide_distrib)
  then show ?thesis by (simp only: floor_divide_of_nat_eq nat_int)
qed

lemma rank_bounds:
  fixes n :: nat
  defines "k \<equiv> (950000000 * n + 999999999) div 1000000000"
  shows "k \<le> n" "19 * n \<le> 20 * k"
proof -
  have "k * 1000000000 \<le> 950000000 * n + 999999999" "950000000 * n + 999999999 < k * 1000000000 + 1000000000"
    unfolding k_def using div_times_less_eq_dividend dividend_less_div_times [of 1000000000 "950000000 * n + 999999999"]
    by (simp_all only: add.commute)
  then show "k \<le> n" "19 * n \<le> 20 * k" by linarith+
qed

lemma percentile_index:
  assumes "xs \<noteq> []"
  obtains k where "k < length xs" "percentile xs (95 / 100) = sort xs ! k" "19 * (length xs - 1) \<le> 20 * k"
proof -
  let ?n = "length xs - 1"
  let ?k = "(950000000 * ?n + 999999999) div 1000000000"
  have k: "?k < length xs" using rank_bounds(1) [of ?n] assms by (cases xs) simp_all
  have "percentile xs (95 / 100) = sort xs ! ?k"
    unfolding percentile_def Let_def length_sort rank_eq using assms k by (simp del: div_mult_self1)
  then show ?thesis using that k rank_bounds(2) by blast
qed

text \<open>The 95th percentile is one of the values, and at least 95 of 100 values are not above it.\<close>

lemma percentile_covers:
  assumes "xs \<noteq> []"
  shows "percentile xs (95 / 100) \<in> set xs \<and>
    19 * length xs \<le> 20 * length (filter (\<lambda>x. x \<le> percentile xs (95 / 100)) xs)"
proof -
  obtain k where k: "k < length xs" "percentile xs (95 / 100) = sort xs ! k" "19 * (length xs - 1) \<le> 20 * k"
    using percentile_index [OF assms] by blast
  let ?p = "percentile xs (95 / 100)"
  have "\<forall>x \<in> set (take (Suc k) (sort xs)). x \<le> ?p"
  proof
    fix x assume "x \<in> set (take (Suc k) (sort xs))"
    then obtain i where "i \<le> k" "x = sort xs ! i" using k(1) by (auto simp: in_set_conv_nth less_Suc_eq_le)
    then show "x \<le> ?p" using sorted_nth_mono [of "sort xs" i k] k by simp
  qed
  then have "filter (\<lambda>x. x \<le> ?p) (take (Suc k) (sort xs)) = take (Suc k) (sort xs)" by (simp only: filter_id_conv)
  then have "Suc k \<le> length (filter (\<lambda>x. x \<le> ?p) (take (Suc k) (sort xs)))" using k(1) by simp
  also have "\<dots> \<le> length (filter (\<lambda>x. x \<le> ?p) (sort xs))"
    by (subst (2) append_take_drop_id [of "Suc k", symmetric]) (simp only: filter_append length_append le_add1)
  also have "\<dots> = length (filter (\<lambda>x. x \<le> ?p) xs)"
    by (metis filter_sort length_sort)
  finally have "Suc k \<le> length (filter (\<lambda>x. x \<le> ?p) xs)" .
  then have "19 * length xs \<le> 20 * length (filter (\<lambda>x. x \<le> ?p) xs)" using k(3) by linarith
  moreover have "?p \<in> set xs" using k nth_mem [of k "sort xs"] by simp
  ultimately show ?thesis by blast
qed

lemma average_bounds:
  assumes "\<forall>x \<in> set xs. 0 \<le> x" shows "0 \<le> average xs"
  using assms by (simp add: average_def sum_list_nonneg)

lemma reused_bounds: "0 \<le> reusedLifecyclePct xs" "reusedLifecyclePct xs \<le> 100"
proof -
  have le: "(of_nat (length (filter (\<lambda>v. v > 1) xs)) :: rat) \<le> of_nat (length xs)" by (simp add: length_filter_le)
  have "(0 :: rat) < of_nat (length xs)" if "xs \<noteq> []" using that by simp
  then show "0 \<le> reusedLifecyclePct xs" "reusedLifecyclePct xs \<le> 100"
    using le by (auto simp: reusedLifecyclePct_def divide_le_eq)
qed

text \<open>What the loop collects is not negative and has at most one sample per event.\<close>

definition samplesOk :: "logEntry list \<Rightarrow> lifecycleState \<Rightarrow> bool" where
  "samplesOk es s \<longleftrightarrow>
     (\<forall>x \<in> set (lc_queueWaits s). 0 \<le> x) \<and> (\<forall>x \<in> set (lc_scaleGaps s). 0 \<le> x) \<and> (\<forall>x \<in> set (lc_jobCounts s). 0 \<le> x) \<and>
     length (lc_queueWaits s) \<le> length (filter (isEvent ''workflow_job'' ''in_progress'') es) \<and>
     length (lc_scaleGaps s) \<le> length (filter (isEvent ''scale_up'' ''requested'') es) \<and>
     length (lc_jobCounts s) \<le> length (filter (isEvent ''scale_down'' ''started'') es)"

lemma inSeconds_nonneg: "\<not> t < u \<Longrightarrow> 0 \<le> inSeconds (time_sub t u)"
  by (simp add: inSeconds_def second_def time_sub_nonneg)

lemma lifecycleStep_samples:
  assumes "samplesOk es s" shows "samplesOk (es @ [e]) (lifecycleStep e s)"
proof -
  have frame: "lc_scaleGaps (assignJob e s) = lc_scaleGaps s" "lc_jobCounts (assignJob e s) = lc_jobCounts s"
      "lc_scaleGaps (takeQueueWait e s) = lc_scaleGaps s" "lc_jobCounts (takeQueueWait e s) = lc_jobCounts s" for s
    by (simp_all add: assignJob_def takeQueueWait_def Let_def split: option.splits)
  have wait: "\<exists>ws. lc_queueWaits (takeQueueWait e s) = lc_queueWaits s @ ws \<and> length ws \<le> 1 \<and> (\<forall>x \<in> set ws. 0 \<le> x)"
    using inSeconds_nonneg by (simp add: takeQueueWait_def Let_def split: option.splits)
  then obtain ws where ws: "lc_queueWaits (takeQueueWait e s) = lc_queueWaits s @ ws" "length ws \<le> 1" "\<forall>x \<in> set ws. 0 \<le> x"
    by blast
  consider "isEvent ''workflow_job'' ''in_progress'' e" | "isEvent ''scale_up'' ''requested'' e"
    | "isEvent ''scale_down'' ''started'' e" | "\<not> isEvent ''workflow_job'' ''in_progress'' e"
      "\<not> isEvent ''scale_up'' ''requested'' e" "\<not> isEvent ''scale_down'' ''started'' e" by blast
  then show ?thesis
  proof cases
    case 1
    then show ?thesis using assms ws
      by (auto simp: samplesOk_def lifecycleStep_def event_exclusive [OF 1] frame)
  next
    case 2
    then show ?thesis using assms
      by (auto simp: samplesOk_def lifecycleStep_def event_exclusive [OF 2] inSeconds_nonneg)
  next
    case 3
    then show ?thesis using assms
      by (auto simp: samplesOk_def lifecycleStep_def event_exclusive [OF 3] Let_def split: option.splits)
  next
    case 4
    then show ?thesis using assms by (simp add: samplesOk_def lifecycleStep_def Let_def split: option.splits)
  qed
qed

lemma runLifecycle_samples: "samplesOk es (runLifecycle es)"
proof (induction es rule: rev_induct)
  case (snoc e es)
  then show ?case using lifecycleStep_samples by (simp add: runLifecycle_def)
qed (simp add: samplesOk_def runLifecycle_def emptyLifecycle_def)

text \<open>Whatever is in the log, the derived statistics are averages of non-negative samples, at most one per
  event, and the share of reused lifecycles is a percentage.\<close>

theorem lifecycle_metrics_sane:
  "(let m = buildLifecycleMetrics entries in
    0 \<le> lm_AvgQueueWaitS m \<and> 0 \<le> lm_P95QueueWaitS m \<and> 0 \<le> lm_AvgJobsPerLifecycle m \<and>
    0 \<le> lm_AvgScaleDownToScaleUpS m \<and> 0 \<le> lm_ReusedLifecyclePct m \<and> lm_ReusedLifecyclePct m \<le> 100 \<and>
    lm_QueueWaitSamples m \<le> int (length (filter (isEvent ''workflow_job'' ''in_progress'') entries)) \<and>
    lm_ScaleDownToScaleUpSamples m \<le> int (length (filter (isEvent ''scale_up'' ''requested'') entries)) \<and>
    lm_LifecycleSamples m \<le> int (length (filter (isEvent ''scale_down'' ''started'') entries)))"
proof (cases "entries = []")
  case True
  then show ?thesis by (simp add: buildLifecycleMetrics_def emptyMetrics_def)
next
  case False
  let ?es = "sort_key le_Time entries"
  have count: "length (filter P ?es) = length (filter P entries)" for P :: "logEntry \<Rightarrow> bool"
    by (metis filter_sort length_sort)
  have ok: "samplesOk ?es (runLifecycle ?es)" by (rule runLifecycle_samples)
  have avg: "0 \<le> average (lc_queueWaits (runLifecycle ?es))" "0 \<le> average (lc_jobCounts (runLifecycle ?es))"
    "0 \<le> average (lc_scaleGaps (runLifecycle ?es))"
    using ok average_bounds unfolding samplesOk_def by blast+
  have p95: "0 \<le> percentile (lc_queueWaits (runLifecycle ?es)) (95 / 100)"
  proof (cases "lc_queueWaits (runLifecycle ?es) = []")
    case True
    then show ?thesis by (simp add: percentile_def)
  next
    case False
    then show ?thesis using percentile_covers [OF False] ok unfolding samplesOk_def by blast
  qed
  show ?thesis
    using avg p95 reused_bounds [of "lc_jobCounts (runLifecycle ?es)"] ok False
    by (simp add: buildLifecycleMetrics_def Let_def samplesOk_def count)
qed

section \<open>Collection\<close>

record analyticsCache =
  ac_Cached :: bool
  ac_Version :: "64 word"
  ac_Lifecycle :: lifecycleMetrics
  ac_Issues :: "logEntry list"

definition cachedLogDerivedMetrics :: "64 word \<Rightarrow> analyticsCache \<Rightarrow> (lifecycleMetrics \<times> logEntry list) option" where
  "cachedLogDerivedMetrics version c =
     (if ac_Cached c \<and> ac_Version c = version then Some (ac_Lifecycle c, ac_Issues c) else None)"

definition storeLogDerivedMetrics :: "64 word \<Rightarrow> lifecycleMetrics \<Rightarrow> logEntry list \<Rightarrow> analyticsCache \<Rightarrow> analyticsCache" where
  "storeLogDerivedMetrics version lifecycle issues c =
     c\<lparr>ac_Lifecycle := lifecycle, ac_Issues := issues, ac_Version := version, ac_Cached := True\<rparr>"

definition derivedMetrics :: "LogStore \<Rightarrow> analyticsCache \<Rightarrow> (lifecycleMetrics \<times> logEntry list) \<times> analyticsCache" where
  "derivedMetrics store c =
     (case cachedLogDerivedMetrics (Version store) c of
        Some m \<Rightarrow> (m, c)
      | None \<Rightarrow>
          (let (version, entries) = SnapshotWithVersion store;
               lifecycle = buildLifecycleMetrics entries; issues = selectIssueLogEntries entries
           in ((lifecycle, issues), storeLogDerivedMetrics version lifecycle issues c)))"

datatype derivedPush = PushLifecycleMetrics lifecycleMetrics | PushIssueEvents "IssueEvent list"

text \<open>What the backend answers to the two pushes, and which steps of persisting the delivery log fail.\<close>

record derivedEnv =
  de_Lifecycle :: "gerror option"
  de_Issues :: "gerror option"
  de_Persist :: "nat \<Rightarrow> gerror option"

record derivedState =
  ds_Cache :: analyticsCache
  ds_Delivered :: seenCache
  ds_DeliveredFile :: seenFile
  ds_Pushes :: "derivedPush list"
  ds_Log :: "(logLevel \<times> string \<times> logAttrs) list"

definition pushIssues :: "derivedEnv \<Rightarrow> logEntry list \<Rightarrow> derivedState \<Rightarrow> derivedState" where
  "pushIssues E candidates s =
     (let issueEntries = filterNew (ds_Delivered s) issueEventKey candidates in
      if issueEntries = [] then s
      else (let s1 = s\<lparr>ds_Pushes := ds_Pushes s @ [PushIssueEvents (map buildIssueEvent issueEntries)]\<rparr> in
        case de_Issues E of
          Some err \<Rightarrow>
            s1\<lparr>ds_Log := ds_Log s1 @ [(LevelError, ''failed to push issue events'',
              [(''event_type'', LStr ''issue_events''), (''action'', LStr ''push_failed''), (''error'', LStr err)])]\<rparr>
        | None \<Rightarrow>
            (case markDelivered (de_Persist E) (ds_Delivered s1) (ds_DeliveredFile s1) issueEventKey issueEntries of
               None \<Rightarrow> s1
             | Some (err, c, f) \<Rightarrow>
                 (let s2 = s1\<lparr>ds_Delivered := c, ds_DeliveredFile := f\<rparr> in
                  case err of
                    None \<Rightarrow> s2
                  | Some e \<Rightarrow> s2\<lparr>ds_Log := ds_Log s2 @ [(LevelWarn, ''failed to persist cache'',
                      [(''cache'', LStr ''issue events''), (''error'', LStr e)])]\<rparr>))))"

definition collectLogDerivedMetrics :: "bool \<Rightarrow> derivedEnv \<Rightarrow> LogStore option \<Rightarrow> derivedState \<Rightarrow> derivedState" where
  "collectLogDerivedMetrics hasMetrics E logStore s =
     (if \<not> hasMetrics then s
      else (case logStore of
        None \<Rightarrow> s
      | Some store \<Rightarrow>
          (let ((lifecycle, candidates), c) = derivedMetrics store (ds_Cache s);
               s1 = s\<lparr>ds_Cache := c, ds_Pushes := ds_Pushes s @ [PushLifecycleMetrics lifecycle]\<rparr>;
               s2 = (case de_Lifecycle E of
                       None \<Rightarrow> s1
                     | Some err \<Rightarrow> s1\<lparr>ds_Log := ds_Log s1 @
                         [(LevelError, ''failed to push lifecycle metrics'', [(''error'', LStr err)])]\<rparr>)
           in pushIssues E candidates s2)))"

section \<open>The cache by version\<close>

text \<open>A call of \<open>Record\<close> with the clock and the faults it meets; the daemon records entries between two
  collections.\<close>

type_synonym recordCall = "gotime \<times> appendFault \<times> compactFaults \<times> logEntry"

definition recordCalls :: "recordCall list \<Rightarrow> LogStore \<Rightarrow> LogStore" where
  "recordCalls h s = foldl (\<lambda>s (now, af, cf, e). snd (Record now af cf e s)) s h"

fun collectRounds :: "(recordCall list \<times> derivedEnv) list \<Rightarrow> LogStore \<times> derivedState \<Rightarrow> LogStore \<times> derivedState" where
  "collectRounds [] sd = sd"
| "collectRounds ((h, E) # rs) (s, d) =
     (let s' = recordCalls h s in collectRounds rs (s', collectLogDerivedMetrics True E (Some s') d))"

definition exactFor :: "LogStore \<Rightarrow> analyticsCache \<Rightarrow> bool" where
  "exactFor s c \<longleftrightarrow> ac_Cached c \<and> ac_Version c = ls_Version s \<and>
     ac_Lifecycle c = buildLifecycleMetrics (ls_Entries s) \<and> ac_Issues c = selectIssueLogEntries (ls_Entries s)"

lemma compact_version [simp]: "ls_Version (snd (compactLocked cf s)) = ls_Version s"
  by (simp add: compactLocked_def split: option.splits sum.splits)

lemma append_fails:
  "appendLocked af line s = (Some err, s1) \<Longrightarrow> ls_Version s1 = ls_Version s \<and> ls_Entries s1 = ls_Entries s"
  by (cases af) auto

lemma append_works: "appendLocked af line s = (None, s1) \<Longrightarrow> ls_Version s1 = ls_Version s"
  by (cases af) auto

lemma Record_version:
  "(ls_Version (snd (Record now af cf e s)) = ls_Version s \<and> ls_Entries (snd (Record now af cf e s)) = ls_Entries s) \<or>
   ls_Version (snd (Record now af cf e s)) = ls_Version s + 1"
  by (auto simp: Record_def Let_def bufferEntry_def dest: append_fails append_works split: sum.splits option.splits prod.splits)

lemma recordCalls_version:
  "\<exists>m \<le> length h. ls_Version (recordCalls h s) = ls_Version s + of_nat m \<and>
     (m = 0 \<longrightarrow> ls_Entries (recordCalls h s) = ls_Entries s)"
proof (induction h rule: rev_induct)
  case Nil
  show ?case by (simp add: recordCalls_def)
next
  case (snoc r h)
  obtain now af cf e where r: "r = (now, af, cf, e)" by (cases r) auto
  let ?s = "recordCalls h s"
  obtain m where m: "m \<le> length h" "ls_Version ?s = ls_Version s + of_nat m" "m = 0 \<longrightarrow> ls_Entries ?s = ls_Entries s"
    using snoc by blast
  have step: "recordCalls (h @ [r]) s = snd (Record now af cf e ?s)" by (simp add: recordCalls_def r)
  show ?case
    using Record_version [of now af cf e ?s]
  proof
    assume "ls_Version (snd (Record now af cf e ?s)) = ls_Version ?s \<and> ls_Entries (snd (Record now af cf e ?s)) = ls_Entries ?s"
    then show ?thesis unfolding step using m by (intro exI [of _ m]) simp
  next
    assume "ls_Version (snd (Record now af cf e ?s)) = ls_Version ?s + 1"
    then show ?thesis unfolding step using m by (intro exI [of _ "Suc m"]) (simp add: add.assoc)
  qed
qed

lemma version_same:
  assumes "length h < 2 ^ 64" "ls_Version (recordCalls h s) = ls_Version s"
  shows "ls_Entries (recordCalls h s) = ls_Entries s"
proof -
  obtain m where m: "m \<le> length h" "ls_Version (recordCalls h s) = ls_Version s + of_nat m"
    "m = 0 \<longrightarrow> ls_Entries (recordCalls h s) = ls_Entries s"
    using recordCalls_version by blast
  then have "of_nat m = (0 :: 64 word)" using assms(2) by simp
  then have "2 ^ 64 dvd m" by (simp add: word_of_nat_eq_0_iff)
  then have "m = 0" using m(1) assms(1) by (auto dest: dvd_imp_le)
  then show ?thesis using m(3) by blast
qed

lemma derived_exact:
  assumes "exactFor s0 c \<or> \<not> ac_Cached c" "length h < 2 ^ 64" "s = recordCalls h s0"
  shows "fst (derivedMetrics s c) = (buildLifecycleMetrics (ls_Entries s), selectIssueLogEntries (ls_Entries s)) \<and>
    exactFor s (snd (derivedMetrics s c))"
proof (cases "ac_Cached c \<and> ac_Version c = ls_Version s")
  case True
  then have x: "exactFor s0 c" using assms(1) by blast
  then have "ls_Entries s = ls_Entries s0" using version_same [OF assms(2)] True assms(3) by (simp add: exactFor_def)
  then show ?thesis using True x by (simp add: derivedMetrics_def cachedLogDerivedMetrics_def Version_def exactFor_def)
next
  case False
  then show ?thesis
    by (auto simp: derivedMetrics_def cachedLogDerivedMetrics_def Version_def SnapshotWithVersion_def
        storeLogDerivedMetrics_def exactFor_def Let_def)
qed

lemma pushIssues_frame:
  "ds_Cache (pushIssues E es d) = ds_Cache d \<and> (\<exists>ps. ds_Pushes (pushIssues E es d) = ds_Pushes d @ ps)"
  by (auto simp: pushIssues_def Let_def split: option.splits)

lemma collect_exact:
  assumes "exactFor s0 (ds_Cache d) \<or> \<not> ac_Cached (ds_Cache d)" "length h < 2 ^ 64" "s = recordCalls h s0"
  shows "exactFor s (ds_Cache (collectLogDerivedMetrics True E (Some s) d)) \<and>
    (\<exists>ps. ds_Pushes (collectLogDerivedMetrics True E (Some s) d) =
            ds_Pushes d @ PushLifecycleMetrics (buildLifecycleMetrics (ls_Entries s)) # ps)"
proof -
  obtain l cs c where dm: "derivedMetrics s (ds_Cache d) = ((l, cs), c)" by (metis prod.collapse)
  then have l: "l = buildLifecycleMetrics (ls_Entries s)" "exactFor s c"
    using derived_exact [OF assms] by simp_all
  let ?s1 = "d\<lparr>ds_Cache := c, ds_Pushes := ds_Pushes d @ [PushLifecycleMetrics l]\<rparr>"
  obtain s2 where s2: "collectLogDerivedMetrics True E (Some s) d = pushIssues E cs s2"
      "ds_Cache s2 = c" "ds_Pushes s2 = ds_Pushes d @ [PushLifecycleMetrics l]"
    by (simp add: collectLogDerivedMetrics_def dm Let_def split: option.splits)
  then show ?thesis using pushIssues_frame [of E cs s2] l by auto
qed

lemma rounds_exact:
  assumes "exactFor s (ds_Cache d) \<or> \<not> ac_Cached (ds_Cache d)" "list_all (\<lambda>(h, E). length h < 2 ^ 64) rs"
  shows "exactFor (fst (collectRounds rs (s, d))) (ds_Cache (snd (collectRounds rs (s, d)))) \<or>
    \<not> ac_Cached (ds_Cache (snd (collectRounds rs (s, d))))"
  using assms
proof (induction rs arbitrary: s d)
  case (Cons r rs)
  obtain h E where r: "r = (h, E)" by force
  have "exactFor (recordCalls h s) (ds_Cache (collectLogDerivedMetrics True E (Some (recordCalls h s)) d))"
    using collect_exact [OF Cons.prems(1) _ refl, of h E] Cons.prems(2) r by simp
  then show ?case using Cons.IH Cons.prems(2) r by (simp add: Let_def)
qed simp

lemma rounds_snoc:
  "collectRounds (rs @ [(h, E)]) sd = (let (s, d) = collectRounds rs sd; s' = recordCalls h s in
     (s', collectLogDerivedMetrics True E (Some s') d))"
  by (induction rs sd rule: collectRounds.induct) (auto simp: Let_def split: prod.splits)

text \<open>C30. Whatever is recorded between the collections, under whatever faults, every collection pushes the
  lifecycle metrics of the entries the log holds then: the metrics cached for a version of the log are not
  used for another content, as long as fewer than \<open>2 ^ 64\<close> records lie between two collections.\<close>

theorem derived_metrics_current:
  assumes "\<not> ac_Cached (ds_Cache d)" "list_all (\<lambda>(h, E). length h < 2 ^ 64) (rs @ [(h, E)])"
  shows "(let before = collectRounds rs (s, d); after = collectRounds (rs @ [(h, E)]) (s, d) in
    \<exists>ps. ds_Pushes (snd after) =
      ds_Pushes (snd before) @ PushLifecycleMetrics (buildLifecycleMetrics (ls_Entries (fst after))) # ps)"
proof -
  obtain s1 d1 where b: "collectRounds rs (s, d) = (s1, d1)" by force
  have "exactFor s1 (ds_Cache d1) \<or> \<not> ac_Cached (ds_Cache d1)"
    using rounds_exact [of s d rs] assms b by simp
  then have "\<exists>ps. ds_Pushes (collectLogDerivedMetrics True E (Some (recordCalls h s1)) d1) =
      ds_Pushes d1 @ PushLifecycleMetrics (buildLifecycleMetrics (ls_Entries (recordCalls h s1))) # ps"
    using collect_exact [of s1 d1 h _ E] assms(2) by simp
  then show ?thesis using b by (simp add: rounds_snoc Let_def)
qed

definition quietEnv :: derivedEnv where
  "quietEnv = \<lparr>de_Lifecycle = None, de_Issues = None, de_Persist = (\<lambda>i. None)\<rparr>"

definition startDerived :: derivedState where
  "startDerived = \<lparr>ds_Cache = \<lparr>ac_Cached = False, ac_Version = 0, ac_Lifecycle = emptyMetrics, ac_Issues = []\<rparr>,
     ds_Delivered = newSeenCache ''/state'' ''issues'' 20000, ds_DeliveredFile = SeenAbsent, ds_Pushes = [], ds_Log = []\<rparr>"

definition jobEntry :: "gotime \<Rightarrow> string \<Rightarrow> logEntry" where
  "jobEntry t act = zeroEntry\<lparr>le_Time := t, le_EventType := ''workflow_job'', le_Action := act, le_JobID := 42\<rparr>"

definition sampleRounds :: "(recordCall list \<times> derivedEnv) list" where
  "sampleRounds =
     [([(1, Appended, noFaults, jobEntry sampleTime ''queued'')], quietEnv), ([], quietEnv\<lparr>de_Lifecycle := Some ''down''\<rparr>)]"

definition sampleCalls :: "recordCall list" where
  "sampleCalls = [(1, WriteFails 3 ''full'', noFaults, jobEntry sampleTime ''queued''),
     (1, Appended, noFaults, jobEntry (sampleTime + 90 * second) ''in_progress'')]"

theorem derived_metrics_current_witness:
  "(let before = collectRounds sampleRounds (emptyStore 9 18, startDerived);
        after = collectRounds (sampleRounds @ [(sampleCalls, quietEnv)]) (emptyStore 9 18, startDerived) in
    \<exists>ps. ds_Pushes (snd after) =
      ds_Pushes (snd before) @ PushLifecycleMetrics (buildLifecycleMetrics (ls_Entries (fst after))) # ps)"
proof -
  have "\<not> ac_Cached (ds_Cache startDerived)" by (simp add: startDerived_def)
  moreover have "list_all (\<lambda>(h, E). length h < 2 ^ 64) (sampleRounds @ [(sampleCalls, quietEnv)])"
    by (simp add: sampleRounds_def sampleCalls_def)
  ultimately show ?thesis by (rule derived_metrics_current)
qed

end
