(* ===== verification/Daemon_Metrics.thy ===== *)
theory Daemon_Metrics
  imports Metric_Domain Daemon_Loop Demand_Tracker Seen_Cache Log_Handler
begin

text \<open>
  The metrics side of \<open>internal/daemon/daemon.go\<close>: \<open>buildRunnerMetrics\<close>, the collection and pushing of
  runner, host and workflow metrics for every group, and the status page.  The answers of the
  CI provider, the container runtime and the metrics backend are given; a provider that has
  an optional method has \<open>Some\<close> in its place.

  \<open>runner_metrics_add_up\<close>: the counts of a report fit together.  \<open>groups_report_independently\<close>: a
  group is reported exactly if its own runners can be listed.
\<close>

section \<open>Runner metrics\<close>

definition filterContainersByPrefix :: "container list \<Rightarrow> string \<Rightarrow> container list" where
  "filterContainersByPrefix cs pre =
     filter (\<lambda>c. pre = [] \<or> length pre \<le> length (c_Name c) \<and> take (length pre) (c_Name c) = pre) cs"

definition workflowMetricKey :: "workflowMetrics \<Rightarrow> string" where
  "workflowMetricKey run =
     (if wm_RunID run \<noteq> 0 then itoa (wm_RunID run) @ '':'' @ itoa (wm_RunAttempt run)
      else join ''|'' [wm_Repo run, wm_Workflow run, itoa (wm_RunNumber run), wm_Branch run, wm_Event run,
                       wm_Conclusion run, itoa (wm_DurationS run)])"

definition zeroRunnerMetrics :: RunnerMetrics where
  "zeroRunnerMetrics = \<lparr>rm_GroupID = [], rm_TotalRunners = 0, rm_BusyRunners = 0, rm_IdleRunners = 0,
     rm_AvailableOnlineRunners = 0, rm_OnlineRunners = 0, rm_OfflineRunners = 0, rm_AutoRunners = 0,
     rm_PermanentRunners = 0, rm_ProvisioningRunners = 0, rm_QueuedJobs = 0, rm_OldestQueuedS = 0,
     rm_BaselineConfigured = False, rm_BaselineOnline = False, rm_OverflowRunners = 0, rm_RunnerDistribution = [],
     rm_UtilizationPct = 0, rm_RunnerInventoryStale = False, rm_RunnerInventoryAgeS = 0, rm_RunnerInventoryAt = [],
     rm_RunnerInventoryError = [], rm_Runners = []\<rparr>"

text \<open>The loop over the runners; of runners with the same name the map keeps the last.\<close>

fun countRunners :: "(string \<Rightarrow> bool) \<Rightarrow> runner list \<Rightarrow> RunnerMetrics \<times> (string \<times> runner) list \<Rightarrow> RunnerMetrics \<times> (string \<times> runner) list" where
  "countRunners classify [] (m, byName) = (m, byName)"
| "countRunners classify (r # rs) (m, byName) =
     (let m = (if r_Busy r then m\<lparr>rm_BusyRunners := rm_BusyRunners m + 1\<rparr> else m);
          m = (if r_Status r = ''online'' then m\<lparr>rm_OnlineRunners := rm_OnlineRunners m + 1\<rparr> else m);
          m = (if classify (r_Name r) then m\<lparr>rm_AutoRunners := rm_AutoRunners m + 1\<rparr> else m);
          d = \<lparr>rd_Name = r_Name r, rd_Status = r_Status r, rd_Busy = r_Busy r, rd_IsAuto = classify (r_Name r)\<rparr>
      in countRunners classify rs (m\<lparr>rm_Runners := rm_Runners m @ [d]\<rparr>, AList.update (r_Name r) r byName))"

definition provisioning :: "(string \<times> runner) list \<Rightarrow> container \<Rightarrow> bool" where
  "provisioning byName c \<longleftrightarrow>
     c_Status c = StatusRunning \<and>
     (case map_of byName (c_Name c) of None \<Rightarrow> True | Some r \<Rightarrow> r_Status r \<noteq> ''online'')"

definition buildRunnerMetrics :: "runner list \<Rightarrow> container list \<Rightarrow> (string \<Rightarrow> bool) \<Rightarrow> RunnerMetrics" where
  "buildRunnerMetrics runners containers classify =
     (let (m, byName) = countRunners classify runners (zeroRunnerMetrics\<lparr>rm_TotalRunners := int (length runners)\<rparr>, []);
          m = m\<lparr>rm_IdleRunners := rm_TotalRunners m - rm_BusyRunners m,
                rm_AvailableOnlineRunners := AvailableRunnerCount runners,
                rm_OfflineRunners := rm_TotalRunners m - rm_OnlineRunners m,
                rm_PermanentRunners := rm_TotalRunners m - rm_AutoRunners m,
                rm_ProvisioningRunners := int (length (filter (provisioning byName) containers))\<rparr>
      in if rm_OnlineRunners m > 0
         then m\<lparr>rm_UtilizationPct := of_int (rm_BusyRunners m) / of_int (rm_OnlineRunners m) * 100\<rparr>
         else m)"

section \<open>Collection\<close>

record metricsCI =
  mc_ListRunners :: "runner list result"
  mc_ListForMetrics :: "(runner list \<times> RunnerInventoryMeta) result option"
  mc_ClassifyRunner :: "string \<Rightarrow> bool"
  mc_RecentShallow :: "(int \<Rightarrow> workflowMetrics list result) option"
  mc_Recent :: "int \<Rightarrow> workflowMetrics list result"
  mc_Enrich :: "workflowMetrics list \<Rightarrow> workflowMetrics list \<times> gerror option"

record metricsRuntime =
  mr_ListContainers :: "container list result"
  mr_HostFromContainers :: "(string \<Rightarrow> container list \<Rightarrow> HostMetrics result) option"
  mr_Host :: "(string \<Rightarrow> HostMetrics result) option"

record metricsBackend =
  mb_PushRunner :: "RunnerMetrics \<Rightarrow> gerror option"
  mb_PushHost :: "HostMetrics \<Rightarrow> gerror option"
  mb_PushWorkflow :: "workflowMetrics list \<Rightarrow> gerror option"

record metricsGroup =
  mg_ID :: string
  mg_Prefix :: string
  mg_BaselineName :: string
  mg_CachePool :: string
  mg_CI :: "metricsCI option"
  mg_Runtime :: "metricsRuntime option"
  mg_Metrics :: "metricsBackend option"

record metricsEnv =
  me_CollectHost :: bool
  me_CollectWorkflows :: bool
  me_Metrics :: "metricsBackend option"
  me_VersionFile :: "string result"
  me_Clock :: "string \<Rightarrow> clock"
  me_Persist :: "string \<Rightarrow> nat \<Rightarrow> gerror option"

datatype metricsPush =
    PushRunner RunnerMetrics
  | PushHost HostMetrics
  | PushWorkflow string "workflowMetrics list"

record metricsState =
  ms_Demand :: "tracker option"
  ms_Delivered :: seenCache
  ms_DeliveredFile :: seenFile
  ms_Pushes :: "metricsPush list"
  ms_Log :: "(logLevel \<times> string \<times> logAttrs) list"

definition msLog :: "logLevel \<Rightarrow> string \<Rightarrow> logAttrs \<Rightarrow> metricsState \<Rightarrow> metricsState" where
  "msLog lvl msg attrs s = s\<lparr>ms_Log := ms_Log s @ [(lvl, msg, attrs)]\<rparr>"

definition msError :: "logLevel \<Rightarrow> string \<Rightarrow> logAttrs \<Rightarrow> gerror option \<Rightarrow> metricsState \<Rightarrow> metricsState" where
  "msError lvl msg attrs err s = (case err of None \<Rightarrow> s | Some e \<Rightarrow> msLog lvl msg (attrs @ [(''error'', LStr e)]) s)"

definition msPush :: "metricsPush \<Rightarrow> metricsState \<Rightarrow> metricsState" where
  "msPush p s = s\<lparr>ms_Pushes := ms_Pushes s @ [p]\<rparr>"

definition listRunnersForMetrics :: "metricsCI \<Rightarrow> (runner list \<times> RunnerInventoryMeta) result" where
  "listRunnersForMetrics ci =
     (case mc_ListForMetrics ci of
        Some r \<Rightarrow> r
      | None \<Rightarrow>
          (case mc_ListRunners ci of
             Inl err \<Rightarrow> Inl err
           | Inr runners \<Rightarrow> Inr (runners, \<lparr>im_Stale = False, im_AgeS = 0, im_FetchedAt = [], im_Error = []\<rparr>)))"

definition statusCount :: "containerStatus \<Rightarrow> container list \<Rightarrow> int" where
  "statusCount st cs = int (length (filter (\<lambda>c. c_Status c = st) cs))"

text \<open>The backend of the first group with the ID, the daemon's own if there is none.\<close>

definition backendOf :: "metricsEnv \<Rightarrow> metricsGroup list \<Rightarrow> string \<Rightarrow> metricsBackend option" where
  "backendOf E groups groupID =
     (case find (\<lambda>g. mg_ID g = groupID) groups of None \<Rightarrow> me_Metrics E | Some g \<Rightarrow> mg_Metrics g)"

definition hostSnapshot :: "string \<Rightarrow> metricsRuntime option \<Rightarrow> container list \<Rightarrow> HostMetrics result option" where
  "hostSnapshot cachePool rt allContainers =
     (case rt of
        None \<Rightarrow> None
      | Some r \<Rightarrow>
          (case mr_HostFromContainers r of
             Some f \<Rightarrow> Some (f cachePool allContainers)
           | None \<Rightarrow> map_option (\<lambda>f. f cachePool) (mr_Host r)))"

definition collectHostMetrics ::
  "metricsEnv \<Rightarrow> metricsGroup list \<Rightarrow> metricsGroup \<Rightarrow> container list \<Rightarrow> container list \<Rightarrow> bool \<Rightarrow> metricsState \<Rightarrow> metricsState" where
  "collectHostMetrics E groups g allContainers autoContainers containersLoaded s =
     (case hostSnapshot (mg_CachePool g) (mg_Runtime g) allContainers of
        None \<Rightarrow> s
      | Some (Inl err) \<Rightarrow> msLog LevelWarn ''failed to collect host metrics'' [(''error'', LStr err)] s
      | Some (Inr hm) \<Rightarrow>
          (let hm = (if containersLoaded
                     then hm\<lparr>hm_RunnerContainersRunning := Some (statusCount StatusRunning autoContainers),
                            hm_RunnerContainersStopped := Some (statusCount StatusStopped autoContainers)\<rparr>
                     else hm);
               hm = hm\<lparr>hm_GroupID := mg_ID g\<rparr>
           in case backendOf E groups (mg_ID g) of
                None \<Rightarrow> s
              | Some b \<Rightarrow>
                  msError LevelError ''failed to push host metrics'' [] (mb_PushHost b hm) (msPush (PushHost hm) s)))"

text \<open>The report of a group whose runners were listed; the demand is read when there is a tracker.\<close>

definition reportOf ::
  "metricsEnv \<Rightarrow> metricsGroup \<Rightarrow> metricsCI \<Rightarrow> runner list \<Rightarrow> RunnerInventoryMeta \<Rightarrow> container list \<Rightarrow> capacityDemand option \<Rightarrow> RunnerMetrics" where
  "reportOf E g ci runners meta autoContainers demand =
     (let rm = buildRunnerMetrics runners autoContainers (mc_ClassifyRunner ci);
          rm = rm\<lparr>rm_GroupID := mg_ID g, rm_OverflowRunners := rm_AutoRunners rm,
                  rm_BaselineConfigured := mg_BaselineName g \<noteq> [],
                  rm_BaselineOnline := list_ex (\<lambda>r. r_Name r = mg_BaselineName g \<and> r_Status r = ''online'') runners\<rparr>;
          rm = (case demand of
                  None \<Rightarrow> rm
                | Some d \<Rightarrow> rm\<lparr>rm_QueuedJobs := d_QueuedJobs d, rm_OldestQueuedS := go_div (d_OldestAge d) second\<rparr>);
          rm = (case me_VersionFile E of
                  Inl err \<Rightarrow> rm
                | Inr version \<Rightarrow> rm\<lparr>rm_RunnerDistribution := trim_space version\<rparr>)
      in rm\<lparr>rm_RunnerInventoryStale := im_Stale meta, rm_RunnerInventoryAgeS := im_AgeS meta,
            rm_RunnerInventoryAt := im_FetchedAt meta, rm_RunnerInventoryError := im_Error meta\<rparr>)"

text \<open>The containers of the group: all, those with its prefix, and whether they could be listed.\<close>

definition groupContainers ::
  "metricsEnv \<Rightarrow> metricsGroup \<Rightarrow> bool \<Rightarrow> metricsState \<Rightarrow> (container list \<times> container list \<times> bool) \<times> metricsState" where
  "groupContainers E g listedRunners s =
     (case mg_Runtime g of
        None \<Rightarrow> (([], [], False), s)
      | Some r \<Rightarrow>
          (if me_CollectHost E \<or> listedRunners then
             (case mr_ListContainers r of
                Inl err \<Rightarrow>
                  (([], [], False), msLog LevelWarn ''failed to list containers for metrics''
                     [(''runner_group'', LStr (mg_ID g)), (''error'', LStr err)] s)
              | Inr listed \<Rightarrow> ((listed, filterContainersByPrefix listed (mg_Prefix g), True), s))
           else (([], [], False), s)))"

definition pushReport ::
  "metricsEnv \<Rightarrow> metricsGroup \<Rightarrow> metricsCI \<Rightarrow> metricsBackend \<Rightarrow> runner list \<Rightarrow> RunnerInventoryMeta \<Rightarrow> container list \<Rightarrow> metricsState \<Rightarrow> metricsState" where
  "pushReport E g ci b runners meta autoContainers s =
     (let (demand, t) = (case ms_Demand s of
                           None \<Rightarrow> (None, None)
                         | Some t \<Rightarrow> (let (d, t') = Snapshot (me_Clock E (mg_ID g)) t (mg_ID g) in (Some d, Some t')));
          rm = reportOf E g ci runners meta autoContainers demand
      in msError LevelError ''failed to push runner metrics'' [(''runner_group'', LStr (mg_ID g))] (mb_PushRunner b rm)
           (msPush (PushRunner rm) (s\<lparr>ms_Demand := t\<rparr>)))"

definition collectGroup :: "metricsEnv \<Rightarrow> metricsGroup list \<Rightarrow> metricsGroup \<Rightarrow> metricsState \<Rightarrow> metricsState" where
  "collectGroup E groups g s =
     (case (mg_CI g, mg_Metrics g) of
        (Some ci, Some b) \<Rightarrow>
          (let listed = listRunnersForMetrics ci;
               s1 = (case listed of
                   Inl err \<Rightarrow> msLog LevelError ''failed to list runners for metrics''
                     [(''runner_group'', LStr (mg_ID g)), (''error'', LStr err)] s
                 | Inr (runners, meta) \<Rightarrow>
                     (if im_Stale meta then msLog LevelInfo ''using stale runner inventory for metrics''
                        [(''runner_group'', LStr (mg_ID g)), (''event_type'', LStr ''runner_inventory''),
                         (''action'', LStr ''stale_metrics''), (''runner_inventory_age_s'', LInt (im_AgeS meta)),
                         (''runner_inventory_error'', LStr (im_Error meta))] s
                      else s));
               ((allContainers, autoContainers, loaded), s2) = groupContainers E g (\<not> isl listed) s1;
               s3 = (case listed of
                       Inl err \<Rightarrow> s2
                     | Inr (runners, meta) \<Rightarrow> pushReport E g ci b runners meta autoContainers s2)
           in if me_CollectHost E then collectHostMetrics E groups g allContainers autoContainers loaded s3 else s3)
      | _ \<Rightarrow> s)"

definition collectRunnerAndHostMetrics :: "metricsEnv \<Rightarrow> metricsGroup list \<Rightarrow> metricsState \<Rightarrow> metricsState" where
  "collectRunnerAndHostMetrics E groups s = foldl (\<lambda>s g. collectGroup E groups g s) s groups"

section \<open>Workflow metrics\<close>

definition workflowMetricRunFetchLimit :: int where "workflowMetricRunFetchLimit = 20"

text \<open>A provider that lists shallow runs needs them enriched.\<close>

definition listWorkflowMetrics :: "metricsCI \<Rightarrow> workflowMetrics list result \<times> bool" where
  "listWorkflowMetrics ci =
     (case mc_RecentShallow ci of
        Some f \<Rightarrow> (f workflowMetricRunFetchLimit, True)
      | None \<Rightarrow> (mc_Recent ci workflowMetricRunFetchLimit, False))"

definition enrichRuns :: "metricsCI \<Rightarrow> string \<Rightarrow> bool \<Rightarrow> workflowMetrics list \<Rightarrow> metricsState \<Rightarrow> workflowMetrics list \<times> metricsState" where
  "enrichRuns ci groupID needed wm s =
     (if wm \<noteq> [] \<and> needed then
        (let (enriched, err) = mc_Enrich ci wm
         in (if enriched \<noteq> [] then enriched else wm,
             msError LevelWarn ''failed to enrich workflow metrics'' [(''runner_group'', LStr groupID)] err s))
      else (wm, s))"

definition markWorkflows :: "metricsEnv \<Rightarrow> string \<Rightarrow> workflowMetrics list \<Rightarrow> metricsState \<Rightarrow> metricsState" where
  "markWorkflows E groupID wm s =
     (case markDelivered (me_Persist E groupID) (ms_Delivered s) (ms_DeliveredFile s) workflowMetricKey wm of
        None \<Rightarrow> s
      | Some (err, c, f) \<Rightarrow>
          msError LevelWarn ''failed to persist cache'' [(''cache'', LStr ''workflow metrics'')] err
            (s\<lparr>ms_Delivered := c, ms_DeliveredFile := f\<rparr>))"

definition collectGroupWorkflows :: "metricsEnv \<Rightarrow> metricsGroup \<Rightarrow> metricsState \<Rightarrow> metricsState" where
  "collectGroupWorkflows E g s =
     (case (mg_CI g, mg_Metrics g) of
        (Some ci, Some b) \<Rightarrow>
          (let (listed, needsEnrichment) = listWorkflowMetrics ci;
               (wm, s1) = (case listed of
                   Inl err \<Rightarrow> ([], msLog LevelWarn ''failed to collect workflow metrics''
                     [(''runner_group'', LStr (mg_ID g)), (''error'', LStr err)] s)
                 | Inr runs \<Rightarrow> (filterNew (ms_Delivered s) workflowMetricKey runs, s));
               (wm, s2) = enrichRuns ci (mg_ID g) needsEnrichment wm s1
           in if wm = [] then s2
              else (let s3 = msPush (PushWorkflow (mg_ID g) wm) s2 in
                case mb_PushWorkflow b wm of
                  Some err \<Rightarrow> msLog LevelError ''failed to push workflow metrics''
                    [(''runner_group'', LStr (mg_ID g)), (''error'', LStr err)] s3
                | None \<Rightarrow> markWorkflows E (mg_ID g) wm s3))
      | _ \<Rightarrow> s)"

definition collectWorkflowMetrics :: "metricsEnv \<Rightarrow> metricsGroup list \<Rightarrow> metricsState \<Rightarrow> metricsState" where
  "collectWorkflowMetrics E groups s =
     (if \<not> me_CollectWorkflows E then s else foldl (\<lambda>s g. collectGroupWorkflows E g s) s groups)"

section \<open>Status page\<close>

definition formatStatusTime :: "gotime \<Rightarrow> string" where
  "formatStatusTime t = (if isZero t then [] else rfc3339Nano t)"

record statusSnapshot =
  st_PollInterval :: string
  st_WebhookEnabled :: bool
  st_MetricsEnabled :: bool
  st_ReconcileRunning :: bool
  st_TriggerSequence :: "64 word"
  st_ReconcileRuns :: "64 word"
  st_ReconcileFailures :: "64 word"
  st_LastWebhookAt :: string
  st_LastWebhookType :: string
  st_LastWebhookDetail :: string
  st_LastReconcileStartedAt :: string
  st_LastReconcileFinishedAt :: string
  st_LastSuccessfulReconcileAt :: string
  st_LastReconcileError :: string

definition snapshotStatus :: "daemonConfig \<Rightarrow> loopState \<Rightarrow> hookState \<Rightarrow> statusSnapshot" where
  "snapshotStatus cfg d h =
     \<lparr>st_PollInterval = durationString (dc_PollInterval cfg), st_WebhookEnabled = dc_WebhookEnabled cfg,
      st_MetricsEnabled = dc_MetricsEnabled cfg, st_ReconcileRunning = dl_reconcileRunning d,
      st_TriggerSequence = dl_triggerSeq d, st_ReconcileRuns = ls_reconcileRuns (dl_stats d),
      st_ReconcileFailures = ls_reconcileFailures (dl_stats d),
      st_LastWebhookAt = formatStatusTime (hk_lastWebhookAt h), st_LastWebhookType = hk_lastWebhookType h,
      st_LastWebhookDetail = hk_lastWebhookDetail h,
      st_LastReconcileStartedAt = formatStatusTime (ls_lastReconcileStartedAt (dl_stats d)),
      st_LastReconcileFinishedAt = formatStatusTime (ls_lastReconcileFinishedAt (dl_stats d)),
      st_LastSuccessfulReconcileAt = formatStatusTime (ls_lastSuccessfulReconcileAt (dl_stats d)),
      st_LastReconcileError = ls_lastReconcileError (dl_stats d)\<rparr>"

definition wordMember :: "string \<Rightarrow> 64 word \<Rightarrow> string \<times> json" where
  "wordMember k w = (k, JNum (nat_dec (unat w)))"

definition statusJson :: "statusSnapshot \<Rightarrow> json" where
  "statusJson st = JObj (
     [(''poll_interval'', JStr (st_PollInterval st)), (''webhook_enabled'', JBool (st_WebhookEnabled st)),
      (''metrics_enabled'', JBool (st_MetricsEnabled st)), (''reconcile_running'', JBool (st_ReconcileRunning st)),
      wordMember ''trigger_sequence'' (st_TriggerSequence st), wordMember ''reconcile_runs'' (st_ReconcileRuns st),
      wordMember ''reconcile_failures'' (st_ReconcileFailures st)]
     @ textMember ''last_webhook_at'' (st_LastWebhookAt st) @ textMember ''last_webhook_type'' (st_LastWebhookType st)
     @ textMember ''last_webhook_detail'' (st_LastWebhookDetail st)
     @ textMember ''last_reconcile_started_at'' (st_LastReconcileStartedAt st)
     @ textMember ''last_reconcile_finished_at'' (st_LastReconcileFinishedAt st)
     @ textMember ''last_successful_reconcile_at'' (st_LastSuccessfulReconcileAt st)
     @ textMember ''last_reconcile_error'' (st_LastReconcileError st))"

definition handleStatus :: "daemonConfig \<Rightarrow> loopState \<Rightarrow> hookState \<Rightarrow> httpRequest \<Rightarrow> httpResponse" where
  "handleStatus cfg d h r =
     (if hr_Method r \<noteq> ''GET'' \<and> hr_Method r \<noteq> ''HEAD'' then (405, ''method not allowed'')
      else if hr_Method r = ''HEAD'' then (200, [])
      else (200, printJson (statusJson (snapshotStatus cfg d h)) @ [CHR 0x0A]))"

section \<open>Reports\<close>

definition count :: "('a \<Rightarrow> bool) \<Rightarrow> 'a list \<Rightarrow> int" where
  "count P xs = int (length (filter P xs))"

lemma countRunners_simps [simp]: "count P [] = 0" "count P (x # xs) = (if P x then 1 else 0) + count P xs"
  by (simp_all add: count_def)

lemma count_bounds: "0 \<le> count P xs" "count P xs \<le> int (length xs)"
  by (simp_all add: count_def)

lemma countRunners_mono: "(\<And>x. P x \<Longrightarrow> Q x) \<Longrightarrow> count P xs \<le> count Q xs"
  by (induction xs) auto

lemma count_diff: "(\<And>x. P x \<Longrightarrow> \<not> Q x) \<Longrightarrow> count P xs \<le> int (length xs) - count Q xs"
  by (induction xs) auto

lemma countRunners_spec:
  "rm_TotalRunners (fst (countRunners cl rs (m, b))) = rm_TotalRunners m \<and>
   rm_BusyRunners (fst (countRunners cl rs (m, b))) = rm_BusyRunners m + count r_Busy rs \<and>
   rm_OnlineRunners (fst (countRunners cl rs (m, b))) = rm_OnlineRunners m + count (\<lambda>r. r_Status r = ''online'') rs \<and>
   rm_AutoRunners (fst (countRunners cl rs (m, b))) = rm_AutoRunners m + count (\<lambda>r. cl (r_Name r)) rs \<and>
   length (rm_Runners (fst (countRunners cl rs (m, b)))) = length (rm_Runners m) + length rs \<and>
   rm_UtilizationPct (fst (countRunners cl rs (m, b))) = rm_UtilizationPct m"
  by (induction rs arbitrary: m b) (simp_all add: Let_def)

lemma countRunners_names:
  "map_of (snd (countRunners cl rs (m, b))) n =
     (case find (\<lambda>r. r_Name r = n) (rev rs) of None \<Rightarrow> map_of b n | Some r \<Rightarrow> Some r)"
proof (induction rs arbitrary: m b)
  case (Cons r rs)
  have "find P (xs @ ys) = (case find P xs of None \<Rightarrow> find P ys | Some x \<Rightarrow> Some x)" for P and xs ys :: "runner list"
    by (induction xs) auto
  then show ?case using Cons by (simp add: Let_def split: option.splits)
qed simp

text \<open>The counts of a runner report fit together: busy and idle, online and offline, auto-scaled and permanent
  runners each add up to the total, the available ones are idle and online, and no more containers are
  provisioning than run.\<close>

theorem runner_metrics_add_up:
  "(let m = buildRunnerMetrics runners containers classify in
    rm_TotalRunners m = int (length runners) \<and> int (length (rm_Runners m)) = rm_TotalRunners m \<and>
    rm_BusyRunners m = count r_Busy runners \<and> rm_BusyRunners m + rm_IdleRunners m = rm_TotalRunners m \<and>
    rm_OnlineRunners m = count (\<lambda>r. r_Status r = ''online'') runners \<and>
    rm_OnlineRunners m + rm_OfflineRunners m = rm_TotalRunners m \<and>
    rm_AutoRunners m = count (\<lambda>r. classify (r_Name r)) runners \<and>
    rm_AutoRunners m + rm_PermanentRunners m = rm_TotalRunners m \<and>
    0 \<le> rm_IdleRunners m \<and> 0 \<le> rm_OfflineRunners m \<and> 0 \<le> rm_PermanentRunners m \<and>
    0 \<le> rm_AvailableOnlineRunners m \<and> rm_AvailableOnlineRunners m \<le> rm_IdleRunners m \<and>
    rm_AvailableOnlineRunners m \<le> rm_OnlineRunners m \<and>
    0 \<le> rm_ProvisioningRunners m \<and> rm_ProvisioningRunners m \<le> count (\<lambda>c. c_Status c = StatusRunning) containers \<and>
    0 \<le> rm_UtilizationPct m)"
proof -
  define z where "z = zeroRunnerMetrics\<lparr>rm_TotalRunners := int (length runners)\<rparr>"
  have z: "rm_TotalRunners z = int (length runners)" "rm_BusyRunners z = 0" "rm_OnlineRunners z = 0"
    "rm_AutoRunners z = 0" "rm_Runners z = []" "rm_UtilizationPct z = 0"
    by (simp_all add: z_def zeroRunnerMetrics_def)
  obtain m b where cr: "countRunners classify runners (z, []) = (m, b)" by force
  have m: "rm_TotalRunners m = int (length runners)" "rm_BusyRunners m = count r_Busy runners"
    "rm_OnlineRunners m = count (\<lambda>r. r_Status r = ''online'') runners"
    "rm_AutoRunners m = count (\<lambda>r. classify (r_Name r)) runners" "length (rm_Runners m) = length runners"
    "rm_UtilizationPct m = 0"
    using countRunners_spec [of classify runners z "[]"] by (simp_all add: cr z)
  have avail: "AvailableRunnerCount runners = count (\<lambda>r. r_Status r = ''online'' \<and> \<not> r_Busy r) runners"
    by (simp add: AvailableRunnerCount_filter count_def)
  have "count (\<lambda>r. r_Status r = ''online'' \<and> \<not> r_Busy r) runners \<le> int (length runners) - count r_Busy runners"
    "count (\<lambda>r. r_Status r = ''online'' \<and> \<not> r_Busy r) runners \<le> count (\<lambda>r. r_Status r = ''online'') runners"
    by (rule count_diff, simp) (rule countRunners_mono, simp)
  moreover have "count (provisioning b) containers \<le> count (\<lambda>c. c_Status c = StatusRunning) containers"
    by (rule countRunners_mono) (simp add: provisioning_def)
  moreover note count_bounds [of r_Busy runners] count_bounds [of "\<lambda>r. r_Status r = ''online''" runners]
    count_bounds [of "\<lambda>r. classify (r_Name r)" runners] count_bounds [of "provisioning b" containers]
    count_bounds [of "\<lambda>r. r_Status r = ''online'' \<and> \<not> r_Busy r" runners]
  ultimately show ?thesis
    by (simp add: buildRunnerMetrics_def z_def [symmetric] cr Let_def m avail count_def [of "provisioning b", symmetric])
qed

text \<open>Busy runners are counted online or not, so that the utilization can be above 100 percent.\<close>

lemma utilization_above_100:
  "rm_UtilizationPct (buildRunnerMetrics
     [\<lparr>r_ID = 1, r_Name = ''a'', r_Status = ''online'', r_Busy = True, r_Labels = [], r_IsAuto = False\<rparr>,
      \<lparr>r_ID = 2, r_Name = ''b'', r_Status = ''offline'', r_Busy = True, r_Labels = [], r_IsAuto = False\<rparr>] [] (\<lambda>n. False)) = 200"
  by (simp add: buildRunnerMetrics_def zeroRunnerMetrics_def)

section \<open>Independence of the groups\<close>

definition runnerReports :: "metricsPush list \<Rightarrow> RunnerMetrics list" where
  "runnerReports ps = concat (map (\<lambda>p. case p of PushRunner rm \<Rightarrow> [rm] | _ \<Rightarrow> []) ps)"

lemma runnerReports_simps [simp]:
  "runnerReports [] = []" "runnerReports (ps @ qs) = runnerReports ps @ runnerReports qs"
  "runnerReports [PushRunner rm] = [rm]" "runnerReports [PushHost hm] = []" "runnerReports [PushWorkflow g ws] = []"
  by (simp_all add: runnerReports_def)

text \<open>What a group has to report: its ID and the number of its runners.\<close>

definition toReport :: "metricsGroup \<Rightarrow> (string \<times> int) list" where
  "toReport g =
     (case (mg_CI g, mg_Metrics g) of
        (Some ci, Some b) \<Rightarrow>
          (case listRunnersForMetrics ci of Inl err \<Rightarrow> [] | Inr (runners, meta) \<Rightarrow> [(mg_ID g, int (length runners))])
      | _ \<Rightarrow> [])"

lemma msLog_pushes [simp]: "ms_Pushes (msLog l t as s) = ms_Pushes s"
  by (simp add: msLog_def)

lemma msError_pushes [simp]: "ms_Pushes (msError l t as err s) = ms_Pushes s"
  by (simp add: msError_def split: option.splits)

lemma msPush_pushes [simp]: "ms_Pushes (msPush p s) = ms_Pushes s @ [p]"
  by (simp add: msPush_def)

lemma host_reports: "runnerReports (ms_Pushes (collectHostMetrics E gs g al au ld s)) = runnerReports (ms_Pushes s)"
  by (simp add: collectHostMetrics_def Let_def split: option.splits sum.splits)

lemma containers_pushes: "groupContainers E g l s = (cs, s') \<Longrightarrow> ms_Pushes s' = ms_Pushes s"
  by (auto simp: groupContainers_def split: option.splits sum.splits if_splits)

lemma report_fields:
  "rm_GroupID (reportOf E g ci runners meta autos d) = mg_ID g \<and>
   rm_TotalRunners (reportOf E g ci runners meta autos d) = int (length runners)"
  using runner_metrics_add_up [of runners autos "mc_ClassifyRunner ci"]
  by (simp add: reportOf_def Let_def split: option.splits sum.splits)

lemma pushReport_reports:
  "map (\<lambda>rm. (rm_GroupID rm, rm_TotalRunners rm)) (runnerReports (ms_Pushes (pushReport E g ci b runners meta autos s))) =
   map (\<lambda>rm. (rm_GroupID rm, rm_TotalRunners rm)) (runnerReports (ms_Pushes s)) @ [(mg_ID g, int (length runners))]"
  by (simp add: pushReport_def Let_def report_fields split: option.splits prod.splits)

lemma group_reports:
  "map (\<lambda>rm. (rm_GroupID rm, rm_TotalRunners rm)) (runnerReports (ms_Pushes (collectGroup E gs g s))) =
   map (\<lambda>rm. (rm_GroupID rm, rm_TotalRunners rm)) (runnerReports (ms_Pushes s)) @ toReport g"
proof (cases "mg_CI g = None \<or> mg_Metrics g = None")
  case True
  then show ?thesis by (auto simp: collectGroup_def toReport_def split: option.splits)
next
  case False
  then obtain ci b where g: "mg_CI g = Some ci" "mg_Metrics g = Some b" by auto
  show ?thesis
  proof (cases "listRunnersForMetrics ci")
    case (Inl err)
    let ?s1 = "msLog LevelError ''failed to list runners for metrics''
        [(''runner_group'', LStr (mg_ID g)), (''error'', LStr err)] s"
    obtain al au ld s2 where c: "groupContainers E g False ?s1 = ((al, au, ld), s2)" by (metis prod.collapse)
    then show ?thesis using containers_pushes [OF c]
      by (simp add: collectGroup_def toReport_def g Inl host_reports)
  next
    case (Inr rm)
    obtain runners meta where rm: "rm = (runners, meta)" by force
    define s1 where "s1 = (if im_Stale meta then msLog LevelInfo ''using stale runner inventory for metrics''
        [(''runner_group'', LStr (mg_ID g)), (''event_type'', LStr ''runner_inventory''),
         (''action'', LStr ''stale_metrics''), (''runner_inventory_age_s'', LInt (im_AgeS meta)),
         (''runner_inventory_error'', LStr (im_Error meta))] s else s)"
    obtain al au ld s2 where c: "groupContainers E g True s1 = ((al, au, ld), s2)" by (metis prod.collapse)
    have "ms_Pushes s2 = ms_Pushes s" using containers_pushes [OF c] by (simp add: s1_def)
    moreover have "collectGroup E gs g s =
        (let s3 = pushReport E g ci b runners meta au s2
         in if me_CollectHost E then collectHostMetrics E gs g al au ld s3 else s3)"
      using c by (simp add: collectGroup_def g Inr rm s1_def [symmetric])
    ultimately show ?thesis by (simp add: Let_def host_reports pushReport_reports toReport_def g Inr rm)
  qed
qed

text \<open>Every group with a CI provider and a metrics backend whose runners can be listed gets exactly one report
  in a collection, of its own runners, in the order of the groups, whatever listings, reads and pushes fail.\<close>

theorem groups_report_independently:
  "map (\<lambda>rm. (rm_GroupID rm, rm_TotalRunners rm)) (runnerReports (ms_Pushes (collectRunnerAndHostMetrics E groups s))) =
   map (\<lambda>rm. (rm_GroupID rm, rm_TotalRunners rm)) (runnerReports (ms_Pushes s)) @ concat (map toReport groups)"
proof -
  have "map (\<lambda>rm. (rm_GroupID rm, rm_TotalRunners rm)) (runnerReports (ms_Pushes (foldl (\<lambda>s g. collectGroup E all g s) s gs))) =
      map (\<lambda>rm. (rm_GroupID rm, rm_TotalRunners rm)) (runnerReports (ms_Pushes s)) @ concat (map toReport gs)" for all gs
    by (induction gs arbitrary: s) (simp_all add: group_reports)
  then show ?thesis by (simp add: collectRunnerAndHostMetrics_def)
qed

end
