(* ===== verification/Config.thy ===== *)
theory Config
  imports Scaler_Domain Go_Paths
begin

text \<open>
  The configuration of \<open>internal/config/config.go\<close>: defaults, overrides from the environment,
  validation, and the runner classes it resolves to.  The decoding of TOML is third-party code: it
  is given as the configuration it makes of the defaults.  Checks are listed in the order of the
  code, and the first that fails gives the error.

  \<open>loaded_config_accepted\<close>: what holds of every configuration that is accepted.  \<open>prune_paths_confined\<close>:
  accepted prune paths stay below \<open>/cache\<close>.  \<open>legacy_class\<close>: a configuration without classes means
  one class that inherits everything.
\<close>

section \<open>Structs\<close>

record ScalerConfig =
  sc_Prefix :: string
  sc_MaxAutoRunners :: int
  sc_IdleTimeout :: duration
  sc_PollInterval :: duration
  sc_QueueAuditInterval :: duration
  sc_DemandTTL :: duration
  sc_Labels :: string
  sc_RunnerWorkDir :: string

record RunnerClassConfig =
  rk_Enabled :: "bool option"
  rk_ID :: string
  rk_Org :: string
  rk_Repo :: string
  rk_Prefix :: string
  rk_MaxAutoRunners :: "int option"
  rk_IdleTimeout :: duration
  rk_Labels :: string
  rk_MatchLabels :: "string list"
  rk_RunnerWorkDir :: string
  rk_Template :: string
  rk_CacheProfile :: string
  rk_Baseline :: bool
  rk_BaselineName :: string

record CachePruneConfig =
  pr_Enabled :: bool
  pr_Interval :: duration
  pr_MaxAge :: duration
  pr_TempMaxAge :: duration
  pr_Paths :: "string list"

record SymlinkConfig =
  sl_Source :: string
  sl_Target :: string

record CacheConfig =
  ca_Enabled :: bool
  ca_Pool :: string
  ca_Volume :: string
  ca_Prune :: CachePruneConfig
  ca_Symlinks :: "SymlinkConfig list"

record RunnerClass =
  cl_ID :: string
  cl_Org :: string
  cl_Repo :: string
  cl_Prefix :: string
  cl_MaxAutoRunners :: int
  cl_IdleTimeout :: duration
  cl_Labels :: string
  cl_MatchLabels :: "string list"
  cl_RunnerWorkDir :: string
  cl_Template :: string
  cl_Cache :: CacheConfig
  cl_Baseline :: bool
  cl_BaselineName :: string

record LXDConfig =
  lx_Socket :: string
  lx_Remote :: string
  lx_RemoteURL :: string
  lx_RemoteCert :: string
  lx_RemoteKey :: string
  lx_Network :: string

record ContainerConfig =
  ct_Provider :: string
  ct_Template :: string
  ct_LXD :: LXDConfig

record GitHubConfig =
  gh_Token :: string
  gh_WebhookSecret :: string

record CIConfig =
  ci_Provider :: string
  ci_Org :: string
  ci_Repo :: string
  ci_GitHub :: GitHubConfig

record WebhookConfig =
  wc_Enabled :: bool
  wc_Port :: int
  wc_Debounce :: duration
  wc_SyncRepos :: "(string \<times> string) list"
  wc_LogsToken :: string

record LokiConfig =
  lk_PushURL :: string
  lk_Username :: string
  lk_APIKey :: string

record MetricsConfig =
  mt_Enabled :: bool
  mt_Interval :: duration
  mt_CollectWorkflows :: bool
  mt_WorkflowRepoBatchSize :: int
  mt_CollectHost :: bool
  mt_Loki :: LokiConfig

record RunnerObservabilityConfig =
  ob_Enabled :: bool
  ob_PushURL :: string
  ob_HealthURL :: string
  ob_CredentialConfigured :: bool
  ob_MaxRetries :: int

record RunnerDistributionConfig =
  di_Enabled :: bool
  di_Repository :: string
  di_Platform :: string
  di_CacheDir :: string
  di_VersionFile :: string
  di_CheckInterval :: duration
  di_RetainVersions :: int

record StateConfig =
  sg_Provider :: string
  sg_Dir :: string

record Config =
  cg_Scaler :: ScalerConfig
  cg_Container :: ContainerConfig
  cg_Cache :: CacheConfig
  cg_CacheProfiles :: "(string \<times> CacheConfig) list"
  cg_CI :: CIConfig
  cg_RunnerClasses :: "RunnerClassConfig list"
  cg_Webhook :: WebhookConfig
  cg_Metrics :: MetricsConfig
  cg_RunnerObservability :: RunnerObservabilityConfig
  cg_RunnerDistribution :: RunnerDistributionConfig
  cg_State :: StateConfig

section \<open>Defaults and environment\<close>

definition defaults :: Config where
  "defaults = \<lparr>
     cg_Scaler = \<lparr>sc_Prefix = ''gh-runner-auto'', sc_MaxAutoRunners = 6, sc_IdleTimeout = 10 * minute,
       sc_PollInterval = 30 * second, sc_QueueAuditInterval = 5 * minute, sc_DemandTTL = 30 * minute,
       sc_Labels = ''self-hosted,linux,x64'', sc_RunnerWorkDir = ''_work''\<rparr>,
     cg_Container = \<lparr>ct_Provider = ''lxd'', ct_Template = ''gh-runner-template'',
       ct_LXD = \<lparr>lx_Socket = [], lx_Remote = [], lx_RemoteURL = [], lx_RemoteCert = [], lx_RemoteKey = [], lx_Network = []\<rparr>\<rparr>,
     cg_Cache = \<lparr>ca_Enabled = False, ca_Pool = [], ca_Volume = [],
       ca_Prune = \<lparr>pr_Enabled = True, pr_Interval = 24 * hour, pr_MaxAge = 14 * 24 * hour, pr_TempMaxAge = 6 * hour,
         pr_Paths = [''/cache/buildx'']\<rparr>, ca_Symlinks = []\<rparr>,
     cg_CacheProfiles = [],
     cg_CI = \<lparr>ci_Provider = ''github'', ci_Org = [], ci_Repo = [], ci_GitHub = \<lparr>gh_Token = [], gh_WebhookSecret = []\<rparr>\<rparr>,
     cg_RunnerClasses = [],
     cg_Webhook = \<lparr>wc_Enabled = True, wc_Port = 9876, wc_Debounce = 2 * second, wc_SyncRepos = [], wc_LogsToken = []\<rparr>,
     cg_Metrics = \<lparr>mt_Enabled = True, mt_Interval = 60 * second, mt_CollectWorkflows = True,
       mt_WorkflowRepoBatchSize = 25, mt_CollectHost = True, mt_Loki = \<lparr>lk_PushURL = [], lk_Username = [], lk_APIKey = []\<rparr>\<rparr>,
     cg_RunnerObservability = \<lparr>ob_Enabled = False, ob_PushURL = [], ob_HealthURL = [], ob_CredentialConfigured = False,
       ob_MaxRetries = 3\<rparr>,
     cg_RunnerDistribution = \<lparr>di_Enabled = False, di_Repository = ''actions/runner'', di_Platform = ''linux-x64'',
       di_CacheDir = ''/var/lib/gh-runner-scaler/runner-distributions'',
       di_VersionFile = ''/var/lib/gh-runner-scaler/runner-distributions/current-version'',
       di_CheckInterval = 24 * hour, di_RetainVersions = 2\<rparr>,
     cg_State = \<lparr>sg_Provider = ''filesystem'', sg_Dir = ''.state''\<rparr>\<rparr>"

definition firstNonEmpty :: "string list \<Rightarrow> string" where
  "firstNonEmpty vs = (case find (\<lambda>v. v \<noteq> []) vs of None \<Rightarrow> [] | Some v \<Rightarrow> v)"

text \<open>\<open>getenv\<close> gives the empty string for a variable that is not set.\<close>

definition overrideText :: "string \<Rightarrow> string \<Rightarrow> string" where
  "overrideText v old = (if v \<noteq> [] then v else old)"

definition applyEnvOverrides :: "(string \<Rightarrow> string) \<Rightarrow> Config \<Rightarrow> Config" where
  "applyEnvOverrides getenv cfg =
     (let ci = cg_CI cfg; gh = ci_GitHub ci; wh = cg_Webhook cfg; me = cg_Metrics cfg; lk = mt_Loki me;
          ob = cg_RunnerObservability cfg;
          gh = gh\<lparr>gh_Token := overrideText (getenv ''GH_SCALER_GITHUB_TOKEN'') (gh_Token gh)\<rparr>;
          gh = gh\<lparr>gh_WebhookSecret := overrideText (getenv ''GH_WEBHOOK_SECRET'') (gh_WebhookSecret gh)\<rparr>;
          wh = (if getenv ''GH_SCALER_LOG_TOKEN'' \<noteq> [] then wh\<lparr>wc_LogsToken := getenv ''GH_SCALER_LOG_TOKEN''\<rparr>
                else if wc_LogsToken wh = [] then wh\<lparr>wc_LogsToken := gh_WebhookSecret gh\<rparr> else wh);
          lk = lk\<lparr>lk_PushURL := overrideText (getenv ''LOKI_PUSH_URL'') (lk_PushURL lk),
                  lk_Username := overrideText (getenv ''LOKI_USERNAME'') (lk_Username lk),
                  lk_APIKey := overrideText (firstNonEmpty [getenv ''LOKI_API_KEY'', getenv ''LOKI_PASSWORD'',
                                                           getenv ''GRAFANA_CLOUD_API_KEY'']) (lk_APIKey lk)\<rparr>;
          ob = ob\<lparr>ob_PushURL := overrideText (getenv ''RUNNER_LOG_LOKI_PUSH_URL'') (ob_PushURL ob),
                  ob_HealthURL := overrideText (getenv ''RUNNER_LOG_LOKI_HEALTH_URL'') (ob_HealthURL ob),
                  ob_CredentialConfigured := getenv ''RUNNER_LOG_LOKI_USERNAME'' \<noteq> []
                    \<or> getenv ''RUNNER_LOG_LOKI_PASSWORD'' \<noteq> [] \<or> getenv ''RUNNER_LOG_LOKI_API_KEY'' \<noteq> []\<rparr>
      in cfg\<lparr>cg_CI := ci\<lparr>ci_GitHub := gh\<rparr>, cg_Webhook := wh, cg_Metrics := me\<lparr>mt_Loki := lk\<rparr>,
             cg_RunnerObservability := ob\<rparr>)"

section \<open>Labels and targets\<close>

definition cleanLabels :: "string list \<Rightarrow> string list" where
  "cleanLabels labels = filter (\<lambda>l. l \<noteq> []) (map trim_space labels)"

definition labelsList :: "string \<Rightarrow> string list" where
  "labelsList labels = cleanLabels (split_on CHR '','' labels)"

definition runnerClassEnabled :: "bool option \<Rightarrow> bool" where
  "runnerClassEnabled value = (case value of None \<Rightarrow> True | Some b \<Rightarrow> b)"

definition resolveTarget :: "string \<Rightarrow> string \<Rightarrow> string \<Rightarrow> string \<Rightarrow> string \<times> string" where
  "resolveTarget rawOrg rawRepo defaultOrg defaultRepo =
     (if trim_space rawRepo \<noteq> [] then ([], trim_space rawRepo)
      else if trim_space rawOrg \<noteq> [] then (trim_space rawOrg, [])
      else if trim_space defaultRepo \<noteq> [] then ([], trim_space defaultRepo)
      else (trim_space defaultOrg, []))"

definition validateRepoFullName :: "string \<Rightarrow> string \<Rightarrow> gerror option" where
  "validateRepoFullName name repo =
     (case cut repo CHR ''/'' of (owner, repoName, ok) \<Rightarrow>
        if \<not> ok \<or> trim_space owner = [] \<or> trim_space repoName = [] \<or> trim_space owner \<noteq> owner
          \<or> trim_space repoName \<noteq> repoName \<or> contains repoName ''/''
        then Some (name @ '' must be in owner/name form'') else None)"

definition validateRunnerTarget :: "string \<Rightarrow> string \<Rightarrow> string \<Rightarrow> gerror option" where
  "validateRunnerTarget name org repo =
     (if org \<noteq> [] \<and> repo \<noteq> [] then Some (name @ '' must set either org or repo, not both'')
      else if org = [] \<and> repo = [] then Some (name @ '' org or repo is required'')
      else if repo \<noteq> [] then validateRepoFullName (name @ ''.repo'') repo
      else None)"

text \<open>A sequence of \<open>if ... { return err }\<close> statements: the first error, if any.\<close>

definition check :: "bool \<Rightarrow> gerror \<Rightarrow> gerror option" where
  "check bad e = (if bad then Some e else None)"

fun firstError :: "gerror option list \<Rightarrow> gerror option" where
  "firstError [] = None"
| "firstError (None # es) = firstError es"
| "firstError (Some e # es) = Some e"

lemma firstError_None: "firstError es = None \<longleftrightarrow> (\<forall>e\<in>set es. e = None)"
  by (induction es rule: firstError.induct) auto

lemma firstError_Cons [simp]: "firstError (e # es) = None \<longleftrightarrow> e = None \<and> firstError es = None"
  by (cases e) auto

lemma firstError_append [simp]: "firstError (es @ fs) = None \<longleftrightarrow> firstError es = None \<and> firstError fs = None"
  by (auto simp: firstError_None)

lemma check_None [simp]: "check bad e = None \<longleftrightarrow> \<not> bad"
  by (simp add: check_def)

section \<open>Validation of the parts\<close>

definition validateCache :: "string \<Rightarrow> CacheConfig \<Rightarrow> gerror option" where
  "validateCache name cache =
     (if \<not> ca_Enabled cache then None else
      let prune = ca_Prune cache in
      firstError
        ([check (ca_Pool cache = []) (name @ ''.pool is required when cache is enabled''),
          check (ca_Volume cache = []) (name @ ''.volume is required when cache is enabled'')]
         @ concat (map (\<lambda>sl.
             [check (\<not> isAbs (sl_Source sl)) (name @ ''.symlinks source must be absolute: '' @ sl_Source sl),
              check (\<not> isAbs (sl_Target sl)) (name @ ''.symlinks target must be absolute: '' @ sl_Target sl)])
             (ca_Symlinks cache))
         @ (if \<not> pr_Enabled prune then [] else
             [check (pr_Interval prune \<le> 0) (name @ ''.prune.interval must be > 0''),
              check (pr_MaxAge prune \<le> 0) (name @ ''.prune.max_age must be > 0''),
              check (pr_TempMaxAge prune \<le> 0) (name @ ''.prune.temp_max_age must be > 0'')]
             @ concat (map (\<lambda>path.
                 [check (\<not> isAbs path) (name @ ''.prune.paths entries must be absolute: '' @ path),
                  check (cleanPath path \<noteq> path) (name @ ''.prune.paths entries must be clean paths: '' @ path),
                  check (\<not> has_prefix path ''/cache/'')
                    (name @ ''.prune.paths entries must be specific subdirectories under /cache: '' @ path)])
                 (pr_Paths prune)))))"

text \<open>The two URLs are the entries of a Go map; they are checked here in the order of the literal,
  which matters only for which of two wrong URLs is named.\<close>

definition absoluteURL :: "string \<Rightarrow> bool" where
  "absoluteURL raw =
     (case parseRequestURI raw of Inl _ \<Rightarrow> False | Inr (scheme, host) \<Rightarrow> scheme \<noteq> [] \<and> host \<noteq> [])"

definition validateRunnerObservability :: "RunnerObservabilityConfig \<Rightarrow> gerror option" where
  "validateRunnerObservability cfg =
     (if \<not> ob_Enabled cfg then None else
      firstError
        [check (ob_CredentialConfigured cfg) ''runner_observability must not use credentials'',
         check (\<not> absoluteURL (ob_PushURL cfg)) ''RUNNER_LOG_LOKI_PUSH_URL is required and must be an absolute URL'',
         check (\<not> absoluteURL (ob_HealthURL cfg)) ''RUNNER_LOG_LOKI_HEALTH_URL is required and must be an absolute URL'',
         check (ob_MaxRetries cfg < 0) ''runner_observability has invalid retry limit''])"

definition validateRunnerDistribution :: "RunnerDistributionConfig \<Rightarrow> gerror option" where
  "validateRunnerDistribution cfg =
     (if \<not> di_Enabled cfg then None else
      let parts = split_on CHR ''/'' (di_Repository cfg) in
      firstError
        [check (length parts \<noteq> 2 \<or> parts ! 0 = [] \<or> parts ! 1 = []) ''runner_distribution.repository must be owner/name'',
         check (di_Platform cfg \<noteq> ''linux-x64'') ''runner_distribution.platform must be linux-x64'',
         check (\<not> isAbs (di_CacheDir cfg)) ''runner_distribution.cache_dir must be absolute'',
         check (\<not> isAbs (di_VersionFile cfg)) ''runner_distribution.version_file must be absolute'',
         check (di_CheckInterval cfg < hour) ''runner_distribution.check_interval must be at least 1h'',
         check (di_RetainVersions cfg < 2) ''runner_distribution.retain_versions must be at least 2''])"

section \<open>Runner classes\<close>

definition legacyClass :: "Config \<Rightarrow> string \<Rightarrow> string \<Rightarrow> RunnerClass" where
  "legacyClass cfg org repo =
     (let sc = cg_Scaler cfg in
      \<lparr>cl_ID = ''default'', cl_Org = org, cl_Repo = repo, cl_Prefix = sc_Prefix sc,
       cl_MaxAutoRunners = sc_MaxAutoRunners sc, cl_IdleTimeout = sc_IdleTimeout sc, cl_Labels = sc_Labels sc,
       cl_MatchLabels = labelsList (sc_Labels sc), cl_RunnerWorkDir = sc_RunnerWorkDir sc,
       cl_Template = ct_Template (cg_Container cfg), cl_Cache = cg_Cache cfg, cl_Baseline = False, cl_BaselineName = []\<rparr>)"

text \<open>One enabled entry of \<open>[[runner_classes]]\<close>, the body of the loop of \<open>RunnerClassConfigs\<close>:
  the class with its inherited fields, the cache it uses, the checks.\<close>

definition inheritedClass :: "Config \<Rightarrow> RunnerClassConfig \<Rightarrow> string \<Rightarrow> string \<Rightarrow> RunnerClass" where
  "inheritedClass cfg raw org repo =
     (let sc = cg_Scaler cfg; labels = firstNonEmpty [rk_Labels raw, sc_Labels sc] in
      \<lparr>cl_ID = trim_space (rk_ID raw), cl_Org = org, cl_Repo = repo,
       cl_Prefix = firstNonEmpty [rk_Prefix raw, sc_Prefix sc],
       cl_MaxAutoRunners = (case rk_MaxAutoRunners raw of None \<Rightarrow> sc_MaxAutoRunners sc | Some n \<Rightarrow> n),
       cl_IdleTimeout = (if 0 < rk_IdleTimeout raw then rk_IdleTimeout raw else sc_IdleTimeout sc),
       cl_Labels = labels,
       cl_MatchLabels = (if cleanLabels (rk_MatchLabels raw) = [] then labelsList labels else cleanLabels (rk_MatchLabels raw)),
       cl_RunnerWorkDir = firstNonEmpty [rk_RunnerWorkDir raw, sc_RunnerWorkDir sc],
       cl_Template = firstNonEmpty [rk_Template raw, ct_Template (cg_Container cfg)],
       cl_Cache = cg_Cache cfg, cl_Baseline = rk_Baseline raw, cl_BaselineName = trim_space (rk_BaselineName raw)\<rparr>)"

definition withCacheProfile :: "Config \<Rightarrow> RunnerClassConfig \<Rightarrow> RunnerClass \<Rightarrow> RunnerClass result" where
  "withCacheProfile cfg raw class =
     (if rk_CacheProfile raw = [] then Inr class
      else case map_of (cg_CacheProfiles cfg) (rk_CacheProfile raw) of
        None \<Rightarrow> Inl (''runner class '' @ cl_ID class @ '' references unknown cache profile '' @ quoted (rk_CacheProfile raw))
      | Some profile \<Rightarrow> Inr (class\<lparr>cl_Cache := profile\<rparr>))"

definition checkClass :: "RunnerClass \<Rightarrow> gerror option" where
  "checkClass class =
     (let name = ''runner class '' @ cl_ID class in
      firstError
        [check (cl_ID class = []) ''runner class id is required'',
         validateRunnerTarget name (cl_Org class) (cl_Repo class),
         check (cl_Prefix class = []) (name @ '' prefix is required''),
         check (cl_MaxAutoRunners class < 0) (name @ '' max_auto_runners must be >= 0''),
         check (cl_IdleTimeout class \<le> 0) (name @ '' idle_timeout must be > 0''),
         check (cl_Template class = []) (name @ '' template is required'')])"

definition resolveClass :: "Config \<Rightarrow> RunnerClassConfig \<Rightarrow> RunnerClass result" where
  "resolveClass cfg raw =
     (if trim_space (rk_Org raw) \<noteq> [] \<and> trim_space (rk_Repo raw) \<noteq> [] then
        Inl (''runner class '' @ trim_space (rk_ID raw) @ '' must set either org or repo, not both'')
      else case resolveTarget (rk_Org raw) (rk_Repo raw) (ci_Org (cg_CI cfg)) (ci_Repo (cg_CI cfg)) of (org, repo) \<Rightarrow>
        (case withCacheProfile cfg raw (inheritedClass cfg raw org repo) of
           Inl e \<Rightarrow> Inl e
         | Inr class \<Rightarrow> (case checkClass class of Some e \<Rightarrow> Inl e | None \<Rightarrow> Inr class)))"

fun resolveClasses :: "Config \<Rightarrow> RunnerClassConfig list \<Rightarrow> RunnerClass list result" where
  "resolveClasses cfg [] = Inr []"
| "resolveClasses cfg (raw # raws) =
     (if \<not> runnerClassEnabled (rk_Enabled raw) then resolveClasses cfg raws
      else case resolveClass cfg raw of
        Inl e \<Rightarrow> Inl e
      | Inr class \<Rightarrow> (case resolveClasses cfg raws of Inl e \<Rightarrow> Inl e | Inr classes \<Rightarrow> Inr (class # classes)))"

definition RunnerClassConfigs :: "Config \<Rightarrow> RunnerClass list result" where
  "RunnerClassConfigs cfg =
     (if cg_RunnerClasses cfg = [] then
        if ct_Template (cg_Container cfg) = [] then Inl ''container.template is required''
        else case resolveTarget [] [] (ci_Org (cg_CI cfg)) (ci_Repo (cg_CI cfg)) of (org, repo) \<Rightarrow>
          (case validateRunnerTarget ''ci'' org repo of
             Some e \<Rightarrow> Inl e
           | None \<Rightarrow> Inr [legacyClass cfg org repo])
      else case resolveClasses cfg (cg_RunnerClasses cfg) of
        Inl e \<Rightarrow> Inl e
      | Inr classes \<Rightarrow>
          if classes = [] then Inl ''at least one enabled runner class is required'' else Inr classes)"

definition TargetName :: "RunnerClass \<Rightarrow> string" where
  "TargetName class = (if cl_Repo class \<noteq> [] then cl_Repo class else cl_Org class)"

definition RepoScoped :: "RunnerClass \<Rightarrow> bool" where
  "RepoScoped class \<longleftrightarrow> cl_Repo class \<noteq> []"

definition cachePrunePolicyOf :: "CacheConfig \<Rightarrow> cachePrunePolicy" where
  "cachePrunePolicyOf cache =
     (let prune = ca_Prune cache in
      \<lparr>cp_Enabled = ca_Enabled cache \<and> pr_Enabled prune, cp_Interval = pr_Interval prune, cp_MaxAge = pr_MaxAge prune,
       cp_TempMaxAge = pr_TempMaxAge prune, cp_Paths = pr_Paths prune\<rparr>)"

definition CachePrunePolicyFor :: "CacheConfig \<Rightarrow> cachePrunePolicy" where
  "CachePrunePolicyFor cache = cachePrunePolicyOf cache"

definition CachePrunePolicy :: "Config \<Rightarrow> cachePrunePolicy" where
  "CachePrunePolicy cfg = cachePrunePolicyOf (cg_Cache cfg)"

section \<open>Validation of the whole\<close>

text \<open>\<open>uniqueClasses\<close> is the loop that fills \<open>seenIDs\<close> and \<open>seenPrefixes\<close> and counts the
  baselines; its result is the prefixes seen and the count.\<close>

fun uniqueClasses ::
    "string list \<Rightarrow> (string \<times> string) list \<Rightarrow> nat \<Rightarrow> RunnerClass list \<Rightarrow> ((string \<times> string) list \<times> nat) result" where
  "uniqueClasses seenIDs seenPrefixes baselines [] = Inr (seenPrefixes, baselines)"
| "uniqueClasses seenIDs seenPrefixes baselines (class # classes) =
     (if cl_ID class \<in> set seenIDs then Inl (''runner class id must be unique: '' @ cl_ID class)
      else case map_of seenPrefixes (cl_Prefix class) of
        Some previous \<Rightarrow> Inl (''runner class prefix must be unique: '' @ cl_Prefix class @ '' used by '' @ previous
                             @ '' and '' @ cl_ID class)
      | None \<Rightarrow>
          if cl_Baseline class \<and> cl_BaselineName class = [] then
            Inl (''runner class '' @ cl_ID class @ '' baseline_name is required'')
          else uniqueClasses (cl_ID class # seenIDs) ((cl_Prefix class, cl_ID class) # seenPrefixes)
                 (if cl_Baseline class then Suc baselines else baselines) classes)"

definition validateBaselines :: "(string \<times> string) list \<Rightarrow> RunnerClass list \<Rightarrow> gerror option" where
  "validateBaselines seenPrefixes classes =
     firstError (map (\<lambda>class.
       check (cl_Baseline class \<and> list_ex (\<lambda>(prefix, _). has_prefix (cl_BaselineName class) prefix) seenPrefixes)
         (''runner class '' @ cl_ID class @ '' baseline_name must not start with a managed runner prefix'')) classes)"

definition validateClasses :: "Config \<Rightarrow> gerror option" where
  "validateClasses cfg =
     (case RunnerClassConfigs cfg of
        Inl e \<Rightarrow> Some e
      | Inr classes \<Rightarrow>
          (case uniqueClasses [] [] 0 classes of
             Inl e \<Rightarrow> Some e
           | Inr (seenPrefixes, baselines) \<Rightarrow>
               if 1 < baselines then Some ''only one runner class may enable baseline''
               else validateBaselines seenPrefixes classes))"

text \<open>The checks of \<open>validate\<close> in their order; \<open>ci.repo\<close> is trimmed on the way, and the accepted
  configuration keeps it so.\<close>

definition trimRepo :: "Config \<Rightarrow> Config" where
  "trimRepo cfg = cfg\<lparr>cg_CI := (cg_CI cfg)\<lparr>ci_Repo := trim_space (ci_Repo (cg_CI cfg))\<rparr>\<rparr>"

definition scalerChecks :: "Config \<Rightarrow> gerror option list" where
  "scalerChecks cfg =
     (let sc = cg_Scaler cfg in
      (if cg_RunnerClasses cfg = [] then
         [check (sc_Prefix sc = []) ''scaler.prefix is required'',
          check (sc_MaxAutoRunners sc < 0) ''scaler.max_auto_runners must be >= 0'',
          check (sc_IdleTimeout sc \<le> 0) ''scaler.idle_timeout must be > 0''] else [])
      @ [check (sc_PollInterval sc \<le> 0) ''scaler.poll_interval must be > 0'',
         check (sc_QueueAuditInterval sc \<le> 0) ''scaler.queue_audit_interval must be > 0'',
         check (sc_DemandTTL sc \<le> 0) ''scaler.demand_ttl must be > 0''])"

definition providerChecks :: "Config \<Rightarrow> gerror option list" where
  "providerChecks cfg =
     (let lx = ct_LXD (cg_Container cfg); repo = trim_space (ci_Repo (cg_CI cfg)) in
      [check (trim_space (ci_Org (cg_CI cfg)) \<noteq> [] \<and> repo \<noteq> []) ''ci must set either org or repo, not both'',
       (if repo \<noteq> [] then validateRepoFullName ''ci.repo'' repo else None),
       check ((lx_RemoteCert lx = []) \<noteq> (lx_RemoteKey lx = []))
         ''container.lxd.remote_cert and remote_key must be set together''])"

definition cacheChecks :: "Config \<Rightarrow> gerror option list" where
  "cacheChecks cfg = validateCache ''cache'' (cg_Cache cfg)
     # map (\<lambda>(name, profile). validateCache (''cache_profiles.'' @ name) profile) (cg_CacheProfiles cfg)"

definition webhookChecks :: "Config \<Rightarrow> gerror option list" where
  "webhookChecks cfg =
     (let wh = cg_Webhook cfg in
      [check (wc_Enabled wh \<and> gh_WebhookSecret (ci_GitHub (cg_CI cfg)) = [] \<and> ci_Provider (cg_CI cfg) = ''github'')
         ''GH_WEBHOOK_SECRET env var is required when webhook is enabled'',
       check (wc_Enabled wh \<and> (wc_Port wh \<le> 0 \<or> 65535 < wc_Port wh)) ''webhook.port must be between 1 and 65535'',
       check (wc_Enabled wh \<and> wc_Debounce wh < 0) ''webhook.debounce must be >= 0''])"

definition metricsChecks :: "Config \<Rightarrow> gerror option list" where
  "metricsChecks cfg =
     (let mt = cg_Metrics cfg; lk = mt_Loki mt in
      [check (mt_Enabled mt \<and> lk_PushURL lk = []) ''LOKI_PUSH_URL env var is required when metrics are enabled'',
       check (mt_Enabled mt \<and> (lk_Username lk = []) \<noteq> (lk_APIKey lk = []))
         ''LOKI_USERNAME and LOKI_API_KEY/LOKI_PASSWORD must be set together when Loki requires basic auth'',
       check (mt_Enabled mt \<and> mt_Interval mt \<le> 0) ''metrics.interval must be > 0'',
       check (mt_WorkflowRepoBatchSize mt < 0) ''metrics.workflow_repo_batch_size must be >= 0''])"

definition validateChecks :: "Config \<Rightarrow> gerror option list" where
  "validateChecks cfg =
     [check (gh_Token (ci_GitHub (cg_CI cfg)) = [] \<and> ci_Provider (cg_CI cfg) = ''github'')
        ''GH_SCALER_GITHUB_TOKEN env var is required'']
     @ scalerChecks cfg @ providerChecks cfg @ cacheChecks cfg
     @ [validateClasses (trimRepo cfg)]
     @ webhookChecks cfg @ metricsChecks cfg
     @ [validateRunnerObservability (cg_RunnerObservability cfg),
        validateRunnerDistribution (cg_RunnerDistribution cfg),
        check (sg_Dir (cg_State cfg) = []) ''state.filesystem.dir is required'']"

definition validate :: "Config \<Rightarrow> Config result" where
  "validate cfg = (case firstError (validateChecks cfg) of Some e \<Rightarrow> Inl e | None \<Rightarrow> Inr (trimRepo cfg))"

text \<open>\<open>decodeFile\<close> is what \<open>toml.DecodeFile\<close> makes of the given configuration.\<close>

definition Load :: "(Config \<Rightarrow> Config result) \<Rightarrow> (string \<Rightarrow> string) \<Rightarrow> string \<Rightarrow> Config result" where
  "Load decodeFile getenv path =
     (case decodeFile defaults of
        Inl e \<Rightarrow> Inl (''reading config '' @ path @ '': '' @ e)
      | Inr cfg \<Rightarrow>
          (case validate (applyEnvOverrides getenv cfg) of
             Inl e \<Rightarrow> Inl (''config validation: '' @ e)
           | Inr cfg' \<Rightarrow> Inr cfg'))"

section \<open>What an accepted configuration is\<close>

text \<open>What \<open>resolveClass\<close> guarantees of a class.\<close>

definition classOk :: "Config \<Rightarrow> RunnerClass \<Rightarrow> bool" where
  "classOk cfg c \<longleftrightarrow> (cl_Org c = []) \<noteq> (cl_Repo c = []) \<and> TargetName c \<noteq> [] \<and> cl_Prefix c \<noteq> [] \<and> cl_ID c \<noteq> []
     \<and> 0 \<le> cl_MaxAutoRunners c \<and> 0 < cl_IdleTimeout c \<and> cl_Template c \<noteq> []
     \<and> (cl_Cache c = cg_Cache cfg \<or> cl_Cache c \<in> snd ` set (cg_CacheProfiles cfg))"

lemma validateRunnerTarget_one: "validateRunnerTarget name org repo = None \<Longrightarrow> (org = []) \<noteq> (repo = [])"
  by (auto simp: validateRunnerTarget_def split: if_splits)

lemma checkClass_None:
  "checkClass c = None \<longleftrightarrow> cl_ID c \<noteq> [] \<and> validateRunnerTarget (''runner class '' @ cl_ID c) (cl_Org c) (cl_Repo c) = None
     \<and> cl_Prefix c \<noteq> [] \<and> 0 \<le> cl_MaxAutoRunners c \<and> 0 < cl_IdleTimeout c \<and> cl_Template c \<noteq> []"
  by (simp add: checkClass_def not_less not_le)

lemma withCacheProfile_cache:
  "withCacheProfile cfg raw class = Inr c \<Longrightarrow> cl_Cache c = cl_Cache class \<or> cl_Cache c \<in> snd ` set (cg_CacheProfiles cfg)"
  by (auto simp: withCacheProfile_def image_iff split: if_splits option.splits dest!: map_of_SomeD intro: rev_bexI)

lemma resolveClass_ok:
  assumes "resolveClass cfg raw = Inr class"
  shows "classOk cfg class"
proof -
  obtain org repo where
    cache: "withCacheProfile cfg raw (inheritedClass cfg raw org repo) = Inr class" and ok: "checkClass class = None"
    using assms by (auto simp: resolveClass_def split: if_splits sum.splits prod.splits option.splits)
  have "cl_Cache (inheritedClass cfg raw org repo) = cg_Cache cfg" by (simp add: inheritedClass_def Let_def)
  with cache have "cl_Cache class = cg_Cache cfg \<or> cl_Cache class \<in> snd ` set (cg_CacheProfiles cfg)"
    by (metis withCacheProfile_cache)
  moreover have "(cl_Org class = []) \<noteq> (cl_Repo class = [])"
    using ok validateRunnerTarget_one unfolding checkClass_None by blast
  ultimately show ?thesis using ok by (auto simp: classOk_def checkClass_None TargetName_def)
qed

lemma resolveClasses_ok: "resolveClasses cfg raws = Inr classes \<Longrightarrow> c \<in> set classes \<Longrightarrow> classOk cfg c"
  by (induction raws arbitrary: classes) (auto split: if_splits sum.splits dest: resolveClass_ok)

text \<open>The scaler defaults a configuration without classes falls back on.\<close>

definition scalerOk :: "Config \<Rightarrow> bool" where
  "scalerOk cfg \<longleftrightarrow> cg_RunnerClasses cfg = [] \<longrightarrow>
     sc_Prefix (cg_Scaler cfg) \<noteq> [] \<and> 0 \<le> sc_MaxAutoRunners (cg_Scaler cfg) \<and> 0 < sc_IdleTimeout (cg_Scaler cfg)"

lemma classes_ok:
  assumes "RunnerClassConfigs cfg = Inr classes" and "scalerOk cfg"
  shows "classes \<noteq> [] \<and> (\<forall>c\<in>set classes. classOk cfg c)"
proof (cases "cg_RunnerClasses cfg = []")
  case True
  then show ?thesis
    using assms validateRunnerTarget_one
    by (auto simp: RunnerClassConfigs_def scalerOk_def classOk_def legacyClass_def TargetName_def Let_def
        split: if_splits prod.splits option.splits)
next
  case False
  then show ?thesis
    using assms resolveClasses_ok
    by (auto simp: RunnerClassConfigs_def split: if_splits sum.splits)
qed

lemma uniqueClasses_iff:
  "uniqueClasses ids ps n cs = Inr (ps', n') \<longleftrightarrow>
     distinct (map cl_ID cs) \<and> set (map cl_ID cs) \<inter> set ids = {}
     \<and> distinct (map cl_Prefix cs) \<and> set (map cl_Prefix cs) \<inter> fst ` set ps = {}
     \<and> (\<forall>c\<in>set cs. cl_Baseline c \<longrightarrow> cl_BaselineName c \<noteq> [])
     \<and> ps' = rev (map (\<lambda>c. (cl_Prefix c, cl_ID c)) cs) @ ps \<and> n' = n + length (filter cl_Baseline cs)"
proof (induction cs arbitrary: ids ps n)
  case (Cons c cs)
  have "(map_of ps (cl_Prefix c) = None) = (cl_Prefix c \<notin> fst ` set ps)" by (simp add: map_of_eq_None_iff)
  then show ?case by (cases "map_of ps (cl_Prefix c)") (auto simp: Cons.IH)
qed auto

text \<open>The condition the three loops of \<open>validate\<close> check together.\<close>

definition separated :: "RunnerClass list \<Rightarrow> bool" where
  "separated classes \<longleftrightarrow> distinct (map cl_ID classes) \<and> distinct (map cl_Prefix classes)
     \<and> length (filter cl_Baseline classes) \<le> 1
     \<and> (\<forall>b\<in>set classes. cl_Baseline b \<longrightarrow> cl_BaselineName b \<noteq> []
          \<and> (\<forall>c\<in>set classes. \<not> has_prefix (cl_BaselineName b) (cl_Prefix c)))"

lemma validateBaselines_None:
  "validateBaselines ps classes = None \<longleftrightarrow>
     (\<forall>b\<in>set classes. cl_Baseline b \<longrightarrow> (\<forall>p\<in>fst ` set ps. \<not> has_prefix (cl_BaselineName b) p))"
  by (fastforce simp: validateBaselines_def firstError_None list_ex_iff case_prod_beta)

lemma validateClasses_iff:
  "validateClasses cfg = None \<longleftrightarrow> (\<exists>classes. RunnerClassConfigs cfg = Inr classes \<and> separated classes)"
proof (cases "RunnerClassConfigs cfg")
  case (Inl e)
  then show ?thesis by (simp add: validateClasses_def)
next
  case (Inr classes)
  show ?thesis
  proof (cases "uniqueClasses [] [] 0 classes")
    case (Inl e)
    then have "\<not> separated classes"
      using uniqueClasses_iff [of "[]" "[]" 0 classes "rev (map (\<lambda>c. (cl_Prefix c, cl_ID c)) classes)"
          "length (filter cl_Baseline classes)"]
      by (auto simp: separated_def)
    with Inl Inr show ?thesis by (simp add: validateClasses_def)
  next
    case U: (Inr r)
    obtain ps n where r: "r = (ps, n)" by fastforce
    with U uniqueClasses_iff [of "[]" "[]" 0 classes ps n]
    have facts: "distinct (map cl_ID classes)" "distinct (map cl_Prefix classes)"
      "\<forall>c\<in>set classes. cl_Baseline c \<longrightarrow> cl_BaselineName c \<noteq> []"
      "fst ` set ps = cl_Prefix ` set classes" "n = length (filter cl_Baseline classes)"
      by (auto simp: image_image)
    have "validateClasses cfg = None \<longleftrightarrow> n \<le> 1 \<and> validateBaselines ps classes = None"
      using Inr U r by (simp add: validateClasses_def)
    also have "\<dots> \<longleftrightarrow> separated classes"
      using facts by (auto simp: validateBaselines_None separated_def)
    finally show ?thesis using Inr by simp
  qed
qed

lemma scalerChecks_None:
  "firstError (scalerChecks cfg) = None \<longleftrightarrow> scalerOk cfg \<and> 0 < sc_PollInterval (cg_Scaler cfg)
     \<and> 0 < sc_QueueAuditInterval (cg_Scaler cfg) \<and> 0 < sc_DemandTTL (cg_Scaler cfg)"
  by (auto simp: scalerChecks_def scalerOk_def Let_def not_le not_less)

lemma cacheChecks_None:
  "firstError (cacheChecks cfg) = None \<longleftrightarrow> validateCache ''cache'' (cg_Cache cfg) = None
     \<and> (\<forall>(name, profile)\<in>set (cg_CacheProfiles cfg). validateCache (''cache_profiles.'' @ name) profile = None)"
  by (auto simp: cacheChecks_def firstError_None [of "map _ _"])

lemma webhookChecks_None:
  "firstError (webhookChecks cfg) = None \<longleftrightarrow>
     (wc_Enabled (cg_Webhook cfg) \<longrightarrow> 0 < wc_Port (cg_Webhook cfg) \<and> wc_Port (cg_Webhook cfg) \<le> 65535
        \<and> 0 \<le> wc_Debounce (cg_Webhook cfg)
        \<and> (ci_Provider (cg_CI cfg) = ''github'' \<longrightarrow> gh_WebhookSecret (ci_GitHub (cg_CI cfg)) \<noteq> []))"
  by (cases "ci_Provider (cg_CI cfg) = ''github''") (auto simp: webhookChecks_def Let_def)

lemma metricsChecks_None:
  "firstError (metricsChecks cfg) = None \<longleftrightarrow> 0 \<le> mt_WorkflowRepoBatchSize (cg_Metrics cfg)
     \<and> (mt_Enabled (cg_Metrics cfg) \<longrightarrow> 0 < mt_Interval (cg_Metrics cfg) \<and> lk_PushURL (mt_Loki (cg_Metrics cfg)) \<noteq> []
          \<and> (lk_Username (mt_Loki (cg_Metrics cfg)) = []) = (lk_APIKey (mt_Loki (cg_Metrics cfg)) = []))"
  by (auto simp: metricsChecks_def Let_def)

text \<open>\<open>accepted\<close> is the specification of \<open>validate\<close> for the runner classes, the schedules and the
  caches.\<close>

definition accepted :: "Config \<Rightarrow> RunnerClass list \<Rightarrow> bool" where
  "accepted cfg classes \<longleftrightarrow> RunnerClassConfigs cfg = Inr classes \<and> classes \<noteq> []
     \<and> list_all (classOk cfg) classes \<and> separated classes
     \<and> 0 < sc_PollInterval (cg_Scaler cfg) \<and> 0 < sc_QueueAuditInterval (cg_Scaler cfg) \<and> 0 < sc_DemandTTL (cg_Scaler cfg)
     \<and> list_all (\<lambda>c. validateCache ''cache'' (cl_Cache c) = None
          \<or> list_ex (\<lambda>(name, profile). profile = cl_Cache c \<and> validateCache (''cache_profiles.'' @ name) profile = None)
              (cg_CacheProfiles cfg)) classes
     \<and> sg_Dir (cg_State cfg) \<noteq> []"

lemma trimRepo_sel [simp]:
  "cg_Scaler (trimRepo cfg) = cg_Scaler cfg" "cg_RunnerClasses (trimRepo cfg) = cg_RunnerClasses cfg"
  "cg_Cache (trimRepo cfg) = cg_Cache cfg" "cg_CacheProfiles (trimRepo cfg) = cg_CacheProfiles cfg"
  "cg_State (trimRepo cfg) = cg_State cfg" "cg_Container (trimRepo cfg) = cg_Container cfg"
  "cg_Webhook (trimRepo cfg) = cg_Webhook cfg" "cg_Metrics (trimRepo cfg) = cg_Metrics cfg"
  "cg_RunnerObservability (trimRepo cfg) = cg_RunnerObservability cfg"
  "cg_RunnerDistribution (trimRepo cfg) = cg_RunnerDistribution cfg"
  "scalerOk (trimRepo cfg) = scalerOk cfg"
  "ci_Org (cg_CI (trimRepo cfg)) = ci_Org (cg_CI cfg)"
  "ci_Repo (cg_CI (trimRepo cfg)) = trim_space (ci_Repo (cg_CI cfg))"
  by (simp_all add: trimRepo_def scalerOk_def)

lemma validate_InrD:
  assumes "validate cfg = Inr cfg'"
  shows "cfg' = trimRepo cfg" and "firstError (validateChecks cfg) = None"
  using assms by (auto simp: validate_def split: option.splits)

lemma validate_accepted:
  assumes "validate cfg = Inr cfg'"
  obtains classes where "accepted cfg' classes"
proof -
  note v = validate_InrD [OF assms]
  have checks: "firstError (scalerChecks cfg) = None" "firstError (cacheChecks cfg) = None"
    "validateClasses cfg' = None" "sg_Dir (cg_State cfg') \<noteq> []"
    using v by (simp_all add: validateChecks_def)
  obtain classes where classes: "RunnerClassConfigs cfg' = Inr classes" and sep: "separated classes"
    using checks by (auto simp: validateClasses_iff)
  have ok: "classes \<noteq> []" "\<And>c. c \<in> set classes \<Longrightarrow> classOk cfg' c"
    using classes_ok [OF classes] checks(1) by (auto simp: v(1) scalerChecks_None)
  have "validateCache ''cache'' (cl_Cache c) = None
      \<or> (\<exists>(name, profile)\<in>set (cg_CacheProfiles cfg'). profile = cl_Cache c \<and> validateCache (''cache_profiles.'' @ name) profile = None)"
    if "c \<in> set classes" for c
    using ok(2) [OF that] checks(2) by (fastforce simp: classOk_def cacheChecks_None v(1))
  then have "accepted cfg' classes"
    using classes sep ok checks by (auto simp: accepted_def scalerChecks_None v(1) list_all_iff list_ex_iff)
  then show thesis by (rule that)
qed

lemma Load_InrD:
  assumes "Load decodeFile getenv path = Inr cfg"
  obtains raw where "validate (applyEnvOverrides getenv raw) = Inr cfg" "decodeFile defaults = Inr raw"
  using assms by (auto simp: Load_def split: sum.splits)

lemma loaded_accepted:
  assumes "Load decodeFile getenv path = Inr cfg"
  obtains classes where "accepted cfg classes"
proof -
  obtain raw where "validate (applyEnvOverrides getenv raw) = Inr cfg"
    using assms by (rule Load_InrD)
  then show thesis by (rule validate_accepted) (rule that)
qed

text \<open>C32. Whatever the file and the environment say, a configuration that loads resolves to at least
  one runner class; its classes are well-formed (one target, a prefix, a template, a positive idle
  timeout, no negative limit), their ids and their prefixes are distinct, at most one is a baseline
  and the name of the baseline starts with the prefix of no class; the schedules are positive.\<close>

theorem loaded_config_accepted:
  assumes "Load decodeFile getenv path = Inr cfg"
  shows "\<exists>classes. accepted cfg classes"
  using loaded_accepted [OF assms] by blast

text \<open>A configuration that loads, with two classes, one of them a baseline.\<close>

definition sampleClass :: "string \<Rightarrow> string \<Rightarrow> bool \<Rightarrow> RunnerClassConfig" where
  "sampleClass i p b = \<lparr>rk_Enabled = None, rk_ID = i, rk_Org = [], rk_Repo = [], rk_Prefix = p, rk_MaxAutoRunners = None,
     rk_IdleTimeout = 0, rk_Labels = [], rk_MatchLabels = [], rk_RunnerWorkDir = [], rk_Template = [], rk_CacheProfile = [],
     rk_Baseline = b, rk_BaselineName = (if b then ''base'' else [])\<rparr>"

definition sampleDecode :: "RunnerClassConfig list \<Rightarrow> Config \<Rightarrow> Config result" where
  "sampleDecode classes cfg = Inr (cfg\<lparr>cg_CI := (cg_CI cfg)\<lparr>ci_Repo := '' acme/app ''\<rparr>, cg_RunnerClasses := classes,
     cg_Cache := (cg_Cache cfg)\<lparr>ca_Enabled := True, ca_Pool := ''pool'', ca_Volume := ''vol''\<rparr>\<rparr>)"

definition sampleEnv :: "string \<Rightarrow> string" where
  "sampleEnv k = (if k = ''LOKI_PUSH_URL'' then ''http://loki/push''
     else if k = ''GH_SCALER_GITHUB_TOKEN'' \<or> k = ''GH_WEBHOOK_SECRET'' then ''secret'' else [])"

definition sampleConfig :: "RunnerClassConfig list \<Rightarrow> Config" where
  "sampleConfig classes = (case Load (sampleDecode classes) sampleEnv ''config.toml'' of Inr cfg \<Rightarrow> cfg | Inl _ \<Rightarrow> defaults)"

lemma sample_loads:
  "Load (sampleDecode [sampleClass ''a'' ''ci'' False, sampleClass ''b'' ''gpu'' True]) sampleEnv ''config.toml''
     = Inr (sampleConfig [sampleClass ''a'' ''ci'' False, sampleClass ''b'' ''gpu'' True])"
  by code_simp

theorem loaded_config_accepted_witness:
  "\<exists>classes. accepted (sampleConfig [sampleClass ''a'' ''ci'' False, sampleClass ''b'' ''gpu'' True]) classes"
  by (rule loaded_config_accepted [OF sample_loads])

text \<open>The prefixes are compared for equality only.  One that extends another is accepted, and as
  containers and runners belong to the class whose prefix their name starts with, those of the one
  class are managed by the other, too.\<close>

theorem overlapping_prefixes_accepted:
  "let cfg = sampleConfig [sampleClass ''a'' ''ci'' False, sampleClass ''b'' ''ci-gpu'' False] in
     Load (sampleDecode [sampleClass ''a'' ''ci'' False, sampleClass ''b'' ''ci-gpu'' False]) sampleEnv ''config.toml'' = Inr cfg
     \<and> map_sum (\<lambda>e. e) (map cl_Prefix) (RunnerClassConfigs cfg) = Inr [''ci'', ''ci-gpu'']
     \<and> has_prefix ''ci-gpu-1'' ''ci''"
  by code_simp

text \<open>Accepted too is a class id that leads out of the directory of the runner groups when the state
  directory of the class is made of it.\<close>

theorem class_id_escapes_state_dir:
  "let cfg = sampleConfig [sampleClass ''../..'' ''ci'' False] in
     Load (sampleDecode [sampleClass ''../..'' ''ci'' False]) sampleEnv ''config.toml'' = Inr cfg
     \<and> joinPath [sg_Dir (cg_State cfg), ''runner-groups'', ''../..''] = ''.''"
  by code_simp

section \<open>Pruning\<close>

lemma validateCache_prune_path:
  assumes "validateCache name cache = None" and "cp_Enabled (CachePrunePolicyFor cache)"
    and "path \<in> set (cp_Paths (CachePrunePolicyFor cache))"
  shows "isAbs path" and "cleanPath path = path" and "has_prefix path ''/cache/''"
proof -
  have on: "ca_Enabled cache" "pr_Enabled (ca_Prune cache)" and mem: "path \<in> set (pr_Paths (ca_Prune cache))"
    using assms(2,3) by (simp_all add: CachePrunePolicyFor_def cachePrunePolicyOf_def Let_def)
  have "firstError (concat (map (\<lambda>path.
                 [check (\<not> isAbs path) (name @ ''.prune.paths entries must be absolute: '' @ path),
                  check (cleanPath path \<noteq> path) (name @ ''.prune.paths entries must be clean paths: '' @ path),
                  check (\<not> has_prefix path ''/cache/'')
                    (name @ ''.prune.paths entries must be specific subdirectories under /cache: '' @ path)])
                 (pr_Paths (ca_Prune cache)))) = None"
    using assms(1) on by (simp only: validateCache_def Let_def firstError_append not_True_eq_False if_False)
  then show "isAbs path" "cleanPath path = path" "has_prefix path ''/cache/''"
    unfolding firstError_None using mem by fastforce+
qed

lemma split_cache_path:
  assumes "CHR ''/'' # join ''/'' es = ''/cache/'' @ rest" and proper: "\<forall>e\<in>set es. properName e"
  shows "\<exists>ds. es = ''cache'' # ds \<and> ds \<noteq> []"
proof -
  have j: "join ''/'' es = ''cache'' @ CHR ''/'' # rest" using assms(1) by simp
  obtain e ds where es: "es = e # ds" using j by (cases es) auto
  have ne: "ds \<noteq> []"
  proof
    assume "ds = []"
    with j es have "CHR ''/'' \<in> set e" by simp
    with proper es show False by (simp add: properName_def)
  qed
  then have "join ''/'' es = e @ CHR ''/'' # join ''/'' ds" using es by (cases ds) auto
  with j have "e @ CHR ''/'' # join ''/'' ds = ''cache'' @ CHR ''/'' # rest" by simp
  then have "e = ''cache''"
    using proper es by (intro append_char_inj [of "CHR ''/''" e "''cache''"]) (auto simp: properName_def)
  with es ne show ?thesis by blast
qed

text \<open>C39. Every path that the cleanup of a class of a loaded configuration may remove from is
  \<open>/cache/\<close> followed by at least one proper directory name: no path leaves the cache or names all of
  it.\<close>

lemma prune_paths_confined:
  assumes "Load decodeFile getenv path = Inr cfg" and "RunnerClassConfigs cfg = Inr classes" and "c \<in> set classes"
    and "cp_Enabled (CachePrunePolicyFor (cl_Cache c))" and "p \<in> set (cp_Paths (CachePrunePolicyFor (cl_Cache c)))"
  shows "\<exists>ds. ds \<noteq> [] \<and> list_all properName ds \<and> p = ''/cache/'' @ join ''/'' ds"
proof -
  obtain raw where "validate (applyEnvOverrides getenv raw) = Inr cfg" using assms(1) by (rule Load_InrD)
  then obtain classes' where "accepted cfg classes'" by (rule validate_accepted)
  with assms(2,3) obtain name where "validateCache name (cl_Cache c) = None"
    by (fastforce simp: accepted_def list_all_iff list_ex_iff)
  note p = validateCache_prune_path [OF this assms(4,5)]
  obtain es where es: "p = CHR ''/'' # join ''/'' es" and proper: "\<forall>e\<in>set es. properName e"
    using clean_rooted [OF p(1)] p(2) by metis
  obtain rest where "p = ''/cache/'' @ rest" using p(3) by (auto simp: has_prefix_iff_prefix prefix_def)
  with es obtain ds where "es = ''cache'' # ds" "ds \<noteq> []"
    using split_cache_path [of es rest] proper by auto
  with es proper show ?thesis by (cases ds) (auto simp: list_all_iff intro!: exI [of _ ds])
qed

lemma sample_class:
  obtains c cs where
    "RunnerClassConfigs (sampleConfig [sampleClass ''a'' ''ci'' False, sampleClass ''b'' ''gpu'' True]) = Inr (c # cs)"
    "cl_Cache c = cg_Cache (sampleConfig [sampleClass ''a'' ''ci'' False, sampleClass ''b'' ''gpu'' True])"
proof -
  let ?cfg = "sampleConfig [sampleClass ''a'' ''ci'' False, sampleClass ''b'' ''gpu'' True]"
  have "case RunnerClassConfigs ?cfg of Inl _ \<Rightarrow> False
    | Inr cs \<Rightarrow> cs \<noteq> [] \<and> list_all (\<lambda>c. cl_Cache c = cg_Cache ?cfg) cs"
    by code_simp
  then show thesis
    by (cases "RunnerClassConfigs ?cfg") (auto simp: neq_Nil_conv intro: that)
qed

section \<open>Configurations without classes\<close>

text \<open>The entry that inherits everything.\<close>

definition inheritingEntry :: RunnerClassConfig where
  "inheritingEntry = sampleClass ''default'' [] False"

lemma trim_default [simp]: "trim_space ''default'' = ''default''"
  by code_simp

lemma trim_Nil [simp]: "trim_space [] = []"
  by (simp add: trim_space_def)

lemma firstNonEmpty_inherit [simp]: "firstNonEmpty [[], v] = v"
  by (simp add: firstNonEmpty_def)

lemma inheriting_class:
  "inheritedClass cfg inheritingEntry org repo = legacyClass cfg org repo"
  by (simp add: inheritedClass_def legacyClass_def inheritingEntry_def sampleClass_def cleanLabels_def Let_def)

lemma inheriting_checks:
  assumes "scalerOk cfg" and "cg_RunnerClasses cfg = []"
  shows "checkClass (legacyClass cfg org repo) = None \<longleftrightarrow>
    ct_Template (cg_Container cfg) \<noteq> [] \<and> validateRunnerTarget ''ci'' org repo = None"
proof -
  have name: "validateRunnerTarget n org repo = None \<longleftrightarrow> validateRunnerTarget n' org repo = None" for n n'
    by (auto simp: validateRunnerTarget_def validateRepoFullName_def split: prod.splits if_splits)
  show ?thesis
    using assms name [of "''runner class default''" "''ci''"]
    by (auto simp: checkClass_None legacyClass_def scalerOk_def Let_def)
qed

lemma inheriting_resolves:
  assumes "scalerOk cfg" and "cg_RunnerClasses cfg = []"
  shows "RunnerClassConfigs (cfg\<lparr>cg_RunnerClasses := [inheritingEntry]\<rparr>) = Inr classes \<longleftrightarrow> RunnerClassConfigs cfg = Inr classes"
proof -
  obtain org repo where target: "resolveTarget [] [] (ci_Org (cg_CI cfg)) (ci_Repo (cg_CI cfg)) = (org, repo)" by fastforce
  have sel: "rk_Org inheritingEntry = []" "rk_Repo inheritingEntry = []" "rk_CacheProfile inheritingEntry = []"
    "rk_Enabled inheritingEntry = None"
    by (simp_all add: inheritingEntry_def sampleClass_def)
  have inherited: "inheritedClass (cfg\<lparr>cg_RunnerClasses := [inheritingEntry]\<rparr>) inheritingEntry org repo = legacyClass cfg org repo"
    unfolding inheriting_class by (simp add: legacyClass_def Let_def)
  have "resolveClass (cfg\<lparr>cg_RunnerClasses := [inheritingEntry]\<rparr>) inheritingEntry =
    (case checkClass (legacyClass cfg org repo) of Some e \<Rightarrow> Inl e | None \<Rightarrow> Inr (legacyClass cfg org repo))"
    using target inherited by (simp add: resolveClass_def sel withCacheProfile_def split: option.splits)
  then show ?thesis
    using inheriting_checks [OF assms, of org repo] assms(2)
    by (cases "checkClass (legacyClass cfg org repo)")
      (auto simp: RunnerClassConfigs_def sel target runnerClassEnabled_def split: option.splits)
qed

text \<open>A configuration without runner classes means the same as one with the single entry
  \<open>default\<close> that inherits everything: where the first is accepted so is the second, and they resolve
  to the same classes.\<close>

theorem legacy_class:
  assumes "validate cfg = Inr cfg'" and "cg_RunnerClasses cfg = []"
  shows "validate (cfg\<lparr>cg_RunnerClasses := [inheritingEntry]\<rparr>) = Inr (cfg'\<lparr>cg_RunnerClasses := [inheritingEntry]\<rparr>)
    \<and> RunnerClassConfigs (cfg'\<lparr>cg_RunnerClasses := [inheritingEntry]\<rparr>) = RunnerClassConfigs cfg'"
proof -
  let ?e = "\<lambda>c. c\<lparr>cg_RunnerClasses := [inheritingEntry]\<rparr>"
  note v = validate_InrD [OF assms(1)]
  have ok: "scalerOk cfg" and cls: "validateClasses cfg' = None"
    using v by (simp_all add: validateChecks_def scalerChecks_None)
  then obtain classes where classes: "RunnerClassConfigs cfg' = Inr classes" and sep: "separated classes"
    by (auto simp: validateClasses_iff)
  have same: "RunnerClassConfigs (?e cfg') = Inr classes"
    using classes ok assms(2) by (simp add: inheriting_resolves v(1))
  have trim: "trimRepo (?e cfg) = ?e cfg'" by (simp add: v(1) trimRepo_def)
  have "validateClasses (?e cfg') = None" using same sep by (auto simp: validateClasses_iff)
  then have "firstError (validateChecks (?e cfg)) = None"
    using v(2) trim by (simp add: validateChecks_def scalerChecks_None cacheChecks_None webhookChecks_None
        metricsChecks_None providerChecks_def scalerOk_def)
  then show ?thesis using same classes trim by (simp add: validate_def)
qed

definition legacySample :: Config where
  "legacySample = (case sampleDecode [] defaults of Inr cfg \<Rightarrow> applyEnvOverrides sampleEnv cfg | Inl _ \<Rightarrow> defaults)"

theorem legacy_class_witness:
  "validate (legacySample\<lparr>cg_RunnerClasses := [inheritingEntry]\<rparr>)
      = Inr ((trimRepo legacySample)\<lparr>cg_RunnerClasses := [inheritingEntry]\<rparr>)
    \<and> RunnerClassConfigs ((trimRepo legacySample)\<lparr>cg_RunnerClasses := [inheritingEntry]\<rparr>)
      = RunnerClassConfigs (trimRepo legacySample)"
proof (rule legacy_class)
  show "validate legacySample = Inr (trimRepo legacySample)" by code_simp
  show "cg_RunnerClasses legacySample = []" by code_simp
qed

end
