(* ===== verification/Cache_Scripts.thy ===== *)
theory Cache_Scripts
  imports Config Shell
begin

text \<open>
  The scripts of \<open>provider/lxd/cache.go\<close> that prepare the cache of a container, write the environment
  of its runner and clean the cache up.

  \<open>cleanup_script_confined\<close>: read by a shell, the commands of the cleanup script of a loaded configuration, with
  those that \<open>find -exec\<close> and the trap run, remove only the lock and what lies strictly below a proper
  subdirectory of \<open>/cache\<close>, whatever the paths contain.  \<open>commandRemovals\<close> says what a command can remove; it knows the
  programs and expressions of the script and refuses every other.
  \<open>setup_script_links\<close>: the commands that link the tool directories.
\<close>

section \<open>Scripts\<close>

abbreviation sq :: string where "sq \<equiv> [CHR 0x27]"

definition buildxCacheRoot :: string where
  "buildxCacheRoot = ''/cache/buildx''"

definition lxdShellQuote :: "string \<Rightarrow> string" where
  "lxdShellQuote value = sq @ replace_char value (CHR 0x27) [CHR 0x27, CHR 0x22, CHR 0x27, CHR 0x22, CHR 0x27] @ sq"

lemma lxdShellQuote_word: "lxdShellQuote = quoteWord"
  by (rule ext) (simp add: lxdShellQuote_def quoteWord_def)

definition symlinkLines :: "SymlinkConfig \<Rightarrow> string list" where
  "symlinkLines sl =
     (let source = lxdShellQuote (sl_Source sl); target = lxdShellQuote (sl_Target sl);
          parent = lxdShellQuote (pathDir (sl_Target sl))
      in [''mkdir -p '' @ source,
          ''chown runner:runner '' @ source @ '' || true'',
          ''mkdir -p '' @ parent,
          ''if [ -d '' @ target @ '' ] && [ ! -L '' @ target @ '' ]; then'',
          ''  cp -an '' @ target @ ''/. '' @ source @ ''/'',
          ''  rm -rf '' @ target,
          ''elif [ -e '' @ target @ '' ] || [ -L '' @ target @ '' ]; then'',
          ''  rm -rf '' @ target,
          ''fi'',
          ''ln -s '' @ source @ '' '' @ target,
          ''chown -h runner:runner '' @ target @ '' || true''])"

definition cacheSetupLines :: "SymlinkConfig list \<Rightarrow> string list" where
  "cacheSetupLines symlinks =
     [''set -eu'',
      ''mkdir -p '' @ lxdShellQuote buildxCacheRoot,
      ''chown runner:runner '' @ lxdShellQuote buildxCacheRoot @ '' || true'']
     @ concat (map symlinkLines symlinks)"

definition cacheSetupScript :: "SymlinkConfig list \<Rightarrow> string" where
  "cacheSetupScript symlinks = join [CHR 0x0A] (cacheSetupLines symlinks)"

text \<open>\<open>int(value.Seconds())\<close> and \<open>int(value.Minutes())\<close>, for values whose floating-point form is
  exact.\<close>

definition seconds :: "duration \<Rightarrow> duration \<Rightarrow> int" where
  "seconds value fallback =
     (let value = (if value \<le> 0 then fallback else value); result = go_div value second
      in if result < 1 then 1 else result)"

definition minutes :: "duration \<Rightarrow> duration \<Rightarrow> int" where
  "minutes value fallback =
     (let value = (if value \<le> 0 then fallback else value); result = go_div value minute
      in if result < 1 then 1 else result)"

definition prunePathLines :: "int \<Rightarrow> int \<Rightarrow> string \<Rightarrow> string list" where
  "prunePathLines tempMaxAgeMinutes maxAgeMinutes path =
     (let quoted = lxdShellQuote path in
      [''if [ -d '' @ quoted @ '' ]; then'',
       ''  find '' @ quoted @ '' -mindepth 3 -maxdepth 3 -type d -name '' @ sq @ ''*-next'' @ sq @ '' -mmin +''
         @ itoa tempMaxAgeMinutes @ '' -prune -exec rm -rf -- {} +'',
       ''  find '' @ quoted @ '' -mindepth 3 -maxdepth 3 -type d -mmin +'' @ itoa maxAgeMinutes
         @ '' -prune -exec rm -rf -- {} +'',
       ''  find '' @ quoted @ '' -mindepth 1 -maxdepth 6 -type d -empty -delete'',
       ''fi''])"

definition throttleLines :: "int \<Rightarrow> string list" where
  \<open>throttleLines intervalSeconds =
     [''now=$(date +%s)'',
      ''last=0'',
      ''if [ -f "$stamp" ]; then last=$(cat "$stamp" 2>/dev/null || echo 0); fi'',
      ''case "$last" in '' @ sq @ sq @ ''|*[!0-9]*) last=0 ;; esac'',
      ''if [ "$last" -gt 0 ] && [ $((now - last)) -lt '' @ itoa intervalSeconds @ '' ]; then exit 0; fi'']\<close>

definition cachePruneLines :: "cachePrunePolicy \<Rightarrow> string list" where
  \<open>cachePruneLines policy =
     (let paths = (if cp_Paths policy = [] then [buildxCacheRoot] else cp_Paths policy);
          intervalSeconds = seconds (cp_Interval policy) (24 * hour);
          intervalMinutes = minutes (cp_Interval policy) (24 * hour);
          maxAgeMinutes = minutes (cp_MaxAge policy) (14 * 24 * hour);
          tempMaxAgeMinutes = minutes (cp_TempMaxAge policy) (6 * hour)
      in [''set -eu'',
          ''stamp='' @ sq @ ''/cache/.gh-runner-scaler-prune.stamp'' @ sq,
          ''lock='' @ sq @ ''/cache/.gh-runner-scaler-prune.lock'' @ sq]
         @ throttleLines intervalSeconds
         @ [''if [ -d "$lock" ]; then find "$lock" -maxdepth 0 -type d -mmin +'' @ itoa intervalMinutes
              @ '' -exec rmdir {} '' @ [CHR 0x5C] @ ''; 2>/dev/null || true; fi'',
            ''if ! mkdir "$lock" 2>/dev/null; then exit 0; fi'',
            ''trap '' @ sq @ ''rmdir "$lock" 2>/dev/null || true'' @ sq @ '' EXIT'']
         @ throttleLines intervalSeconds
         @ concat (map (prunePathLines tempMaxAgeMinutes maxAgeMinutes) paths)
         @ [''printf '' @ sq @ ''%s'' @ [CHR 0x5C] @ ''n'' @ sq @ '' "$now" > "$stamp"'',
            ''chown runner:runner "$stamp" || true''])\<close>

definition cachePruneScript :: "cachePrunePolicy \<Rightarrow> string" where
  "cachePruneScript policy = join [CHR 0x0A] (cachePruneLines policy)"

definition toolCacheDir :: "SymlinkConfig list \<Rightarrow> string" where
  "toolCacheDir symlinks =
     (case find (\<lambda>sl. pathBase (sl_Target sl) = ''hostedtoolcache'') symlinks of
        None \<Rightarrow> [] | Some sl \<Rightarrow> sl_Target sl)"

definition runnerEnvLines :: "string \<Rightarrow> string list" where
  "runnerEnvLines toolCache =
     (if toolCache \<noteq> [] then [''AGENT_TOOLSDIRECTORY='' @ toolCache, ''RUNNER_TOOL_CACHE='' @ toolCache] else [])
     @ [''RUNNER_BUILDX_CACHE_ROOT='' @ buildxCacheRoot, ''DOCKER_BUILDKIT=1'']"

definition runnerEnvScriptLines :: "string \<Rightarrow> string list" where
  \<open>runnerEnvScriptLines toolCache =
     [''set -eu'',
      ''env_file=/home/runner/.env'',
      ''tmp_file=$(mktemp)'',
      ''if [ -f "$env_file" ]; then'',
      ''  grep -v -E '' @ sq @ ''^(AGENT_TOOLSDIRECTORY|RUNNER_TOOL_CACHE|RUNNER_BUILDX_CACHE_ROOT|DOCKER_BUILDKIT)='' @ sq
        @ '' "$env_file" > "$tmp_file" || true'',
      ''fi'',
      ''printf '' @ sq @ ''%s'' @ [CHR 0x5C] @ ''n'' @ sq @ '' '' @ join '' '' (map lxdShellQuote (runnerEnvLines toolCache))
        @ '' >> "$tmp_file"'',
      ''chown runner:runner "$tmp_file"'',
      ''chmod 600 "$tmp_file"'',
      ''mv "$tmp_file" "$env_file"'',
      ''chown runner:runner "$env_file"'']\<close>

definition runnerEnvScript :: "string \<Rightarrow> string" where
  "runnerEnvScript toolCache = join [CHR 0x0A] (runnerEnvScriptLines toolCache)"

section \<open>What the cleanup removes\<close>

text \<open>A command removes what it names, or everything below a directory from some depth on: a pair of a
  directory and the least depth below it, 0 for the directory itself.  Only the programs and the \<open>find\<close>
  expressions listed here are understood; any other command gives \<open>None\<close>.

  \<open>findRemovals\<close> reads the whole expression of a \<open>find\<close>.  A \<open>2\<close> at its end is the descriptor of the
  redirection that follows.\<close>

type_synonym removal = "string \<times> nat"

definition findDepth :: "string \<Rightarrow> nat" where
  "findDepth n = (if n = ''1'' then 1 else if n = ''3'' then 3 else 0)"

function findRemovals :: "string \<Rightarrow> nat \<Rightarrow> string list \<Rightarrow> removal list option" where
  "findRemovals dir depth [] = Some []"
| "findRemovals dir depth (w # ws) =
     (if w = ''-mindepth'' then findRemovals dir (findDepth (concat (take 1 ws))) (drop 1 ws)
      else if w \<in> {''-maxdepth'', ''-type'', ''-name'', ''-mmin''} then findRemovals dir depth (drop 1 ws)
      else if w \<in> {''-empty'', ''-prune''} then findRemovals dir depth ws
      else if w = ''-delete'' then map_option (Cons (dir, depth)) (findRemovals dir depth ws)
      else if w = ''-exec'' then
        (if take 5 ws = [''rm'', ''-rf'', ''--'', ''{}'', ''+''] then
           map_option (Cons (dir, depth)) (findRemovals dir depth (drop 5 ws))
         else if take 3 ws = [''rmdir'', ''{}'', '';''] then
           map_option (Cons (dir, depth)) (findRemovals dir depth (drop 3 ws))
         else None)
      else if w = ''2'' \<and> ws = [] then Some []
      else None)"
  by pat_completeness auto
termination by (relation "measure (\<lambda>(_, _, ws). length ws)") auto

definition cacheLock :: string where
  "cacheLock = ''/cache/.gh-runner-scaler-prune.lock''"

definition cacheStamp :: string where
  "cacheStamp = ''/cache/.gh-runner-scaler-prune.stamp''"

text \<open>Programs and words at the start of a command that remove nothing: builtins, the pattern of the
  \<open>case\<close>, the operands of the arithmetic expansion and the targets of redirections.\<close>

definition removesNothing :: "string list" where
  "removesNothing =
     [''set'', ''['', ''case'', ''esac'', ''fi'', ''exit'', ''true'', ''mkdir'', ''cat'', ''echo'', ''printf'',
      ''chown'', ''date'', ''*[!0-9]*'', ''now'', ''-lt'', ''/dev/null'', ''$stamp'']"

definition assigns :: "string list" where
  "assigns = [''stamp='' @ cacheStamp, ''lock='' @ cacheLock, ''now=$'', ''last=$'', ''last=0'']"

definition programOf :: "string list \<Rightarrow> string list" where
  "programOf cmd = dropWhile (\<lambda>w. w \<in> set [''if'', ''then'', ''!'']) cmd"

definition simpleRemovals :: "string list \<Rightarrow> removal list option" where
  "simpleRemovals cmd =
     (case programOf cmd of
        [] \<Rightarrow> Some []
      | w # ws \<Rightarrow>
          if w \<in> set removesNothing \<or> ws = [] \<and> w \<in> set assigns then Some []
          else if w = ''rmdir'' then Some (map (\<lambda>d. (d, 0)) (if drop 1 ws = [''2''] then take 1 ws else ws))
          else if w = ''find'' \<and> ws \<noteq> [] then findRemovals (hd ws) 0 (tl ws)
          else None)"

definition allRemovals :: "removal list option list \<Rightarrow> removal list option" where
  "allRemovals rs = (if None \<in> set rs then None else Some (concat (map the rs)))"

text \<open>The body of a \<open>trap\<close> is a script of its own.\<close>

definition commandRemovals :: "string list \<Rightarrow> removal list option" where
  "commandRemovals cmd =
     (if take 1 cmd = [''trap''] \<and> length cmd = 3 then
        (case shellCommands (cmd ! 1) of None \<Rightarrow> None | Some cmds \<Rightarrow> allRemovals (map simpleRemovals cmds))
      else simpleRemovals cmd)"

text \<open>Every removal is of the lock or strictly below one of the given directories.\<close>

definition confined :: "string list \<Rightarrow> string list \<Rightarrow> bool" where
  "confined roots cmd \<longleftrightarrow>
     (case commandRemovals cmd of
        None \<Rightarrow> False
      | Some rs \<Rightarrow> list_all (\<lambda>(dir, depth). dir = ''$lock'' \<and> depth = 0 \<or> dir \<in> set roots \<and> 0 < depth) rs)"

lemmas removal_defs = confined_def commandRemovals_def simpleRemovals_def programOf_def removesNothing_def assigns_def
  allRemovals_def findDepth_def cacheLock_def cacheStamp_def

lemma seconds_pos: "0 \<le> seconds v f" and minutes_pos: "0 \<le> minutes v f"
  by (simp_all add: seconds_def minutes_def Let_def)

lemma throttle_ok:
  assumes "0 \<le> n"
  shows "list_all (lineOk (confined roots)) (throttleLines n)"
  using assms by (simp add: throttleLines_def lineOk_def shell_chars tokens_itoa itoa_first_char removal_defs)

lemma absolute_neq: "isAbs path \<Longrightarrow> c \<noteq> CHR ''/'' \<Longrightarrow> c # s \<noteq> path"
  by (auto simp: isAbs_def has_prefix_def)

lemma prune_path_ok:
  assumes "0 \<le> m" and "0 \<le> n" and "path \<in> set roots" and "isAbs path"
  shows "list_all (lineOk (confined roots)) (prunePathLines m n path)"
  using assms
  by (simp add: prunePathLines_def lxdShellQuote_word lineOk_def shell_chars tokens_itoa removal_defs list_ex_iff Let_def
      absolute_neq)

lemma prune_frame_ok:
  assumes "0 \<le> n"
  shows \<open>lineOk (confined roots) (''stamp='' @ sq @ ''/cache/.gh-runner-scaler-prune.stamp'' @ sq)\<close>
    and \<open>lineOk (confined roots) (''lock='' @ sq @ ''/cache/.gh-runner-scaler-prune.lock'' @ sq)\<close>
    and \<open>lineOk (confined roots) (''if [ -d "$lock" ]; then find "$lock" -maxdepth 0 -type d -mmin +'' @ itoa n
              @ '' -exec rmdir {} '' @ [CHR 0x5C] @ ''; 2>/dev/null || true; fi'')\<close>
    and \<open>lineOk (confined roots) ''if ! mkdir "$lock" 2>/dev/null; then exit 0; fi''\<close>
    and \<open>lineOk (confined roots) (''trap '' @ sq @ ''rmdir "$lock" 2>/dev/null || true'' @ sq @ '' EXIT'')\<close>
    and \<open>lineOk (confined roots) (''printf '' @ sq @ ''%s'' @ [CHR 0x5C] @ ''n'' @ sq @ '' "$now" > "$stamp"'')\<close>
    and \<open>lineOk (confined roots) ''chown runner:runner "$stamp" || true''\<close>
    and "lineOk (confined roots) ''set -eu''"
  using assms
  by (simp_all add: lineOk_def shellCommands_def shell_chars tokens_itoa itoa_first_char removal_defs)

text \<open>What the script lets the shell expand: its own clock, stamp and lock, and nothing of a path.\<close>

definition throttleExpansions :: "string list" where
  "throttleExpansions = [''(date'', ''stamp'', ''(cat'', ''stamp'', ''last'', ''last'', ''((now'']"

definition pruneExpansions :: "string list" where
  "pruneExpansions = throttleExpansions @ [''lock'', ''lock'', ''lock''] @ throttleExpansions @ [''now'', ''stamp'', ''stamp'']"

lemma nameChars [simp]:
  "isNameChar (CHR ''('')" "isNameChar (CHR ''a'')" "isNameChar (CHR ''c'')" "isNameChar (CHR ''d'')" "isNameChar (CHR ''e'')" "isNameChar (CHR ''k'')"
  "isNameChar (CHR ''l'')" "isNameChar (CHR ''m'')" "isNameChar (CHR ''n'')" "isNameChar (CHR ''o'')" "isNameChar (CHR ''p'')"
  "isNameChar (CHR ''s'')" "isNameChar (CHR ''t'')" "isNameChar (CHR ''w'')"
  "\<not> isNameChar (CHR '' '')" "\<not> isNameChar (CHR 0x22)"
  by code_simp+

lemma throttle_expansions:
  "0 \<le> n \<Longrightarrow> concat (map (shellExpansions Unquoted) (throttleLines n)) = throttleExpansions"
  by (simp add: throttleLines_def throttleExpansions_def expansions_itoa expansionName_def)

lemma prune_path_expansions:
  "0 \<le> m \<Longrightarrow> 0 \<le> n \<Longrightarrow> concat (map (shellExpansions Unquoted) (prunePathLines m n path)) = []"
  by (simp add: prunePathLines_def lxdShellQuote_word expansions_itoa Let_def)

lemma prune_expansions: "concat (map (shellExpansions Unquoted) (cachePruneLines policy)) = pruneExpansions"
proof -
  have "concat (map (shellExpansions Unquoted) (concat (map (prunePathLines (minutes a b) (minutes c d)) paths))) = []" for a b c d paths
    by (induction paths) (simp_all add: prune_path_expansions minutes_pos)
  then show ?thesis
    unfolding cachePruneLines_def Let_def map_append concat_append throttle_expansions [OF seconds_pos]
    by (simp add: pruneExpansions_def expansions_itoa minutes_pos expansionName_def)
qed

text \<open>The cleanup script read by a shell: what it expands, and what its commands remove.\<close>

definition cleanupReads :: "(string list \<Rightarrow> bool) \<Rightarrow> string \<Rightarrow> bool" where
  "cleanupReads P script \<longleftrightarrow> shellExpansions Unquoted script = pruneExpansions
     \<and> (\<exists>cmds. shellCommands script = Some cmds \<and> list_all P cmds)"

lemma prune_script_confined:
  assumes "\<And>p. p \<in> set roots \<Longrightarrow> isAbs p" and "set (if cp_Paths policy = [] then [buildxCacheRoot] else cp_Paths policy) \<subseteq> set roots"
  shows "cleanupReads (confined roots) (cachePruneScript policy)"
proof -
  have "list_all (lineOk (confined roots)) (prunePathLines (minutes a b) (minutes c d) p)"
    if "p \<in> set (if cp_Paths policy = [] then [buildxCacheRoot] else cp_Paths policy)" for a b c d p
    using assms that by (intro prune_path_ok minutes_pos) auto
  then have paths: "list_all (lineOk (confined roots)) (concat (map (prunePathLines (minutes a b) (minutes c d))
      (if cp_Paths policy = [] then [buildxCacheRoot] else cp_Paths policy)))" for a b c d
    by (simp add: list_all_iff)
  have lines: "list_all (lineOk (confined roots)) (cachePruneLines policy)"
    unfolding cachePruneLines_def Let_def list_all_append
    using throttle_ok [OF seconds_pos] prune_frame_ok [OF minutes_pos] paths
    by (simp only: list.pred_inject simp_thms)
  moreover have "cachePruneLines policy \<noteq> []" by (simp add: cachePruneLines_def Let_def)
  ultimately show ?thesis
    unfolding cleanupReads_def cachePruneScript_def
    using script_commands_ok script_expansions [OF lines] prune_expansions by simp
qed

text \<open>A removal of the cleanup: the lock, or something strictly below a proper subdirectory of \<open>/cache\<close>.\<close>

definition belowCache :: "removal \<Rightarrow> bool" where
  "belowCache r \<longleftrightarrow> r = (''$lock'', 0)
     \<or> (\<exists>ds. fst r = ''/cache/'' @ join ''/'' ds \<and> ds \<noteq> [] \<and> list_all properName ds \<and> 0 < snd r)"

definition removesBelowCache :: "string list \<Rightarrow> bool" where
  "removesBelowCache cmd \<longleftrightarrow> (\<exists>rs. commandRemovals cmd = Some rs \<and> list_all belowCache rs)"

lemma confined_below:
  assumes "confined roots cmd" and "\<And>p. p \<in> set roots \<Longrightarrow> \<exists>ds. ds \<noteq> [] \<and> list_all properName ds \<and> p = ''/cache/'' @ join ''/'' ds"
  shows "removesBelowCache cmd"
proof -
  obtain rs where rs: "commandRemovals cmd = Some rs"
    "list_all (\<lambda>(dir, depth). dir = ''$lock'' \<and> depth = 0 \<or> dir \<in> set roots \<and> 0 < depth) rs"
    using assms(1) by (auto simp: confined_def split: option.splits)
  have "belowCache r" if "r \<in> set rs" for r
    using rs(2) that assms(2) unfolding belowCache_def by (cases r) (fastforce simp: list_all_iff)
  with rs(1) show ?thesis by (auto simp: removesBelowCache_def list_all_iff)
qed

text \<open>C33. For every class of a loaded configuration a shell reads the cleanup script without an open
  quote and expands in it only its own clock, stamp and lock, never a part of a configured path.  Every
  command of the script, that of the trap included, is one whose removals are known, and they are of the
  lock directory \<open>/cache/.gh-runner-scaler-prune.lock\<close> itself or of what lies strictly below a directory
  \<open>/cache/name/...\<close> without dots: \<open>find\<close> runs \<open>rm\<close> and \<open>rmdir\<close> on nothing but what it has found.  No
  configured path, whatever characters it has, lets the script remove anything outside the cache, or the
  cache as a whole.\<close>

theorem cleanup_script_confined:
  assumes "Load decodeFile getenv path = Inr cfg" and "RunnerClassConfigs cfg = Inr classes" and "c \<in> set classes"
    and "cp_Enabled (CachePrunePolicyFor (cl_Cache c))"
  shows "cleanupReads removesBelowCache (cachePruneScript (CachePrunePolicyFor (cl_Cache c)))"
proof -
  let ?policy = "CachePrunePolicyFor (cl_Cache c)"
  let ?roots = "if cp_Paths ?policy = [] then [buildxCacheRoot] else cp_Paths ?policy"
  have root: "\<exists>ds. ds \<noteq> [] \<and> list_all properName ds \<and> p = ''/cache/'' @ join ''/'' ds" if "p \<in> set ?roots" for p
  proof (cases "cp_Paths ?policy = []")
    case True
    with that show ?thesis
      by (intro exI [of _ "[''buildx'']"]) (simp add: buildxCacheRoot_def properName_def)
  next
    case False
    with that show ?thesis using prune_paths_confined [OF assms] by simp
  qed
  have "isAbs p" if "p \<in> set ?roots" for p
    using root [OF that] by (auto simp: isAbs_def has_prefix_def)
  then have "cleanupReads (confined ?roots) (cachePruneScript ?policy)" by (rule prune_script_confined [OF _ subset_refl])
  moreover have "removesBelowCache cmd" if "confined ?roots cmd" for cmd
    using confined_below [OF that] root by blast
  ultimately show ?thesis unfolding cleanupReads_def by (metis list.pred_mono_strong)
qed

theorem cleanup_script_confined_witness:
  "cleanupReads removesBelowCache (cachePruneScript (CachePrunePolicyFor
     (cg_Cache (sampleConfig [sampleClass ''a'' ''ci'' False, sampleClass ''b'' ''gpu'' True]))))"
proof -
  let ?cfg = "sampleConfig [sampleClass ''a'' ''ci'' False, sampleClass ''b'' ''gpu'' True]"
  obtain c cs where c: "RunnerClassConfigs ?cfg = Inr (c # cs)" "cl_Cache c = cg_Cache ?cfg"
    by (rule sample_class)
  have "cp_Enabled (CachePrunePolicyFor (cg_Cache ?cfg))" by code_simp
  then show ?thesis using cleanup_script_confined [OF sample_loads c(1), of c] c(2) by simp
qed

section \<open>Links and environment\<close>

definition linking :: "string list \<Rightarrow> bool" where
  "linking cmd \<longleftrightarrow> take 1 cmd = [''rm''] \<or> take 1 cmd = [''ln'']"

lemma symlink_lines_ok: "list_all (lineOk (\<lambda>_. True)) (symlinkLines sl)"
  by (simp add: symlinkLines_def Let_def lxdShellQuote_word lineOk_def shell_chars)

lemma symlink_commands:
  "filter linking (concat (map lineCommands (symlinkLines sl))) =
     [[''rm'', ''-rf'', sl_Target sl], [''rm'', ''-rf'', sl_Target sl], [''ln'', ''-s'', sl_Source sl, sl_Target sl]]"
  by (simp add: symlinkLines_def Let_def lxdShellQuote_word lineCommands_def shell_chars linking_def)

lemma setup_frame:
  "list_all (lineOk (\<lambda>_. True)) [''set -eu'', ''mkdir -p '' @ lxdShellQuote buildxCacheRoot,
      ''chown runner:runner '' @ lxdShellQuote buildxCacheRoot @ '' || true'']"
  "filter linking (concat (map lineCommands [''set -eu'', ''mkdir -p '' @ lxdShellQuote buildxCacheRoot,
      ''chown runner:runner '' @ lxdShellQuote buildxCacheRoot @ '' || true''])) = []"
  by (simp_all add: lxdShellQuote_word lineOk_def lineCommands_def shell_chars linking_def)

text \<open>A shell reads the setup script without an open quote; its removals and links are, for every
  configured link in order, the removal of the target in either branch and one link from source to
  target: the sources are never removed, and no configured path can smuggle in a command.\<close>

theorem setup_script_links:
  "\<exists>cmds. shellCommands (cacheSetupScript symlinks) = Some cmds
     \<and> filter linking cmds = concat (map (\<lambda>sl. [[''rm'', ''-rf'', sl_Target sl], [''rm'', ''-rf'', sl_Target sl],
          [''ln'', ''-s'', sl_Source sl, sl_Target sl]]) symlinks)"
proof -
  have "list_all (lineOk (\<lambda>_. True)) (concat (map symlinkLines symlinks))"
    using symlink_lines_ok by (simp add: list_all_iff)
  then have ok: "list_all (lineOk (\<lambda>_. True)) (cacheSetupLines symlinks)"
    unfolding cacheSetupLines_def list_all_append using setup_frame(1) by blast
  have links: "filter linking (concat (map lineCommands (concat (map symlinkLines symlinks)))) =
    concat (map (\<lambda>sl. [[''rm'', ''-rf'', sl_Target sl], [''rm'', ''-rf'', sl_Target sl],
          [''ln'', ''-s'', sl_Source sl, sl_Target sl]]) symlinks)"
    by (induction symlinks) (simp_all only: list.map concat.simps filter.simps map_append concat_append filter_append symlink_commands)
  have "filter linking (concat (map lineCommands (cacheSetupLines symlinks))) =
    concat (map (\<lambda>sl. [[''rm'', ''-rf'', sl_Target sl], [''rm'', ''-rf'', sl_Target sl],
          [''ln'', ''-s'', sl_Source sl, sl_Target sl]]) symlinks)"
    unfolding cacheSetupLines_def map_append concat_append filter_append setup_frame(2) links by simp
  moreover have "cacheSetupLines symlinks \<noteq> []" by (simp add: cacheSetupLines_def)
  ultimately show ?thesis using script_lines [OF ok] unfolding cacheSetupScript_def by blast
qed

lemma tokens_quoted_words:
  "ws \<noteq> [] \<Longrightarrow> shellTokens Unquoted None (join '' '' (map lxdShellQuote ws) @ CHR '' '' # s) =
     map_option (\<lambda>ts. map Word ws @ ts) (shellTokens Unquoted None s)"
proof (induction ws)
  case (Cons w ws)
  then show ?case
    by (cases ws; cases "shellTokens Unquoted None s")
      (auto simp: lxdShellQuote_word tokens_blank simp del: shellTokens.simps(2))
qed simp

text \<open>A shell reads the script that writes the environment of the runner without an open quote, and
  its \<open>printf\<close> gets every assignment as one argument, unchanged, with the redirection after them.\<close>

theorem env_script_assigns:
  "\<exists>cmds. shellCommands (runnerEnvScript toolCache) = Some cmds
     \<and> filter (\<lambda>cmd. take 1 cmd = [''printf'']) cmds = [[''printf'', ''%s'' @ [CHR 0x5C] @ ''n''] @ runnerEnvLines toolCache]"
proof -
  let ?line = \<open>''printf '' @ sq @ ''%s'' @ [CHR 0x5C] @ ''n'' @ sq @ '' '' @ join '' '' (map lxdShellQuote (runnerEnvLines toolCache))
        @ '' >> "$tmp_file"''\<close>
  let ?pre = \<open>[''set -eu'', ''env_file=/home/runner/.env'', ''tmp_file=$(mktemp)'', ''if [ -f "$env_file" ]; then'',
      ''  grep -v -E '' @ sq @ ''^(AGENT_TOOLSDIRECTORY|RUNNER_TOOL_CACHE|RUNNER_BUILDX_CACHE_ROOT|DOCKER_BUILDKIT)='' @ sq
        @ '' "$env_file" > "$tmp_file" || true'', ''fi'']\<close>
  let ?post = \<open>[''chown runner:runner "$tmp_file"'', ''chmod 600 "$tmp_file"'', ''mv "$tmp_file" "$env_file"'',
      ''chown runner:runner "$env_file"'']\<close>
  have ne: "runnerEnvLines toolCache \<noteq> []" by (simp add: runnerEnvLines_def)
  have tokens: "shellTokens Unquoted None ?line =
      Some (Word ''printf'' # Word (''%s'' @ [CHR 0x5C] @ ''n'') # map Word (runnerEnvLines toolCache)
        @ [Op CHR ''>'', Op CHR ''>'', Word ''$tmp_file''])"
    using tokens_quoted_words [OF ne] by (simp add: shell_chars)
  have words: "commandsOf (map Word ws @ Op c # ts) = ws # commandsOf ts" for ws c ts
    by (induction ws) auto
  have "lineCommands ?line = [[''printf'', ''%s'' @ [CHR 0x5C] @ ''n''] @ runnerEnvLines toolCache, [], [''$tmp_file'']]"
    unfolding lineCommands_def tokens by (simp add: words)
  moreover have "lineOk (\<lambda>_. True) ?line" unfolding lineOk_def tokens by (simp add: words)
  moreover have "runnerEnvScriptLines toolCache = ?pre @ [?line] @ ?post" by (simp add: runnerEnvScriptLines_def)
  moreover have "list_all (lineOk (\<lambda>_. True)) (?pre @ ?post)" by code_simp
  moreover have "filter (\<lambda>cmd. take 1 cmd = [''printf'']) (concat (map lineCommands ?pre)) = []"
    "filter (\<lambda>cmd. take 1 cmd = [''printf'']) (concat (map lineCommands ?post)) = []"
    by code_simp+
  ultimately have "list_all (lineOk (\<lambda>_. True)) (runnerEnvScriptLines toolCache)"
    and "filter (\<lambda>cmd. take 1 cmd = [''printf'']) (concat (map lineCommands (runnerEnvScriptLines toolCache)))
      = [[''printf'', ''%s'' @ [CHR 0x5C] @ ''n''] @ runnerEnvLines toolCache]"
    by (simp_all only: list_all_append list.pred_inject simp_thms map_append list.map concat_append concat.simps
        filter_append) simp
  moreover have "runnerEnvScriptLines toolCache \<noteq> []" by (simp add: runnerEnvScriptLines_def)
  ultimately show ?thesis using script_lines unfolding runnerEnvScript_def by blast
qed

end
