(* ===== verification/Lxd_Runtime.thy ===== *)
theory Lxd_Runtime
  imports File_System Metric_Domain Go_Paths Go_Duration
begin

text \<open>
  The container runtime of \<open>provider/lxd/runtime.go\<close>.  The LXD server is third-party code: it is a
  record of functions over a state of its own, one per call of the client, and the outcome of an
  operation includes the waiting for it.  A nil map is \<open>None\<close>; a write to it panics, and so is the result
  of the function that writes.

  \<open>named_remote_resolved\<close>: the address of a named remote is the one the configuration of the LXD client
  gives it.
\<close>

section \<open>The LXD server\<close>

type_synonym device = "(string \<times> string) list"

record lxdInstance =
  in_Name :: string
  in_Status :: string
  in_Config :: "(string \<times> string) list"
  in_Devices :: "(string \<times> device) list option"

datatype operation = Refused gerror | OpFailed gerror | OpDone

datatype exitValue = ExitFloat rat | ExitInt int | ExitInt64 int | ExitOther

text \<open>An execution ends with its standard output and error, and the entry \<open>return\<close> of the metadata of
  the operation.\<close>

datatype execution = ExecRefused gerror | ExecFailed gerror string | ExecDone string string "exitValue option"

record 's lxdServer =
  sv_GetInstance :: "string \<Rightarrow> 's \<Rightarrow> (lxdInstance \<times> string) result"
  sv_CopyInstance :: "lxdInstance \<Rightarrow> string \<Rightarrow> 's \<Rightarrow> operation \<times> 's"
  sv_UpdateInstance :: "string \<Rightarrow> lxdInstance \<Rightarrow> string \<Rightarrow> 's \<Rightarrow> operation \<times> 's"
  sv_UpdateInstanceState :: "string \<Rightarrow> string \<Rightarrow> bool \<Rightarrow> 's \<Rightarrow> operation \<times> 's"
  sv_DeleteInstance :: "string \<Rightarrow> 's \<Rightarrow> operation \<times> 's"
  sv_ExecInstance :: "string \<Rightarrow> string list \<Rightarrow> 's \<Rightarrow> execution \<times> 's"
  sv_GetInstances :: "'s \<Rightarrow> lxdInstance list result"
  sv_GetInstanceState :: "string \<Rightarrow> 's \<Rightarrow> string result"
  sv_GetStoragePoolResources :: "string \<Rightarrow> 's \<Rightarrow> (int \<times> int) result"

record lxdRuntime =
  rt_template :: string
  rt_remote :: string
  rt_network :: string

section \<open>Cloning\<close>

definition volatileMAC :: "string \<Rightarrow> bool" where
  "volatileMAC key \<longleftrightarrow> has_suffix key ''.hwaddr'' \<and> has_prefix key ''volatile.''"

text \<open>The configuration and the devices without their MAC addresses, and whether there was one.\<close>

definition clearMACs :: "lxdInstance \<Rightarrow> lxdInstance \<times> bool" where
  "clearMACs inst =
     (let devices = in_Devices inst;
          volatile = list_ex (\<lambda>(key, v). volatileMAC key) (in_Config inst);
          hwaddr = (case devices of None \<Rightarrow> False | Some devs \<Rightarrow> list_ex (\<lambda>(n, dev). map_of dev ''hwaddr'' \<noteq> None) devs)
      in (inst\<lparr>in_Config := filter (\<lambda>(key, v). \<not> volatileMAC key) (in_Config inst),
               in_Devices := map_option (map (\<lambda>(n, dev). (n, AList.delete ''hwaddr'' dev))) devices\<rparr>,
          volatile \<or> hwaddr))"

definition defaultNIC :: device where
  "defaultNIC = [(''type'', ''nic''), (''nictype'', ''bridged''), (''name'', ''eth0'')]"

text \<open>\<open>None\<close> is the panic of a write to a nil map.\<close>

definition enforceNetwork :: "string \<Rightarrow> lxdInstance \<Rightarrow> (lxdInstance \<times> bool) option" where
  "enforceNetwork network inst =
     (if network = [] then Some (inst, False)
      else case in_Devices inst of
        None \<Rightarrow> None
      | Some devs \<Rightarrow>
          let (eth0, added) = (case map_of devs ''eth0'' of Some dev \<Rightarrow> (dev, False) | None \<Rightarrow> (defaultNIC, True))
          in if map_of eth0 ''parent'' \<noteq> Some network
             then Some (inst\<lparr>in_Devices := Some (AList.update ''eth0''
                          (AList.update ''nictype'' ''bridged'' (AList.update ''parent'' network eth0)) devs)\<rparr>, True)
             else Some (inst\<lparr>in_Devices := Some (AList.update ''eth0'' eth0 devs)\<rparr>, added))"

definition CloneFromTemplate :: "'s lxdServer \<Rightarrow> lxdRuntime \<Rightarrow> string \<Rightarrow> 's \<Rightarrow> (gerror option \<times> 's) option" where
  "CloneFromTemplate srv r name s =
     (case sv_GetInstance srv (rt_template r) s of
        Inl err \<Rightarrow> Some (Some (''getting template '' @ rt_template r @ '': '' @ err), s)
      | Inr (source, _) \<Rightarrow>
          (case sv_CopyInstance srv source name s of
             (Refused err, s) \<Rightarrow> Some (Some (''copying template to '' @ name @ '': '' @ err), s)
           | (OpFailed err, s) \<Rightarrow> Some (Some (''waiting for copy of '' @ name @ '': '' @ err), s)
           | (OpDone, s) \<Rightarrow>
               (case sv_GetInstance srv name s of
                  Inl err \<Rightarrow> Some (Some (''getting cloned instance '' @ name @ '': '' @ err), s)
                | Inr (inst, etag) \<Rightarrow>
                    (case clearMACs inst of (inst, cleared) \<Rightarrow>
                     (case enforceNetwork (rt_network r) inst of
                        None \<Rightarrow> None
                      | Some (inst, enforced) \<Rightarrow>
                          if cleared \<or> enforced then
                            (case sv_UpdateInstance srv name inst etag s of
                               (Refused err, s) \<Rightarrow> Some (Some (''clearing MAC on '' @ name @ '': '' @ err), s)
                             | (OpFailed err, s) \<Rightarrow> Some (Some (''waiting for MAC clear on '' @ name @ '': '' @ err), s)
                             | (OpDone, s) \<Rightarrow> Some (None, s))
                          else Some (None, s))))))"

section \<open>The other operations\<close>

text \<open>\<open>waitOperation\<close> gives the error of the operation as it is; a cancelled context cancels the
  operation, which then fails.\<close>

definition waitOperation :: "string \<Rightarrow> operation \<Rightarrow> gerror option" where
  "waitOperation doing opn =
     (case opn of Refused err \<Rightarrow> Some (doing @ '': '' @ err) | OpFailed err \<Rightarrow> Some err | OpDone \<Rightarrow> None)"

definition lxdStartContainer :: "'s lxdServer \<Rightarrow> string \<Rightarrow> 's \<Rightarrow> gerror option \<times> 's" where
  "lxdStartContainer srv name s =
     (case sv_UpdateInstanceState srv name ''start'' False s of (opn, s) \<Rightarrow> (waitOperation (''starting '' @ name) opn, s))"

definition lxdStopContainer :: "'s lxdServer \<Rightarrow> string \<Rightarrow> 's \<Rightarrow> gerror option \<times> 's" where
  "lxdStopContainer srv name s =
     (case sv_UpdateInstanceState srv name ''stop'' True s of (opn, s) \<Rightarrow> (waitOperation (''stopping '' @ name) opn, s))"

definition lxdDeleteContainer :: "'s lxdServer \<Rightarrow> string \<Rightarrow> 's \<Rightarrow> gerror option \<times> 's" where
  "lxdDeleteContainer srv name s =
     (case sv_DeleteInstance srv name s of (opn, s) \<Rightarrow> (waitOperation (''deleting '' @ name) opn, s))"

text \<open>A conversion of a float to an integer truncates.\<close>

definition execExitCode :: "exitValue option \<Rightarrow> int option" where
  "execExitCode value =
     (case value of
        None \<Rightarrow> None
      | Some (ExitFloat x) \<Rightarrow> Some (if x < 0 then - \<lfloor>- x\<rfloor> else \<lfloor>x\<rfloor>)
      | Some (ExitInt i) \<Rightarrow> Some i
      | Some (ExitInt64 i) \<Rightarrow> Some i
      | Some ExitOther \<Rightarrow> None)"

text \<open>The output and the error: the code returns both.\<close>

definition lxdExecCommand :: "'s lxdServer \<Rightarrow> string \<Rightarrow> string list \<Rightarrow> 's \<Rightarrow> (string \<times> gerror option) \<times> 's" where
  "lxdExecCommand srv name cmd s =
     (case sv_ExecInstance srv name cmd s of
        (ExecRefused err, s) \<Rightarrow> (([], Some (''exec in '' @ name @ '': '' @ err)), s)
      | (ExecFailed err stderr, s) \<Rightarrow>
          (([], Some (''exec in '' @ name @ '' failed: '' @ err @ '' (stderr: '' @ stderr @ '')'')), s)
      | (ExecDone stdout stderr value, s) \<Rightarrow>
          (case execExitCode value of
             None \<Rightarrow> ((stdout, Some (''exec in '' @ name @ '' did not report a command exit code (stderr: '' @ stderr @ '')'')), s)
           | Some code \<Rightarrow>
               if code \<noteq> 0
               then ((stdout, Some (''exec in '' @ name @ '' returned exit code '' @ itoa code @ '' (stderr: '' @ stderr @ '')'')), s)
               else ((stdout, None), s)))"

definition mapStatus :: "string \<Rightarrow> containerStatus" where
  "mapStatus s =
     (let s = to_lower s in
      if s = ''running'' then StatusRunning else if s = ''stopped'' then StatusStopped else StatusUnknown)"

definition toContainer :: "lxdInstance \<Rightarrow> container" where
  "toContainer inst = \<lparr>c_Name = in_Name inst, c_Status = mapStatus (in_Status inst)\<rparr>"

definition lxdListContainers :: "'s lxdServer \<Rightarrow> string \<Rightarrow> 's \<Rightarrow> container list result" where
  "lxdListContainers srv pfx s =
     (case sv_GetInstances srv s of
        Inl err \<Rightarrow> Inl (''listing containers: '' @ err)
      | Inr instances \<Rightarrow> Inr (map toContainer (filter (\<lambda>inst. has_prefix (in_Name inst) pfx) instances)))"

definition lxdGetContainerStatus :: "'s lxdServer \<Rightarrow> string \<Rightarrow> 's \<Rightarrow> containerStatus \<times> gerror option" where
  "lxdGetContainerStatus srv name s =
     (case sv_GetInstanceState srv name s of
        Inl err \<Rightarrow> (StatusUnknown, Some (''getting status of '' @ name @ '': '' @ err))
      | Inr status \<Rightarrow> (mapStatus status, None))"

text \<open>The waiting loop, on a clock that is 0 when it starts. The timer of \<open>time.After\<close> fires at
  \<open>timeout\<close>; the ticker fires every second and keeps at most one tick, so after a tick was taken
  at the time \<open>t\<close> the next one is the first after \<open>t\<close>; the context is done at the time \<open>ctx\<close> gives
  for it, if ever. A round of the loop waits until one of the three is ready and takes one of those
  that are: a number chooses it, and a check takes the time the round gives for it.\<close>

datatype waitCase = CtxDone gerror | Deadline | Tick

type_synonym waitContext = "(duration \<times> gerror) option"

type_synonym waitRound = "nat \<times> duration"

definition selectTime :: "duration \<Rightarrow> waitContext \<Rightarrow> duration \<Rightarrow> duration \<Rightarrow> duration" where
  "selectTime timeout ctx tickAt now =
     max now (case ctx of None \<Rightarrow> min timeout tickAt | Some (due, err) \<Rightarrow> min due (min timeout tickAt))"

definition readyCases :: "duration \<Rightarrow> waitContext \<Rightarrow> duration \<Rightarrow> duration \<Rightarrow> waitCase list" where
  "readyCases timeout ctx tickAt t =
     (case ctx of None \<Rightarrow> [] | Some (due, err) \<Rightarrow> if due \<le> t then [CtxDone err] else [])
     @ (if timeout \<le> t then [Deadline] else []) @ (if tickAt \<le> t then [Tick] else [])"

definition chosenCase :: "nat \<Rightarrow> waitCase list \<Rightarrow> waitCase" where
  "chosenCase choice cases = cases ! (choice mod length cases)"

definition nextTick :: "duration \<Rightarrow> duration" where
  "nextTick t = (t div second + 1) * second"

fun waitLoop ::
    "'s lxdServer \<Rightarrow> string \<Rightarrow> string list \<Rightarrow> duration \<Rightarrow> waitContext \<Rightarrow> waitRound list \<Rightarrow> duration \<Rightarrow> duration \<Rightarrow> 's
     \<Rightarrow> (gerror option \<times> duration \<times> 's) option" where
  "waitLoop srv name chk timeout ctx [] now tickAt s = None"
| "waitLoop srv name chk timeout ctx ((choice, took) # rounds) now tickAt s =
     (let t = selectTime timeout ctx tickAt now in
      case chosenCase choice (readyCases timeout ctx tickAt t) of
        CtxDone err \<Rightarrow> Some (Some err, t, s)
      | Deadline \<Rightarrow> Some (Some (name @ '' did not become ready within '' @ durationString timeout), t, s)
      | Tick \<Rightarrow>
          (case lxdExecCommand srv name chk s of ((out, err), s') \<Rightarrow>
             if err = None then Some (None, t + took, s')
             else waitLoop srv name chk timeout ctx rounds (t + took) (nextTick t) s'))"

text \<open>The error, the time it took and the state; \<open>None\<close> while the rounds have not ended it.\<close>

definition lxdWaitForReady ::
    "'s lxdServer \<Rightarrow> string \<Rightarrow> string list \<Rightarrow> duration \<Rightarrow> waitContext \<Rightarrow> waitRound list \<Rightarrow> 's
     \<Rightarrow> (gerror option \<times> duration \<times> 's) option" where
  "lxdWaitForReady srv name chk timeout ctx rounds s = waitLoop srv name chk timeout ctx rounds 0 second s"

section \<open>Host metrics\<close>

definition countStatus :: "containerStatus \<Rightarrow> container list \<Rightarrow> int" where
  "countStatus st cs = int (length (filter (\<lambda>c. c_Status c = st) cs))"

definition gigabytes :: "int \<Rightarrow> rat" where
  "gigabytes n = of_int n / of_int (1024 * 1024 * 1024)"

definition hostMetrics :: "'s lxdServer \<Rightarrow> string \<Rightarrow> container list option \<Rightarrow> 's \<Rightarrow> HostMetrics result" where
  "hostMetrics srv cachePool containers s =
     (case (case containers of
              Some cs \<Rightarrow> Inr cs
            | None \<Rightarrow> (case sv_GetInstances srv s of
                Inl err \<Rightarrow> Inl (''listing containers: '' @ err)
              | Inr instances \<Rightarrow> Inr (map toContainer instances))) of
        Inl err \<Rightarrow> Inl err
      | Inr cs \<Rightarrow>
          let m = \<lparr>hm_GroupID = [], hm_ContainersRunning = countStatus StatusRunning cs,
                   hm_ContainersStopped = countStatus StatusStopped cs, hm_RunnerContainersRunning = None,
                   hm_RunnerContainersStopped = None, hm_CachePoolUsedGB = 0, hm_CachePoolTotalGB = 0, hm_CachePoolPct = 0\<rparr>
          in if cachePool = [] then Inr m
             else case sv_GetStoragePoolResources srv cachePool s of
               Inl err \<Rightarrow> Inr m
             | Inr (used, space) \<Rightarrow>
                 if space \<le> 0 then Inr m
                 else Inr (m\<lparr>hm_CachePoolUsedGB := gigabytes used, hm_CachePoolTotalGB := gigabytes space,
                             hm_CachePoolPct := of_int used / of_int space * 100\<rparr>))"

definition lxdHostMetrics :: "'s lxdServer \<Rightarrow> string \<Rightarrow> 's \<Rightarrow> HostMetrics result" where
  "lxdHostMetrics srv cachePool s = hostMetrics srv cachePool None s"

definition lxdHostMetricsFromContainers :: "'s lxdServer \<Rightarrow> string \<Rightarrow> container list option \<Rightarrow> 's \<Rightarrow> HostMetrics result" where
  "lxdHostMetricsFromContainers srv cachePool containers s = hostMetrics srv cachePool containers s"

section \<open>Connecting\<close>

text \<open>The surroundings: environment variables, the home directory, files, and the two ways of the
  client library to connect.\<close>

record connectionArgs =
  ka_TLSClientCert :: string
  ka_TLSClientKey :: string
  ka_TLSServerCert :: string

record 'c lxdHost =
  ho_Getenv :: "string \<Rightarrow> string"
  ho_UserHomeDir :: "string result"
  ho_ReadFile :: "string \<Rightarrow> string result"
  ho_ConnectLXD :: "string \<Rightarrow> connectionArgs \<Rightarrow> 'c result"
  ho_ConnectLXDUnix :: "string \<Rightarrow> 'c result"

definition lxdConfigDir :: "'c lxdHost \<Rightarrow> string" where
  "lxdConfigDir ho =
     (if ho_Getenv ho ''LXD_CONF'' \<noteq> [] then ho_Getenv ho ''LXD_CONF''
      else case ho_UserHomeDir ho of
        Inl _ \<Rightarrow> joinPath [''/root'', ''.config'', ''lxc'']
      | Inr home \<Rightarrow> joinPath [home, ''.config'', ''lxc''])"

definition serverCertPathForRemote :: "'c lxdHost \<Rightarrow> string \<Rightarrow> string" where
  "serverCertPathForRemote ho remote =
     (if remote = [] then [] else joinPath [lxdConfigDir ho, ''servercerts'', remote @ ''.crt''])"

definition connectRemote :: "'c lxdHost \<Rightarrow> string \<Rightarrow> string \<Rightarrow> string \<Rightarrow> string \<Rightarrow> 'c result" where
  "connectRemote ho addr certPath keyPath serverCertPath =
     (let certPath = (if certPath = [] then joinPath [lxdConfigDir ho, ''client.crt''] else certPath);
          keyPath = (if keyPath = [] then joinPath [lxdConfigDir ho, ''client.key''] else keyPath)
      in case ho_ReadFile ho certPath of
        Inl err \<Rightarrow> Inl (''reading client cert '' @ certPath @ '': '' @ err)
      | Inr clientCert \<Rightarrow>
          (case ho_ReadFile ho keyPath of
             Inl err \<Rightarrow> Inl (''reading client key '' @ keyPath @ '': '' @ err)
           | Inr clientKey \<Rightarrow>
               (case (if serverCertPath = [] then Inr []
                      else case ho_ReadFile ho serverCertPath of
                        Inr cert \<Rightarrow> Inr cert
                      | Inl err \<Rightarrow> if err = errNotExist then Inr []
                                    else Inl (''reading server cert '' @ serverCertPath @ '': '' @ err)) of
                  Inl err \<Rightarrow> Inl err
                | Inr serverCert \<Rightarrow>
                    ho_ConnectLXD ho addr \<lparr>ka_TLSClientCert = clientCert, ka_TLSClientKey = clientKey,
                                            ka_TLSServerCert = serverCert\<rparr>)))"

text \<open>The scan of the lines of the client configuration; \<open>inRemote\<close>: the line of the remote was seen.
  The result is the address, or which of the two errors it is.\<close>

definition trimRight :: "string \<Rightarrow> string" where
  "trimRight line = rev (dropWhile (\<lambda>c. c = CHR '' '' \<or> c = CHR 0x09) (rev line))"

datatype remoteAddr = Address string | NoAddress | NotFound

fun scanRemote :: "string \<Rightarrow> bool \<Rightarrow> string list \<Rightarrow> remoteAddr" where
  "scanRemote needle inRemote [] = NotFound"
| "scanRemote needle inRemote (line # lines) =
     (if trimRight line = needle then scanRemote needle True lines
      else if \<not> inRemote then scanRemote needle inRemote lines
      else
        let trimmed = trim_space line in
        if has_prefix trimmed ''addr:'' then
          (let addr = trim_space (trim_prefix trimmed ''addr:'') in
           if addr = [] \<or> addr = ''unix://'' then NoAddress else Address addr)
        else if \<not> has_prefix line ''    '' \<and> \<not> has_prefix line [CHR 0x09, CHR 0x09] \<and> trim_space line \<noteq> []
        then NotFound
        else scanRemote needle inRemote lines)"

definition resolveRemoteAddr :: "'c lxdHost \<Rightarrow> string \<Rightarrow> string result" where
  "resolveRemoteAddr ho name =
     (let configPath = joinPath [lxdConfigDir ho, ''config.yml''] in
      case ho_ReadFile ho configPath of
        Inl err \<Rightarrow> Inl (''reading LXD config '' @ configPath @ '': '' @ err)
      | Inr data \<Rightarrow>
          (case scanRemote (''  '' @ name @ '':'') False (split_on CHR 0x0A data) of
             Address addr \<Rightarrow> Inr addr
           | NoAddress \<Rightarrow> Inl (''remote '' @ quoted name @ '' has no HTTPS address'')
           | NotFound \<Rightarrow> Inl (''remote '' @ quoted name @ '' not found in '' @ configPath)))"

text \<open>\<open>New\<close>: an explicit URL, a named remote, the local socket.\<close>

definition newLxdRuntime ::
    "'c lxdHost \<Rightarrow> string \<Rightarrow> string \<Rightarrow> string \<Rightarrow> string \<Rightarrow> string \<Rightarrow> string \<Rightarrow> string \<Rightarrow> ('c \<times> lxdRuntime) result" where
  "newLxdRuntime ho socket remote remoteURL certPath keyPath tmpl network =
     (let runtime = \<lparr>rt_template = tmpl, rt_remote = remote, rt_network = network\<rparr> in
      if remoteURL \<noteq> [] then
        (case connectRemote ho remoteURL certPath keyPath (serverCertPathForRemote ho remote) of
           Inl err \<Rightarrow> Inl (''connecting to remote LXD at '' @ remoteURL @ '': '' @ err)
         | Inr server \<Rightarrow> Inr (server, runtime))
      else if remote \<noteq> [] then
        (case resolveRemoteAddr ho remote of
           Inl err \<Rightarrow> Inl (''resolving remote '' @ quoted remote @ '': '' @ err)
         | Inr addr \<Rightarrow>
             (case connectRemote ho addr certPath keyPath (serverCertPathForRemote ho remote) of
                Inl err \<Rightarrow> Inl (''connecting to remote '' @ quoted remote @ '' at '' @ addr @ '': '' @ err)
              | Inr server \<Rightarrow> Inr (server, runtime)))
      else
        let socketPath = (if socket = [] then ''/var/snap/lxd/common/lxd/unix.socket'' else socket) in
        (case ho_ConnectLXDUnix ho socketPath of
           Inl err \<Rightarrow> Inl (''connecting to local LXD at '' @ socketPath @ '': '' @ err)
         | Inr server \<Rightarrow> Inr (server, runtime)))"

section \<open>Clones\<close>

text \<open>What the code relies on: an update that is done replaces the configuration and the devices of
  the instance.\<close>

definition updateReplaces :: "'s lxdServer \<Rightarrow> bool" where
  "updateReplaces srv \<longleftrightarrow> (\<forall>name inst etag s s'. sv_UpdateInstance srv name inst etag s = (OpDone, s') \<longrightarrow>
     (\<exists>now tag. sv_GetInstance srv name s' = Inr (now, tag)
        \<and> in_Config now = in_Config inst \<and> in_Devices now = in_Devices inst))"

text \<open>An instance without MAC addresses of its own whose interface hangs on the network, if one is
  configured.\<close>

definition isolated :: "string \<Rightarrow> lxdInstance \<Rightarrow> bool" where
  "isolated network inst \<longleftrightarrow> list_all (\<lambda>(key, v). \<not> volatileMAC key) (in_Config inst)
     \<and> (case in_Devices inst of
          None \<Rightarrow> network = []
        | Some devs \<Rightarrow> list_all (\<lambda>(n, dev). map_of dev ''hwaddr'' = None) devs
            \<and> (network \<noteq> [] \<longrightarrow> (\<exists>eth0. map_of devs ''eth0'' = Some eth0 \<and> map_of eth0 ''parent'' = Some network)))"

lemma set_update: "set (AList.update k v m) \<subseteq> insert (k, v) (set m)"
  by (induction m) auto

lemma clearMACs_isolated: "isolated [] (fst (clearMACs inst))"
  by (auto simp: clearMACs_def isolated_def Let_def list_all_iff split: option.splits)

lemma clearMACs_eth0:
  assumes "\<not> snd (clearMACs inst)"
  shows "in_Devices (fst (clearMACs inst)) = in_Devices inst" "in_Config (fst (clearMACs inst)) = in_Config inst"
proof -
  have "AList.delete ''hwaddr'' dev = dev" if "map_of dev ''hwaddr'' = None" for dev :: device
    using that by (auto simp: AList.delete_eq filter_id_conv map_of_eq_None_iff image_iff)
  then show "in_Devices (fst (clearMACs inst)) = in_Devices inst" "in_Config (fst (clearMACs inst)) = in_Config inst"
    using assms
    by (auto simp: clearMACs_def Let_def list_ex_iff filter_id_conv split: option.splits intro!: map_idI)
qed

lemma enforceNetwork_isolated:
  assumes "isolated [] inst" and "enforceNetwork network inst = Some (inst', b)"
  shows "isolated network inst'" and "\<not> b \<Longrightarrow> isolated network inst"
proof -
  have "isolated network inst' \<and> (\<not> b \<longrightarrow> isolated network inst)"
  proof (cases "network = []")
    case True
    with assms show ?thesis by (simp add: enforceNetwork_def)
  next
    case False
    with assms(2) obtain devs where devs: "in_Devices inst = Some devs"
      by (cases "in_Devices inst") (auto simp: enforceNetwork_def)
    define eth0 where "eth0 = (case map_of devs ''eth0'' of Some dev \<Rightarrow> dev | None \<Rightarrow> defaultNIC)"
    define nic where "nic = (if map_of eth0 ''parent'' \<noteq> Some network
      then AList.update ''nictype'' ''bridged'' (AList.update ''parent'' network eth0) else eth0)"
    have inst': "inst' = inst\<lparr>in_Devices := Some (AList.update ''eth0'' nic devs)\<rparr>"
      using assms(2) devs False
      by (auto simp: enforceNetwork_def eth0_def nic_def split: option.splits if_splits)
    have clean: "list_all (\<lambda>(n, dev). map_of dev ''hwaddr'' = None) devs"
      and volatile: "list_all (\<lambda>(key, v). \<not> volatileMAC key) (in_Config inst)"
      using assms(1) devs by (simp_all add: isolated_def)
    have "map_of eth0 ''hwaddr'' = None"
      using clean by (auto simp: eth0_def defaultNIC_def list_all_iff split: option.splits dest: map_of_SomeD)
    then have nic: "map_of nic ''hwaddr'' = None" "map_of nic ''parent'' = Some network"
      by (simp_all add: nic_def)
    have "list_all (\<lambda>(n, dev). map_of dev ''hwaddr'' = None) (AList.update ''eth0'' nic devs)"
      using clean nic(1) set_update [of "''eth0''" nic devs] by (fastforce simp: list_all_iff)
    then have "isolated network inst'"
      using volatile nic(2) by (simp add: isolated_def inst')
    moreover have "isolated network inst" if "\<not> b"
    proof -
      have "map_of devs ''eth0'' = Some eth0 \<and> map_of eth0 ''parent'' = Some network"
        using assms(2) devs False that
        by (auto simp: enforceNetwork_def eth0_def split: option.splits if_splits)
      then show ?thesis using volatile clean devs by (simp add: isolated_def)
    qed
    ultimately show ?thesis by blast
  qed
  then show "isolated network inst'" "\<not> b \<Longrightarrow> isolated network inst" by blast+
qed

lemma isolated_devices:
  "in_Devices inst = in_Devices inst' \<Longrightarrow> in_Config inst = in_Config inst' \<Longrightarrow> isolated network inst = isolated network inst'"
  by (simp add: isolated_def)

text \<open>What the two corrections make of an instance.\<close>

lemma corrected_isolated:
  assumes "clearMACs inst = (inst1, cleared)" and "enforceNetwork network inst1 = Some (inst2, enforced)"
  shows "isolated network inst2" and "\<not> cleared \<Longrightarrow> \<not> enforced \<Longrightarrow> isolated network inst"
proof -
  have one: "isolated [] inst1" using clearMACs_isolated [of inst] assms(1) by simp
  show "isolated network inst2" by (rule enforceNetwork_isolated(1) [OF one assms(2)])
  assume "\<not> cleared" "\<not> enforced"
  then have "isolated network inst1" "in_Devices inst1 = in_Devices inst" "in_Config inst1 = in_Config inst"
    using enforceNetwork_isolated(2) [OF one assms(2)] clearMACs_eth0 [of inst] assms(1) by simp_all
  then show "isolated network inst" using isolated_devices by blast
qed

text \<open>After a successful clone the server has the new container without MAC addresses of the template,
  neither in its volatile configuration nor at a device, and with a network configured its first
  interface is on that network, whatever the template said, also when no update was needed.\<close>

theorem clone_on_managed_network:
  assumes "updateReplaces srv" and "CloneFromTemplate srv r name s = Some (None, s')"
  shows "\<exists>inst etag. sv_GetInstance srv name s' = Inr (inst, etag) \<and> isolated (rt_network r) inst"
proof -
  from assms(2) obtain s1 inst etag inst1 cleared inst2 enforced where
    got: "sv_GetInstance srv name s1 = Inr (inst, etag)" and clear: "clearMACs inst = (inst1, cleared)"
    and enforce: "enforceNetwork (rt_network r) inst1 = Some (inst2, enforced)"
    and finish: "if cleared \<or> enforced then sv_UpdateInstance srv name inst2 etag s1 = (OpDone, s') else s' = s1"
    by (auto simp: CloneFromTemplate_def split: sum.splits prod.splits operation.splits option.splits if_splits)
  note corrected = corrected_isolated [OF clear enforce]
  show ?thesis
  proof (cases "cleared \<or> enforced")
    case True
    with finish assms(1) obtain now tag where "sv_GetInstance srv name s' = Inr (now, tag)"
      "in_Config now = in_Config inst2" "in_Devices now = in_Devices inst2"
      unfolding updateReplaces_def by meson
    with corrected(1) isolated_devices show ?thesis by blast
  next
    case False
    with finish got corrected(2) show ?thesis by auto
  qed
qed

text \<open>A server in memory on which the hypothesis holds: a copy is the source under another name, and
  every execution ends with a given exit value.\<close>

definition memUpdate :: "string \<Rightarrow> lxdInstance \<Rightarrow> (string \<times> lxdInstance) list \<Rightarrow> operation \<times> (string \<times> lxdInstance) list" where
  "memUpdate name inst s =
     (case map_of s name of None \<Rightarrow> (Refused ''not found'', s)
      | Some old \<Rightarrow> (OpDone, AList.update name (old\<lparr>in_Config := in_Config inst, in_Devices := in_Devices inst\<rparr>) s))"

definition memServer :: "exitValue option \<Rightarrow> (string \<times> lxdInstance) list lxdServer" where
  "memServer exit = \<lparr>
     sv_GetInstance = (\<lambda>name s. case map_of s name of None \<Rightarrow> Inl ''not found'' | Some inst \<Rightarrow> Inr (inst, ''etag'')),
     sv_CopyInstance = (\<lambda>src name s. (OpDone, AList.update name (src\<lparr>in_Name := name\<rparr>) s)),
     sv_UpdateInstance = (\<lambda>name inst etag s. memUpdate name inst s),
     sv_UpdateInstanceState = (\<lambda>name action force s. (OpDone, s)),
     sv_DeleteInstance = (\<lambda>name s. (OpDone, AList.delete name s)),
     sv_ExecInstance = (\<lambda>name cmd s. (ExecDone [] [] exit, s)),
     sv_GetInstances = (\<lambda>s. Inr (map snd s)),
     sv_GetInstanceState = (\<lambda>name s. case map_of s name of None \<Rightarrow> Inl ''not found'' | Some inst \<Rightarrow> Inr (in_Status inst)),
     sv_GetStoragePoolResources = (\<lambda>pool s. Inl ''not found'')\<rparr>"

lemma memServer_updateReplaces: "updateReplaces (memServer exit)"
  by (auto simp: updateReplaces_def memServer_def memUpdate_def split: option.splits)

definition sampleRuntime :: lxdRuntime where
  "sampleRuntime = \<lparr>rt_template = ''tmpl'', rt_remote = [], rt_network = ''runnerbr0''\<rparr>"

definition sampleInstances :: "(string \<times> lxdInstance) list" where
  "sampleInstances = [(''tmpl'', \<lparr>in_Name = ''tmpl'', in_Status = ''Stopped'',
     in_Config = [(''volatile.eth0.hwaddr'', ''00:16:3e:00:00:01''), (''limits.cpu'', ''4'')],
     in_Devices = Some [(''eth0'', [(''type'', ''nic''), (''hwaddr'', ''00:16:3e:00:00:01''), (''parent'', ''lxdbr0'')])]\<rparr>)]"

theorem clone_on_managed_network_witness:
  "\<exists>inst etag. sv_GetInstance (memServer None) ''ci-1''
       (snd (the (CloneFromTemplate (memServer None) sampleRuntime ''ci-1'' sampleInstances))) = Inr (inst, etag)
     \<and> isolated (rt_network sampleRuntime) inst"
proof (rule clone_on_managed_network [OF memServer_updateReplaces])
  have "fst (the (CloneFromTemplate (memServer None) sampleRuntime ''ci-1'' sampleInstances)) = None"
    and "CloneFromTemplate (memServer None) sampleRuntime ''ci-1'' sampleInstances \<noteq> None"
    by code_simp+
  then show "CloneFromTemplate (memServer None) sampleRuntime ''ci-1'' sampleInstances
      = Some (None, snd (the (CloneFromTemplate (memServer None) sampleRuntime ''ci-1'' sampleInstances)))"
    by (metis option.exhaust_sel prod.collapse)
qed

text \<open>A clone of a template without a device map panics when a network is configured.\<close>

theorem clone_panics_without_devices:
  "CloneFromTemplate (memServer None) sampleRuntime ''ci-1''
     [(''tmpl'', \<lparr>in_Name = ''tmpl'', in_Status = ''Stopped'', in_Config = [], in_Devices = None\<rparr>)] = None"
  by code_simp

section \<open>Waiting\<close>

definition checkOk :: "'s lxdServer \<Rightarrow> string \<Rightarrow> string list \<Rightarrow> 's \<Rightarrow> bool" where
  "checkOk srv name chk s \<longleftrightarrow> snd (fst (lxdExecCommand srv name chk s)) = None"

definition afterCheck :: "'s lxdServer \<Rightarrow> string \<Rightarrow> string list \<Rightarrow> 's \<Rightarrow> 's" where
  "afterCheck srv name chk s = snd (lxdExecCommand srv name chk s)"

text \<open>The number of checks the loop makes.\<close>

fun waitChecks ::
    "'s lxdServer \<Rightarrow> string \<Rightarrow> string list \<Rightarrow> duration \<Rightarrow> waitContext \<Rightarrow> waitRound list \<Rightarrow> duration \<Rightarrow> duration \<Rightarrow> 's \<Rightarrow> nat" where
  "waitChecks srv name chk timeout ctx [] now tickAt s = 0"
| "waitChecks srv name chk timeout ctx ((choice, took) # rounds) now tickAt s =
     (let t = selectTime timeout ctx tickAt now in
      if chosenCase choice (readyCases timeout ctx tickAt t) = Tick
      then Suc (if checkOk srv name chk s then 0
                else waitChecks srv name chk timeout ctx rounds (t + took) (nextTick t) (afterCheck srv name chk s))
      else 0)"

lemma chosen_ready:
  assumes "chosenCase choice (readyCases timeout ctx tickAt (selectTime timeout ctx tickAt now)) = c"
  shows "case c of
      CtxDone err \<Rightarrow> \<exists>due. ctx = Some (due, err) \<and> due \<le> selectTime timeout ctx tickAt now
    | Deadline \<Rightarrow> timeout \<le> selectTime timeout ctx tickAt now
    | Tick \<Rightarrow> tickAt \<le> selectTime timeout ctx tickAt now"
proof -
  let ?t = "selectTime timeout ctx tickAt now" and ?cs = "readyCases timeout ctx tickAt (selectTime timeout ctx tickAt now)"
  have "?cs \<noteq> []" by (auto simp: readyCases_def selectTime_def min_def max_def split: option.splits)
  then have "c \<in> set ?cs" using assms nth_mem [of "choice mod length ?cs" ?cs] by (simp add: chosenCase_def)
  then show ?thesis by (auto simp: readyCases_def split: option.splits if_splits)
qed

text \<open>What the loop reports, and when.\<close>

lemma waitLoop_result:
  "waitLoop srv name chk timeout ctx rounds now tickAt s = Some (err, t, s') \<Longrightarrow>
   s' = (afterCheck srv name chk ^^ waitChecks srv name chk timeout ctx rounds now tickAt s) s \<and>
   (err = None \<longleftrightarrow> (\<exists>k < waitChecks srv name chk timeout ctx rounds now tickAt s.
      checkOk srv name chk ((afterCheck srv name chk ^^ k) s))) \<and>
   (case err of None \<Rightarrow> True
    | Some e \<Rightarrow> (e = name @ '' did not become ready within '' @ durationString timeout \<and> timeout \<le> t)
        \<or> (\<exists>due. ctx = Some (due, e) \<and> due \<le> t))"
proof (induction srv name chk timeout ctx rounds now tickAt s rule: waitLoop.induct)
  case (2 srv name chk timeout ctx choice took rounds now tickAt s)
  let ?t = "selectTime timeout ctx tickAt now" and ?A = "afterCheck srv name chk"
  obtain c where c: "chosenCase choice (readyCases timeout ctx tickAt ?t) = c" by blast
  note ready = chosen_ready [OF c]
  show ?case
  proof (cases c)
    case (CtxDone e)
    have "waitChecks srv name chk timeout ctx ((choice, took) # rounds) now tickAt s = 0"
      by (simp add: c Let_def CtxDone)
    moreover have "err = Some e" "t = ?t" "s' = s" using 2(2) CtxDone by (simp_all add: c Let_def)
    ultimately show ?thesis using ready CtxDone by simp
  next
    case Deadline
    have "waitChecks srv name chk timeout ctx ((choice, took) # rounds) now tickAt s = 0"
      by (simp add: c Let_def Deadline)
    moreover have "err = Some (name @ '' did not become ready within '' @ durationString timeout)" "t = ?t" "s' = s"
      using 2(2) Deadline by (simp_all add: c Let_def)
    ultimately show ?thesis using ready Deadline by simp
  next
    case Tick
    obtain out e s1 where run: "lxdExecCommand srv name chk s = ((out, e), s1)" by (metis prod.collapse)
    then have one: "checkOk srv name chk s \<longleftrightarrow> e = None" "?A s = s1"
      by (simp_all add: checkOk_def afterCheck_def)
    show ?thesis
    proof (cases "e = None")
      case True
      then show ?thesis using 2(2) Tick run one by (auto simp: c Let_def)
    next
      case False
      let ?n = "waitChecks srv name chk timeout ctx rounds (?t + took) (nextTick ?t) s1"
      have loop: "waitLoop srv name chk timeout ctx rounds (?t + took) (nextTick ?t) s1 = Some (err, t, s')"
        using 2(2) Tick run False by (auto simp: c Let_def)
      have checks: "waitChecks srv name chk timeout ctx ((choice, took) # rounds) now tickAt s = Suc ?n"
        using Tick one False by (simp add: c Let_def)
      have funpow: "(?A ^^ Suc k) s = (?A ^^ k) s1" for k by (simp add: funpow_swap1 one(2))
      have split: "(\<exists>k<Suc n. P k) \<longleftrightarrow> P 0 \<or> (\<exists>k<n. P (Suc k))" for P n
        using less_Suc_eq_0_disj by auto
      note IH = 2(1) [OF refl c [unfolded Tick] run [symmetric] refl False loop]
      have "(\<exists>k<Suc ?n. checkOk srv name chk ((?A ^^ k) s)) \<longleftrightarrow> (\<exists>k<?n. checkOk srv name chk ((?A ^^ k) s1))"
        using False one(1) by (simp only: split funpow) simp
      then show ?thesis unfolding checks funpow using IH by blast
    qed
  qed
qed simp

text \<open>Once the timer has fired the loop ends with the first round that does not take a tick.\<close>

lemma waitLoop_late:
  "timeout \<le> now \<Longrightarrow> fst (R (i + j)) = 0 \<Longrightarrow> \<forall>i. 0 \<le> snd (R i) \<and> snd (R i) \<le> D \<Longrightarrow>
   \<exists>n err t s'. waitLoop srv name chk timeout ctx (map R [i..<i + n]) now tickAt s = Some (err, t, s') \<and> t \<le> now + int j * D"
proof (induction j arbitrary: i now tickAt s)
  case 0
  have t: "selectTime timeout ctx tickAt now = now" using 0(1) by (auto simp: selectTime_def split: option.split)
  obtain took where R: "R i = (0, took)" using 0(2) by (cases "R i") auto
  obtain c cs where cs: "readyCases timeout ctx tickAt now = c # cs" "c \<noteq> Tick"
  proof (cases "\<exists>due err. ctx = Some (due, err) \<and> due \<le> now")
    case True
    then show thesis using that by (auto simp: readyCases_def)
  next
    case False
    then show thesis using that 0(1) by (cases ctx) (auto simp: readyCases_def)
  qed
  have "\<exists>err. waitLoop srv name chk timeout ctx (map R [i..<i + 1]) now tickAt s = Some (err, now, s)"
    using cs R t by (cases c) (simp_all add: chosenCase_def)
  then show ?case by (metis add.right_neutral mult_zero_left of_nat_0 order_refl)
next
  case (Suc j)
  let ?P = "\<lambda>n err t s'. waitLoop srv name chk timeout ctx (map R [i..<i + n]) now tickAt s = Some (err, t, s')
    \<and> t \<le> now + int (Suc j) * D"
  have D: "0 \<le> D" using Suc.prems(3) by (meson order_trans)
  then have le: "now \<le> now + int (Suc j) * D" by simp
  have t: "selectTime timeout ctx tickAt now = now" using Suc.prems(1) by (auto simp: selectTime_def split: option.split)
  obtain choice took where R: "R i = (choice, took)" by force
  then have took: "0 \<le> took" "took \<le> D" using Suc.prems(3) [rule_format, of i] by auto
  have jD: "int (Suc j) * D = D + int j * D" by (simp add: distrib_right)
  have more: "0 \<le> int j * D" using D by simp
  have one: "map R [i..<i + Suc n] = (choice, took) # map R [Suc i..<Suc i + n]" for n
    by (subst upt_conv_Cons) (simp_all add: R)
  obtain c where c: "chosenCase choice (readyCases timeout ctx tickAt now) = c" by blast
  have stop: "\<exists>n err t s'. ?P n err t s'" if tick: "c \<noteq> Tick"
  proof -
    obtain err where "waitLoop srv name chk timeout ctx (map R [i..<i + Suc 0]) now tickAt s = Some (err, now, s)"
      unfolding one using tick by (cases c) (auto simp: t c Let_def)
    then show ?thesis using le by blast
  qed
  show ?case
  proof (cases "c = Tick")
    case True
    obtain out e s1 where run: "lxdExecCommand srv name chk s = ((out, e), s1)" by (metis prod.collapse)
    show ?thesis
    proof (cases "e = None")
      case ok: True
      have "waitLoop srv name chk timeout ctx (map R [i..<i + Suc 0]) now tickAt s = Some (None, now + took, s1)"
        unfolding one using True ok run by (simp add: t c Let_def)
      moreover have "now + took \<le> now + int (Suc j) * D" using took more unfolding jD by linarith
      ultimately show ?thesis by blast
    next
      case False
      have late: "timeout \<le> now + took" "fst (R (Suc i + j)) = 0" using Suc.prems(1,2) took by simp_all
      obtain n err t' s' where
        w: "waitLoop srv name chk timeout ctx (map R [Suc i..<Suc i + n]) (now + took) (nextTick now) s1 = Some (err, t', s')"
          "t' \<le> now + took + int j * D"
        using Suc.IH [OF late Suc.prems(3)] by blast
      have "waitLoop srv name chk timeout ctx (map R [i..<i + Suc n]) now tickAt s = Some (err, t', s')"
        unfolding one using True False run w(1) by (simp add: t c Let_def del: upt_Suc not_None_eq)
      moreover have "t' \<le> now + int (Suc j) * D" using w(2) took unfolding jD by linarith
      ultimately show ?thesis by blast
    qed
  qed (rule stop)
qed

lemma selectTime_idem:
  "selectTime timeout ctx tickAt (selectTime timeout ctx tickAt now) = selectTime timeout ctx tickAt now"
  by (auto simp: selectTime_def split: option.split)

lemma waitLoop_select:
  "waitLoop srv name chk timeout ctx rounds now tickAt s =
   waitLoop srv name chk timeout ctx rounds (selectTime timeout ctx tickAt now) tickAt s"
proof (cases rounds)
  case (Cons r rs)
  then show ?thesis by (cases r) (simp add: selectTime_idem)
qed simp

text \<open>Before that every round with a tick moves the ticker on by at least a second.\<close>

lemma waitLoop_ends:
  assumes R: "\<forall>i. 0 \<le> snd (R i) \<and> snd (R i) \<le> D" "\<forall>i. \<exists>j \<le> m. fst (R (i + j)) = 0"
  shows "0 \<le> now \<Longrightarrow> now \<le> max 0 timeout + D \<Longrightarrow> tickAt = q * second \<Longrightarrow>
    \<exists>n err t s'. waitLoop srv name chk timeout ctx (map R [i..<i + n]) now tickAt s = Some (err, t, s') \<and>
      t \<le> max 0 timeout + (int m + 1) * D"
proof (induction "nat (max 0 timeout div second + 1 - q)" arbitrary: q i now tickAt s rule: less_induct)
  case less
  let ?T = "max 0 timeout" and ?t = "selectTime timeout ctx tickAt now"
  have D: "0 \<le> D" using R(1) by (meson order_trans)
  have mD: "(int m + 1) * D = D + int m * D" "0 \<le> int m * D" using D by (simp_all add: distrib_right)
  have sec: "0 < second" by (simp add: second_def)
  have t0: "now \<le> ?t" "0 \<le> ?t" using less.prems(1) by (auto simp: selectTime_def)
  have tD: "?t \<le> ?T + D"
  proof -
    have "(case ctx of None \<Rightarrow> min timeout tickAt | Some (due, err) \<Rightarrow> min due (min timeout tickAt)) \<le> timeout"
      by (auto split: option.split)
    then show ?thesis using less.prems(2) D unfolding selectTime_def by linarith
  qed
  show ?case
  proof (cases "timeout \<le> ?t")
    case True
    obtain j where j: "j \<le> m" "fst (R (i + j)) = 0" using R(2) by blast
    obtain n err t s' where w: "waitLoop srv name chk timeout ctx (map R [i..<i + n]) ?t tickAt s = Some (err, t, s')"
        "t \<le> ?t + int j * D"
      using waitLoop_late [OF True j(2) R(1), of srv name chk ctx tickAt s] by blast
    have "int j * D \<le> int m * D" using j(1) D by (intro mult_right_mono) simp_all
    then have "t \<le> ?T + (int m + 1) * D" using w(2) tD unfolding mD(1) by linarith
    moreover have "waitLoop srv name chk timeout ctx (map R [i..<i + n]) now tickAt s = Some (err, t, s')"
      using w(1) waitLoop_select by metis
    ultimately show ?thesis by blast
  next
    case False
    then have tT: "?t < ?T" using t0 by linarith
    obtain choice took where Ri: "R i = (choice, took)" by force
    then have took: "0 \<le> took" "took \<le> D" using R(1) [rule_format, of i] by auto
    have one: "map R [i..<i + Suc n] = (choice, took) # map R [Suc i..<Suc i + n]" for n
      by (subst upt_conv_Cons) (simp_all add: Ri)
    obtain c where c: "chosenCase choice (readyCases timeout ctx tickAt ?t) = c" by blast
    have inT: "?t \<le> ?T + (int m + 1) * D" "?t + took \<le> ?T + (int m + 1) * D"
      using tT took mD D by linarith+
    show ?thesis
    proof (cases "c = Tick")
      case stop: False
      obtain err where "waitLoop srv name chk timeout ctx (map R [i..<i + Suc 0]) now tickAt s = Some (err, ?t, s)"
        unfolding one using stop by (cases c) (auto simp: c Let_def)
      then show ?thesis using inT(1) by blast
    next
      case True
      have tick: "q * second \<le> ?t" using chosen_ready [OF c] True less.prems(3) by simp
      obtain out e s1 where run: "lxdExecCommand srv name chk s = ((out, e), s1)" by (metis prod.collapse)
      show ?thesis
      proof (cases "e = None")
        case ok: True
        have "waitLoop srv name chk timeout ctx (map R [i..<i + Suc 0]) now tickAt s = Some (None, ?t + took, s1)"
          unfolding one using True ok run by (simp add: c Let_def)
        then show ?thesis using inT(2) by blast
      next
        case err: False
        let ?q = "?t div second + 1"
        have "q \<le> ?t div second" using tick sec by (metis div_le_mono nonzero_mult_div_cancel_right order_less_le zdiv_mono1)
        moreover have "?t div second \<le> ?T div second" using tT sec by (intro zdiv_mono1) linarith+
        ultimately have smaller: "nat (?T div second + 1 - ?q) < nat (?T div second + 1 - q)" by linarith
        have later: "0 \<le> ?t + took" "?t + took \<le> ?T + D" using t0 took tT by linarith+
        obtain n err t s' where
          w: "waitLoop srv name chk timeout ctx (map R [Suc i..<Suc i + n]) (?t + took) (nextTick ?t) s1 = Some (err, t, s')"
            "t \<le> ?T + (int m + 1) * D"
          using less.hyps [OF smaller later] by (metis nextTick_def)
        have "waitLoop srv name chk timeout ctx (map R [i..<i + Suc n]) now tickAt s = Some (err, t, s')"
          unfolding one using True err run w(1) by (simp add: c Let_def del: upt_Suc not_None_eq)
        then show ?thesis using w(2) by blast
      qed
    qed
  qed
qed

text \<open>C35. The waiting loop ends, whatever the checks do: when no check takes longer than \<open>D\<close> and \<open>select\<close>
  prefers a tick to the timer and the context at most \<open>m\<close> times in a row, it ends at most \<open>m + 1\<close>
  times \<open>D\<close> after its timeout.  It reports readiness exactly if one of the checks it made succeeded,
  and an error only after the timeout or when the context is done.\<close>

theorem wait_for_ready_ends:
  assumes "\<forall>i. 0 \<le> snd (R i) \<and> snd (R i) \<le> D" and "\<forall>i. \<exists>j \<le> m. fst (R (i + j)) = 0"
  shows "\<exists>n err t s'. lxdWaitForReady srv name chk timeout ctx (map R [0..<n]) s = Some (err, t, s') \<and>
    t \<le> max 0 timeout + (int m + 1) * D \<and>
    (err = None \<longleftrightarrow> (\<exists>k < waitChecks srv name chk timeout ctx (map R [0..<n]) 0 second s.
       checkOk srv name chk ((afterCheck srv name chk ^^ k) s))) \<and>
    s' = (afterCheck srv name chk ^^ waitChecks srv name chk timeout ctx (map R [0..<n]) 0 second s) s \<and>
    (case err of None \<Rightarrow> True
     | Some e \<Rightarrow> (e = name @ '' did not become ready within '' @ durationString timeout \<and> timeout \<le> t)
         \<or> (\<exists>due. ctx = Some (due, e) \<and> due \<le> t))"
proof -
  have "0 \<le> D" using assms(1) by (meson order_trans)
  then have start: "(0::int) \<le> 0" "0 \<le> max 0 timeout + D" "second = 1 * second" by simp_all
  obtain n err t s' where w: "waitLoop srv name chk timeout ctx (map R [0..<0 + n]) 0 second s = Some (err, t, s')"
      "t \<le> max 0 timeout + (int m + 1) * D"
    using waitLoop_ends [OF assms start, of srv name chk ctx 0 s] by blast
  then show ?thesis using waitLoop_result [OF w(1)] unfolding lxdWaitForReady_def by auto
qed

theorem wait_for_ready_ends_witness:
  "\<exists>n err t s'. lxdWaitForReady (memServer (Some (ExitFloat 1))) ''ci-1'' [''true''] (120 * second) None
       (map (\<lambda>i. (i mod 2, 5 * second)) [0..<n]) [] = Some (err, t, s') \<and> t \<le> 130 * second"
proof -
  let ?R = "\<lambda>i :: nat. (i mod 2, 5 * second)"
  have took: "\<forall>i. 0 \<le> snd (?R i) \<and> snd (?R i) \<le> 5 * second" by (simp add: second_def)
  have "\<exists>j \<le> 1. fst (?R (i + j)) = 0" for i
  proof (cases "i mod 2 = 0")
    case False
    then have "(i + 1) mod 2 = 0" by presburger
    then show ?thesis by (intro exI [of _ 1]) simp
  qed (intro exI [of _ 0], simp)
  then have fair: "\<forall>i. \<exists>j \<le> 1. fst (?R (i + j)) = 0" by blast
  have bound: "max 0 (120 * second) + (int 1 + 1) * (5 * second) = 130 * second" by (simp add: second_def)
  show ?thesis
    using wait_for_ready_ends [OF took fair, of "memServer (Some (ExitFloat 1))" "''ci-1''" "[''true'']" "120 * second" None "[]"]
    unfolding bound by blast
qed

section \<open>Named remotes\<close>

text \<open>The configuration file as the LXD client writes it.\<close>

definition fieldLine :: "string \<times> string \<Rightarrow> string" where
  "fieldLine kv = (case kv of (k, v) \<Rightarrow> ''    '' @ k @ '': '' @ v)"

definition remoteLines :: "string \<times> (string \<times> string) list \<Rightarrow> string list" where
  "remoteLines remote = (case remote of (name, attrs) \<Rightarrow>
     (''  '' @ name @ '':'') # map fieldLine attrs)"

definition lxcConfigLines :: "string \<Rightarrow> (string \<times> (string \<times> string) list) list \<Rightarrow> string list" where
  "lxcConfigLines def remotes =
     [''default-remote: '' @ def, ''remotes:''] @ concat (map remoteLines remotes) @ [''aliases: {}'']"

definition lxcConfig :: "string \<Rightarrow> (string \<times> (string \<times> string) list) list \<Rightarrow> string" where
  "lxcConfig def remotes = concat (map (\<lambda>l. l @ [CHR 0x0A]) (lxcConfigLines def remotes))"

text \<open>Names and keys are plain words, no remote is called \<open>addr\<close>, values are trimmed and on one line.\<close>

definition plainWord :: "string \<Rightarrow> bool" where
  "plainWord w \<longleftrightarrow> w \<noteq> [] \<and> list_all (\<lambda>c. \<not> is_space c \<and> c \<noteq> CHR '':'') w"

definition plainRemotes :: "(string \<times> (string \<times> string) list) list \<Rightarrow> bool" where
  "plainRemotes remotes \<longleftrightarrow> list_all (\<lambda>(name, attrs). plainWord name \<and> name \<noteq> ''addr'' \<and>
     list_all (\<lambda>(k, v). plainWord k \<and> trim_space v = v \<and> CHR 0x0A \<notin> set v) attrs) remotes"

definition expectedAddr :: "(string \<times> (string \<times> string) list) list \<Rightarrow> string \<Rightarrow> remoteAddr" where
  "expectedAddr remotes name =
     (case map_of remotes name of
        None \<Rightarrow> NotFound
      | Some attrs \<Rightarrow> (case map_of attrs ''addr'' of
          None \<Rightarrow> NotFound
        | Some addr \<Rightarrow> if addr = [] \<or> addr = ''unix://'' then NoAddress else Address addr))"

lemma trimRight_prefix: "prefix (trimRight l) l"
proof -
  obtain zs where "rev l = zs @ dropWhile (\<lambda>c. c = CHR '' '' \<or> c = CHR 0x09) (rev l)"
    by (metis takeWhile_dropWhile_id)
  then have "l = trimRight l @ rev zs" unfolding trimRight_def by (metis rev_append rev_rev_ident)
  then show ?thesis by (metis prefixI)
qed

lemma plainWord_head: "plainWord w \<Longrightarrow> \<exists>c u. w = c # u \<and> c \<noteq> CHR '' '' \<and> c \<noteq> CHR 0x09 \<and> \<not> is_space c"
  by (cases w) (auto simp: plainWord_def is_space_def Let_def)

lemma plainWord_line: "plainWord w \<Longrightarrow> CHR 0x0A \<notin> set w"
proof -
  assume "plainWord w"
  then have "\<forall>c\<in>set w. \<not> is_space c" by (simp add: plainWord_def list_all_iff)
  moreover have "is_space CHR 0x0A" by (simp add: is_space_def)
  ultimately show ?thesis by blast
qed

lemma remoteLines_pair [simp]: "remoteLines (x, attrs) = (''  '' @ x @ '':'') # map fieldLine attrs"
  by (simp add: remoteLines_def)

lemma not_header:
  assumes "plainWord name" and "\<not> has_prefix l ''  '' \<or> (\<exists>s. l = ''   '' @ s)"
  shows "trimRight l \<noteq> ''  '' @ name @ '':''"
proof
  assume "trimRight l = ''  '' @ name @ '':''"
  then have "prefix (''  '' @ name @ '':'') l" using trimRight_prefix [of l] by simp
  then obtain u where "l = ''  '' @ name @ '':'' @ u" by (auto simp: prefix_def)
  with assms(2) plainWord_head [OF assms(1)] show False by (auto simp: has_prefix_def)
qed

lemma trimRight_header: "trimRight (''  '' @ x @ '':'') = ''  '' @ x @ '':''"
  by (simp add: trimRight_def)

lemma trim_header: "plainWord x \<Longrightarrow> trim_space (''  '' @ x @ '':'') = x @ '':''"
  using plainWord_head [of x] by (auto simp: trim_space_def is_space_def Let_def)

lemma colon_split:
  assumes "CHR '':'' \<notin> set k"
  shows "has_prefix (k @ CHR '':'' # u) ''addr:'' \<longleftrightarrow> k = ''addr''"
proof
  assume "has_prefix (k @ CHR '':'' # u) ''addr:''"
  then obtain z where "k @ CHR '':'' # u = ''addr'' @ CHR '':'' # z"
    by (auto simp: has_prefix_iff_prefix prefix_def)
  then show "k = ''addr''" using assms by (intro append_char_inj [of "CHR '':''" k "''addr''" u z]) auto
qed (simp add: has_prefix_def)

lemma trim_field:
  assumes "plainWord k" and "trim_space v = v"
  shows "trim_space (fieldLine (k, v)) = k @ CHR '':'' # (if v = [] then [] else CHR '' '' # v)"
proof -
  obtain c u where k: "k = c # u" "\<not> is_space c" using plainWord_head [OF assms(1)] by blast
  have blank: "is_space CHR '' ''" "\<not> is_space CHR '':''" by (simp_all add: is_space_def)
  have "dropWhile is_space (fieldLine (k, v)) = k @ '': '' @ v"
    using k blank by (simp add: fieldLine_def)
  moreover have "rev (dropWhile is_space (rev (k @ '': '' @ v))) = k @ CHR '':'' # (if v = [] then [] else CHR '' '' # v)"
  proof (cases "v = []")
    case False
    then have "\<not> is_space (last v)" using trim_space_ends [of v] assms(2) by simp
    with False obtain w d where "v = w @ [d]" "\<not> is_space d" by (cases v rule: rev_cases) auto
    then show ?thesis by simp
  qed (simp add: blank)
  ultimately show ?thesis by (simp add: trim_space_def)
qed

lemma scan_skip:
  assumes "plainWord name"
  shows "scanRemote (''  '' @ name @ '':'') False (map fieldLine attrs @ rest) = scanRemote (''  '' @ name @ '':'') False rest"
proof (induction attrs)
  case (Cons kv attrs)
  have "trimRight (fieldLine kv) \<noteq> ''  '' @ name @ '':''"
    by (rule not_header [OF assms]) (simp add: fieldLine_def split: prod.split)
  then show ?case using Cons by simp
qed simp

lemma scan_fields:
  assumes "plainWord name" and "list_all (\<lambda>(k, v). plainWord k \<and> trim_space v = v \<and> CHR 0x0A \<notin> set v) attrs"
  shows "scanRemote (''  '' @ name @ '':'') True (map fieldLine attrs @ rest) =
    (case map_of attrs ''addr'' of None \<Rightarrow> scanRemote (''  '' @ name @ '':'') True rest
       | Some addr \<Rightarrow> if addr = [] \<or> addr = ''unix://'' then NoAddress else Address addr)"
  using assms(2)
proof (induction attrs)
  case (Cons kv attrs)
  obtain k v where kv: "kv = (k, v)" by fastforce
  with Cons.prems have k: "plainWord k" "trim_space v = v" by simp_all
  then have colon: "CHR '':'' \<notin> set k" by (auto simp: plainWord_def list_all_iff)
  have line: "trimRight (fieldLine kv) \<noteq> ''  '' @ name @ '':''"
    by (rule not_header [OF assms(1)]) (simp add: fieldLine_def split: prod.split)
  have indent: "has_prefix (fieldLine kv) ''    ''" by (simp add: fieldLine_def kv has_prefix_def)
  have trimmed: "trim_space (fieldLine kv) = k @ CHR '':'' # (if v = [] then [] else CHR '' '' # v)"
    using trim_field [OF k] kv by simp
  show ?case
  proof (cases "k = ''addr''")
    case True
    have "trim_space (trim_prefix (trim_space (fieldLine kv)) ''addr:'') = v"
      using trimmed True k(2) by (cases "v = []") (simp_all add: trim_prefix_def has_prefix_def trim_space_def is_space_def Let_def)
    moreover have "has_prefix (trim_space (fieldLine kv)) ''addr:''"
      by (simp add: trimmed True has_prefix_def)
    ultimately show ?thesis using line kv True by (simp add: Let_def)
  next
    case False
    have "\<not> has_prefix (trim_space (fieldLine kv)) ''addr:''" by (simp add: trimmed colon_split [OF colon] False)
    then show ?thesis using line indent Cons kv False by (simp add: Let_def)
  qed
qed simp

lemma scan_remotes:
  assumes "plainWord name" and "plainRemotes remotes" and "goMap remotes"
  shows "scanRemote (''  '' @ name @ '':'') False (concat (map remoteLines remotes) @ [''aliases: {}'', []])
    = expectedAddr remotes name"
  using assms(2,3)
proof (induction remotes)
  case Nil
  have "trimRight ''aliases: {}'' \<noteq> ''  '' @ name @ '':''" "trimRight [] \<noteq> ''  '' @ name @ '':''"
    by (rule not_header [OF assms(1)], simp add: has_prefix_def)+
  then show ?case by (simp add: expectedAddr_def)
next
  case (Cons remote remotes)
  obtain x attrs where remote: "remote = (x, attrs)" by fastforce
  with Cons.prems have x: "plainWord x" "x \<noteq> ''addr''" "list_all (\<lambda>(k, v). plainWord k \<and> trim_space v = v \<and> CHR 0x0A \<notin> set v) attrs"
    and fresh: "x \<notin> fst ` set remotes" and rest: "plainRemotes remotes" "goMap remotes"
    by (simp_all add: plainRemotes_def)
  note IH = Cons.IH [OF rest]
  have header: "trimRight (''  '' @ x @ '':'') = ''  '' @ name @ '':'' \<longleftrightarrow> x = name"
    unfolding trimRight_header by simp
  show ?case
  proof (cases "x = name")
    case False
    have "scanRemote (''  '' @ name @ '':'') False (concat (map remoteLines (remote # remotes)) @ [''aliases: {}'', []])
      = expectedAddr remotes name"
      using header False scan_skip [OF assms(1)] IH by (simp add: remote)
    then show ?thesis using False by (simp add: expectedAddr_def remote)
  next
    case True
    have after: "scanRemote (''  '' @ name @ '':'') True (concat (map remoteLines remotes) @ [''aliases: {}'', []]) = NotFound"
    proof (cases remotes)
      case Nil
      have "trimRight ''aliases: {}'' \<noteq> ''  '' @ name @ '':''"
        by (rule not_header [OF assms(1)]) (simp add: has_prefix_def)
      moreover have "trim_space ''aliases: {}'' = ''aliases: {}''" by code_simp
      ultimately show ?thesis using Nil by (simp add: has_prefix_def)
    next
      case (Cons r rs)
      obtain y attrs' where y: "r = (y, attrs')" by fastforce
      with Cons rest fresh True have "plainWord y" "y \<noteq> ''addr''" "y \<noteq> name" by (auto simp: plainRemotes_def)
      moreover from this(1) have "CHR '':'' \<notin> set y" by (auto simp: plainWord_def list_all_iff)
      moreover have "\<not> has_prefix (''  '' @ y @ '':'') ''    ''" "\<not> has_prefix (''  '' @ y @ '':'') [CHR 0x09, CHR 0x09]"
        using plainWord_head [OF \<open>plainWord y\<close>] by (auto simp: has_prefix_def)
      ultimately show ?thesis
        using colon_split [of y "[]"] trimRight_header [of y] trim_header [of y] Cons y
        by (simp add: Let_def)
    qed
    have "scanRemote (''  '' @ name @ '':'') False (concat (map remoteLines (remote # remotes)) @ [''aliases: {}'', []])
      = (case map_of attrs ''addr'' of None \<Rightarrow> NotFound
         | Some addr \<Rightarrow> if addr = [] \<or> addr = ''unix://'' then NoAddress else Address addr)"
      using header True scan_fields [OF assms(1) x(3)] after by (cases "map_of attrs ''addr''") (simp_all add: remote)
    then show ?thesis using True by (simp add: expectedAddr_def remote)
  qed
qed

text \<open>In a configuration as the LXD client writes it, a remote is resolved to its \<open>addr\<close> field, wherever
  that stands among its fields; a missing remote, one without address and one with an empty or local
  address are errors, never the address of another remote.\<close>

theorem named_remote_resolved:
  assumes "ho_ReadFile ho (joinPath [lxdConfigDir ho, ''config.yml'']) = Inr (lxcConfig def remotes)"
    and "plainWord name" and "plainRemotes remotes" and "goMap remotes" and "CHR 0x0A \<notin> set def"
  shows "resolveRemoteAddr ho name =
    (case expectedAddr remotes name of
       Address addr \<Rightarrow> Inr addr
     | NoAddress \<Rightarrow> Inl (''remote '' @ quoted name @ '' has no HTTPS address'')
     | NotFound \<Rightarrow> Inl (''remote '' @ quoted name @ '' not found in '' @ joinPath [lxdConfigDir ho, ''config.yml'']))"
proof -
  have nl: "CHR 0x0A \<notin> set l" if "l \<in> set (lxcConfigLines def remotes)" for l
    using that assms(3,5)
    by (fastforce simp: lxcConfigLines_def remoteLines_def fieldLine_def plainRemotes_def list_all_iff
        split: prod.splits dest: plainWord_line)
  have "split_on CHR 0x0A (lxcConfig def remotes) = lxcConfigLines def remotes @ [[]]"
    unfolding lxcConfig_def by (rule split_on_lines) (use nl in blast)
  moreover have "trimRight (''default-remote: '' @ def) \<noteq> ''  '' @ name @ '':''" "trimRight ''remotes:'' \<noteq> ''  '' @ name @ '':''"
    by (rule not_header [OF assms(2)], simp add: has_prefix_def)+
  ultimately have "scanRemote (''  '' @ name @ '':'') False (split_on CHR 0x0A (lxcConfig def remotes)) = expectedAddr remotes name"
    using scan_remotes [OF assms(2-4)] by (simp add: lxcConfigLines_def)
  then show ?thesis using assms(1) by (simp add: resolveRemoteAddr_def Let_def)
qed

definition sampleHost :: "unit lxdHost" where
  "sampleHost = \<lparr>ho_Getenv = (\<lambda>k. []), ho_UserHomeDir = Inr ''/home/op'',
     ho_ReadFile = (\<lambda>f. if f = ''/home/op/.config/lxc/config.yml''
       then Inr (lxcConfig ''local'' [(''local'', [(''addr'', ''unix://''), (''public'', ''false'')]),
                                     (''nodev2'', [(''auth_type'', ''tls''), (''addr'', ''https://10.0.0.2:8443'')])])
       else Inl errNotExist),
     ho_ConnectLXD = (\<lambda>a k. Inr ()), ho_ConnectLXDUnix = (\<lambda>p. Inr ())\<rparr>"

theorem named_remote_resolved_witness:
  "resolveRemoteAddr sampleHost ''nodev2'' = Inr ''https://10.0.0.2:8443''"
proof -
  let ?remotes = "[(''local'', [(''addr'', ''unix://''), (''public'', ''false'')]),
     (''nodev2'', [(''auth_type'', ''tls''), (''addr'', ''https://10.0.0.2:8443'')])]"
  have path: "joinPath [lxdConfigDir sampleHost, ''config.yml''] = ''/home/op/.config/lxc/config.yml''" by code_simp
  have addr: "expectedAddr ?remotes ''nodev2'' = Address ''https://10.0.0.2:8443''" by code_simp
  have wf: "plainWord ''nodev2''" "plainRemotes ?remotes" by code_simp+
  show ?thesis
    using named_remote_resolved [of sampleHost "''local''" ?remotes "''nodev2''"] wf
    by (simp add: path addr) (simp add: sampleHost_def)
qed

end
