(* ===== verification/Lxd_Cache.thy ===== *)
theory Lxd_Cache
  imports Lxd_Runtime Cache_Scripts
begin

text \<open>
  The cache manager of \<open>provider/lxd/cache.go\<close> on top of the runtime: attaching the shared volume, and
  the scripts of \<open>Cache_Scripts\<close> run in the container.

  \<open>prepared_container_isolated\<close>: a cloned container is on the managed network, and stays so when the
  cache is attached to it.
\<close>

record cacheManager =
  cm_pool :: string
  cm_volume :: string
  cm_symlinks :: "SymlinkConfig list"

definition NewCacheManager :: "string \<Rightarrow> string \<Rightarrow> SymlinkConfig list \<Rightarrow> cacheManager" where
  "NewCacheManager pool volume symlinks = \<lparr>cm_pool = pool, cm_volume = volume, cm_symlinks = symlinks\<rparr>"

definition cacheDevice :: "cacheManager \<Rightarrow> device" where
  "cacheDevice cm = [(''type'', ''disk''), (''pool'', cm_pool cm), (''source'', cm_volume cm), (''path'', ''/cache'')]"

definition lxdAttachCache :: "'s lxdServer \<Rightarrow> cacheManager \<Rightarrow> string \<Rightarrow> 's \<Rightarrow> gerror option \<times> 's" where
  "lxdAttachCache srv cm name s =
     (case sv_GetInstance srv name s of
        Inl err \<Rightarrow> (Some (''getting instance '' @ name @ '' for cache attach: '' @ err), s)
      | Inr (inst, etag) \<Rightarrow>
          let devs = (case in_Devices inst of None \<Rightarrow> [] | Some devs \<Rightarrow> devs);
              inst = inst\<lparr>in_Devices := Some (AList.update ''cache'' (cacheDevice cm) devs)\<rparr>
          in (case sv_UpdateInstance srv name inst etag s of (opn, s) \<Rightarrow>
                (waitOperation (''attaching cache to '' @ name) opn, s)))"

definition lxdSetupCacheSymlinks :: "'s lxdServer \<Rightarrow> cacheManager \<Rightarrow> string \<Rightarrow> 's \<Rightarrow> gerror option \<times> 's" where
  "lxdSetupCacheSymlinks srv cm name s =
     (case lxdExecCommand srv name [''bash'', ''-c'', cacheSetupScript (cm_symlinks cm)] s of
        ((_, Some err), s) \<Rightarrow> (Some (''setting up cache symlinks in '' @ name @ '': '' @ err), s)
      | ((_, None), s) \<Rightarrow>
          (case lxdExecCommand srv name [''bash'', ''-c'', runnerEnvScript (toolCacheDir (cm_symlinks cm))] s of
             ((_, Some err), s) \<Rightarrow> (Some (''configuring runner cache env in '' @ name @ '': '' @ err), s)
           | ((_, None), s) \<Rightarrow> (None, s)))"

definition lxdPruneCache :: "'s lxdServer \<Rightarrow> string \<Rightarrow> cachePrunePolicy \<Rightarrow> 's \<Rightarrow> gerror option \<times> 's" where
  "lxdPruneCache srv name policy s =
     (if \<not> cp_Enabled policy then (None, s)
      else case lxdExecCommand srv name [''bash'', ''-c'', cachePruneScript policy] s of
        ((_, Some err), s) \<Rightarrow> (Some (''pruning cache in '' @ name @ '': '' @ err), s)
      | ((_, None), s) \<Rightarrow> (None, s))"

lemma attach_keeps_isolated:
  assumes "updateReplaces srv" and "lxdAttachCache srv cm name s = (None, s')"
    and "sv_GetInstance srv name s = Inr (inst, etag)" and "isolated network inst"
  shows "\<exists>now tag devs. sv_GetInstance srv name s' = Inr (now, tag) \<and> isolated network now
    \<and> in_Devices now = Some devs \<and> map_of devs ''cache'' = Some (cacheDevice cm)"
proof -
  define devs where "devs = (case in_Devices inst of None \<Rightarrow> [] | Some devs \<Rightarrow> devs)"
  let ?devs = "AList.update ''cache'' (cacheDevice cm) devs"
  let ?inst = "inst\<lparr>in_Devices := Some ?devs\<rparr>"
  have "sv_UpdateInstance srv name ?inst etag s = (OpDone, s')"
    using assms(2,3) by (auto simp: lxdAttachCache_def devs_def Let_def waitOperation_def
        split: prod.splits operation.splits option.splits)
  with assms(1) obtain now tag where now: "sv_GetInstance srv name s' = Inr (now, tag)"
    "in_Config now = in_Config ?inst" "in_Devices now = in_Devices ?inst"
    unfolding updateReplaces_def by meson
  have "isolated network ?inst"
    using assms(4) set_update [of "''cache''" "cacheDevice cm" devs]
    by (cases "in_Devices inst") (fastforce simp: isolated_def devs_def list_all_iff cacheDevice_def)+
  with now isolated_devices [of now ?inst] show ?thesis by auto
qed

text \<open>C34. A container that was cloned without error has no MAC address of the template and, with a network
  configured, its first interface is on that network; attaching the cache without error keeps this and
  adds the shared volume at \<open>/cache\<close>.\<close>

theorem prepared_container_isolated:
  assumes "updateReplaces srv" and "CloneFromTemplate srv r name s = Some (None, s1)"
    and "lxdAttachCache srv cm name s1 = (None, s2)"
  shows "\<exists>before after tag tag' devs. sv_GetInstance srv name s1 = Inr (before, tag) \<and> isolated (rt_network r) before
    \<and> sv_GetInstance srv name s2 = Inr (after, tag') \<and> isolated (rt_network r) after
    \<and> in_Devices after = Some devs \<and> map_of devs ''cache'' = Some (cacheDevice cm)"
  using clone_on_managed_network [OF assms(1,2)] attach_keeps_isolated [OF assms(1,3)] by meson

definition sampleManager :: cacheManager where
  "sampleManager = NewCacheManager ''pool'' ''vol'' []"

definition sampleCloned :: "(string \<times> lxdInstance) list" where
  "sampleCloned = snd (the (CloneFromTemplate (memServer None) sampleRuntime ''ci-1'' sampleInstances))"

definition sampleAttached :: "(string \<times> lxdInstance) list" where
  "sampleAttached = snd (lxdAttachCache (memServer None) sampleManager ''ci-1'' sampleCloned)"

theorem prepared_container_isolated_witness:
  "\<exists>before after tag tag' devs. sv_GetInstance (memServer None) ''ci-1'' sampleCloned = Inr (before, tag)
    \<and> isolated (rt_network sampleRuntime) before
    \<and> sv_GetInstance (memServer None) ''ci-1'' sampleAttached = Inr (after, tag') \<and> isolated (rt_network sampleRuntime) after
    \<and> in_Devices after = Some devs \<and> map_of devs ''cache'' = Some (cacheDevice sampleManager)"
proof (rule prepared_container_isolated [OF memServer_updateReplaces])
  show "CloneFromTemplate (memServer None) sampleRuntime ''ci-1'' sampleInstances = Some (None, sampleCloned)" by code_simp
  show "lxdAttachCache (memServer None) sampleManager ''ci-1'' sampleCloned = (None, sampleAttached)" by code_simp
qed

end
