(* ===== verification/Loki_Push.thy ===== *)
theory Loki_Push
  imports Metric_Domain Log_Entry Go_Time "HOL-Library.Product_Lexorder" "HOL-Library.Multiset"
begin

text \<open>
  The metrics backend of \<open>provider/loki/metrics.go\<close>: the JSON form of the metrics, the streams they are
  pushed in and the attempts of a push.  The form \<open>encoding/json\<close> gives a floating-point number is an
  argument, as it can fail (for infinities); so are the answers of the HTTP client.

  \<open>workflow_streams\<close>: what a push of workflow runs consists of, against a reference.  \<open>push_attempts\<close>:
  how often a push is tried and when it succeeds.
\<close>

section \<open>Payloads\<close>

type_synonym floatText = "rat \<Rightarrow> string result"

text \<open>Members in sequence; the first number that has no JSON form is the error.\<close>

fun joinMembers :: "(string \<times> json) list result list \<Rightarrow> (string \<times> json) list result" where
  "joinMembers [] = Inr []"
| "joinMembers (Inl e # ms) = Inl e"
| "joinMembers (Inr m # ms) = (case joinMembers ms of Inl e \<Rightarrow> Inl e | Inr ms' \<Rightarrow> Inr (m @ ms'))"

definition floatMember :: "floatText \<Rightarrow> string \<Rightarrow> rat \<Rightarrow> (string \<times> json) list result" where
  "floatMember num k x = (case num x of Inl e \<Rightarrow> Inl e | Inr l \<Rightarrow> Inr [(k, JNum l)])"

definition numMember :: "string \<Rightarrow> int \<Rightarrow> (string \<times> json) list" where
  "numMember k i = [(k, JNum (itoa i))]"

definition flagMember :: "string \<Rightarrow> bool \<Rightarrow> (string \<times> json) list" where
  "flagMember k b = (if b then [(k, JBool True)] else [])"

definition runnerDetailJson :: "runnerDetail \<Rightarrow> json" where
  "runnerDetailJson d =
     JObj [(''name'', JStr (rd_Name d)), (''status'', JStr (rd_Status d)), (''busy'', JBool (rd_Busy d)),
           (''is_auto'', JBool (rd_IsAuto d))]"

text \<open>The list of runners is never nil when metrics are built, so an empty one is \<open>[]\<close>.\<close>

definition runnerMetricsJson :: "floatText \<Rightarrow> RunnerMetrics \<Rightarrow> json result" where
  "runnerMetricsJson num m = map_sum id JObj (joinMembers
     [Inr (textMember ''group_id'' (rm_GroupID m) @ numMember ''total_runners'' (rm_TotalRunners m)
           @ numMember ''busy_runners'' (rm_BusyRunners m) @ numMember ''idle_runners'' (rm_IdleRunners m)
           @ numMember ''available_online_runners'' (rm_AvailableOnlineRunners m)
           @ numMember ''online_runners'' (rm_OnlineRunners m) @ numMember ''offline_runners'' (rm_OfflineRunners m)
           @ numMember ''auto_runners'' (rm_AutoRunners m) @ numMember ''permanent_runners'' (rm_PermanentRunners m)
           @ numMember ''provisioning_runners'' (rm_ProvisioningRunners m) @ numMember ''queued_jobs'' (rm_QueuedJobs m)
           @ numMember ''oldest_queued_s'' (rm_OldestQueuedS m)
           @ [(''baseline_configured'', JBool (rm_BaselineConfigured m)), (''baseline_online'', JBool (rm_BaselineOnline m))]
           @ numMember ''overflow_runners'' (rm_OverflowRunners m)
           @ textMember ''runner_distribution_version'' (rm_RunnerDistribution m)),
      floatMember num ''utilization_pct'' (rm_UtilizationPct m),
      Inr (flagMember ''runner_inventory_stale'' (rm_RunnerInventoryStale m)
           @ intMember ''runner_inventory_age_s'' (rm_RunnerInventoryAgeS m)
           @ textMember ''runner_inventory_at'' (rm_RunnerInventoryAt m)
           @ textMember ''runner_inventory_error'' (rm_RunnerInventoryError m)
           @ [(''runners'', JArr (map runnerDetailJson (rm_Runners m)))])])"

definition workflowMetricsJson :: "workflowMetrics \<Rightarrow> json" where
  "workflowMetricsJson w = JObj
     (intMember ''run_id'' (wm_RunID w) @ intMember ''run_attempt'' (wm_RunAttempt w)
      @ [(''repo'', JStr (wm_Repo w)), (''workflow'', JStr (wm_Workflow w)), (''conclusion'', JStr (wm_Conclusion w))]
      @ numMember ''duration_s'' (wm_DurationS w) @ numMember ''run_number'' (wm_RunNumber w)
      @ [(''event'', JStr (wm_Event w)), (''branch'', JStr (wm_Branch w))]
      @ textMember ''completed_at'' (wm_CompletedAt w) @ textMember ''failed_job'' (wm_FailedJob w)
      @ textMember ''failed_step'' (wm_FailedStep w) @ textMember ''failure_reason'' (wm_FailureReason w))"

definition issueEventJson :: "IssueEvent \<Rightarrow> json" where
  "issueEventJson e = JObj
     ([(''level'', JStr (ie_Level e)), (''kind'', JStr (ie_Kind e)), (''reason'', JStr (ie_Reason e))]
      @ textMember ''message'' (ie_Message e) @ textMember ''error'' (ie_Error e) @ textMember ''detail'' (ie_Detail e)
      @ textMember ''event_type'' (ie_EventType e) @ textMember ''action'' (ie_Action e) @ textMember ''repo'' (ie_Repo e)
      @ textMember ''branch'' (ie_Branch e) @ textMember ''workflow'' (ie_Workflow e) @ textMember ''job'' (ie_Job e)
      @ intMember ''job_id'' (ie_JobID e) @ textMember ''runner'' (ie_Runner e) @ textMember ''container'' (ie_Container e)
      @ intMember ''run_id'' (ie_RunID e) @ intMember ''run_attempt'' (ie_RunAttempt e)
      @ textMember ''conclusion'' (ie_Conclusion e) @ textMember ''observed_at'' (ie_ObservedAt e))"

definition lifecycleMetricsJson :: "floatText \<Rightarrow> lifecycleMetrics \<Rightarrow> json result" where
  "lifecycleMetricsJson num m = map_sum id JObj (joinMembers
     [Inr (textMember ''window_start'' (lm_WindowStart m) @ textMember ''window_end'' (lm_WindowEnd m)
           @ numMember ''queue_wait_samples'' (lm_QueueWaitSamples m)),
      floatMember num ''avg_queue_wait_s'' (lm_AvgQueueWaitS m), floatMember num ''p95_queue_wait_s'' (lm_P95QueueWaitS m),
      Inr (numMember ''lifecycle_samples'' (lm_LifecycleSamples m)),
      floatMember num ''avg_jobs_per_lifecycle'' (lm_AvgJobsPerLifecycle m),
      floatMember num ''reused_lifecycle_pct'' (lm_ReusedLifecyclePct m),
      Inr (numMember ''scale_down_to_scale_up_samples'' (lm_ScaleDownToScaleUpSamples m)),
      floatMember num ''avg_scale_down_to_scale_up_s'' (lm_AvgScaleDownToScaleUpS m)])"

definition optionalFloat :: "floatText \<Rightarrow> string \<Rightarrow> rat \<Rightarrow> (string \<times> json) list result" where
  "optionalFloat num k x = (if x = 0 then Inr [] else floatMember num k x)"

definition hostMetricsJson :: "floatText \<Rightarrow> HostMetrics \<Rightarrow> json result" where
  "hostMetricsJson num m = map_sum id JObj (joinMembers
     [Inr (textMember ''group_id'' (hm_GroupID m) @ numMember ''containers_running'' (hm_ContainersRunning m)
           @ numMember ''containers_stopped'' (hm_ContainersStopped m)
           @ (case hm_RunnerContainersRunning m of None \<Rightarrow> [] | Some n \<Rightarrow> numMember ''runner_containers_running'' n)
           @ (case hm_RunnerContainersStopped m of None \<Rightarrow> [] | Some n \<Rightarrow> numMember ''runner_containers_stopped'' n)),
      optionalFloat num ''cache_pool_used_gb'' (hm_CachePoolUsedGB m),
      optionalFloat num ''cache_pool_total_gb'' (hm_CachePoolTotalGB m),
      optionalFloat num ''cache_pool_pct'' (hm_CachePoolPct m)])"

section \<open>Streams\<close>

record lokiBackend =
  lb_pushURL :: string
  lb_username :: string
  lb_apiKey :: string
  lb_org :: string
  lb_retries :: "duration list"

definition newLoki :: "string \<Rightarrow> string \<Rightarrow> string \<Rightarrow> string \<Rightarrow> lokiBackend" where
  "newLoki pushURL username apiKey org =
     \<lparr>lb_pushURL = pushURL, lb_username = username, lb_apiKey = apiKey, lb_org = org,
      lb_retries = [250 * 1000000, second]\<rparr>"

record lokiStream =
  ls_Stream :: "(string \<times> string) list"
  ls_Values :: "(string \<times> string) list"

definition unixNano :: "gotime \<Rightarrow> int" where
  "unixNano t = t - 62135596800 * second"

text \<open>\<open>lh_Now\<close> numbers the readings of the clock in a push; \<open>now\<close> is what the clock says when the values are built; the entries that have no JSON form are
  errors.\<close>

fun buildValuesFrom :: "gotime \<Rightarrow> int \<Rightarrow> json result list \<Rightarrow> (string \<times> string) list result" where
  "buildValuesFrom now i [] = Inr []"
| "buildValuesFrom now i (Inl e # entries) = Inl (''marshaling metrics: '' @ e)"
| "buildValuesFrom now i (Inr j # entries) =
     (case buildValuesFrom now (i + 1) entries of
        Inl e \<Rightarrow> Inl e
      | Inr values \<Rightarrow> Inr ((itoa (unixNano now + i), printJson j) # values))"

definition buildValues :: "gotime \<Rightarrow> json result list \<Rightarrow> (string \<times> string) list result" where
  "buildValues now entries = buildValuesFrom now 0 entries"

text \<open>The keys of a map are sorted when it is encoded.\<close>

definition streamJson :: "lokiStream \<Rightarrow> json" where
  "streamJson st = JObj
     [(''stream'', JObj (map (\<lambda>(k, v). (k, JStr v)) (sort_key fst (ls_Stream st)))),
      (''values'', JArr (map (\<lambda>(t, l). JArr [JStr t, JStr l]) (ls_Values st)))]"

definition payloadJson :: "lokiStream list \<Rightarrow> json" where
  "payloadJson streams = JObj [(''streams'', JArr (map streamJson streams))]"

section \<open>Attempts\<close>

datatype lokiReply =
    DoFails gerror bool \<comment> \<open>the error of the client, and whether it is temporary\<close>
  | DoAnswers int string "gerror option"

record lokiHttp =
  lh_NewRequest :: "string \<Rightarrow> gerror option"
  lh_Do :: "nat \<Rightarrow> lokiReply"
  lh_Interrupted :: "nat \<Rightarrow> bool"
  lh_Now :: "nat \<Rightarrow> gotime"

record lokiRequest =
  lr_URL :: string
  lr_Auth :: "(string \<times> string) option"
  lr_Body :: string

definition isRetryableLokiStatus :: "int \<Rightarrow> bool" where
  "isRetryableLokiStatus statusCode \<longleftrightarrow> statusCode = 429 \<or> 500 \<le> statusCode"

definition lokiStatusError :: "int \<Rightarrow> string \<Rightarrow> gerror option \<Rightarrow> gerror" where
  "lokiStatusError statusCode responseBody readErr =
     (case readErr of
        Some e \<Rightarrow> ''Loki push returned '' @ itoa statusCode @ ''; reading response body: '' @ e
      | None \<Rightarrow>
          let body = trim_space responseBody in
          if body = [] then ''Loki push returned '' @ itoa statusCode
          else ''Loki push returned '' @ itoa statusCode @ '': '' @ body)"

text \<open>\<open>sleepContext\<close>: whether the context ends the wait; no wait for a delay that is not positive.\<close>

definition sleepContext :: "lokiHttp \<Rightarrow> nat \<Rightarrow> duration \<Rightarrow> bool" where
  "sleepContext H attempt delay \<longleftrightarrow> 0 < delay \<and> lh_Interrupted H attempt"

definition lokiRequestOf :: "lokiBackend \<Rightarrow> string \<Rightarrow> lokiRequest" where
  "lokiRequestOf b body =
     \<lparr>lr_URL = lb_pushURL b,
      lr_Auth = (if lb_username b \<noteq> [] \<or> lb_apiKey b \<noteq> [] then Some (lb_username b, lb_apiKey b) else None),
      lr_Body = body\<rparr>"

text \<open>The loop over the attempts, with the delays that are left; the result has the requests that were
  sent.\<close>

definition attemptError :: "lokiReply \<Rightarrow> gerror option" where
  "attemptError reply =
     (case reply of
        DoFails err temporary \<Rightarrow> Some (''pushing to Loki: '' @ err)
      | DoAnswers statusCode body readErr \<Rightarrow>
          if statusCode = 200 \<or> statusCode = 204 then None else Some (lokiStatusError statusCode body readErr))"

definition attemptRetryable :: "lokiReply \<Rightarrow> bool" where
  "attemptRetryable reply =
     (case reply of
        DoFails err temporary \<Rightarrow> temporary
      | DoAnswers statusCode body readErr \<Rightarrow> isRetryableLokiStatus statusCode)"

fun pushAttempts :: "lokiHttp \<Rightarrow> lokiBackend \<Rightarrow> string \<Rightarrow> nat \<Rightarrow> duration list \<Rightarrow> gerror option \<times> lokiRequest list" where
  "pushAttempts H b body attempt delays =
     (case lh_NewRequest H (lb_pushURL b) of
        Some e \<Rightarrow> (Some (''creating Loki request: '' @ e), [])
      | None \<Rightarrow>
          let req = lokiRequestOf b body; reply = lh_Do H attempt in
          (case attemptError reply of
             None \<Rightarrow> (None, [req])
           | Some lastErr \<Rightarrow>
               (case delays of
                  [] \<Rightarrow> (Some lastErr, [req])
                | delay # rest \<Rightarrow>
                    if \<not> attemptRetryable reply \<or> sleepContext H attempt delay then (Some lastErr, [req])
                    else (case pushAttempts H b body (Suc attempt) rest of (err, reqs) \<Rightarrow> (err, req # reqs)))))"

declare pushAttempts.simps [simp del]

definition pushPayload :: "lokiHttp \<Rightarrow> lokiBackend \<Rightarrow> lokiStream list \<Rightarrow> gerror option \<times> lokiRequest list" where
  "pushPayload H b streams = pushAttempts H b (printJson (payloadJson streams)) 0 (lb_retries b)"

definition pushEntries ::
    "lokiHttp \<Rightarrow> lokiBackend \<Rightarrow> (string \<times> string) list \<Rightarrow> json result list \<Rightarrow> gerror option \<times> lokiRequest list" where
  "pushEntries H b labels entries =
     (if entries = [] then (None, [])
      else case buildValues (lh_Now H 0) entries of
        Inl err \<Rightarrow> (Some err, [])
      | Inr values \<Rightarrow> pushPayload H b [\<lparr>ls_Stream = labels, ls_Values = values\<rparr>])"

definition pushOne ::
    "lokiHttp \<Rightarrow> lokiBackend \<Rightarrow> (string \<times> string) list \<Rightarrow> json result \<Rightarrow> gerror option \<times> lokiRequest list" where
  "pushOne H b labels entry = pushEntries H b labels [entry]"

definition serviceLabels :: "lokiBackend \<Rightarrow> string \<Rightarrow> (string \<times> string) list" where
  "serviceLabels b service = [(''job'', ''gh-runner-scaler''), (''service'', service), (''org'', lb_org b)]"

definition groupLabels :: "lokiBackend \<Rightarrow> string \<Rightarrow> string \<Rightarrow> (string \<times> string) list" where
  "groupLabels b service groupID =
     serviceLabels b service @ (if groupID \<noteq> [] then [(''group_id'', groupID)] else [])"

definition PushRunnerMetrics :: "floatText \<Rightarrow> lokiHttp \<Rightarrow> lokiBackend \<Rightarrow> RunnerMetrics \<Rightarrow> gerror option \<times> lokiRequest list" where
  "PushRunnerMetrics num H b m = pushOne H b (groupLabels b ''runner-metrics'' (rm_GroupID m)) (runnerMetricsJson num m)"

definition PushHostMetrics :: "floatText \<Rightarrow> lokiHttp \<Rightarrow> lokiBackend \<Rightarrow> HostMetrics \<Rightarrow> gerror option \<times> lokiRequest list" where
  "PushHostMetrics num H b m = pushOne H b (groupLabels b ''host-metrics'' (hm_GroupID m)) (hostMetricsJson num m)"

definition PushIssueEvents :: "lokiHttp \<Rightarrow> lokiBackend \<Rightarrow> IssueEvent list \<Rightarrow> gerror option \<times> lokiRequest list" where
  "PushIssueEvents H b m =
     (if m = [] then (None, []) else pushEntries H b (serviceLabels b ''issue-events'') (map (Inr \<circ> issueEventJson) m))"

definition PushLifecycleMetrics :: "floatText \<Rightarrow> lokiHttp \<Rightarrow> lokiBackend \<Rightarrow> lifecycleMetrics \<Rightarrow> gerror option \<times> lokiRequest list" where
  "PushLifecycleMetrics num H b m = pushOne H b (serviceLabels b ''lifecycle-metrics'') (lifecycleMetricsJson num m)"

section \<open>Workflow runs\<close>

definition parseEntryTime :: "string \<Rightarrow> gotime" where
  "parseEntryTime value = (if value = [] then 0 else case parseRfc3339 value of None \<Rightarrow> 0 | Some t \<Rightarrow> t)"

definition workflowMetricTieBreak :: "workflowMetrics \<Rightarrow> workflowMetrics \<Rightarrow> bool" where
  "workflowMetricTieBreak left right =
     (if wm_RunID left \<noteq> wm_RunID right then wm_RunID left < wm_RunID right
      else if wm_RunAttempt left \<noteq> wm_RunAttempt right then wm_RunAttempt left < wm_RunAttempt right
      else if wm_RunNumber left \<noteq> wm_RunNumber right then wm_RunNumber left < wm_RunNumber right
      else if wm_Workflow left \<noteq> wm_Workflow right then wm_Workflow left < wm_Workflow right
      else wm_Branch left < wm_Branch right)"

definition workflowLess :: "workflowMetrics \<Rightarrow> workflowMetrics \<Rightarrow> bool" where
  "workflowLess l r =
     (let left = parseEntryTime (wm_CompletedAt l); right = parseEntryTime (wm_CompletedAt r) in
      if isZero left \<and> isZero right then workflowMetricTieBreak l r
      else if isZero left then False
      else if isZero right then True
      else if left = right then workflowMetricTieBreak l r
      else left < right)"

text \<open>\<open>sort.SliceStable\<close>: insertion before the first element that is not less.\<close>

fun stableInsert :: "('a \<Rightarrow> 'a \<Rightarrow> bool) \<Rightarrow> 'a \<Rightarrow> 'a list \<Rightarrow> 'a list" where
  "stableInsert lt x [] = [x]"
| "stableInsert lt x (y # ys) = (if lt y x then y # stableInsert lt x ys else x # y # ys)"

definition sortWorkflowMetrics :: "workflowMetrics list \<Rightarrow> workflowMetrics list" where
  "sortWorkflowMetrics runs = foldr (stableInsert workflowLess) runs []"

definition repoStream :: "lokiHttp \<Rightarrow> lokiBackend \<Rightarrow> workflowMetrics list \<Rightarrow> nat \<times> string \<Rightarrow> lokiStream result" where
  "repoStream H b runs irepo = (case irepo of (i, repo) \<Rightarrow>
     let entries = sortWorkflowMetrics (filter (\<lambda>r. wm_Repo r = repo) runs);
          labels = serviceLabels b ''workflow-metrics'' @ (if repo \<noteq> [] then [(''repo'', repo)] else [])
      in map_sum id (\<lambda>values. \<lparr>ls_Stream = labels, ls_Values = values\<rparr>)
           (buildValues (lh_Now H i) (map (Inr \<circ> workflowMetricsJson) entries)))"

fun allStreams :: "lokiStream result list \<Rightarrow> lokiStream list result" where
  "allStreams [] = Inr []"
| "allStreams (Inl e # sts) = Inl e"
| "allStreams (Inr st # sts) = (case allStreams sts of Inl e \<Rightarrow> Inl e | Inr rest \<Rightarrow> Inr (st # rest))"

definition PushWorkflowMetrics :: "lokiHttp \<Rightarrow> lokiBackend \<Rightarrow> workflowMetrics list \<Rightarrow> gerror option \<times> lokiRequest list" where
  "PushWorkflowMetrics H b runs =
     (if runs = [] then (None, [])
      else case allStreams (map (repoStream H b runs) (List.enumerate 0 (sort (remdups (map wm_Repo runs))))) of
        Inl err \<Rightarrow> (Some err, [])
      | Inr streams \<Rightarrow> pushPayload H b streams)"

section \<open>What a push of workflow runs is\<close>

text \<open>The order of the runs of a stream: those without a readable completion time last, then by time,
  run, attempt, number, workflow and branch.\<close>

definition runKey :: "workflowMetrics \<Rightarrow> bool \<times> gotime \<times> int \<times> int \<times> int \<times> string \<times> string" where
  "runKey r = (let t = parseEntryTime (wm_CompletedAt r) in
     (isZero t, t, wm_RunID r, wm_RunAttempt r, wm_RunNumber r, wm_Workflow r, wm_Branch r))"

lemma workflowLess_key: "workflowLess l r \<longleftrightarrow> runKey l < runKey r"
  by (auto simp: workflowLess_def runKey_def workflowMetricTieBreak_def Let_def less_prod_simp)

lemma stableInsert_key: "(\<And>a b. lt a b \<longleftrightarrow> key a < key b) \<Longrightarrow> stableInsert lt x xs = insort_key key x xs"
  by (induction xs) (auto simp: not_less)

lemma sortWorkflow_key: "sortWorkflowMetrics runs = sort_key runKey runs"
proof -
  have "stableInsert workflowLess = insort_key runKey"
    by (intro ext stableInsert_key workflowLess_key)
  then show ?thesis by (simp add: sortWorkflowMetrics_def sort_key_def)
qed

lemma buildValuesFrom_ok:
  "buildValuesFrom now i (map (Inr \<circ> f) xs) =
     Inr (map (\<lambda>(j, x). (itoa (unixNano now + int j), printJson (f x))) (List.enumerate (nat i) xs))" if "0 \<le> i"
  using that
proof (induction xs arbitrary: i)
  case (Cons x xs)
  then show ?case using Cons.IH [of "i + 1"] by (simp add: nat_add_distrib)
qed simp

lemma allStreams_ok: "allStreams (map (\<lambda>x. Inr (f x)) xs) = Inr (map f xs)"
  by (induction xs) auto

lemma mset_by_repo:
  "distinct repos \<Longrightarrow> set (map f runs) \<subseteq> set repos
    \<Longrightarrow> mset (concat (map (\<lambda>repo. filter (\<lambda>r. f r = repo) runs) repos)) = mset runs"
proof (induction runs)
  case (Cons r runs)
  then have IH: "mset (concat (map (\<lambda>repo. filter (\<lambda>r. f r = repo) runs) repos)) = mset runs" by simp
  have one: "mset (concat (map (\<lambda>repo. if f r = repo then r # g repo else g repo) rs)) =
      (if f r \<in> set rs then add_mset r (mset (concat (map g rs))) else mset (concat (map g rs)))"
    if "distinct rs" for g rs
    using that by (induction rs) auto
  from Cons.prems IH show ?case by (simp add: one if_distrib [of "\<lambda>xs. xs @ _"] cong: if_cong)
qed simp

text \<open>C36. A push of workflow runs is one payload with a stream for every repository, in the order of
  their names; a stream has the runs of its repository in the order of their keys, at consecutive
  nanoseconds, and together the streams have every run exactly once.\<close>

theorem workflow_streams:
  "let repos = sort (remdups (map wm_Repo runs)) in
     PushWorkflowMetrics H b runs =
       (if runs = [] then (None, [])
        else pushPayload H b (map (\<lambda>(i, repo).
          \<lparr>ls_Stream = serviceLabels b ''workflow-metrics'' @ (if repo = [] then [] else [(''repo'', repo)]),
           ls_Values = map (\<lambda>(j, run). (itoa (unixNano (lh_Now H i) + int j), printJson (workflowMetricsJson run)))
             (List.enumerate 0 (sort_key runKey (filter (\<lambda>r. wm_Repo r = repo) runs)))\<rparr>) (List.enumerate 0 repos)))
     \<and> mset (concat (map (\<lambda>repo. filter (\<lambda>r. wm_Repo r = repo) runs) repos)) = mset runs"
proof -
  let ?repos = "sort (remdups (map wm_Repo runs))"
  let ?stream = "\<lambda>(i, repo).
    \<lparr>ls_Stream = serviceLabels b ''workflow-metrics'' @ (if repo = [] then [] else [(''repo'', repo)]),
     ls_Values = map (\<lambda>(j, run). (itoa (unixNano (lh_Now H i) + int j), printJson (workflowMetricsJson run)))
       (List.enumerate 0 (sort_key runKey (filter (\<lambda>r. wm_Repo r = repo) runs)))\<rparr>"
  have "repoStream H b runs = (\<lambda>x. Inr (?stream x))"
    by (rule ext) (auto simp: repoStream_def Let_def buildValues_def buildValuesFrom_ok sortWorkflow_key split: prod.split)
  then have "allStreams (map (repoStream H b runs) (List.enumerate 0 ?repos)) = Inr (map ?stream (List.enumerate 0 ?repos))"
    by (simp only: allStreams_ok)
  then have "PushWorkflowMetrics H b runs = (if runs = [] then (None, []) else pushPayload H b (map ?stream (List.enumerate 0 ?repos)))"
    by (simp add: PushWorkflowMetrics_def)
  moreover have "mset (concat (map (\<lambda>repo. filter (\<lambda>r. wm_Repo r = repo) runs) ?repos)) = mset runs"
    by (rule mset_by_repo) simp_all
  ultimately show ?thesis unfolding Let_def by blast
qed

section \<open>The attempts of a push\<close>

text \<open>What is worth another attempt: a temporary error of the client, too many requests, a server error.\<close>

definition worthAgain :: "lokiReply \<Rightarrow> bool" where
  "worthAgain reply \<longleftrightarrow>
     (case reply of DoFails err temporary \<Rightarrow> temporary | DoAnswers code body readErr \<Rightarrow> code = 429 \<or> 500 \<le> code)"

definition tryAgain :: "lokiHttp \<Rightarrow> nat \<Rightarrow> duration \<Rightarrow> bool" where
  "tryAgain H attempt delay \<longleftrightarrow> worthAgain (lh_Do H attempt) \<and> (delay \<le> 0 \<or> \<not> lh_Interrupted H attempt)"

lemma tryAgain_attempt:
  "tryAgain H attempt delay \<longleftrightarrow> attemptError (lh_Do H attempt) \<noteq> None \<and> attemptRetryable (lh_Do H attempt)
     \<and> \<not> sleepContext H attempt delay"
  by (auto simp: tryAgain_def worthAgain_def attemptError_def attemptRetryable_def isRetryableLokiStatus_def sleepContext_def
      split: lokiReply.split)

lemma pushAttempts_eq:
  assumes "lh_NewRequest H (lb_pushURL b) = None"
  shows "pushAttempts H b body a ds =
    (let k = length (takeWhile (\<lambda>i. tryAgain H (a + i) (ds ! i)) [0..<length ds])
     in (attemptError (lh_Do H (a + k)), replicate (Suc k) (lokiRequestOf b body)))"
proof (induction ds arbitrary: a)
  case Nil
  show ?case using assms by (simp add: pushAttempts.simps [of _ _ _ _ "[]"] Let_def split: option.split)
next
  case (Cons d ds)
  have range: "takeWhile (\<lambda>i. tryAgain H (a + i) ((d # ds) ! i)) [0..<length (d # ds)] =
    (if tryAgain H a d then 0 # map Suc (takeWhile (\<lambda>i. tryAgain H (Suc a + i) (ds ! i)) [0..<length ds]) else [])"
    by (simp add: upt_conv_Cons map_Suc_upt [symmetric] takeWhile_map comp_def del: upt_Suc)
  show ?case
  proof (cases "tryAgain H a d")
    case True
    then obtain e where "attemptError (lh_Do H a) = Some e" "attemptRetryable (lh_Do H a)" "\<not> sleepContext H a d"
      by (auto simp: tryAgain_attempt)
    then show ?thesis
      using assms True range Cons.IH [of "Suc a"] by (simp add: pushAttempts.simps [of _ _ _ _ "_ # _"] Let_def)
  next
    case False
    then show ?thesis
      using assms range
      by (auto simp: pushAttempts.simps [of _ _ _ _ "_ # _"] Let_def tryAgain_attempt split: option.split)
  qed
qed

text \<open>A push sends its one request again as long as the answer is a temporary error, 429 or a server
  error, the context does not end the wait and delays are left; the error it reports is that of the last
  attempt.  So a push makes at most one attempt more than it has delays, and succeeds exactly if its last
  attempt was answered with 200 or 204.\<close>

theorem push_attempts:
  "pushPayload H b streams =
    (case lh_NewRequest H (lb_pushURL b) of
       Some e \<Rightarrow> (Some (''creating Loki request: '' @ e), [])
     | None \<Rightarrow>
         let k = length (takeWhile (\<lambda>i. tryAgain H i (lb_retries b ! i)) [0..<length (lb_retries b)])
         in (attemptError (lh_Do H k), replicate (Suc k) (lokiRequestOf b (printJson (payloadJson streams)))))"
proof (cases "lh_NewRequest H (lb_pushURL b)")
  case None
  then show ?thesis by (simp add: pushPayload_def pushAttempts_eq Let_def)
next
  case (Some e)
  then show ?thesis by (simp add: pushPayload_def pushAttempts.simps [of _ _ _ _ "lb_retries b"])
qed

end
