(* ===== verification/Wiring.thy ===== *)
theory Wiring
  imports Lxd_Cache Loki_Push Github_Provider Webhook Daemon_Passes
begin

text \<open>
  The composition root, \<open>cmd/scaler/main.go\<close>: from a loaded configuration to the runner groups of the
  daemon.  Every class gets a connection to LXD, a cache manager, a GitHub provider, a state
  directory, a metrics backend and a reconciler; providers of one GitHub target share one runner
  inventory.  What the surroundings answer, the connections to LXD and the creation of the state
  directories, is given for each class.

  \<open>groups_follow_classes\<close>: every part of a group is configured from its class.  \<open>wiring_succeeds\<close>: the
  wiring of a loaded configuration fails only for an unknown provider, a failed connection or a
  directory that cannot be created.  \<open>groups_share_by_target\<close>: the groups that share an inventory are
  those of one target.  \<open>wired_reconciler\<close> and \<open>wired_clones\<close>: the reconcilers meet what the theorems on
  passes ask for.
\<close>

section \<open>The parts of a group\<close>

text \<open>\<open>wp_Cache\<close>: the number of the provider that created the runner inventory this one uses.\<close>

record ciProvider =
  wp_Provider :: provider
  wp_Token :: string
  wp_WebhookSecret :: string
  wp_Cache :: nat

record 'c wiredGroup =
  wg_Group :: runnerGroup
  wg_CachePool :: string
  wg_Reconciler :: reconciler
  wg_CI :: ciProvider
  wg_Server :: 'c
  wg_Runtime :: lxdRuntime
  wg_Cache :: "cacheManager option"
  wg_StateDir :: string
  wg_Metrics :: "lokiBackend option"

text \<open>The answers of the surroundings while the class of the given number is wired.\<close>

record 'c surroundings =
  su_Host :: "nat \<Rightarrow> 'c lxdHost"
  su_MkdirAll :: "nat \<Rightarrow> gerror option"

definition connectRuntime :: "'c lxdHost \<Rightarrow> Config \<Rightarrow> RunnerClass \<Rightarrow> ('c \<times> lxdRuntime) result" where
  "connectRuntime ho conf class =
     (let lx = ct_LXD (cg_Container conf) in
      newLxdRuntime ho (lx_Socket lx) (lx_Remote lx) (lx_RemoteURL lx) (lx_RemoteCert lx) (lx_RemoteKey lx)
        (cl_Template class) (lx_Network lx))"

definition wireRuntimeAndCache ::
    "'c lxdHost \<Rightarrow> Config \<Rightarrow> RunnerClass \<Rightarrow> ('c \<times> lxdRuntime \<times> cacheManager option) result" where
  "wireRuntimeAndCache ho conf class =
     (if ct_Provider (cg_Container conf) \<noteq> ''lxd'' then
        Inl (''unsupported container provider: '' @ ct_Provider (cg_Container conf))
      else case connectRuntime ho conf class of
        Inl err \<Rightarrow> Inl (''lxd runtime: '' @ err)
      | Inr (server, runtime) \<Rightarrow>
          let cache = cl_Cache class in
          Inr (server, runtime,
               if ca_Enabled cache then Some (NewCacheManager (ca_Pool cache) (ca_Volume cache) (ca_Symlinks cache))
               else None))"

definition githubTargetCacheKey :: "RunnerClass \<Rightarrow> string" where
  "githubTargetCacheKey class =
     (if RepoScoped class then to_lower (''repo:'' @ cl_Repo class) else to_lower (''org:'' @ cl_Org class))"

text \<open>\<open>owners\<close> is \<open>githubProvidersByOrg\<close>: for every target the number of its first provider, whose
  inventory the later ones share.\<close>

definition wireCIProvider ::
    "Config \<Rightarrow> nat \<Rightarrow> RunnerClass \<Rightarrow> (string \<times> nat) list \<Rightarrow> (ciProvider \<times> (string \<times> nat) list) result" where
  "wireCIProvider conf n class owners =
     (if ci_Provider (cg_CI conf) \<noteq> ''github'' then Inl (''unsupported CI provider: '' @ ci_Provider (cg_CI conf))
      else case (if RepoScoped class then newRepoProvider (cl_Repo class) (cl_Prefix class)
                 else Inr (newProvider (cl_Org class) (cl_Prefix class))) of
        Inl err \<Rightarrow> Inl err
      | Inr p \<Rightarrow>
          let key = githubTargetCacheKey class;
              (cache, owners) = (case map_of owners key of Some shared \<Rightarrow> (shared, owners) | None \<Rightarrow> (n, (key, n) # owners))
          in Inr (\<lparr>wp_Provider = SetWorkflowRepoBatchSize (mt_WorkflowRepoBatchSize (cg_Metrics conf)) p,
                   wp_Token = gh_Token (ci_GitHub (cg_CI conf)),
                   wp_WebhookSecret = gh_WebhookSecret (ci_GitHub (cg_CI conf)), wp_Cache = cache\<rparr>, owners))"

definition wireMetricsBackendForTarget :: "Config \<Rightarrow> string \<Rightarrow> lokiBackend option" where
  "wireMetricsBackendForTarget conf target =
     (if \<not> mt_Enabled (cg_Metrics conf) then None
      else let lk = mt_Loki (cg_Metrics conf) in Some (newLoki (lk_PushURL lk) (lk_Username lk) (lk_APIKey lk) target))"

definition daemonMetricsTarget :: "RunnerClass list \<Rightarrow> string" where
  "daemonMetricsTarget classes =
     (case classes of
        [] \<Rightarrow> []
      | c # rest \<Rightarrow>
          if list_ex (\<lambda>class. \<not> equal_fold (TargetName class) (TargetName c)) rest then ''multi-target''
          else TargetName c)"

text \<open>\<open>fsstate.New\<close> with the error of \<open>os.MkdirAll\<close>; a store is its directory.\<close>

definition newStateStore :: "gerror option \<Rightarrow> string \<Rightarrow> string result" where
  "newStateStore mkdir dir =
     (case mkdir of Some err \<Rightarrow> Inl (''creating state dir '' @ dir @ '': '' @ err) | None \<Rightarrow> Inr dir)"

definition wireState :: "gerror option \<Rightarrow> Config \<Rightarrow> string \<Rightarrow> string result" where
  "wireState mkdir conf stateDir =
     (if sg_Provider (cg_State conf) \<noteq> ''filesystem'' then
        Inl (''unsupported state provider: '' @ sg_Provider (cg_State conf))
      else case newStateStore mkdir stateDir of
        Inl err \<Rightarrow> Inl (''filesystem state: '' @ err)
      | Inr dir \<Rightarrow> Inr dir)"

section \<open>The groups\<close>

definition classStateDir :: "Config \<Rightarrow> RunnerClass \<Rightarrow> string" where
  "classStateDir conf class =
     (if cg_RunnerClasses conf = [] then sg_Dir (cg_State conf)
      else joinPath [sg_Dir (cg_State conf), ''runner-groups'', cl_ID class])"

definition classObservability :: "Config \<Rightarrow> RunnerClass \<Rightarrow> bootstrapper option" where
  "classObservability conf class =
     (let ob = cg_RunnerObservability conf in
      if ob_Enabled ob
      then Some \<lparr>b_HasExecutor = True, b_Config = \<lparr>oc_PushURL = ob_PushURL ob, oc_MaxRetries = ob_MaxRetries ob\<rparr>,
                  b_HealthURL = ob_HealthURL ob, b_GroupID = cl_ID class, b_Target = TargetName class\<rparr>
      else None)"

text \<open>The reconciler of a class; no readiness check is configured.  A GitHub provider has the optional
  methods that suspend its inventory.\<close>

text \<open>\<open>NewReconciler\<close> keeps its arguments; of the providers the reconciler only sees whether there is a cache
  and whether the CI provider can suspend its inventory.\<close>

definition NewReconciler :: "reconcilerConfig \<Rightarrow> bool \<Rightarrow> bool \<Rightarrow> reconciler" where
  [simp]: "NewReconciler config cache suspends = \<lparr>cfg = config, hasCache = cache, ciSuspends = suspends\<rparr>"

definition classReconciler :: "Config \<Rightarrow> RunnerClass \<Rightarrow> cacheManager option \<Rightarrow> reconciler" where
  "classReconciler conf class cache =
     NewReconciler
       \<lparr>rc_Prefix = cl_Prefix class, rc_Baseline = cl_Baseline class, rc_BaselineName = cl_BaselineName class,
        rc_MaxAutoRunners = cl_MaxAutoRunners class, rc_IdleTimeout = cl_IdleTimeout class, rc_Labels = cl_Labels class,
        rc_RunnerWorkDir = cl_RunnerWorkDir class, rc_CacheEnabled = ca_Enabled (cl_Cache class),
        rc_CachePrune = CachePrunePolicyFor (cl_Cache class), rc_ReadyCheck = [], rc_ReadyTimeout = 0,
        rc_Observability = classObservability conf class\<rparr>
       (cache \<noteq> None) True"

definition classGroup :: "RunnerClass \<Rightarrow> runnerGroup" where
  "classGroup class =
     \<lparr>g_ID = cl_ID class, g_Target = TargetName class, g_RepoScoped = RepoScoped class, g_Prefix = cl_Prefix class,
      g_MatchLabels = cl_MatchLabels class, g_BaselineName = cl_BaselineName class\<rparr>"

text \<open>The body of the loop of \<open>wireRunnerGroups\<close> for the class of number \<open>n\<close>, and the loop.\<close>

definition wireGroup ::
    "'c surroundings \<Rightarrow> Config \<Rightarrow> nat \<Rightarrow> (string \<times> nat) list \<Rightarrow> RunnerClass
     \<Rightarrow> ('c wiredGroup \<times> (string \<times> nat) list) result" where
  "wireGroup W conf n owners class =
     map_sum (\<lambda>err. ''runner class '' @ cl_ID class @ '': '' @ err) id
       (case wireRuntimeAndCache (su_Host W n) conf class of
          Inl err \<Rightarrow> Inl err
        | Inr (server, runtime, cache) \<Rightarrow>
            (case wireCIProvider conf n class owners of
               Inl err \<Rightarrow> Inl err
             | Inr (ci, owners) \<Rightarrow>
                 (case wireState (su_MkdirAll W n) conf (classStateDir conf class) of
                    Inl err \<Rightarrow> Inl err
                  | Inr state \<Rightarrow>
                      Inr (\<lparr>wg_Group = classGroup class, wg_CachePool = ca_Pool (cl_Cache class),
                            wg_Reconciler = classReconciler conf class cache, wg_CI = ci, wg_Server = server,
                            wg_Runtime = runtime, wg_Cache = cache, wg_StateDir = state,
                            wg_Metrics = wireMetricsBackendForTarget conf (TargetName class)\<rparr>, owners))))"

fun wireGroups ::
    "'c surroundings \<Rightarrow> Config \<Rightarrow> nat \<Rightarrow> (string \<times> nat) list \<Rightarrow> RunnerClass list \<Rightarrow> 'c wiredGroup list result" where
  "wireGroups W conf n owners [] = Inr []"
| "wireGroups W conf n owners (class # classes) =
     (case wireGroup W conf n owners class of
        Inl err \<Rightarrow> Inl err
      | Inr (grp, owners') \<Rightarrow>
          (case wireGroups W conf (Suc n) owners' classes of Inl err \<Rightarrow> Inl err | Inr groups \<Rightarrow> Inr (grp # groups)))"

definition wireRunnerGroups ::
    "'c surroundings \<Rightarrow> Config \<Rightarrow> ('c wiredGroup list \<times> lokiBackend option) result" where
  "wireRunnerGroups W conf =
     (case RunnerClassConfigs conf of
        Inl err \<Rightarrow> Inl err
      | Inr classes \<Rightarrow>
          (case wireGroups W conf 0 [] classes of
             Inl err \<Rightarrow> Inl err
           | Inr groups \<Rightarrow> Inr (groups, wireMetricsBackendForTarget conf (daemonMetricsTarget classes))))"

definition daemonConfigFrom :: "Config \<Rightarrow> daemonConfig" where
  "daemonConfigFrom conf =
     \<lparr>dc_Prefix = sc_Prefix (cg_Scaler conf), dc_PollInterval = sc_PollInterval (cg_Scaler conf),
      dc_QueueAuditInterval = sc_QueueAuditInterval (cg_Scaler conf), dc_WebhookEnabled = wc_Enabled (cg_Webhook conf),
      dc_WebhookPort = wc_Port (cg_Webhook conf), dc_WebhookDebounce = wc_Debounce (cg_Webhook conf),
      dc_LogsToken = wc_LogsToken (cg_Webhook conf), dc_MetricsEnabled = mt_Enabled (cg_Metrics conf),
      dc_MetricsInterval = mt_Interval (cg_Metrics conf), dc_CollectWorkflows = mt_CollectWorkflows (cg_Metrics conf),
      dc_CollectHost = mt_CollectHost (cg_Metrics conf), dc_CachePool = ca_Pool (cg_Cache conf),
      dc_StateDir = sg_Dir (cg_State conf), dc_DemandTTL = sc_DemandTTL (cg_Scaler conf),
      dc_DistributionVersionFile = di_VersionFile (cg_RunnerDistribution conf),
      dc_SyncRepos = wc_SyncRepos (cg_Webhook conf)\<rparr>"

text \<open>The loop of \<open>runReconcile\<close>: one pass of every group without demand, up to the first that fails.\<close>

fun reconcileOnce ::
    "(nat \<Rightarrow> env) \<Rightarrow> nat \<Rightarrow> 'c wiredGroup list \<Rightarrow> (string \<times> trace) list \<times> (string \<times> gerror) option" where
  "reconcileOnce envs n [] = ([], None)"
| "reconcileOnce envs n (grp # groups) =
     (case run_state (ReconcileDemand (envs n) (wg_Reconciler grp) \<lparr>d_QueuedJobs = 0, d_OldestAge = 0\<rparr>) [] of
        (Some err, tr) \<Rightarrow> ([(g_ID (wg_Group grp), tr)], Some (g_ID (wg_Group grp), err))
      | (None, tr) \<Rightarrow>
          (case reconcileOnce envs (Suc n) groups of (passes, failed) \<Rightarrow> ((g_ID (wg_Group grp), tr) # passes, failed)))"

section \<open>What the classes of a configuration give\<close>

lemma validateRepoFullName_parts:
  assumes "validateRepoFullName name repo = None"
  obtains owner r where "cut repo (CHR ''/'') = (owner, r, True)"
    "owner \<noteq> []" "r \<noteq> []" "trim_space owner = owner" "\<not> contains r ''/''"
proof -
  obtain owner r ok where cut: "cut repo (CHR ''/'') = (owner, r, ok)" by (metis prod_cases3)
  with assms have parts: "ok" "trim_space owner \<noteq> []" "trim_space r \<noteq> []" "trim_space owner = owner" "\<not> contains r ''/''"
    by (simp_all add: validateRepoFullName_def split: if_splits)
  then show thesis using cut by (intro that) auto
qed

lemma repo_provider:
  assumes "validateRepoFullName name repo = None" and "trim_space repo = repo"
  obtains p where "newRepoProvider repo pfx = Inr p" "targetName p = repo" "gp_prefix p = pfx" "gp_repo p \<noteq> []"
proof -
  obtain owner r where parts: "cut repo (CHR ''/'') = (owner, r, True)"
    "owner \<noteq> []" "r \<noteq> []" "trim_space owner = owner" "\<not> contains r ''/''"
    using assms(1) by (rule validateRepoFullName_parts)
  let ?p = "(newProvider owner pfx)\<lparr>gp_repo := r\<rparr>"
  have "newRepoProvider repo pfx = Inr ?p"
    using assms(2) parts by (simp add: newRepoProvider_def splitRepoFullName_def)
  moreover have "targetName ?p = repo"
    using parts cut_parts [OF parts(1)] by (simp add: targetName_def newProvider_sel)
  moreover have "gp_prefix ?p = pfx" "gp_repo ?p \<noteq> []" using parts(3) by (simp_all add: newProvider_sel)
  ultimately show thesis by (rule that)
qed

definition targetOk :: "RunnerClass \<Rightarrow> bool" where
  "targetOk c \<longleftrightarrow> trim_space (cl_Org c) = cl_Org c \<and> trim_space (cl_Repo c) = cl_Repo c
     \<and> (cl_Org c = [] \<longleftrightarrow> cl_Repo c \<noteq> []) \<and> (cl_Repo c \<noteq> [] \<longrightarrow> (\<exists>name. validateRepoFullName name (cl_Repo c) = None))"

lemma validateRunnerTarget_None:
  "validateRunnerTarget name org repo = None \<Longrightarrow>
     (org = [] \<longleftrightarrow> repo \<noteq> []) \<and> (repo \<noteq> [] \<longrightarrow> validateRepoFullName (name @ ''.repo'') repo = None)"
  by (auto simp: validateRunnerTarget_def split: if_splits)

lemma resolveTarget_trimmed:
  "resolveTarget a b c d = (org, repo) \<Longrightarrow> trim_space org = org \<and> trim_space repo = repo"
  by (auto simp: resolveTarget_def trim_space_idem split: if_splits)

lemma resolveClass_target:
  assumes "resolveClass conf raw = Inr c"
  shows "targetOk c"
proof -
  obtain org repo where target: "resolveTarget (rk_Org raw) (rk_Repo raw) (ci_Org (cg_CI conf)) (ci_Repo (cg_CI conf)) = (org, repo)"
    by fastforce
  with assms have cache: "withCacheProfile conf raw (inheritedClass conf raw org repo) = Inr c" and ok: "checkClass c = None"
    by (auto simp: resolveClass_def split: if_splits sum.splits option.splits)
  from cache have "cl_Org c = org" "cl_Repo c = repo"
    by (auto simp: withCacheProfile_def inheritedClass_def Let_def split: if_splits option.splits)
  with resolveTarget_trimmed [OF target] show ?thesis
    using ok validateRunnerTarget_None unfolding checkClass_None targetOk_def by blast
qed

lemma class_target:
  assumes "RunnerClassConfigs conf = Inr classes" and "c \<in> set classes"
  shows "targetOk c"
proof (cases "cg_RunnerClasses conf = []")
  case True
  obtain org repo where target: "resolveTarget [] [] (ci_Org (cg_CI conf)) (ci_Repo (cg_CI conf)) = (org, repo)" by fastforce
  with True assms have "c = legacyClass conf org repo" "validateRunnerTarget ''ci'' org repo = None"
    by (auto simp: RunnerClassConfigs_def split: if_splits option.splits)
  then show ?thesis
    using resolveTarget_trimmed [OF target] validateRunnerTarget_None [of "''ci''" org repo]
    by (auto simp: targetOk_def legacyClass_def Let_def)
next
  case False
  have "resolveClasses conf raws = Inr cs \<Longrightarrow> c \<in> set cs \<Longrightarrow> targetOk c" for raws cs
    by (induction raws arbitrary: cs) (auto split: if_splits sum.splits dest: resolveClass_target)
  with False assms show ?thesis by (auto simp: RunnerClassConfigs_def split: if_splits sum.splits)
qed

section \<open>An example\<close>

text \<open>Two classes of one repository, and surroundings where everything succeeds.\<close>

definition sampleWiredConfig :: Config where
  "sampleWiredConfig = Config.sampleConfig [sampleClass ''a'' ''ci'' False, sampleClass ''b'' ''gpu'' True]"

definition sampleSurroundings :: "unit surroundings" where
  "sampleSurroundings = \<lparr>su_Host = (\<lambda>n. sampleHost), su_MkdirAll = (\<lambda>n. None)\<rparr>"

definition sampleWired :: "unit wiredGroup list" where
  "sampleWired = (case wireRunnerGroups sampleSurroundings sampleWiredConfig of Inr (groups, _) \<Rightarrow> groups | Inl _ \<Rightarrow> [])"

definition sampleWiredMetrics :: "lokiBackend option" where
  "sampleWiredMetrics = (case wireRunnerGroups sampleSurroundings sampleWiredConfig of Inr (_, m) \<Rightarrow> m | Inl _ \<Rightarrow> None)"

lemma sample_wired_loads:
  "Load (sampleDecode [sampleClass ''a'' ''ci'' False, sampleClass ''b'' ''gpu'' True]) Config.sampleEnv ''config.toml''
     = Inr sampleWiredConfig"
  unfolding sampleWiredConfig_def by (rule sample_loads)

lemma sample_wired: "wireRunnerGroups sampleSurroundings sampleWiredConfig = Inr (sampleWired, sampleWiredMetrics)"
proof -
  have "(case wireRunnerGroups sampleSurroundings sampleWiredConfig of Inl _ \<Rightarrow> False | Inr _ \<Rightarrow> True)" by code_simp
  then show ?thesis
    by (cases "wireRunnerGroups sampleSurroundings sampleWiredConfig")
       (auto simp: sampleWired_def sampleWiredMetrics_def split: prod.splits)
qed

section \<open>Groups and their classes\<close>

text \<open>What each part of a group takes from the class: the fields the router matches on, the
  configuration of the reconciler, the cache manager, the GitHub provider and the metrics backend.\<close>

definition routerFollows :: "RunnerClass \<Rightarrow> runnerGroup \<Rightarrow> bool" where
  "routerFollows c r \<longleftrightarrow> g_ID r = cl_ID c \<and> g_Target r = TargetName c \<and> (g_RepoScoped r \<longleftrightarrow> RepoScoped c)
     \<and> g_Prefix r = cl_Prefix c \<and> g_MatchLabels r = cl_MatchLabels c \<and> g_BaselineName r = cl_BaselineName c"

definition observabilityFollows :: "Config \<Rightarrow> RunnerClass \<Rightarrow> bootstrapper option \<Rightarrow> bool" where
  "observabilityFollows conf c b \<longleftrightarrow>
     (let ob = cg_RunnerObservability conf in
      case b of
        None \<Rightarrow> \<not> ob_Enabled ob
      | Some b \<Rightarrow> ob_Enabled ob \<and> b_HasExecutor b \<and> b_GroupID b = cl_ID c \<and> b_Target b = TargetName c
          \<and> b_HealthURL b = ob_HealthURL ob \<and> oc_PushURL (b_Config b) = ob_PushURL ob
          \<and> oc_MaxRetries (b_Config b) = ob_MaxRetries ob)"

definition reconcilerFollows :: "Config \<Rightarrow> RunnerClass \<Rightarrow> reconciler \<Rightarrow> bool" where
  "reconcilerFollows conf c r \<longleftrightarrow> rc_Prefix (cfg r) = cl_Prefix c
     \<and> (rc_Baseline (cfg r) \<longleftrightarrow> cl_Baseline c) \<and> rc_BaselineName (cfg r) = cl_BaselineName c
     \<and> rc_MaxAutoRunners (cfg r) = cl_MaxAutoRunners c \<and> rc_IdleTimeout (cfg r) = cl_IdleTimeout c
     \<and> rc_Labels (cfg r) = cl_Labels c \<and> rc_RunnerWorkDir (cfg r) = cl_RunnerWorkDir c
     \<and> (rc_CacheEnabled (cfg r) \<longleftrightarrow> ca_Enabled (cl_Cache c)) \<and> (hasCache r \<longleftrightarrow> ca_Enabled (cl_Cache c))
     \<and> rc_CachePrune (cfg r) = CachePrunePolicyFor (cl_Cache c)
     \<and> rc_ReadyCheck (cfg r) = [] \<and> rc_ReadyTimeout (cfg r) = 0 \<and> ciSuspends r
     \<and> observabilityFollows conf c (rc_Observability (cfg r))"

definition cacheFollows :: "RunnerClass \<Rightarrow> cacheManager option \<Rightarrow> bool" where
  "cacheFollows c manager \<longleftrightarrow>
     (case manager of
        None \<Rightarrow> \<not> ca_Enabled (cl_Cache c)
      | Some m \<Rightarrow> ca_Enabled (cl_Cache c) \<and> cm_pool m = ca_Pool (cl_Cache c) \<and> cm_volume m = ca_Volume (cl_Cache c)
          \<and> cm_symlinks m = ca_Symlinks (cl_Cache c))"

definition githubFollows :: "Config \<Rightarrow> RunnerClass \<Rightarrow> ciProvider \<Rightarrow> bool" where
  "githubFollows conf c ci \<longleftrightarrow> gp_prefix (wp_Provider ci) = cl_Prefix c \<and> targetName (wp_Provider ci) = TargetName c
     \<and> (gp_repo (wp_Provider ci) \<noteq> [] \<longleftrightarrow> RepoScoped c)
     \<and> gp_batchSize (wp_Provider ci) = max 0 (mt_WorkflowRepoBatchSize (cg_Metrics conf))
     \<and> wp_Token ci = gh_Token (ci_GitHub (cg_CI conf))
     \<and> wp_WebhookSecret ci = gh_WebhookSecret (ci_GitHub (cg_CI conf))"

definition metricsFollow :: "Config \<Rightarrow> RunnerClass \<Rightarrow> lokiBackend option \<Rightarrow> bool" where
  "metricsFollow conf c metrics \<longleftrightarrow>
     (let lk = mt_Loki (cg_Metrics conf) in
      case metrics of
        None \<Rightarrow> \<not> mt_Enabled (cg_Metrics conf)
      | Some b \<Rightarrow> mt_Enabled (cg_Metrics conf) \<and> lb_pushURL b = lk_PushURL lk \<and> lb_username b = lk_Username lk
          \<and> lb_apiKey b = lk_APIKey lk \<and> lb_org b = TargetName c)"

definition groupFollows :: "Config \<Rightarrow> RunnerClass \<Rightarrow> 'c wiredGroup \<Rightarrow> bool" where
  "groupFollows conf c g \<longleftrightarrow>
     routerFollows c (wg_Group g) \<and> reconcilerFollows conf c (wg_Reconciler g)
     \<and> cacheFollows c (wg_Cache g) \<and> wg_CachePool g = ca_Pool (cl_Cache c)
     \<and> githubFollows conf c (wg_CI g)
     \<and> rt_template (wg_Runtime g) = cl_Template c \<and> rt_network (wg_Runtime g) = lx_Network (ct_LXD (cg_Container conf))
     \<and> wg_StateDir g = classStateDir conf c \<and> metricsFollow conf c (wg_Metrics g)"

lemma classGroup_follows: "routerFollows c (classGroup c)"
  by (simp add: routerFollows_def classGroup_def)

lemma classReconciler_follows:
  assumes "cacheFollows c cache"
  shows "reconcilerFollows conf c (classReconciler conf c cache)"
proof -
  have "observabilityFollows conf c (classObservability conf c)"
    by (simp add: observabilityFollows_def classObservability_def Let_def)
  moreover have "cache \<noteq> None \<longleftrightarrow> ca_Enabled (cl_Cache c)"
    using assms by (cases cache) (simp_all add: cacheFollows_def)
  ultimately show ?thesis by (simp add: reconcilerFollows_def classReconciler_def)
qed

lemma metricsBackend_follows: "metricsFollow conf c (wireMetricsBackendForTarget conf (TargetName c))"
  by (simp add: metricsFollow_def wireMetricsBackendForTarget_def newLoki_def Let_def)

lemma newLxdRuntime_runtime:
  "newLxdRuntime ho socket remote url cert key tmpl network = Inr (server, r)
    \<Longrightarrow> rt_template r = tmpl \<and> rt_network r = network"
  by (auto simp: newLxdRuntime_def Let_def split: if_splits sum.splits)

lemma batch_size_sel:
  "targetName (SetWorkflowRepoBatchSize n p) = targetName p" "gp_prefix (SetWorkflowRepoBatchSize n p) = gp_prefix p"
  "gp_repo (SetWorkflowRepoBatchSize n p) = gp_repo p" "gp_batchSize (SetWorkflowRepoBatchSize n p) = max 0 n"
  by (simp_all add: SetWorkflowRepoBatchSize_def targetName_def)

lemma wireCIProvider_ok:
  assumes "targetOk c" and "ci_Provider (cg_CI conf) = ''github''"
  obtains ci owners' where "wireCIProvider conf n c owners = Inr (ci, owners')"
    "githubFollows conf c ci"
    "map_of owners' (githubTargetCacheKey c) = Some (wp_Cache ci)"
    "owners' = owners \<or> (map_of owners (githubTargetCacheKey c) = None \<and> owners' = (githubTargetCacheKey c, n) # owners)"
proof -
  obtain p where p: "(if RepoScoped c then newRepoProvider (cl_Repo c) (cl_Prefix c) else Inr (newProvider (cl_Org c) (cl_Prefix c))) = Inr p"
    "targetName p = TargetName c" "gp_prefix p = cl_Prefix c" "gp_repo p \<noteq> [] \<longleftrightarrow> RepoScoped c"
  proof (cases "RepoScoped c")
    case True
    with assms(1) obtain name where "validateRepoFullName name (cl_Repo c) = None" "trim_space (cl_Repo c) = cl_Repo c"
      by (auto simp: targetOk_def RepoScoped_def)
    then obtain p where "newRepoProvider (cl_Repo c) (cl_Prefix c) = Inr p" "targetName p = cl_Repo c"
      "gp_prefix p = cl_Prefix c" "gp_repo p \<noteq> []" by (rule repo_provider)
    with True show ?thesis by (intro that [of p]) (simp_all add: TargetName_def RepoScoped_def)
  next
    case False
    with assms(1) show ?thesis
      by (intro that [of "newProvider (cl_Org c) (cl_Prefix c)"])
         (simp_all add: targetOk_def RepoScoped_def TargetName_def targetName_def newProvider_sel)
  qed
  define q where "q = SetWorkflowRepoBatchSize (mt_WorkflowRepoBatchSize (cg_Metrics conf)) p"
  have q: "gp_prefix q = cl_Prefix c" "targetName q = TargetName c" "gp_repo q \<noteq> [] \<longleftrightarrow> RepoScoped c"
    "gp_batchSize q = max 0 (mt_WorkflowRepoBatchSize (cg_Metrics conf))"
    using p(2-4) by (simp_all add: q_def batch_size_sel)
  define k where "k = (case map_of owners (githubTargetCacheKey c) of Some shared \<Rightarrow> shared | None \<Rightarrow> n)"
  define ci where "ci = \<lparr>wp_Provider = q, wp_Token = gh_Token (ci_GitHub (cg_CI conf)),
    wp_WebhookSecret = gh_WebhookSecret (ci_GitHub (cg_CI conf)), wp_Cache = k\<rparr>"
  define owners' where "owners' = (case map_of owners (githubTargetCacheKey c) of
    Some shared \<Rightarrow> owners | None \<Rightarrow> (githubTargetCacheKey c, n) # owners)"
  have sel: "wp_Provider ci = q" "wp_Cache ci = k" by (simp_all add: ci_def)
  have "githubFollows conf c ci" using q by (simp add: githubFollows_def ci_def)
  moreover have "wireCIProvider conf n c owners = Inr (ci, owners')"
    using p(1) assms(2)
    by (simp add: wireCIProvider_def Let_def ci_def k_def owners'_def q_def split: option.split)
  moreover have "map_of owners' (githubTargetCacheKey c) = Some (wp_Cache ci)"
    "owners' = owners \<or> (map_of owners (githubTargetCacheKey c) = None \<and> owners' = (githubTargetCacheKey c, n) # owners)"
    by (simp_all add: sel k_def owners'_def split: option.split)
  ultimately show ?thesis using that by simp
qed

definition supportedProviders :: "Config \<Rightarrow> bool" where
  "supportedProviders conf \<longleftrightarrow> ct_Provider (cg_Container conf) = ''lxd'' \<and> ci_Provider (cg_CI conf) = ''github''
     \<and> sg_Provider (cg_State conf) = ''filesystem''"

text \<open>What the surroundings have to do for the class of number \<open>n\<close>: connect and create the directory.\<close>

definition surroundingsOk :: "'c surroundings \<Rightarrow> Config \<Rightarrow> nat \<Rightarrow> RunnerClass \<Rightarrow> bool" where
  "surroundingsOk W conf n c \<longleftrightarrow> \<not> isl (connectRuntime (su_Host W n) conf c) \<and> su_MkdirAll W n = None"

lemma wireRuntimeAndCache_fails:
  "isl (wireRuntimeAndCache ho conf c) \<longleftrightarrow> ct_Provider (cg_Container conf) \<noteq> ''lxd'' \<or> isl (connectRuntime ho conf c)"
  by (simp add: wireRuntimeAndCache_def Let_def split: sum.split)

lemma wireState_fails:
  "isl (wireState mkdir conf dir) \<longleftrightarrow> sg_Provider (cg_State conf) \<noteq> ''filesystem'' \<or> mkdir \<noteq> None"
  by (simp add: wireState_def newStateStore_def split: option.split)

lemma wireCIProvider_fails: "ci_Provider (cg_CI conf) \<noteq> ''github'' \<Longrightarrow> isl (wireCIProvider conf n c owners)"
  by (simp add: wireCIProvider_def)

lemma wireGroup_fails:
  assumes "isl (wireRuntimeAndCache (su_Host W n) conf c) \<or> isl (wireCIProvider conf n c owners)
    \<or> isl (wireState (su_MkdirAll W n) conf (classStateDir conf c))"
  shows "isl (wireGroup W conf n owners c)"
  using assms
  by (cases "wireRuntimeAndCache (su_Host W n) conf c"; cases "wireCIProvider conf n c owners";
      cases "wireState (su_MkdirAll W n) conf (classStateDir conf c)") (simp_all add: wireGroup_def split: prod.splits)

text \<open>One class: when it is wired, and what the group is then.\<close>

lemma wireGroup_ok:
  assumes "targetOk c"
  shows "(case wireGroup W conf n owners c of
      Inl _ \<Rightarrow> \<not> (supportedProviders conf \<and> surroundingsOk W conf n c)
    | Inr (g, owners') \<Rightarrow> supportedProviders conf \<and> surroundingsOk W conf n c \<and> groupFollows conf c g
        \<and> map_of owners' (githubTargetCacheKey c) = Some (wp_Cache (wg_CI g))
        \<and> (owners' = owners \<or> map_of owners (githubTargetCacheKey c) = None \<and> owners' = (githubTargetCacheKey c, n) # owners))"
proof (cases "supportedProviders conf \<and> surroundingsOk W conf n c")
  case False
  then have "isl (wireGroup W conf n owners c)"
    unfolding supportedProviders_def surroundingsOk_def
    by (intro wireGroup_fails) (auto simp: wireRuntimeAndCache_fails wireState_fails wireCIProvider_fails)
  with False show ?thesis by (auto simp: isl_def)
next
  case True
  then obtain server r where conn: "connectRuntime (su_Host W n) conf c = Inr (server, r)"
    by (cases "connectRuntime (su_Host W n) conf c") (auto simp: surroundingsOk_def)
  then have r: "rt_template r = cl_Template c \<and> rt_network r = lx_Network (ct_LXD (cg_Container conf))"
    unfolding connectRuntime_def Let_def by (rule newLxdRuntime_runtime)
  have gh: "ci_Provider (cg_CI conf) = ''github''" using True by (simp add: supportedProviders_def)
  obtain ci owners' where ci: "wireCIProvider conf n c owners = Inr (ci, owners')"
    "githubFollows conf c ci"
    "map_of owners' (githubTargetCacheKey c) = Some (wp_Cache ci)"
    "owners' = owners \<or> (map_of owners (githubTargetCacheKey c) = None \<and> owners' = (githubTargetCacheKey c, n) # owners)"
    by (rule wireCIProvider_ok [OF assms gh])
  define cache where "cache = (if ca_Enabled (cl_Cache c)
    then Some (NewCacheManager (ca_Pool (cl_Cache c)) (ca_Volume (cl_Cache c)) (ca_Symlinks (cl_Cache c))) else None)"
  define g where "g = \<lparr>wg_Group = classGroup c, wg_CachePool = ca_Pool (cl_Cache c),
    wg_Reconciler = classReconciler conf c cache, wg_CI = ci, wg_Server = server, wg_Runtime = r, wg_Cache = cache,
    wg_StateDir = classStateDir conf c, wg_Metrics = wireMetricsBackendForTarget conf (TargetName c)\<rparr>"
  have sel: "wg_Group g = classGroup c" "wg_Reconciler g = classReconciler conf c cache" "wg_CI g = ci"
    "wg_Runtime g = r" "wg_Cache g = cache" "wg_CachePool g = ca_Pool (cl_Cache c)" "wg_StateDir g = classStateDir conf c"
    "wg_Metrics g = wireMetricsBackendForTarget conf (TargetName c)"
    by (simp_all add: g_def)
  have "wireRuntimeAndCache (su_Host W n) conf c = Inr (server, r, cache)"
    using True conn by (simp add: wireRuntimeAndCache_def supportedProviders_def cache_def Let_def)
  moreover have "wireState (su_MkdirAll W n) conf (classStateDir conf c) = Inr (classStateDir conf c)"
    using True by (simp add: wireState_def newStateStore_def supportedProviders_def surroundingsOk_def)
  ultimately have wired: "wireGroup W conf n owners c = Inr (g, owners')"
    using ci(1) by (simp add: wireGroup_def g_def)
  have "cacheFollows c cache" by (simp add: cacheFollows_def cache_def NewCacheManager_def)
  then have "groupFollows conf c g"
    unfolding groupFollows_def sel
    using ci(2) r by (simp add: classGroup_follows classReconciler_follows metricsBackend_follows)
  with wired True ci(3,4) show ?thesis by (simp add: sel)
qed

text \<open>\<open>ownersOk n\<close>: every target has one owner, of a number below \<open>n\<close>, and no owner has two targets.\<close>

definition ownersOk :: "nat \<Rightarrow> (string \<times> nat) list \<Rightarrow> bool" where
  "ownersOk n owners \<longleftrightarrow> (\<forall>k m. map_of owners k = Some m \<longrightarrow> m < n)
     \<and> (\<forall>k k' m. map_of owners k = Some m \<longrightarrow> map_of owners k' = Some m \<longrightarrow> k = k')"

lemma ownersOk_step:
  assumes "ownersOk n owners" and "owners' = owners \<or> map_of owners k = None \<and> owners' = (k, n) # owners"
  shows "ownersOk (Suc n) owners' \<and> map_le (map_of owners) (map_of owners')"
  using assms unfolding ownersOk_def map_le_def
  by (auto simp: less_Suc_eq split: if_splits) fastforce+

definition followsFrom :: "'c surroundings \<Rightarrow> Config \<Rightarrow> nat \<Rightarrow> RunnerClass list \<Rightarrow> bool" where
  "followsFrom W conf n classes \<longleftrightarrow> list_all (\<lambda>(i, c). surroundingsOk W conf i c) (List.enumerate n classes)"

lemma wireGroups_ok:
  assumes "\<forall>c\<in>set classes. targetOk c" and "ownersOk n owners"
  shows "(case wireGroups W conf n owners classes of
      Inl _ \<Rightarrow> \<not> (supportedProviders conf \<and> followsFrom W conf n classes)
    | Inr groups \<Rightarrow> (classes = [] \<or> supportedProviders conf) \<and> followsFrom W conf n classes
        \<and> list_all2 (groupFollows conf) classes groups
        \<and> (\<exists>m final. ownersOk m final \<and> map_le (map_of owners) (map_of final)
            \<and> list_all2 (\<lambda>c g. map_of final (githubTargetCacheKey c) = Some (wp_Cache (wg_CI g))) classes groups))"
  using assms
proof (induction classes arbitrary: n owners)
  case Nil
  then show ?case by (auto simp: followsFrom_def intro!: exI [of _ n] exI [of _ owners])
next
  case (Cons c classes)
  show ?case
  proof (cases "wireGroup W conf n owners c")
    case (Inl e)
    with wireGroup_ok [of c conf W n owners] Cons.prems show ?thesis by (auto simp: followsFrom_def)
  next
    case (Inr go)
    then obtain g owners' where wired: "wireGroup W conf n owners c = Inr (g, owners')" by (cases go) auto
    with wireGroup_ok [of c conf W n owners] Cons.prems
    have one: "supportedProviders conf" "surroundingsOk W conf n c" "groupFollows conf c g"
      "map_of owners' (githubTargetCacheKey c) = Some (wp_Cache (wg_CI g))"
      "owners' = owners \<or> map_of owners (githubTargetCacheKey c) = None \<and> owners' = (githubTargetCacheKey c, n) # owners"
      by simp_all
    have step: "ownersOk (Suc n) owners'" "map_le (map_of owners) (map_of owners')"
      using ownersOk_step [OF Cons.prems(2) one(5)] by blast+
    have from_c: "followsFrom W conf n (c # classes) \<longleftrightarrow> followsFrom W conf (Suc n) classes"
      using one(2) by (simp add: followsFrom_def)
    note IH = Cons.IH [OF _ step(1)]
    show ?thesis
    proof (cases "wireGroups W conf (Suc n) owners' classes")
      case (Inl e)
      with IH Cons.prems(1) wired from_c show ?thesis by simp
    next
      case (Inr groups)
      with IH Cons.prems(1) obtain m final where rest: "followsFrom W conf (Suc n) classes"
        "list_all2 (groupFollows conf) classes groups" "ownersOk m final" "map_le (map_of owners') (map_of final)"
        "list_all2 (\<lambda>c g. map_of final (githubTargetCacheKey c) = Some (wp_Cache (wg_CI g))) classes groups"
        by auto
      have "map_of final (githubTargetCacheKey c) = Some (wp_Cache (wg_CI g))"
        using rest(4) one(4) by (metis map_le_def domI)
      moreover have "map_le (map_of owners) (map_of final)" using step(2) rest(4) by (rule map_le_trans)
      ultimately show ?thesis using wired Inr one rest from_c by auto
    qed
  qed
qed

text \<open>The groups of a configuration.\<close>

lemma wired:
  assumes "wireRunnerGroups W conf = Inr (groups, metrics)"
  obtains classes where "RunnerClassConfigs conf = Inr classes" "list_all2 (groupFollows conf) classes groups"
    "\<forall>c g d h. (c, g) \<in> set (zip classes groups) \<longrightarrow> (d, h) \<in> set (zip classes groups) \<longrightarrow>
       (wp_Cache (wg_CI g) = wp_Cache (wg_CI h) \<longleftrightarrow> githubTargetCacheKey c = githubTargetCacheKey d)"
proof -
  obtain classes where classes: "RunnerClassConfigs conf = Inr classes" "wireGroups W conf 0 [] classes = Inr groups"
    using assms by (auto simp: wireRunnerGroups_def split: sum.splits)
  have "\<forall>c\<in>set classes. targetOk c" using class_target [OF classes(1)] by blast
  moreover have "ownersOk 0 []" by (simp add: ownersOk_def)
  ultimately obtain m final where final: "list_all2 (groupFollows conf) classes groups" "ownersOk m final"
    "list_all2 (\<lambda>c g. map_of final (githubTargetCacheKey c) = Some (wp_Cache (wg_CI g))) classes groups"
    using wireGroups_ok [of classes 0 "[]" conf W] classes(2) by auto
  have "wp_Cache (wg_CI g) = wp_Cache (wg_CI h) \<longleftrightarrow> githubTargetCacheKey c = githubTargetCacheKey d"
    if "(c, g) \<in> set (zip classes groups)" "(d, h) \<in> set (zip classes groups)" for c g d h
  proof -
    from that final(3) have "map_of final (githubTargetCacheKey c) = Some (wp_Cache (wg_CI g))"
      "map_of final (githubTargetCacheKey d) = Some (wp_Cache (wg_CI h))"
      by (auto simp: list_all2_iff)
    with final(2) show ?thesis unfolding ownersOk_def by (metis option.inject)
  qed
  then show thesis using that [OF classes(1) final(1)] by blast
qed

lemma githubTargetCacheKey_eq:
  "githubTargetCacheKey c = githubTargetCacheKey d \<longleftrightarrow>
     RepoScoped c = RepoScoped d \<and> equal_fold (TargetName c) (TargetName d)"
proof -
  have "to_lower (''repo:'' @ x) = ''repo:'' @ to_lower x" "to_lower (''org:'' @ x) = ''org:'' @ to_lower x" for x
    by (simp_all add: to_lower_def lower_char_def)
  then show ?thesis
    by (auto simp: githubTargetCacheKey_def equal_fold_def TargetName_def RepoScoped_def)
qed

text \<open>A wired reconciler meets what the theorems on passes ask for.\<close>

lemma wired_reconciler:
  assumes "Load decodeFile getenv path = Inr conf" and "wireRunnerGroups W conf = Inr (groups, metrics)"
    and "g \<in> set groups"
  shows "baselineApart (wg_Reconciler g) \<and> 0 < rc_IdleTimeout (cfg (wg_Reconciler g))
    \<and> rc_Prefix (cfg (wg_Reconciler g)) = g_Prefix (wg_Group g)"
proof -
  obtain classes where classes: "RunnerClassConfigs conf = Inr classes" "list_all2 (groupFollows conf) classes groups"
    using assms(2) by (rule wired)
  then obtain c where c: "c \<in> set classes" "groupFollows conf c g"
    using assms(3) by (metis in_set_conv_nth list_all2_conv_all_nth)
  obtain classes' where "accepted conf classes'" using assms(1) by (rule loaded_accepted)
  with classes(1) have "list_all (classOk conf) classes" "separated classes" by (simp_all add: accepted_def)
  then have ok: "0 < cl_IdleTimeout c" "cl_Baseline c \<Longrightarrow> \<not> has_prefix (cl_BaselineName c) (cl_Prefix c)"
    using c(1) by (simp_all add: classOk_def list_all_iff separated_def)
  from c(2) have "reconcilerFollows conf c (wg_Reconciler g)" "routerFollows c (wg_Group g)"
    by (simp_all only: groupFollows_def)
  with ok show ?thesis by (simp add: reconcilerFollows_def routerFollows_def baselineApart_def)
qed

lemma wired_metrics:
  assumes "wireRunnerGroups W conf = Inr (groups, metrics)" and "g \<in> set groups"
  shows "wg_Metrics g \<noteq> None \<longleftrightarrow> mt_Enabled (cg_Metrics conf)"
proof -
  obtain classes where "list_all2 (groupFollows conf) classes groups" using assms(1) by (rule wired)
  then obtain c where "groupFollows conf c g" using assms(2) by (metis in_set_conv_nth list_all2_conv_all_nth)
  then have "metricsFollow conf c (wg_Metrics g)" by (simp only: groupFollows_def)
  then show ?thesis by (cases "wg_Metrics g") (simp_all add: metricsFollow_def Let_def)
qed

lemma wired_nonempty:
  assumes "Load decodeFile getenv path = Inr conf" and "wireRunnerGroups W conf = Inr (groups, metrics)"
  shows "groups \<noteq> []"
proof -
  obtain classes where classes: "RunnerClassConfigs conf = Inr classes" "list_all2 (groupFollows conf) classes groups"
    using assms(2) by (rule wired)
  moreover obtain classes' where "accepted conf classes'" using assms(1) by (rule loaded_accepted)
  ultimately show ?thesis by (auto simp: accepted_def)
qed

text \<open>C37. The groups of a loaded configuration follow its classes one by one, in order.  The router of a
  group has the id, the target, the prefix, the labels and the baseline of its class; the reconciler its
  limits, timeout, labels, work directory, prune policy and baseline; the cache manager exists exactly if
  the class has a cache and then uses the pool, the volume and the symlinks of the class, and the group
  reports that pool; the GitHub provider has the prefix and the target of the class, the runtime its
  template and the configured network; the metrics go to the configured Loki under the name of the
  target.  Ids and prefixes are distinct, and every reconciler keeps its baseline apart and has a positive
  idle timeout.\<close>

theorem groups_follow_classes:
  assumes "Load decodeFile getenv path = Inr conf" and "wireRunnerGroups W conf = Inr (groups, metrics)"
  shows "\<exists>classes. RunnerClassConfigs conf = Inr classes \<and> list_all2 (groupFollows conf) classes groups
    \<and> groups \<noteq> [] \<and> distinct (map (g_ID \<circ> wg_Group) groups) \<and> distinct (map (g_Prefix \<circ> wg_Group) groups)
    \<and> list_all (\<lambda>g. baselineApart (wg_Reconciler g) \<and> 0 < rc_IdleTimeout (cfg (wg_Reconciler g))) groups"
proof -
  obtain classes where classes: "RunnerClassConfigs conf = Inr classes" "list_all2 (groupFollows conf) classes groups"
    using assms(2) by (rule wired)
  obtain classes' where "accepted conf classes'" using assms(1) by (rule loaded_accepted)
  with classes(1) have ok: "classes \<noteq> []" "separated classes" by (simp_all add: accepted_def)
  have follow: "map (g_ID \<circ> wg_Group) groups = map cl_ID classes" "map (g_Prefix \<circ> wg_Group) groups = map cl_Prefix classes"
    using classes(2) by (induction rule: list_all2_induct) (simp_all add: groupFollows_def routerFollows_def)
  have "baselineApart (wg_Reconciler g) \<and> 0 < rc_IdleTimeout (cfg (wg_Reconciler g))" if "g \<in> set groups" for g
    using wired_reconciler [OF assms that] by blast
  moreover have "groups \<noteq> []" using ok(1) classes(2) by auto
  ultimately show ?thesis using classes follow ok(2) by (auto simp: separated_def list_all_iff)
qed

theorem groups_follow_classes_witness:
  "\<exists>classes. RunnerClassConfigs sampleWiredConfig = Inr classes \<and> list_all2 (groupFollows sampleWiredConfig) classes sampleWired
    \<and> sampleWired \<noteq> [] \<and> distinct (map (g_ID \<circ> wg_Group) sampleWired) \<and> distinct (map (g_Prefix \<circ> wg_Group) sampleWired)
    \<and> list_all (\<lambda>g. baselineApart (wg_Reconciler g) \<and> 0 < rc_IdleTimeout (cfg (wg_Reconciler g))) sampleWired"
  by (rule groups_follow_classes [OF sample_wired_loads sample_wired])

text \<open>Wiring a loaded configuration succeeds exactly if its providers are lxd, github and filesystem and,
  for every class, the connection to LXD and the creation of the state directory succeed: no target or
  prefix that was accepted can make it fail.\<close>

theorem wiring_succeeds:
  assumes "Load decodeFile getenv path = Inr conf"
  shows "(\<exists>groups metrics. wireRunnerGroups W conf = Inr (groups, metrics)) \<longleftrightarrow>
    supportedProviders conf \<and> (\<exists>classes. RunnerClassConfigs conf = Inr classes \<and> followsFrom W conf 0 classes)"
proof -
  obtain classes where classes: "RunnerClassConfigs conf = Inr classes" "classes \<noteq> []"
    using loaded_accepted [OF assms] unfolding accepted_def by blast
  have "\<forall>c\<in>set classes. targetOk c" using class_target [OF classes(1)] by blast
  moreover have "ownersOk 0 []" by (simp add: ownersOk_def)
  ultimately show ?thesis
    using wireGroups_ok [of classes 0 "[]" conf W] classes
    by (cases "wireGroups W conf 0 [] classes") (auto simp: wireRunnerGroups_def)
qed

theorem wiring_succeeds_witness:
  "\<exists>groups metrics. wireRunnerGroups sampleSurroundings sampleWiredConfig = Inr (groups, metrics)"
proof -
  have "supportedProviders sampleWiredConfig" by code_simp
  moreover have "(case RunnerClassConfigs sampleWiredConfig of
      Inl _ \<Rightarrow> False | Inr classes \<Rightarrow> followsFrom sampleSurroundings sampleWiredConfig 0 classes)"
    by code_simp
  ultimately show ?thesis
    unfolding wiring_succeeds [OF sample_wired_loads] by (auto split: sum.splits)
qed

text \<open>C38. Two groups share a runner inventory exactly if they are both of a repository or both of an
  organisation and their targets are equal but for case.\<close>

theorem groups_share_by_target:
  assumes "wireRunnerGroups W conf = Inr (groups, metrics)" and "g \<in> set groups" and "h \<in> set groups"
  shows "wp_Cache (wg_CI g) = wp_Cache (wg_CI h) \<longleftrightarrow>
    g_RepoScoped (wg_Group g) = g_RepoScoped (wg_Group h)
    \<and> equal_fold (targetName (wp_Provider (wg_CI g))) (targetName (wp_Provider (wg_CI h)))"
proof -
  obtain classes where classes: "RunnerClassConfigs conf = Inr classes" "list_all2 (groupFollows conf) classes groups"
    "\<forall>c g d h. (c, g) \<in> set (zip classes groups) \<longrightarrow> (d, h) \<in> set (zip classes groups) \<longrightarrow>
       (wp_Cache (wg_CI g) = wp_Cache (wg_CI h) \<longleftrightarrow> githubTargetCacheKey c = githubTargetCacheKey d)"
    using assms(1) by (rule wired)
  have of_group: "\<exists>c. (c, g) \<in> set (zip classes groups) \<and> groupFollows conf c g" if "g \<in> set groups" for g
  proof -
    obtain i where i: "i < length groups" "groups ! i = g" using \<open>g \<in> set groups\<close> by (auto simp: in_set_conv_nth)
    with classes(2) have "groupFollows conf (classes ! i) g" "i < length classes"
      by (auto simp: list_all2_conv_all_nth)
    then show ?thesis using i by (auto simp: set_zip intro!: exI [of _ "classes ! i"])
  qed
  obtain c d where "(c, g) \<in> set (zip classes groups)" "groupFollows conf c g"
    "(d, h) \<in> set (zip classes groups)" "groupFollows conf d h"
    using of_group assms(2,3) by metis
  then show ?thesis
    using classes(3) by (auto simp: githubTargetCacheKey_eq groupFollows_def routerFollows_def githubFollows_def)
qed

theorem groups_share_by_target_witness:
  "wp_Cache (wg_CI (sampleWired ! 0)) = wp_Cache (wg_CI (sampleWired ! 1))"
proof -
  have "length sampleWired = 2" by code_simp
  moreover have "g_RepoScoped (wg_Group (sampleWired ! 0)) = g_RepoScoped (wg_Group (sampleWired ! 1))
    \<and> equal_fold (targetName (wp_Provider (wg_CI (sampleWired ! 0)))) (targetName (wp_Provider (wg_CI (sampleWired ! 1))))"
    by code_simp
  ultimately show ?thesis
    using groups_share_by_target [OF sample_wired, of "sampleWired ! 0" "sampleWired ! 1"] by simp
qed

section \<open>Passes of wired groups\<close>

lemma wired_clones:
  assumes "Load decodeFile getenv path = Inr conf" and "wireRunnerGroups W conf = Inr (groups, metrics)"
    and "g \<in> set groups" and "run_state (ReconcileDemand E (wg_Reconciler g) demand) [] = (res, es)"
  shows "count (autoCloneOk (g_Prefix (wg_Group g))) es
    \<le> max 0 (d_QueuedJobs demand - runnersAvailable (wg_Reconciler g) es)"
  using wired_reconciler [OF assms(1-3)] pass_safe [OF _ _ assms(4)] unfolding safePass_def Let_def by simp

lemma reconcileOnce_passes:
  assumes "reconcileOnce envs n groups = (passes, failed)"
    and "\<And>E g res es. g \<in> set groups \<Longrightarrow>
      run_state (ReconcileDemand E (wg_Reconciler g) \<lparr>d_QueuedJobs = 0, d_OldestAge = 0\<rparr>) [] = (res, es) \<Longrightarrow> P g es"
  shows "prefix (map fst passes) (map (g_ID \<circ> wg_Group) groups)
    \<and> (case failed of None \<Rightarrow> length passes = length groups | Some (i, err) \<Rightarrow> passes \<noteq> [] \<and> fst (last passes) = i)
    \<and> list_all2 (\<lambda>(i, tr) g. P g tr) passes (take (length passes) groups)"
  using assms
proof (induction groups arbitrary: n passes failed)
  case (Cons g groups)
  obtain res tr where run: "run_state (ReconcileDemand (envs n) (wg_Reconciler g) \<lparr>d_QueuedJobs = 0, d_OldestAge = 0\<rparr>) [] = (res, tr)"
    by fastforce
  with Cons.prems(2) have P: "P g tr" by simp
  show ?case
  proof (cases res)
    case None
    obtain ps f where rest: "reconcileOnce envs (Suc n) groups = (ps, f)" by fastforce
    with Cons.IH Cons.prems(2) have "prefix (map fst ps) (map (g_ID \<circ> wg_Group) groups)
      \<and> (case f of None \<Rightarrow> length ps = length groups | Some (i, err) \<Rightarrow> ps \<noteq> [] \<and> fst (last ps) = i) \<and> list_all2 (\<lambda>(i, tr) g. P g tr) ps (take (length ps) groups)"
      by (metis list.set_intros(2))
    with Cons.prems(1) run rest None P show ?thesis by (auto simp: comp_def split: option.splits)
  qed (use Cons.prems(1) run P in auto)
qed simp

lemma reconcileOnce_safe:
  assumes "Load decodeFile getenv path = Inr conf" and "wireRunnerGroups W conf = Inr (groups, metrics)"
    and "reconcileOnce envs 0 groups = (passes, failed)"
  shows "prefix (map fst passes) (map (g_ID \<circ> wg_Group) groups)
    \<and> (case failed of None \<Rightarrow> length passes = length groups | Some (i, err) \<Rightarrow> passes \<noteq> [] \<and> fst (last passes) = i)
    \<and> list_all2 (\<lambda>(i, tr) g. count (autoCloneOk (g_Prefix (wg_Group g))) tr = 0) passes (take (length passes) groups)"
proof (rule reconcileOnce_passes [OF assms(3)])
  fix E g res es
  assume g: "g \<in> set groups"
    and run: "run_state (ReconcileDemand E (wg_Reconciler g) \<lparr>d_QueuedJobs = 0, d_OldestAge = 0\<rparr>) [] = (res, es)"
  have "0 \<le> runnersAvailable (wg_Reconciler g) es"
    by (simp add: runnersAvailable_def AvailableRunnerCountForLabels_def)
  moreover have "0 \<le> count (autoCloneOk (g_Prefix (wg_Group g))) es" by (simp add: count_def)
  moreover have "count (autoCloneOk (g_Prefix (wg_Group g))) es \<le> max 0 (0 - runnersAvailable (wg_Reconciler g) es)"
    using wired_clones [OF assms(1,2) g run] by simp
  ultimately show "count (autoCloneOk (g_Prefix (wg_Group g))) es = 0" by linarith
qed

end
