(* ===== verification/Daemon_Run.thy ===== *)
theory Daemon_Run
  imports Wiring Daemon_Metrics Issue_Delivery
begin

text \<open>
  The start of the program: the constructors of the daemon and \<open>Run\<close> of
  \<open>src/internal/daemon/daemon.go\<close> with its timer loops, and the commands of \<open>cmd/scaler/main.go\<close>.

  The components meet here: the configuration is loaded, the log store opened, the groups are wired
  and handed to the daemon, which restores its demand tracker and its delivery logs from the state
  directory.  Goroutines and tickers are not modelled; \<open>Run\<close> gives the subsystems it starts, a timer
  loop is a function of the cases its \<open>select\<close> takes.

  \<open>reconcile_command_never_scales_up\<close>: the one-shot command maintains but never adds runners.
  \<open>daemon_starts\<close>: the daemon a configuration gives and the subsystems it starts.
\<close>

section \<open>The daemon\<close>

text \<open>\<open>RunnerGroup\<close> of the daemon, with its services; a nil service is \<open>None\<close>.\<close>

record ('ci, 'rt, 'mb) groupParts =
  gg_Group :: runnerGroup
  gg_CachePool :: string
  gg_Reconciler :: "reconciler option"
  gg_CI :: "'ci option"
  gg_Runtime :: "'rt option"
  gg_Metrics :: "'mb option"

record ('ci, 'rt, 'mb) daemon =
  da_cfg :: daemonConfig
  da_reconciler :: "reconciler option"
  da_ci :: "'ci option"
  da_metrics :: "'mb option"
  da_runtime :: "'rt option"
  da_groups :: "('ci, 'rt, 'mb) groupParts list"
  da_demand :: "tracker option"
  da_triggerCap :: nat
  da_workflowDelivered :: seenCache
  da_issueDelivered :: seenCache

text \<open>What the state directory holds, and the readings of the clock.\<close>

record startState =
  st_Demand :: demandFile
  st_Workflow :: seenFile
  st_Issue :: seenFile
  st_Clock :: clock

definition workflowMetricCacheLimit :: int where
  "workflowMetricCacheLimit = 20000"

definition initialDemand :: "daemonConfig \<Rightarrow> startState \<Rightarrow> gerror option \<times> tracker option" where
  "initialDemand dcfg st =
     (if dc_StateDir dcfg \<noteq> [] \<and> 0 < dc_DemandTTL dcfg then
        (case NewTracker (joinPath [dc_StateDir dcfg, ''demand.json'']) (dc_DemandTTL dcfg) (st_Clock st) (st_Demand st) of
           Inl err \<Rightarrow> (Some err, None)
         | Inr t \<Rightarrow> (None, Some t))
      else (None, None))"

text \<open>The result of \<open>NewWithRunnerGroups\<close> is the daemon with what it logs; \<open>None\<close> is a panic.\<close>

definition NewWithRunnerGroups ::
    "daemonConfig \<Rightarrow> ('ci, 'rt, 'mb) groupParts list \<Rightarrow> 'mb option \<Rightarrow> startState
     \<Rightarrow> (('ci, 'rt, 'mb) daemon \<times> (string \<times> gerror) list) option" where
  "NewWithRunnerGroups dcfg groups metrics st =
     (case map (\<lambda>g. if gg_Metrics g = None then g\<lparr>gg_Metrics := metrics\<rparr> else g) groups of
        [] \<Rightarrow> None
      | primary # rest \<Rightarrow>
          let (demandErr, demand) = initialDemand dcfg st in
          (case (loadSeen (newSeenCache (dc_StateDir dcfg) ''workflow_metrics_seen.json'' workflowMetricCacheLimit) (st_Workflow st),
                 loadSeen (newSeenCache (dc_StateDir dcfg) ''issue_events_seen.json'' workflowMetricCacheLimit) (st_Issue st)) of
             (Some (workflowWarn, workflow), Some (issueWarn, issue)) \<Rightarrow>
               Some (\<lparr>da_cfg = dcfg, da_reconciler = gg_Reconciler primary, da_ci = gg_CI primary, da_metrics = metrics,
                      da_runtime = gg_Runtime primary, da_groups = primary # rest, da_demand = demand,
                      da_triggerCap = length (primary # rest) + 1, da_workflowDelivered = workflow, da_issueDelivered = issue\<rparr>,
                     (case demandErr of None \<Rightarrow> [] | Some err \<Rightarrow> [(''failed to load persisted demand'', err)])
                     @ (case workflowWarn of None \<Rightarrow> [] | Some err \<Rightarrow> [(''workflow metrics'', err)])
                     @ (case issueWarn of None \<Rightarrow> [] | Some err \<Rightarrow> [(''issue events'', err)]))
           | _ \<Rightarrow> None))"

text \<open>\<open>New\<close>: a daemon with the one group \<open>default\<close>.\<close>

definition NewDaemon ::
    "daemonConfig \<Rightarrow> reconciler option \<Rightarrow> 'ci option \<Rightarrow> 'mb option \<Rightarrow> 'rt option \<Rightarrow> startState
     \<Rightarrow> (('ci, 'rt, 'mb) daemon \<times> (string \<times> gerror) list) option" where
  "NewDaemon dcfg r ci metrics runtime st =
     NewWithRunnerGroups dcfg
       [\<lparr>gg_Group = \<lparr>g_ID = ''default'', g_Target = [], g_RepoScoped = False, g_Prefix = dc_Prefix dcfg,
                     g_MatchLabels = [], g_BaselineName = []\<rparr>,
         gg_CachePool = dc_CachePool dcfg, gg_Reconciler = r, gg_CI = ci, gg_Runtime = runtime, gg_Metrics = metrics\<rparr>]
       metrics st"

section \<open>The subsystems\<close>

datatype subsystem = ReconcileLoop | WebhookServer | MetricsLoop | QueueAuditLoop

definition RunSubsystems :: "('ci, 'rt, 'mb) daemon \<Rightarrow> subsystem list" where
  "RunSubsystems d =
     [ReconcileLoop]
     @ (if dc_WebhookEnabled (da_cfg d) then [WebhookServer] else [])
     @ (if dc_MetricsEnabled (da_cfg d) \<and> da_metrics d \<noteq> None then [MetricsLoop] else [])
     @ (if da_demand d \<noteq> None \<and> 0 < dc_QueueAuditInterval (da_cfg d) then [QueueAuditLoop] else [])"

text \<open>A loop over \<open>ctx.Done()\<close> and the ticks of a timer, as a function of the cases that are taken.\<close>

datatype selectCase = TimerTick | ContextDone

fun timerLoop :: "('s \<Rightarrow> 's) \<Rightarrow> selectCase list \<Rightarrow> 's \<Rightarrow> 's" where
  "timerLoop act [] s = s"
| "timerLoop act (ContextDone # cases) s = s"
| "timerLoop act (TimerTick # cases) s = timerLoop act cases (act s)"

definition queueAuditLoop :: "auditEnv \<Rightarrow> runnerGroup list \<Rightarrow> selectCase list \<Rightarrow> auditState \<Rightarrow> auditState" where
  "queueAuditLoop A groups cases s = timerLoop (auditQueuedJobs A groups) cases s"

definition collectAndPush ::
    "metricsEnv \<Rightarrow> metricsGroup list \<Rightarrow> derivedEnv \<Rightarrow> LogStore option \<Rightarrow> metricsState \<times> derivedState \<Rightarrow> metricsState \<times> derivedState" where
  "collectAndPush E groups D logStore s =
     (let m = collectRunnerAndHostMetrics E groups (fst s);
          m = collectWorkflowMetrics E groups m
      in (m, collectLogDerivedMetrics (me_Metrics E \<noteq> None) D logStore (snd s)))"

text \<open>The environment of the metrics loop does not change here from tick to tick.\<close>

definition metricsLoop ::
    "metricsEnv \<Rightarrow> metricsGroup list \<Rightarrow> derivedEnv \<Rightarrow> LogStore option \<Rightarrow> bool \<Rightarrow> selectCase list
     \<Rightarrow> metricsState \<times> derivedState \<Rightarrow> metricsState \<times> derivedState" where
  "metricsLoop E groups D logStore cancelled cases s =
     timerLoop (collectAndPush E groups D logStore) cases
       (if cancelled then s else collectAndPush E groups D logStore s)"

section \<open>The commands\<close>

text \<open>The parts the daemon gets of a wired group.\<close>

definition wiredParts :: "'c wiredGroup \<Rightarrow> (ciProvider, 'c \<times> lxdRuntime, lokiBackend) groupParts" where
  "wiredParts g =
     \<lparr>gg_Group = wg_Group g, gg_CachePool = wg_CachePool g, gg_Reconciler = Some (wg_Reconciler g), gg_CI = Some (wg_CI g),
      gg_Runtime = Some (wg_Server g, wg_Runtime g), gg_Metrics = wg_Metrics g\<rparr>"

text \<open>What a command logs before it exits with status 1.\<close>

datatype exitLog = ExitError string gerror | GroupFailed string gerror

definition prepareGroups ::
    "(Config \<Rightarrow> Config result) \<Rightarrow> (string \<Rightarrow> string) \<Rightarrow> string \<Rightarrow> (string \<Rightarrow> LogStore result) \<Rightarrow> 'c surroundings
     \<Rightarrow> exitLog + Config \<times> LogStore \<times> 'c wiredGroup list \<times> lokiBackend option" where
  "prepareGroups decodeFile getenv path openLog W =
     (case Load decodeFile getenv path of
        Inl err \<Rightarrow> Inl (ExitError ''failed to load config'' err)
      | Inr conf \<Rightarrow>
          (case openLog (sg_Dir (cg_State conf)) of
             Inl err \<Rightarrow> Inl (ExitError ''failed to initialize log store'' err)
           | Inr logStore \<Rightarrow>
               (case wireRunnerGroups W conf of
                  Inl err \<Rightarrow> Inl (ExitError ''failed to initialize providers'' err)
                | Inr (groups, metrics) \<Rightarrow> Inr (conf, logStore, groups, metrics))))"

text \<open>\<open>runDaemon\<close> up to the moment \<open>Run\<close> waits; \<open>None\<close> is the panic of \<open>NewWithRunnerGroups\<close>.\<close>

definition runDaemon ::
    "(Config \<Rightarrow> Config result) \<Rightarrow> (string \<Rightarrow> string) \<Rightarrow> string \<Rightarrow> (string \<Rightarrow> LogStore result) \<Rightarrow> 'c surroundings \<Rightarrow> startState
     \<Rightarrow> (exitLog + (ciProvider, 'c \<times> lxdRuntime, lokiBackend) daemon \<times> subsystem list) option" where
  "runDaemon decodeFile getenv path openLog W st =
     (case prepareGroups decodeFile getenv path openLog W of
        Inl e \<Rightarrow> Some (Inl e)
      | Inr (conf, logStore, groups, metrics) \<Rightarrow>
          map_option (\<lambda>(d, warnings). Inr (d, RunSubsystems d))
            (NewWithRunnerGroups (daemonConfigFrom conf) (map wiredParts groups) metrics st))"

definition runReconcile ::
    "(Config \<Rightarrow> Config result) \<Rightarrow> (string \<Rightarrow> string) \<Rightarrow> string \<Rightarrow> (string \<Rightarrow> LogStore result) \<Rightarrow> 'c surroundings \<Rightarrow> (nat \<Rightarrow> env)
     \<Rightarrow> (string \<times> trace) list \<times> exitLog option" where
  "runReconcile decodeFile getenv path openLog W envs =
     (case prepareGroups decodeFile getenv path openLog W of
        Inl e \<Rightarrow> ([], Some e)
      | Inr (conf, logStore, groups, metrics) \<Rightarrow>
          (case reconcileOnce envs 0 groups of
             (passes, failed) \<Rightarrow> (passes, map_option (\<lambda>(groupID, err). GroupFailed groupID err) failed)))"

datatype command = DaemonCommand "string list" | ReconcileCommand "string list" | VersionCommand | UnknownCommand string

text \<open>\<open>main\<close> on the arguments after the name of the program.\<close>

definition mainCommand :: "string list \<Rightarrow> command" where
  "mainCommand args =
     (case args of
        [] \<Rightarrow> DaemonCommand []
      | name # rest \<Rightarrow>
          if name = ''daemon'' then DaemonCommand rest
          else if name = ''reconcile'' then ReconcileCommand rest
          else if name = ''version'' then VersionCommand
          else UnknownCommand name)"

section \<open>What the commands do\<close>

lemma prepareGroups_Inr:
  "prepareGroups decodeFile getenv path openLog W = Inr (conf, logStore, groups, metrics) \<longleftrightarrow>
     Load decodeFile getenv path = Inr conf \<and> openLog (sg_Dir (cg_State conf)) = Inr logStore
     \<and> wireRunnerGroups W conf = Inr (groups, metrics)"
  by (auto simp: prepareGroups_def split: sum.splits)

text \<open>C39. The command \<open>reconcile\<close> either stops before any pass, because the configuration, the log store or
  the providers fail, or passes over the groups of the configuration in order up to the first that
  fails.  It never creates overflow: whatever the surroundings answer, no pass clones a container of
  its group's prefix.\<close>

theorem reconcile_command_never_scales_up:
  "case prepareGroups decodeFile getenv path openLog W of
     Inl e \<Rightarrow> runReconcile decodeFile getenv path openLog W envs = ([], Some e)
   | Inr (conf, logStore, groups, metrics) \<Rightarrow>
       (case runReconcile decodeFile getenv path openLog W envs of (passes, failed) \<Rightarrow>
          prefix (map fst passes) (map (g_ID \<circ> wg_Group) groups)
          \<and> (case failed of
               None \<Rightarrow> length passes = length groups
             | Some (GroupFailed i err) \<Rightarrow> passes \<noteq> [] \<and> fst (last passes) = i
             | Some (ExitError msg err) \<Rightarrow> False)
          \<and> list_all2 (\<lambda>(i, tr) g. Reconciler_Safety.count (autoCloneOk (g_Prefix (wg_Group g))) tr = 0) passes (take (length passes) groups))"
proof (cases "prepareGroups decodeFile getenv path openLog W")
  case (Inl e)
  then show ?thesis by (simp add: runReconcile_def)
next
  case (Inr r)
  obtain conf logStore groups metrics where "r = (conf, logStore, groups, metrics)" by (cases r)
  with Inr have ready: "prepareGroups decodeFile getenv path openLog W = Inr (conf, logStore, groups, metrics)" by simp
  obtain passes failed where once: "reconcileOnce envs 0 groups = (passes, failed)" by fastforce
  have "runReconcile decodeFile getenv path openLog W envs = (passes, map_option (\<lambda>(i, err). GroupFailed i err) failed)"
    by (simp add: runReconcile_def ready once)
  then show ?thesis
    using reconcileOnce_safe [OF _ _ once, of decodeFile getenv path conf W metrics] ready [unfolded prepareGroups_Inr]
    unfolding ready by (simp split: option.splits prod.splits)
qed

lemma loadSeen_limit: "loadSeen (newSeenCache dir f workflowMetricCacheLimit) content \<noteq> None"
  by (auto simp: loadSeen_def trimSeen_def newSeenCache_def workflowMetricCacheLimit_def trimOrder_spec split: seenFile.splits sum.splits)

text \<open>Whether the demand of the last run can be read.\<close>

definition readableDemand :: "startState \<Rightarrow> bool" where
  "readableDemand st \<longleftrightarrow>
     (case st_Demand st of
        NoFile \<Rightarrow> True
      | Unreadable err \<Rightarrow> False
      | Holds data \<Rightarrow> (case unmarshalState data of Inl err \<Rightarrow> False | Inr gs \<Rightarrow> True))"

lemma accepted_demand:
  assumes "accepted conf classes"
  shows "snd (initialDemand (daemonConfigFrom conf) st) \<noteq> None \<longleftrightarrow> readableDemand st"
    and "0 < dc_QueueAuditInterval (daemonConfigFrom conf)"
proof -
  from assms have ok: "sg_Dir (cg_State conf) \<noteq> []" "0 < sc_DemandTTL (cg_Scaler conf)" "0 < sc_QueueAuditInterval (cg_Scaler conf)"
    by (simp_all add: accepted_def)
  have "joinPath [sg_Dir (cg_State conf), ''demand.json''] \<noteq> []"
    using ok(1) by (simp add: joinPath_def cleanPath_def Let_def)
  with ok show "snd (initialDemand (daemonConfigFrom conf) st) \<noteq> None \<longleftrightarrow> readableDemand st"
    by (simp add: initialDemand_def daemonConfigFrom_def NewTracker_def readableDemand_def Let_def split: demandFile.split sum.split)
  show "0 < dc_QueueAuditInterval (daemonConfigFrom conf)" using ok by (simp add: daemonConfigFrom_def)
qed

lemma NewWithRunnerGroups_runs:
  assumes "groups \<noteq> []" and "\<forall>g\<in>set groups. gg_Metrics g \<noteq> None \<or> metrics = None"
  obtains d warnings where "NewWithRunnerGroups dcfg groups metrics st = Some (d, warnings)" "da_groups d = groups"
    "da_cfg d = dcfg" "da_metrics d = metrics" "da_demand d = snd (initialDemand dcfg st)" "da_triggerCap d = length groups + 1"
proof -
  have same: "map (\<lambda>g. if gg_Metrics g = None then g\<lparr>gg_Metrics := metrics\<rparr> else g) groups = groups"
    by (rule map_idI) (use assms(2) in auto)
  obtain primary rest where groups: "groups = primary # rest" using assms(1) by (cases groups) auto
  obtain e demand where demand: "initialDemand dcfg st = (e, demand)" by fastforce
  obtain w wf where w: "loadSeen (newSeenCache (dc_StateDir dcfg) ''workflow_metrics_seen.json'' workflowMetricCacheLimit) (st_Workflow st) = Some (w, wf)"
    using loadSeen_limit by fast
  obtain v iss where v: "loadSeen (newSeenCache (dc_StateDir dcfg) ''issue_events_seen.json'' workflowMetricCacheLimit) (st_Issue st) = Some (v, iss)"
    using loadSeen_limit by fast
  let ?d = "\<lparr>da_cfg = dcfg, da_reconciler = gg_Reconciler primary, da_ci = gg_CI primary, da_metrics = metrics,
    da_runtime = gg_Runtime primary, da_groups = groups, da_demand = demand,
    da_triggerCap = length groups + 1, da_workflowDelivered = wf, da_issueDelivered = iss\<rparr>"
  have "\<exists>warnings. NewWithRunnerGroups dcfg groups metrics st = Some (?d, warnings)"
    unfolding NewWithRunnerGroups_def same unfolding groups by (simp add: demand w v)
  then obtain warnings where "NewWithRunnerGroups dcfg groups metrics st = Some (?d, warnings)" ..
  then show thesis by (rule that) (simp_all add: demand)
qed

text \<open>C40. The command \<open>daemon\<close> never panics on its way to \<open>Run\<close>: it stops because the configuration, the
  log store or the providers fail, or runs a daemon over exactly the wired groups, all with a metrics
  backend or none, and room for one trigger of every group and one of all.  It starts the reconcile
  loop, the webhook server if that is enabled, the metrics loop if that is, and the queue audit
  unless the persisted demand cannot be read.\<close>

theorem daemon_starts:
  "case prepareGroups decodeFile getenv path openLog W of
     Inl e \<Rightarrow> runDaemon decodeFile getenv path openLog W st = Some (Inl e)
   | Inr (conf, logStore, groups, metrics) \<Rightarrow>
       (\<exists>d. runDaemon decodeFile getenv path openLog W st = Some (Inr (d,
            [ReconcileLoop] @ (if wc_Enabled (cg_Webhook conf) then [WebhookServer] else [])
            @ (if mt_Enabled (cg_Metrics conf) then [MetricsLoop] else [])
            @ (if readableDemand st then [QueueAuditLoop] else [])))
          \<and> da_groups d = map wiredParts groups \<and> da_triggerCap d = triggerCapacity (map wg_Group groups)
          \<and> list_all (\<lambda>g. gg_Metrics g \<noteq> None \<longleftrightarrow> mt_Enabled (cg_Metrics conf)) (da_groups d))"
proof (cases "prepareGroups decodeFile getenv path openLog W")
  case (Inl e)
  then show ?thesis by (simp add: runDaemon_def)
next
  case (Inr r)
  obtain conf logStore groups metrics where "r = (conf, logStore, groups, metrics)" by (cases r)
  with Inr have ready: "prepareGroups decodeFile getenv path openLog W = Inr (conf, logStore, groups, metrics)" by simp
  then have loaded: "Load decodeFile getenv path = Inr conf" and wire: "wireRunnerGroups W conf = Inr (groups, metrics)"
    by (simp_all add: prepareGroups_Inr)
  obtain classes where ok: "accepted conf classes" using loaded by (rule loaded_accepted)
  have metrics: "wg_Metrics g \<noteq> None \<longleftrightarrow> mt_Enabled (cg_Metrics conf)" if "g \<in> set groups" for g
    using wired_metrics [OF wire that] .
  have daemon_metrics: "metrics \<noteq> None \<longleftrightarrow> mt_Enabled (cg_Metrics conf)"
    using wire by (auto simp: wireRunnerGroups_def wireMetricsBackendForTarget_def Let_def split: sum.splits if_splits)
  have "map wiredParts groups \<noteq> []" using wired_nonempty [OF loaded wire] by simp
  moreover have "\<forall>p\<in>set (map wiredParts groups). gg_Metrics p \<noteq> None \<or> metrics = None"
    using metrics daemon_metrics by (auto simp: wiredParts_def)
  ultimately obtain d warnings where d:
    "NewWithRunnerGroups (daemonConfigFrom conf) (map wiredParts groups) metrics st = Some (d, warnings)"
    "da_groups d = map wiredParts groups" "da_cfg d = daemonConfigFrom conf" "da_metrics d = metrics"
    "da_demand d = snd (initialDemand (daemonConfigFrom conf) st)" "da_triggerCap d = length (map wiredParts groups) + 1"
    by (rule NewWithRunnerGroups_runs)
  have "RunSubsystems d = [ReconcileLoop] @ (if wc_Enabled (cg_Webhook conf) then [WebhookServer] else [])
      @ (if mt_Enabled (cg_Metrics conf) then [MetricsLoop] else []) @ (if readableDemand st then [QueueAuditLoop] else [])"
    using accepted_demand(1) [OF ok, of st] accepted_demand(2) [OF ok] daemon_metrics
    by (simp add: RunSubsystems_def d readableDemand_def daemonConfigFrom_def del: not_None_eq)
  moreover have "list_all (\<lambda>g. gg_Metrics g \<noteq> None \<longleftrightarrow> mt_Enabled (cg_Metrics conf)) (da_groups d)"
    using metrics by (simp add: d list_all_iff wiredParts_def del: not_None_eq)
  ultimately show ?thesis
    using d by (simp add: ready runDaemon_def triggerCapacity_def)
qed

end
