(* ===== verification/Activity.thy ===== *)
theory Activity
  imports Reconciler_Claims Fs_State
begin

text \<open>
  The reconciler on top of the file system state store: \<open>storeRun\<close> says that the answers a pass got
  from its state store are those of \<open>provider/fsstate\<close>, whose files a failed write may leave torn.

  \<open>active_container_kept\<close> combines the reason a pass needs for a teardown with what the store
  remembers: a container whose activity was recorded is kept until its time is over, up to the second
  by which the store rounds down.
\<close>

section \<open>What a pass writes to its state store\<close>

text \<open>In a loop over the containers only the given time is written, and nothing is created.\<close>

fun writesOnly :: "gotime \<Rightarrow> event \<Rightarrow> bool" where
  "writesOnly now (EvSetLastActive n t e) \<longleftrightarrow> t = now"
| "writesOnly now (EvCreateState n e) \<longleftrightarrow> False"
| "writesOnly now e \<longleftrightarrow> True"

fun inert :: "event \<Rightarrow> bool" where
  "inert (EvSetLastActive n t e) \<longleftrightarrow> False"
| "inert (EvCreateState n e) \<longleftrightarrow> False"
| "inert e \<longleftrightarrow> True"

lemma tearDown_writesOnly: "tearDownEvent rs n e \<Longrightarrow> writesOnly now e"
  by (cases e) auto

lemmas tearDown_writes =
  stopServiceStep_emits [THEN emits_mono, OF tearDown_writesOnly] deregisterStep_emits [THEN emits_mono, OF tearDown_writesOnly]
  apiDeleteStep_emits [THEN emits_mono, OF tearDown_writesOnly]

lemma inventory_writes: "emits (writesOnly now) (suspendRunnerInventoryCache r)" "emits (writesOnly now) (resumeRunnerInventoryCache r)"
  unfolding suspendRunnerInventoryCache_def resumeRunnerInventoryCache_def by (intro trace_rules; simp)+

lemma scaleDown_writes: "emits (writesOnly now) (scaleDown E r n rs p)"
  unfolding scaleDown_def by (intro trace_rules tearDown_writes inventory_writes) simp_all

lemma scaleDown_inert: "emits inert (scaleDown E r n rs p)"
proof -
  have step: "tearDownEvent rs' n e \<Longrightarrow> inert e" for rs' e by (cases e) auto
  show ?thesis
    unfolding scaleDown_def suspendRunnerInventoryCache_def resumeRunnerInventoryCache_def
    by (intro trace_rules stopServiceStep_emits [THEN emits_mono] deregisterStep_emits [THEN emits_mono]
        apiDeleteStep_emits [THEN emits_mono]) (auto intro: step)
qed

lemma passLoop_writes: "emits (writesOnly now) (passLoop E r rs k now cs st)"
proof (induction cs arbitrary: st)
  case Nil
  show ?case by (simp add: trace_rules)
next
  case (Cons c cs)
  have "emits (writesOnly now) (passStep E r rs k now c st)"
    unfolding passStep_def containerCase_def handleScaleDown_def lastActiveOrInit_def refreshContainerStatus_def
    by (intro trace_rules scaleDown_writes) simp_all
  then show ?case unfolding passLoop.simps by (intro trace_rules Cons.IH)
qed

text \<open>\<open>writesNow T\<close>: the times written are in \<open>T\<close> or were read from the clock, and the state of a container
  is created only after it was cloned.\<close>

definition writesNow :: "gotime set \<Rightarrow> trace \<Rightarrow> bool" where
  "writesNow T es \<longleftrightarrow> (\<forall>n t e. EvSetLastActive n t e \<in> set es \<longrightarrow> t \<in> T \<or> EvNow t \<in> set es)
     \<and> (\<forall>n e. EvCreateState n e \<in> set es \<longrightarrow> EvClone n None \<in> set es)"

lemma writesNow_append: "writesNow T xs \<Longrightarrow> writesNow T ys \<Longrightarrow> writesNow T (xs @ ys)"
  unfolding writesNow_def by (fastforce simp: set_append)

lemma writesNow_read: "writesNow (insert now T) es \<Longrightarrow> writesNow T (EvNow now # es)"
  unfolding writesNow_def by auto

lemma writesNow_only: "list_all (writesOnly now) es \<Longrightarrow> writesNow (insert now T) es"
  by (fastforce simp: writesNow_def list_all_iff)

lemma writesNow_inert: "list_all inert es \<Longrightarrow> writesNow T es"
  by (fastforce simp: writesNow_def list_all_iff)

lemma writesNow_write: "t \<in> T \<Longrightarrow> writesNow T es \<Longrightarrow> writesNow T (EvSetLastActive n t e # es)"
  by (auto simp: writesNow_def)

lemma writesNow_mono: "writesNow {} es \<Longrightarrow> writesNow T es"
  by (auto simp: writesNow_def)

text \<open>Events that say nothing about times and clones.\<close>

fun neutral :: "event \<Rightarrow> bool" where
  "neutral (EvNow t) \<longleftrightarrow> False"
| "neutral (EvClone n e) \<longleftrightarrow> e \<noteq> None"
| "neutral e \<longleftrightarrow> inert e"

lemma writesNow_Cons [simp]: "neutral e \<Longrightarrow> writesNow T (e # es) \<longleftrightarrow> writesNow T es"
  by (cases e) (auto simp: writesNow_def)

lemma writesNow_Nil [simp]: "writesNow T []"
  by (simp add: writesNow_def)

lemma inert_events:
  "statusEvent e \<Longrightarrow> inert e" "cloneEvent p e \<Longrightarrow> inert e" "tearDownEvent rs n e \<Longrightarrow> inert e"
  by (cases e; simp)+

lemma refresh_inert: "list_all statusEvent es \<Longrightarrow> list_all inert es"
  by (auto simp: list_all_iff inert_events)

lemma bringUp_writes: "list_all (bringUpEvent n) es \<Longrightarrow> EvClone n None \<in> set xs \<Longrightarrow> writesNow T xs \<Longrightarrow> writesNow T (xs @ es)"
  unfolding writesNow_def list_all_iff by fastforce

lemma bringUp_cloned: "list_all (bringUpEvent n) es \<Longrightarrow> writesNow T ys \<Longrightarrow> writesNow T (EvClone n None # es @ ys)"
  using writesNow_append [OF bringUp_writes [of n es "[EvClone n None]" T]] by (simp add: writesNow_def)

lemma scaleUp_writes: "yields (scaleUp E r existing) (\<lambda>res es. writesNow T es)"
proof (rule yields_mono [OF scaleUp_spec])
  fix res es
  assume "list_all (scaleUpEvent (rc_Prefix (cfg r)) (clonedName es)) es \<and> count isClone es \<le> 3 \<and>
    (ciSuspends r \<longrightarrow> inventoryGuard False es = Some False) \<and>
    (case res of
       Inr n \<Rightarrow> filter cloneOk es = [EvClone n None] \<and> (\<forall>c e. EvDelete c e \<notin> set es) \<and>
         inOrder ([(=) (EvRegistrationToken (Inr (grantedToken es))), (=) (EvClone n None)]
                  @ bringUpOrder E r n (grantedToken es) True) es
     | Inl err \<Rightarrow> filter cloneOk es = [] \<or>
         (\<exists>n e. filter cloneOk es = [EvClone n None] \<and> EvDelete n e \<in> set es))"
  then have ev: "list_all (scaleUpEvent (rc_Prefix (cfg r)) (clonedName es)) es"
    and one: "filter cloneOk es = [] \<or> (\<exists>n. filter cloneOk es = [EvClone n None])"
    by (auto split: sum.splits)
  have "EvClone n None \<in> set es" if "EvCreateState n e \<in> set es" for n e
  proof -
    from ev that have "scaleUpEvent (rc_Prefix (cfg r)) (clonedName es) (EvCreateState n e)" by (auto simp: list_all_iff)
    then have "clonedName es = Some n" by (auto split: option.splits)
    with one show ?thesis by (auto simp: clonedName_def cloneOk_in_filter)
  qed
  moreover have "EvSetLastActive n t e \<notin> set es" for n t e
    using ev by (auto simp: list_all_iff split: option.splits)
  ultimately show "writesNow T es" unfolding writesNow_def by blast
qed

lemma scaleUpLoop_writes: "yields (scaleUpLoop E r d rm cs needed auto) (\<lambda>_ es. writesNow T es)"
proof (induction E r d rm cs needed auto rule: scaleUpLoop.induct)
  case (1 E r d rm cs needed auto)
  show ?case
    by (subst scaleUpLoop.simps, intro yields_rules scaleUp_writes [where T = T, THEN yields_mono] "1.IH" [THEN yields_mono])
       (auto intro!: writesNow_append intro: writesNow_inert)
qed

lemma scalePass_writes: "yields (scalePass E r d rs k b cs) (\<lambda>_ es. writesNow {} es)"
  unfolding scalePass_def
  by (intro yields_rules refreshContainerStatuses_spec [THEN yields_mono] scaleUpLoop_writes [where T = "{}", THEN yields_mono]
      passLoop_writes [THEN yields_emits])
     (auto intro!: writesNow_append writesNow_read intro: writesNow_only writesNow_inert writesNow_mono refresh_inert)

lemma baselineLoop_writes: "yields (baselineLoop E r rs cs) (\<lambda>_ es. writesNow {} es)"
proof (induction cs)
  case Nil
  show ?case by (simp add: yields_return writesNow_def)
next
  case (Cons c cs)
  show ?case
    unfolding baselineLoop.simps
    by (intro yields_rules Cons.IH [THEN yields_mono] scaleDown_inert [THEN yields_emits])
       (auto intro!: writesNow_append writesNow_read writesNow_write intro: writesNow_inert writesNow_mono)
qed

lemma ensureBaseline_writes: "yields (ensureBaseline E r rs) (\<lambda>_ es. writesNow {} es)"
  unfolding ensureBaseline_def
  by (intro yields_rules suspend_yields resume_yields baselineLoop_writes [THEN yields_mono]
      configureClonedRunner_emits [THEN yields_emits])
     (auto intro!: writesNow_append bringUp_cloned intro: bringUp_cloned [where ys = "[]", simplified])

text \<open>What a pass writes to its store are readings of its clock, or the state of its clones.\<close>

lemma ReconcileDemand_writes: "yields (ReconcileDemand E r demand) (\<lambda>_ es. writesNow {} es)"
proof -
  have base: "yields (baselineStep E r rs) (\<lambda>_ es. writesNow {} es)" for rs
    unfolding baselineStep_def
    by (intro yields_rules ensureBaseline_writes [THEN yields_mono]) (auto intro!: writesNow_append)
  show ?thesis
    unfolding ReconcileDemand_def
    by (intro yields_rules base [THEN yields_mono] scalePass_writes [THEN yields_mono])
       (auto intro!: writesNow_append)
qed

section \<open>A pass on the file system store\<close>

text \<open>The answer of an event is one the store gives in the directory \<open>d\<close>, leaving \<open>d'\<close>; writes, reads and
  removals may fail, and the error of a deletion is one of its file pattern.\<close>

fun storeStep :: "directory \<Rightarrow> event \<Rightarrow> directory \<Rightarrow> bool" where
  "storeStep d (EvSetLastActive n t res) d' \<longleftrightarrow> (\<exists>fault. fsSetLastActive fault d n t = (res, d'))"
| "storeStep d (EvCreateState n res) d' \<longleftrightarrow> (\<exists>fault now. fsCreate fault now d n = (res, d'))"
| "storeStep d (EvDeleteState n res) d' \<longleftrightarrow> (if res = None then \<exists>kept. d' = fsDelete kept d n else d' = d)"
| "storeStep d (EvGetLastActive n res) d' \<longleftrightarrow> d' = d \<and> (\<exists>fault. fsGetLastActive fault d n = res)"
| "storeStep d e d' \<longleftrightarrow> d' = d"

inductive storeRun :: "directory \<Rightarrow> trace \<Rightarrow> directory \<Rightarrow> bool" where
  storeRun_Nil: "storeRun d [] d"
| storeRun_Cons: "storeStep d e d1 \<Longrightarrow> storeRun d1 es d' \<Longrightarrow> storeRun d (e # es) d'"

inductive_cases storeRun_NilE: "storeRun d [] d'"
inductive_cases storeRun_ConsE: "storeRun d (e # es) d'"

lemma set_other:
  assumes "fsSetLastActive fault d m t = (res, d')" and "m \<noteq> n"
  shows "fsLookup d' n = fsLookup d n"
  using assms by (cases fault) (auto simp: fsSetLastActive_def fsLookup_map_of statePath_inj)

lemma set_same: "fsSetLastActive fault d n t = (None, d') \<Longrightarrow> unixTime t \<Longrightarrow> fsLookup d' n = Some (wholeSeconds t)"
  by (cases fault) (auto simp: fsSetLastActive_def fsLookup_map_of fsParse_written fromUnix_toUnix)

lemma delete_lookup: "fsLookup (fsDelete kept d m) n = Some la \<Longrightarrow> fsLookup d n = Some la"
  by (auto simp: fsLookup_map_of fsDelete_def map_of_filter_keys split: option.splits if_splits)

lemma get_lookup: "fsGetLastActive fault d n = Inr la \<Longrightarrow> fsLookup d n = Some la"
  by (cases fault) (auto simp: fsLookup_def fsGetLastActive_def readFile_def)

text \<open>What is remembered of \<open>n\<close>, if anything, is a time of \<open>T\<close> in whole seconds.\<close>

definition remembers :: "gotime set \<Rightarrow> string \<Rightarrow> directory \<Rightarrow> bool" where
  "remembers T n d \<longleftrightarrow> (\<forall>la. fsLookup d n = Some la \<longrightarrow> la \<in> wholeSeconds ` T)"

fun writesIn :: "gotime set \<Rightarrow> string \<Rightarrow> event \<Rightarrow> bool" where
  "writesIn T n (EvSetLastActive m t res) \<longleftrightarrow> (m = n \<longrightarrow> res = None \<and> t \<in> T \<and> unixTime t)"
| "writesIn T n (EvCreateState m res) \<longleftrightarrow> m \<noteq> n"
| "writesIn T n e \<longleftrightarrow> True"

lemma storeStep_remembers:
  assumes "storeStep d e d'" and "remembers T n d" and "writesIn T n e"
  shows "remembers T n d'"
proof (cases e)
  case (EvSetLastActive m t res)
  show ?thesis
  proof (cases "m = n")
    case True
    with EvSetLastActive assms have "fsLookup d' n = Some (wholeSeconds t)" "t \<in> T" by (auto intro: set_same)
    then show ?thesis by (simp add: remembers_def)
  next
    case False
    with EvSetLastActive assms show ?thesis by (auto simp: remembers_def dest: set_other)
  qed
next
  case (EvCreateState m res)
  with assms obtain fault now where "fsSetLastActive fault d m now = (res, d')" "m \<noteq> n" by (auto simp: fsCreate_def)
  then show ?thesis using assms(2) by (simp add: remembers_def set_other)
next
  case (EvDeleteState m res)
  with assms show ?thesis by (auto simp: remembers_def dest: delete_lookup split: if_splits)
qed (use assms in auto)

lemma storeRun_remembers:
  assumes "storeRun d es d'" and "remembers T n d" and "list_all (writesIn T n) es"
  shows "remembers T n d' \<and> (\<forall>la. EvGetLastActive n (Inr la) \<in> set es \<longrightarrow> la \<in> wholeSeconds ` T)"
  using assms
proof induction
  case (storeRun_Cons d e d1 es d')
  then have "remembers T n d1" by (auto intro: storeStep_remembers [of d e d1])
  then have rest: "remembers T n d' \<and> (\<forall>la. EvGetLastActive n (Inr la) \<in> set es \<longrightarrow> la \<in> wholeSeconds ` T)"
    using storeRun_Cons by simp
  have "la \<in> wholeSeconds ` T" if "e = EvGetLastActive n (Inr la)" for la
  proof -
    from storeRun_Cons.hyps(1) that have "fsLookup d n = Some la" by (auto intro: get_lookup)
    with storeRun_Cons.prems(1) show ?thesis by (simp add: remembers_def)
  qed
  with rest show ?case by auto
qed simp

section \<open>Recent activity protects\<close>

text \<open>How long an inactive container is kept: the idle timeout when a runner of its name is registered,
  the grace period otherwise.\<close>

definition keptFor :: "reconciler \<Rightarrow> runner list \<Rightarrow> string \<Rightarrow> duration" where
  "keptFor r rs n = (case findRunner n rs of None \<Rightarrow> pendingAvailabilityGrace r | Some \<rho> \<Rightarrow> rc_IdleTimeout (cfg r))"

text \<open>\<open>quietFor t w n\<close>: the clock is read at least a second before \<open>t + w\<close>, the runtime does not report \<open>n\<close>
  stopped, the pass does not clone it, and writes of its state do not fail.\<close>

fun quietFor :: "gotime \<Rightarrow> duration \<Rightarrow> string \<Rightarrow> event \<Rightarrow> bool" where
  "quietFor t w n (EvNow now) \<longleftrightarrow> t \<le> now \<and> now + second \<le> t + w \<and> unixTime now"
| "quietFor t w n (EvStatus m res) \<longleftrightarrow> (m, res) \<noteq> (n, Inr StatusStopped)"
| "quietFor t w n (EvClone m res) \<longleftrightarrow> (m, res) \<noteq> (n, None)"
| "quietFor t w n (EvSetLastActive m t' res) \<longleftrightarrow> (m = n \<longrightarrow> res = None)"
| "quietFor t w n e \<longleftrightarrow> True"

lemma window:
  assumes "now + second \<le> t + w" and "t \<le> t'" and "0 < w"
  shows "time_sub now (wholeSeconds t') < w"
proof -
  have "now - wholeSeconds t' < w" using assms wholeSeconds_bounds [of t'] by linarith
  moreover have "minDuration < w" using assms(3) by (simp add: minDuration_def)
  ultimately show ?thesis by (simp add: time_sub_def)
qed

text \<open>C5. A pass that runs on the file system store neither stops nor deletes a container whose last
  activity was recorded at \<open>t\<close>, as long as the clock of the pass stays at least a second before \<open>t\<close>
  plus the time the container is kept: the idle timeout if a runner of its name is registered, else
  the grace period of at most two minutes.  The second is what the store rounds off.  Excepted are a
  container the runtime reports stopped, one the pass cloned itself, the baseline, and a container
  whose activity the pass fails to write.\<close>

theorem active_container_kept:
  assumes "baselineApart r" and "0 < rc_IdleTimeout (cfg r)"
    and "run_state (ReconcileDemand E r demand) [] = (res, es)"
    and "storeRun d es d'" and "fsLookup d n = Some (wholeSeconds t)"
    and "list_all (quietFor t (keptFor r (listedRunners es) n) n) es"
    and "\<not> rc_Baseline (cfg r) \<or> n \<noteq> rc_BaselineName (cfg r)"
  shows "EvStop n e \<notin> set es \<and> EvDelete n e \<notin> set es"
proof (rule ccontr)
  let ?w = "keptFor r (listedRunners es) n"
  let ?T = "insert t {now. EvNow now \<in> set es}"
  assume "\<not> (EvStop n e \<notin> set es \<and> EvDelete n e \<notin> set es)"
  then have "\<exists>e\<in>set es. tearsDown n e" by force
  then have "teardownReason r (listedRunners es) es n"
    using pass_safe [OF assms(1-3)] assms(7) unfolding safePass_def Let_def by blast
  moreover have "EvStatus n (Inr StatusStopped) \<notin> set es" "EvClone n None \<notin> set es"
    using assms(6) by (auto simp: list_all_iff)
  ultimately obtain now la where old: "EvNow now \<in> set es" "EvGetLastActive n (Inr la) \<in> set es"
    "?w \<le> time_sub now la"
    by (auto simp: teardownReason_def expired_def keptFor_def split: option.splits)
  have writes: "writesNow {} es" using ReconcileDemand_writes assms(3) by (rule yields_run)
  have "list_all (writesIn ?T n) es"
    unfolding list_all_iff
  proof
    fix ev assume ev: "ev \<in> set es"
    then have quiet: "quietFor t ?w n ev" using assms(6) by (simp add: list_all_iff)
    show "writesIn ?T n ev"
    proof (cases ev)
      case (EvSetLastActive m t' res)
      with writes ev have read: "EvNow t' \<in> set es" by (auto simp: writesNow_def)
      then have "unixTime t'" using assms(6) by (auto simp: list_all_iff)
      with read quiet EvSetLastActive show ?thesis by simp
    next
      case (EvCreateState m res)
      with writes ev have "EvClone m None \<in> set es" by (auto simp: writesNow_def)
      with EvCreateState \<open>EvClone n None \<notin> set es\<close> show ?thesis by auto
    qed simp_all
  qed
  moreover have "remembers ?T n d" using assms(5) by (simp add: remembers_def)
  ultimately obtain t' where t': "t' \<in> ?T" "la = wholeSeconds t'"
    using storeRun_remembers [OF assms(4)] old(2) by blast
  have "0 < ?w" using assms(2) grace_positive by (simp add: keptFor_def split: option.split)
  moreover have "t \<le> t'" "now + second \<le> t + ?w" using t'(1) old(1) assms(6) by (auto simp: list_all_iff)
  ultimately have "time_sub now la < ?w" unfolding t'(2) by (intro window)
  with old(3) show False by simp
qed

text \<open>An idle runner, seen five seconds after the activity that its file remembers.\<close>

definition idleEnv :: env where
  "idleEnv = sampleEnv\<lparr>
     e_ListRunners := (\<lambda>_. Inr [\<lparr>r_ID = 7, r_Name = ''ci-1'', r_Status = ''online'', r_Busy = False,
                                 r_Labels = [''linux''], r_IsAuto = True\<rparr>]),
     e_ListContainers := (\<lambda>_ _. Inr [\<lparr>c_Name = ''ci-1'', c_Status = StatusRunning\<rparr>]),
     e_GetLastActive := (\<lambda>_ _. Inr (fromUnix 1700000000)),
     e_Now := (\<lambda>_. fromUnix 1700000005)\<rparr>"

definition patientReconciler :: reconciler where
  "patientReconciler = sampleReconciler\<lparr>cfg := (cfg sampleReconciler)\<lparr>rc_IdleTimeout := 10 * minute\<rparr>\<rparr>"

definition idleTrace :: trace where
  "idleTrace = snd (run_state (ReconcileDemand idleEnv patientReconciler \<lparr>d_QueuedJobs = 0, d_OldestAge = 0\<rparr>) [])"

definition idleDir :: directory where
  "idleDir = [(''ci-1.last_active'', ''1700000000'' @ [CHR 0x0A])]"

fun storeReads :: "directory \<Rightarrow> event \<Rightarrow> bool" where
  "storeReads d (EvGetLastActive n res) \<longleftrightarrow> fsGetLastActive None d n = res"
| "storeReads d (EvDeleteState n res) \<longleftrightarrow> False"
| "storeReads d e \<longleftrightarrow> inert e"

lemma storeReads_run: "list_all (storeReads d) es \<Longrightarrow> storeRun d es d"
proof (induction es)
  case (Cons e es)
  then have "storeStep d e d" by (cases e) auto
  with Cons show ?case by (auto intro: storeRun_Cons)
qed (rule storeRun_Nil)

theorem active_container_kept_witness:
  "EvStop ''ci-1'' None \<notin> set idleTrace \<and> EvDelete ''ci-1'' None \<notin> set idleTrace"
proof (rule active_container_kept)
  show "baselineApart patientReconciler" "0 < rc_IdleTimeout (cfg patientReconciler)" by code_simp+
  have "fst (run_state (ReconcileDemand idleEnv patientReconciler \<lparr>d_QueuedJobs = 0, d_OldestAge = 0\<rparr>) []) = None"
    by code_simp
  then show "run_state (ReconcileDemand idleEnv patientReconciler \<lparr>d_QueuedJobs = 0, d_OldestAge = 0\<rparr>) [] = (None, idleTrace)"
    by (simp add: idleTrace_def prod_eq_iff)
  show "storeRun idleDir idleTrace idleDir" by (rule storeReads_run) code_simp
  show "fsLookup idleDir ''ci-1'' = Some (wholeSeconds (fromUnix 1700000000))" by code_simp
  show "list_all (quietFor (fromUnix 1700000000) (keptFor patientReconciler (listedRunners idleTrace) ''ci-1'') ''ci-1'') idleTrace"
    by code_simp
  show "\<not> rc_Baseline (cfg patientReconciler) \<or> ''ci-1'' \<noteq> rc_BaselineName (cfg patientReconciler)" by code_simp
qed

end
