(* ===== verification/Github_Target.thy ===== *)
theory Github_Target
  imports Github_Provider
begin

text \<open>
  The endpoints behind the provider (\<open>listTargetRunners\<close>, \<open>createTargetRegistrationToken\<close>,
  \<open>createTargetRemoveToken\<close> and \<open>removeTargetRunner\<close> of \<open>provider/github/ci.go\<close>). The
  record \<open>ghClient\<close> holds one answer function per endpoint of go-github the provider calls,
  named by owner and repository; \<open>targetApi\<close> is the \<open>ghApi\<close> that a provider reaches with
  it. The lemmas show which endpoints an operation depends on.
\<close>

section \<open>Endpoints and their choice\<close>

record ghClient =
  cl_ListRunners :: "string \<Rightarrow> string \<Rightarrow> int \<Rightarrow> (runner list \<times> int) result"
  cl_ListOrganizationRunners :: "string \<Rightarrow> int \<Rightarrow> (runner list \<times> int) result"
  cl_CreateRegistrationToken :: "string \<Rightarrow> string \<Rightarrow> (string \<times> gotime option) result"
  cl_CreateOrganizationRegistrationToken :: "string \<Rightarrow> (string \<times> gotime option) result"
  cl_CreateRemoveToken :: "string \<Rightarrow> string \<Rightarrow> (string \<times> gotime option) result"
  cl_CreateOrganizationRemoveToken :: "string \<Rightarrow> (string \<times> gotime option) result"
  cl_RemoveRunner :: "string \<Rightarrow> string \<Rightarrow> int \<Rightarrow> gerror option"
  cl_RemoveOrganizationRunner :: "string \<Rightarrow> int \<Rightarrow> gerror option"
  cl_ListByOrg :: "string \<Rightarrow> int \<Rightarrow> (string list \<times> int) result"
  cl_ListRepositoryWorkflowRuns :: "string \<Rightarrow> string \<Rightarrow> bool \<Rightarrow> int \<Rightarrow> int \<Rightarrow> (ghRun list \<times> int) result"
  cl_ListWorkflowJobs :: "string \<Rightarrow> string \<Rightarrow> int \<Rightarrow> int \<Rightarrow> (ghJob list \<times> int) result"
  cl_ListWorkflowJobsAttempt :: "string \<Rightarrow> string \<Rightarrow> int \<Rightarrow> int \<Rightarrow> int \<Rightarrow> (ghJob list \<times> int) result"

definition listTargetRunners :: "ghClient \<Rightarrow> provider \<Rightarrow> int \<Rightarrow> (runner list \<times> int) result" where
  "listTargetRunners cl p page =
     (if gp_repo p \<noteq> [] then cl_ListRunners cl (gp_org p) (gp_repo p) page
      else cl_ListOrganizationRunners cl (gp_org p) page)"

definition createTargetRegistrationToken :: "ghClient \<Rightarrow> provider \<Rightarrow> (string \<times> gotime option) result" where
  "createTargetRegistrationToken cl p =
     (if gp_repo p \<noteq> [] then cl_CreateRegistrationToken cl (gp_org p) (gp_repo p)
      else cl_CreateOrganizationRegistrationToken cl (gp_org p))"

definition createTargetRemoveToken :: "ghClient \<Rightarrow> provider \<Rightarrow> (string \<times> gotime option) result" where
  "createTargetRemoveToken cl p =
     (if gp_repo p \<noteq> [] then cl_CreateRemoveToken cl (gp_org p) (gp_repo p)
      else cl_CreateOrganizationRemoveToken cl (gp_org p))"

definition removeTargetRunner :: "ghClient \<Rightarrow> provider \<Rightarrow> int \<Rightarrow> gerror option" where
  "removeTargetRunner cl p runnerID =
     (if gp_repo p \<noteq> [] then cl_RemoveRunner cl (gp_org p) (gp_repo p) runnerID
      else cl_RemoveOrganizationRunner cl (gp_org p) runnerID)"

text \<open>The requests that go to a repository name it themselves; all of them go to its owner. The
  jobs of a run are those of its latest attempt where no attempt is named.\<close>

definition targetApi :: "ghClient \<Rightarrow> provider \<Rightarrow> ghApi" where
  "targetApi cl p =
     \<lparr>a_listRunners = listTargetRunners cl p,
      a_listOrgRepos = cl_ListByOrg cl (gp_org p),
      a_listRuns = cl_ListRepositoryWorkflowRuns cl (gp_org p),
      a_listJobs = (\<lambda>repo runID attempt page.
        case attempt of
          None \<Rightarrow> cl_ListWorkflowJobs cl (gp_org p) repo runID page
        | Some a \<Rightarrow> cl_ListWorkflowJobsAttempt cl (gp_org p) repo runID a page),
      a_createRegistrationToken = createTargetRegistrationToken cl p,
      a_createRemoveToken = createTargetRemoveToken cl p,
      a_removeRunner = removeTargetRunner cl p\<rparr>"

section \<open>The name of a repository target\<close>

lemma trim_space_subset: "set (trim_space s) \<subseteq> set s"
  by (auto simp: trim_space_def dest!: set_dropWhileD)

lemma trim_space_not_Nil: "s \<noteq> [] \<Longrightarrow> \<not> is_space (hd s) \<Longrightarrow> trim_space s \<noteq> []"
  by (cases s) (auto simp: trim_space_def dropWhile_eq_Nil_conv)

lemma cut_append:
  assumes "c \<notin> set a"
  shows "cut (a @ c # b) c = (a, b, True)"
  using assms by (induction a) (auto simp: cut_def)

lemma repo_provider_parts:
  assumes "newRepoProvider full pfx = Inr p"
  obtains owner where "trim_space full = owner @ CHR ''/'' # gp_repo p" "owner \<noteq> []" "CHR ''/'' \<notin> set owner"
    "gp_org p = trim_space owner" "gp_repo p \<noteq> []" "\<not> contains (gp_repo p) ''/''"
proof -
  obtain owner r ok where cut: "cut (trim_space full) (CHR ''/'') = (owner, r, ok)" by (metis prod_cases3)
  with assms have h: "ok" "owner \<noteq> []" "r \<noteq> []" "\<not> contains r ''/''" "p = (newProvider owner pfx)\<lparr>gp_repo := r\<rparr>"
    by (auto simp: newRepoProvider_def splitRepoFullName_def Let_def split: if_splits)
  moreover from cut h(1) have "CHR ''/'' \<notin> set owner"
    by (auto simp: cut_def dest: set_takeWhileD split: if_splits)
  ultimately show thesis
    using cut_parts [of "trim_space full" "CHR ''/''" owner r] cut by (intro that [of owner]) (auto simp: newProvider_sel)
qed

text \<open>The name a repository provider reports in its metrics reads back as its repository.\<close>

lemma repo_provider_name:
  assumes "newRepoProvider full pfx = Inr p"
  shows "splitRepoFullName (targetName p) = Some (gp_org p, gp_repo p)"
proof -
  obtain owner where h: "trim_space full = owner @ CHR ''/'' # gp_repo p" "owner \<noteq> []" "CHR ''/'' \<notin> set owner"
    "gp_org p = trim_space owner" "gp_repo p \<noteq> []" "\<not> contains (gp_repo p) ''/''"
    using assms by (rule repo_provider_parts)
  have ends: "\<not> is_space (hd owner)" "\<not> is_space (last (gp_repo p))"
    using trim_space_ends [of full] h(1,2,5) by auto
  have org: "gp_org p \<noteq> []" "CHR ''/'' \<notin> set (gp_org p)" "\<not> is_space (hd (gp_org p))"
    using trim_space_not_Nil [OF h(2) ends(1)] trim_space_subset [of owner] trim_space_ends [of owner] h(3,4) by auto
  have "trim_space (targetName p) = gp_org p @ CHR ''/'' # gp_repo p"
    unfolding targetName_def using h(5) org(1,3) ends(2) by (subst trim_space_id) auto
  then show ?thesis
    using cut_append [OF org(2)] org(1) h(5,6) by (simp add: splitRepoFullName_def)
qed

section \<open>Which answers an operation depends on\<close>

text \<open>The loops ask only about the repositories they are given.\<close>

lemma auditRuns_cong:
  "a_listJobs api repo = a_listJobs api' repo \<Longrightarrow> auditRuns api p now repo runs = auditRuns api' p now repo runs"
  by (induction runs) (simp_all cong: sum.case_cong prod.case_cong)

lemma auditRepos_cong:
  assumes "\<And>repo. repo \<in> set repos \<Longrightarrow> a_listRuns api repo = a_listRuns api' repo \<and> a_listJobs api repo = a_listJobs api' repo"
  shows "auditRepos api p now repos = auditRepos api' p now repos"
  using assms
proof (induction repos)
  case (Cons repo repos)
  then have "a_listRuns api repo = a_listRuns api' repo" "auditRuns api p now repo runs = auditRuns api' p now repo runs"
    "auditRepos api p now repos = auditRepos api' p now repos" for runs
    by (auto intro: auditRuns_cong)
  then show ?case by (simp cong: sum.case_cong prod.case_cong)
qed simp

lemma collectRuns_cong:
  assumes "\<And>repo. repo \<in> set repos \<Longrightarrow> a_listRuns api repo = a_listRuns api' repo"
  shows "collectRuns api p perRepo repos = collectRuns api' p perRepo repos"
  using assms by (induction repos) (simp_all add: listRepositoryWorkflowRuns_def)

lemma collectRuns_repos:
  "collectRuns api p perRepo repos = Some ms \<Longrightarrow> m \<in> set ms \<Longrightarrow>
     \<exists>repo\<in>set repos. wm_Repo m = metricRepoName p repo"
proof (induction repos arbitrary: ms)
  case (Cons repo repos)
  from Cons.prems(1) obtain runs rest where "listRepositoryWorkflowRuns api repo perRepo = Some runs"
    "collectRuns api p perRepo repos = Some rest"
    "ms = (case runs of Inl err \<Rightarrow> [] | Inr rs \<Rightarrow> map (runMetrics p repo) rs) @ rest"
    by (auto simp: Option.bind_eq_Some_conv)
  with Cons.prems(2) Cons.IH show ?case by (auto simp: runMetrics_def Let_def split: sum.splits)
qed simp

lemma hydrate_cong:
  "a_listJobs api repo = a_listJobs api' repo \<Longrightarrow>
     hydrateWorkflowFailureDetails api repo runID attempt conclusion = hydrateWorkflowFailureDetails api' repo runID attempt conclusion"
  by (simp add: hydrateWorkflowFailureDetails_def listWorkflowJobsForRun_def)

lemma enrichRuns_cong:
  assumes "\<And>m. m \<in> set runs \<Longrightarrow> a_listJobs api (apiRepoName p (wm_Repo m)) = a_listJobs api' (apiRepoName p (wm_Repo m))"
  shows "enrichRuns api p e runs = enrichRuns api' p e runs"
  using assms
proof (induction runs arbitrary: e)
  case (Cons run runs)
  have "hydrateWorkflowFailureDetails api (apiRepoName p (wm_Repo run)) i a c
      = hydrateWorkflowFailureDetails api' (apiRepoName p (wm_Repo run)) i a c" for i a c
    using Cons.prems by (intro hydrate_cong) simp
  moreover have "enrichRuns api p e runs = enrichRuns api' p e runs" for e
    using Cons by simp
  ultimately show ?case by (simp cong: option.case_cong prod.case_cong)
qed simp

lemma workflowRepoBatch_target:
  assumes "workflowRepoBatch p repos = (batch, p')"
  shows "gp_org p' = gp_org p" "gp_repo p' = gp_repo p" "repos \<noteq> [] \<Longrightarrow> set batch \<subseteq> set repos"
proof -
  show "gp_org p' = gp_org p" "gp_repo p' = gp_repo p"
    using assms by (auto simp: workflowRepoBatch_def Let_def split: if_splits)
  assume "repos \<noteq> []"
  then have "repos ! nat (i mod int (length repos)) \<in> set repos" for i
    by (intro nth_mem) (simp add: nat_less_iff)
  then show "set batch \<subseteq> set repos"
    using assms by (auto simp: workflowRepoBatch_def Let_def split: if_splits)
qed

section \<open>A repository provider stays inside its repository\<close>

text \<open>Two servers that answer alike for one repository, and as they please for everything else.\<close>

definition sameRepo :: "ghClient \<Rightarrow> ghClient \<Rightarrow> string \<Rightarrow> string \<Rightarrow> bool" where
  "sameRepo cl cl' owner repo \<longleftrightarrow>
     cl_ListRunners cl owner repo = cl_ListRunners cl' owner repo
     \<and> cl_CreateRegistrationToken cl owner repo = cl_CreateRegistrationToken cl' owner repo
     \<and> cl_CreateRemoveToken cl owner repo = cl_CreateRemoveToken cl' owner repo
     \<and> cl_RemoveRunner cl owner repo = cl_RemoveRunner cl' owner repo
     \<and> cl_ListRepositoryWorkflowRuns cl owner repo = cl_ListRepositoryWorkflowRuns cl' owner repo
     \<and> cl_ListWorkflowJobs cl owner repo = cl_ListWorkflowJobs cl' owner repo
     \<and> cl_ListWorkflowJobsAttempt cl owner repo = cl_ListWorkflowJobsAttempt cl' owner repo"

lemma targetApi_sameRepo:
  assumes "gp_repo p \<noteq> []" and "sameRepo cl cl' (gp_org p) (gp_repo p)"
  shows "a_listRunners (targetApi cl p) = a_listRunners (targetApi cl' p)"
    "a_createRegistrationToken (targetApi cl p) = a_createRegistrationToken (targetApi cl' p)"
    "a_createRemoveToken (targetApi cl p) = a_createRemoveToken (targetApi cl' p)"
    "a_removeRunner (targetApi cl p) = a_removeRunner (targetApi cl' p)"
    "a_listRuns (targetApi cl p) (gp_repo p) = a_listRuns (targetApi cl' p) (gp_repo p)"
    "a_listJobs (targetApi cl p) (gp_repo p) = a_listJobs (targetApi cl' p) (gp_repo p)"
  using assms
  by (simp_all add: targetApi_def sameRepo_def fun_eq_iff listTargetRunners_def createTargetRegistrationToken_def
      createTargetRemoveToken_def removeTargetRunner_def split: option.splits)

lemma ListQueuedJobs_sameRepo:
  assumes repo: "gp_repo p \<noteq> []" and same: "sameRepo cl cl' (gp_org p) (gp_repo p)"
  shows "ListQueuedJobs (targetApi cl p) clk p = ListQueuedJobs (targetApi cl' p) clk p"
proof -
  obtain batch p' where batch: "workflowRepoBatch p [gp_repo p] = (batch, p')" by fastforce
  with workflowRepoBatch_target(3) [OF batch] have "set batch \<subseteq> {gp_repo p}" by simp
  then have "auditRepos (targetApi cl p) p' now batch = auditRepos (targetApi cl' p) p' now batch" for now
    using targetApi_sameRepo(5,6) [OF repo same] by (intro auditRepos_cong) auto
  then show ?thesis using repo batch by (simp add: ListQueuedJobs_def listWorkflowRepos_def)
qed

lemma ListRecentWorkflowRuns_sameRepo:
  assumes repo: "gp_repo p \<noteq> []" and same: "sameRepo cl cl' (gp_org p) (gp_repo p)"
    and name: "splitRepoFullName (targetName p) = Some (gp_org p, gp_repo p)"
  shows "ListRecentWorkflowRuns (targetApi cl p) clk p perRepo = ListRecentWorkflowRuns (targetApi cl' p) clk p perRepo"
proof -
  let ?a = "targetApi cl p" and ?b = "targetApi cl' p"
  obtain batch p' where batch: "workflowRepoBatch p [gp_repo p] = (batch, p')" by fastforce
  note kept = workflowRepoBatch_target [OF batch]
  have runs: "collectRuns ?a p' perRepo batch = collectRuns ?b p' perRepo batch"
    using targetApi_sameRepo(5) [OF repo same] kept(3) by (intro collectRuns_cong) auto
  have shallow: "ListRecentWorkflowRunsShallow ?a clk p perRepo = ListRecentWorkflowRunsShallow ?b clk p perRepo"
    using repo batch runs by (simp add: ListRecentWorkflowRunsShallow_def listWorkflowRepos_def)
  have enrich: "EnrichWorkflowMetrics ?a p' ms = EnrichWorkflowMetrics ?b p' ms"
    if "collectRuns ?b p' perRepo batch = Some ms" for ms
  proof -
    have "apiRepoName p' (wm_Repo m) = gp_repo p" if "m \<in> set ms" for m
      using collectRuns_repos [OF \<open>collectRuns ?b p' perRepo batch = Some ms\<close> that] name repo kept
      by (auto simp: metricRepoName_def targetName_def apiRepoName_def equal_fold_def)
    then show ?thesis
      unfolding EnrichWorkflowMetrics_def using targetApi_sameRepo(6) [OF repo same] by (intro enrichRuns_cong) simp
  qed
  show ?thesis
    unfolding ListRecentWorkflowRuns_def shallow
    using repo batch enrich
    by (auto simp: ListRecentWorkflowRunsShallow_def listWorkflowRepos_def split: option.splits)
qed

text \<open>C22. A provider made for a repository stays inside it: through all its operations it can only learn
  and change what the endpoints of that repository say and do.  Servers that answer alike there give
  it the same runners, tokens, removals, queued jobs and workflow runs with their failure details,
  whatever they answer for the organisation, its other repositories and other owners.\<close>

theorem repo_provider_confined:
  assumes "newRepoProvider full pfx = Inr p0" and "gp_org p = gp_org p0" and "gp_repo p = gp_repo p0"
    and "sameRepo cl cl' (gp_org p) (gp_repo p)"
  shows "fetchRunners (targetApi cl p) = fetchRunners (targetApi cl' p)
    \<and> getRegistrationToken (targetApi cl p) clk p cache = getRegistrationToken (targetApi cl' p) clk p cache
    \<and> getRunnerRemoveToken (targetApi cl p) clk p cache = getRunnerRemoveToken (targetApi cl' p) clk p cache
    \<and> deleteRunner (targetApi cl p) cache runnerID = deleteRunner (targetApi cl' p) cache runnerID
    \<and> ListQueuedJobs (targetApi cl p) clk p = ListQueuedJobs (targetApi cl' p) clk p
    \<and> ListRecentWorkflowRuns (targetApi cl p) clk p perRepo = ListRecentWorkflowRuns (targetApi cl' p) clk p perRepo"
proof -
  have repo: "gp_repo p \<noteq> []" using repo_provider_parts [OF assms(1)] assms(3) by metis
  have name: "splitRepoFullName (targetName p) = Some (gp_org p, gp_repo p)"
    using repo_provider_name [OF assms(1)] assms(2,3) by (metis targetName_def)
  note same = targetApi_sameRepo [OF repo assms(4)]
  have "fetchRunners (targetApi cl p) = fetchRunners (targetApi cl' p)"
    by (simp only: fetchRunners_def same(1))
  moreover have "getRegistrationToken (targetApi cl p) clk p cache = getRegistrationToken (targetApi cl' p) clk p cache"
    by (simp only: getRegistrationToken_def same(2))
  moreover have "getRunnerRemoveToken (targetApi cl p) clk p cache = getRunnerRemoveToken (targetApi cl' p) clk p cache"
    by (simp only: getRunnerRemoveToken_def same(3))
  moreover have "deleteRunner (targetApi cl p) cache runnerID = deleteRunner (targetApi cl' p) cache runnerID"
    by (simp only: deleteRunner_def same(4))
  ultimately show ?thesis
    using ListQueuedJobs_sameRepo [OF repo assms(4)] ListRecentWorkflowRuns_sameRepo [OF repo assms(4) name] by simp
qed

text \<open>A server that fails every request outside \<open>o/r\<close>, and one that answers them all.\<close>

definition openClient :: ghClient where
  "openClient =
     \<lparr>cl_ListRunners = (\<lambda>_ _ _. Inr ([], 0)), cl_ListOrganizationRunners = (\<lambda>_ _. Inr ([], 0)),
      cl_CreateRegistrationToken = (\<lambda>_ _. Inr (''reg'', None)),
      cl_CreateOrganizationRegistrationToken = (\<lambda>_. Inr (''org-reg'', None)),
      cl_CreateRemoveToken = (\<lambda>_ _. Inr (''rem'', None)),
      cl_CreateOrganizationRemoveToken = (\<lambda>_. Inr (''org-rem'', None)),
      cl_RemoveRunner = (\<lambda>_ _ _. None), cl_RemoveOrganizationRunner = (\<lambda>_ _. None),
      cl_ListByOrg = (\<lambda>_ _. Inr ([''r'', ''s''], 0)),
      cl_ListRepositoryWorkflowRuns = (\<lambda>_ repo. a_listRuns sampleApi repo),
      cl_ListWorkflowJobs = (\<lambda>_ repo runID. a_listJobs sampleApi repo runID None),
      cl_ListWorkflowJobsAttempt = (\<lambda>_ repo runID a. a_listJobs sampleApi repo runID (Some a))\<rparr>"

definition closedClient :: ghClient where
  "closedClient = openClient
     \<lparr>cl_ListOrganizationRunners := (\<lambda>_ _. Inl ''403''), cl_CreateOrganizationRegistrationToken := (\<lambda>_. Inl ''403''),
      cl_CreateOrganizationRemoveToken := (\<lambda>_. Inl ''403''), cl_RemoveOrganizationRunner := (\<lambda>_ _. Some ''403''),
      cl_ListByOrg := (\<lambda>_ _. Inl ''403''),
      cl_ListRepositoryWorkflowRuns := (\<lambda>owner repo active perPage page.
        if owner = ''o'' \<and> repo = ''r'' then a_listRuns sampleApi repo active perPage page else Inl ''403'')\<rparr>"

theorem repo_provider_confined_witness:
  "\<exists>p. newRepoProvider '' o/r '' ''ci'' = Inr p
    \<and> fst (getRegistrationToken (targetApi closedClient p) (\<lambda>_. 10) p emptyInventory) = Inr ''reg''
    \<and> ListQueuedJobs (targetApi openClient p) (\<lambda>_. 10) p = ListQueuedJobs (targetApi closedClient p) (\<lambda>_. 10) p"
proof -
  let ?p = "(newProvider ''o'' ''ci'')\<lparr>gp_repo := ''r''\<rparr>"
  have made: "newRepoProvider '' o/r '' ''ci'' = Inr ?p" by code_simp
  have "gp_org ?p = ''o''" by code_simp
  then have same: "sameRepo openClient closedClient (gp_org ?p) (gp_repo ?p)"
    by (simp add: sameRepo_def closedClient_def fun_eq_iff) (simp add: openClient_def)
  have token: "fst (getRegistrationToken (targetApi openClient ?p) (\<lambda>_. 10) ?p emptyInventory) = Inr ''reg''"
    by (simp add: getRegistrationToken_def usableCachedToken_def newProvider_def noToken_def targetApi_def
        createTargetRegistrationToken_def openClient_def)
  show ?thesis
    using made token repo_provider_confined [OF made refl refl same, of "\<lambda>_. 10" emptyInventory 0 0] by (intro exI [of _ ?p]) simp
qed

text \<open>A provider for an organisation uses the endpoints of the organisation for its runners.\<close>

lemma org_provider_runners:
  assumes "gp_repo p = []"
  shows "a_listRunners (targetApi cl p) = cl_ListOrganizationRunners cl (gp_org p)"
    "a_createRegistrationToken (targetApi cl p) = cl_CreateOrganizationRegistrationToken cl (gp_org p)"
    "a_createRemoveToken (targetApi cl p) = cl_CreateOrganizationRemoveToken cl (gp_org p)"
    "a_removeRunner (targetApi cl p) = cl_RemoveOrganizationRunner cl (gp_org p)"
  using assms
  by (simp_all add: targetApi_def fun_eq_iff listTargetRunners_def createTargetRegistrationToken_def
      createTargetRemoveToken_def removeTargetRunner_def)

end
