(* ===== verification/Daemon_Server.thy ===== *)
theory Daemon_Server
  imports Daemon_Metrics Log_Query Go_Paths
begin

text \<open>
  The HTTP server of the daemon: \<open>runWebhookServer\<close> of \<open>internal/daemon/webhook.go\<close>, which
  registers the four handlers with an \<open>http.ServeMux\<close>.  \<open>serve\<close> answers one request with the
  handler the mux chooses, over the state of the handlers and the log store.  The mux is that of the
  standard library for paths without escaped characters: a pattern that ends in a slash matches every
  path below it, the longest pattern wins, and a path that is not clean is redirected.  Ports,
  timeouts, the limit of the header and the shutdown are not modelled.

  \<open>muxPath_idem\<close>: no redirect leads to another.  \<open>server_guarded\<close>: who can change the state of
  the daemon through the server, and who can read its log.
\<close>

section \<open>The mux\<close>

datatype route = LogsRoute | HealthRoute | StatusRoute | WebhookRoute

definition routes :: "(string \<times> route) list" where
  "routes = [(''/logs'', LogsRoute), (''/healthz'', HealthRoute), (''/statusz'', StatusRoute), (''/'', WebhookRoute)]"

definition patternMatches :: "string \<Rightarrow> string \<Rightarrow> bool" where
  "patternMatches pattern path = (pattern = path \<or> (has_suffix pattern ''/'' \<and> has_prefix path pattern))"

text \<open>The route of the longest pattern that matches.\<close>

definition muxRoute :: "string \<Rightarrow> route option" where
  "muxRoute path =
     (case filter (\<lambda>(pattern, rt). patternMatches pattern path) routes of
        [] \<Rightarrow> None
      | c # cs \<Rightarrow> Some (snd (foldl (\<lambda>best x. if length (fst best) < length (fst x) then x else best) c cs)))"

text \<open>The canonical path: rooted, clean, with the trailing slash kept.\<close>

definition muxPath :: "string \<Rightarrow> string" where
  "muxPath p =
     (if p = [] then ''/''
      else let q = (if hd p = CHR ''/'' then p else CHR ''/'' # p); np = cleanPath q
           in if last q = CHR ''/'' \<and> np \<noteq> ''/'' then np @ ''/'' else np)"

section \<open>The server\<close>

datatype served = Handled httpResponse | MovedPermanently string

text \<open>One handler.  The error of the log encoder is logged.\<close>

definition runRoute ::
  "daemonConfig \<Rightarrow> hookEnv \<Rightarrow> runnerGroup list \<Rightarrow> loopState \<Rightarrow> LogStore option \<Rightarrow> urlValues \<Rightarrow> httpRequest \<Rightarrow> hookState
   \<Rightarrow> route \<Rightarrow> httpResponse \<times> hookState" where
  "runRoute cfg H dgroups d store values r s rt =
     (case rt of
        LogsRoute \<Rightarrow>
          (case handleLogs cfg store values r of
             (resp, None) \<Rightarrow> (resp, s)
           | (resp, Some err) \<Rightarrow> (resp, addLog LevelError ''failed to encode log response''
               [(''event_type'', LStr ''logs''), (''action'', LStr ''encode_failed''), (''error'', LStr err)] s))
      | HealthRoute \<Rightarrow> (handleHealth r, s)
      | StatusRoute \<Rightarrow> (handleStatus cfg d s r, s)
      | WebhookRoute \<Rightarrow> handleWebhook cfg H dgroups r s)"

text \<open>The server answers a request for \<open>*\<close> itself; a \<open>CONNECT\<close> request is not redirected.\<close>

definition serve ::
  "daemonConfig \<Rightarrow> hookEnv \<Rightarrow> runnerGroup list \<Rightarrow> loopState \<Rightarrow> LogStore option \<Rightarrow> urlValues \<Rightarrow> httpRequest \<Rightarrow> hookState
   \<Rightarrow> served \<times> hookState" where
  "serve cfg H dgroups d store values r s =
     (if hr_Path r = ''*'' then (Handled (if hr_Method r = ''OPTIONS'' then 200 else 400, []), s)
      else if hr_Method r \<noteq> ''CONNECT'' \<and> muxPath (hr_Path r) \<noteq> hr_Path r then (MovedPermanently (muxPath (hr_Path r)), s)
      else (case muxRoute (hr_Path r) of
              None \<Rightarrow> (Handled (404, ''404 page not found''), s)
            | Some rt \<Rightarrow> map_prod Handled id (runRoute cfg H dgroups d store values r s rt)))"

section \<open>Routes\<close>

lemma muxRoute_known:
  "muxRoute ''/logs'' = Some LogsRoute" "muxRoute ''/healthz'' = Some HealthRoute"
  "muxRoute ''/statusz'' = Some StatusRoute" "muxRoute ''/'' = Some WebhookRoute"
  by code_simp+

lemma muxRoute_cases:
  "muxRoute path =
     (if path = ''/logs'' then Some LogsRoute else if path = ''/healthz'' then Some HealthRoute
      else if path = ''/statusz'' then Some StatusRoute else if has_prefix path ''/'' then Some WebhookRoute else None)"
proof -
  have suffix: "\<not> has_suffix ''/logs'' ''/''" "\<not> has_suffix ''/healthz'' ''/''" "\<not> has_suffix ''/statusz'' ''/''"
    "has_suffix ''/'' ''/''" by code_simp+
  show ?thesis
  proof (cases "path \<in> {''/logs'', ''/healthz'', ''/statusz''}")
    case True
    then show ?thesis using muxRoute_known by auto
  next
    case False
    then have "filter (\<lambda>(pattern, rt). patternMatches pattern path) routes
        = (if has_prefix path ''/'' then [(''/'', WebhookRoute)] else [])"
      using suffix by (auto simp: routes_def patternMatches_def has_prefix_def)
    then show ?thesis using False by (simp add: muxRoute_def)
  qed
qed

section \<open>Redirects\<close>

lemma split_join:
  "\<forall>e\<in>set es. c \<notin> set e \<Longrightarrow> es \<noteq> [] \<Longrightarrow> split_on c (join [c] es) = es"
  by (induction es rule: join.induct [of "\<lambda>_ es. P es" for P]) (auto simp: split_on_line split_on_none)

lemma split_on_snoc: "split_on c (s @ [c]) = split_on c s @ [[]]"
  by (induction s) (auto split: list.splits)

lemma foldl_cleanStep_kept:
  "\<forall>e\<in>set es. properName e \<Longrightarrow> foldl (cleanStep True) stack es = rev es @ stack"
  by (induction es arbitrary: stack) (auto simp: cleanStep_def properName_def)

lemma foldl_cleanStep_join:
  assumes "\<forall>e\<in>set es. properName e"
  shows "foldl (cleanStep True) stack (split_on CHR ''/'' (join ''/'' es)) = rev es @ stack"
proof (cases "es = []")
  case False
  then have "split_on CHR ''/'' (join ''/'' es) = es"
    using assms by (intro split_join) (auto simp: properName_def)
  then show ?thesis using foldl_cleanStep_kept [OF assms] by simp
qed (simp add: cleanStep_def)

lemma cleanPath_canonical:
  assumes "\<forall>e\<in>set es. properName e"
  shows "cleanPath (CHR ''/'' # join ''/'' es) = CHR ''/'' # join ''/'' es"
    "cleanPath (CHR ''/'' # join ''/'' es @ ''/'') = CHR ''/'' # join ''/'' es"
  using foldl_cleanStep_join [OF assms, of "[]"]
  by (simp_all add: cleanPath_def isAbs_def has_prefix_def cleanStep_def split_on_snoc)

lemma join_proper_ends:
  assumes "\<forall>e\<in>set es. properName e" and "es \<noteq> []"
  shows "join ''/'' es \<noteq> []" "last (join ''/'' es) \<noteq> CHR ''/''"
  using assms by (induction es rule: join.induct [of "\<lambda>_ es. P es" for P]) (auto simp: properName_def dest: last_in_set)

lemma muxPath_canonical:
  obtains es where "\<forall>e\<in>set es. properName e"
    "muxPath p = CHR ''/'' # join ''/'' es \<or> es \<noteq> [] \<and> muxPath p = CHR ''/'' # join ''/'' es @ ''/''"
proof (cases "p = []")
  case True
  then show ?thesis by (intro that [of "[]"]) (simp_all add: muxPath_def)
next
  case False
  define q where "q = (if hd p = CHR ''/'' then p else CHR ''/'' # p)"
  have "isAbs q" using False by (cases p) (auto simp: q_def isAbs_def has_prefix_def)
  then obtain es where es: "cleanPath q = CHR ''/'' # join ''/'' es" "\<forall>e\<in>set es. properName e"
    by (rule clean_rooted)
  have "muxPath p = (if last q = CHR ''/'' \<and> es \<noteq> [] then CHR ''/'' # join ''/'' es @ ''/'' else CHR ''/'' # join ''/'' es)"
    using False es join_proper_ends(1) [OF es(2)] by (auto simp: muxPath_def q_def [symmetric] Let_def)
  then show ?thesis using es(2) by (intro that [of es]) auto
qed

lemma muxPath_clean:
  assumes "j \<noteq> []" and "last j \<noteq> CHR ''/''"
  shows "cleanPath (CHR ''/'' # j) = CHR ''/'' # j \<Longrightarrow> muxPath (CHR ''/'' # j) = CHR ''/'' # j"
    "cleanPath (CHR ''/'' # j @ ''/'') = CHR ''/'' # j \<Longrightarrow> muxPath (CHR ''/'' # j @ ''/'') = CHR ''/'' # j @ ''/''"
  using assms by (simp_all add: muxPath_def)

lemma muxPath_idem: "muxPath (muxPath p) = muxPath p"
proof -
  obtain es where es: "\<forall>e\<in>set es. properName e"
    "muxPath p = CHR ''/'' # join ''/'' es \<or> es \<noteq> [] \<and> muxPath p = CHR ''/'' # join ''/'' es @ ''/''"
    by (rule muxPath_canonical)
  note clean = cleanPath_canonical [OF es(1)]
  show ?thesis
  proof (cases "es = []")
    case True
    then have "muxPath p = ''/''" using es(2) by simp
    then show ?thesis using clean(1) True by (simp add: muxPath_def)
  next
    case False
    note fixed = muxPath_clean [OF join_proper_ends [OF es(1) False]]
    from es(2) show ?thesis using fixed(1) [OF clean(1)] fixed(2) [OF clean(2)] by metis
  qed
qed

text \<open>A redirect leads to a page: the client that follows it is not redirected again.\<close>

lemma redirect_once:
  assumes "fst (serve cfg H dgroups d store values r s) = MovedPermanently path"
  shows "\<exists>resp. fst (serve cfg H dgroups d store values (r\<lparr>hr_Path := path\<rparr>) s) = Handled resp"
  using assms muxPath_idem [of "hr_Path r"]
  by (auto simp: serve_def split: if_splits option.splits)

section \<open>Who reaches the state and the log\<close>

text \<open>A signed webhook, and a request for the log with the token.\<close>

definition signedWebhook :: "hookEnv \<Rightarrow> httpRequest \<Rightarrow> bool" where
  "signedWebhook H r \<longleftrightarrow>
     hr_Path r = ''/'' \<and> hr_Method r = ''POST''
     \<and> (case hr_Body r of Inl err \<Rightarrow> False | Inr payload \<Rightarrow> length payload \<le> 2 ^ 20 \<and> he_validate H payload (hr_Signature r) = None)"

definition tokenRequest :: "daemonConfig \<Rightarrow> httpRequest \<Rightarrow> bool" where
  "tokenRequest cfg r \<longleftrightarrow>
     hr_Path r = ''/logs'' \<and> hr_Method r = ''GET'' \<and> trim_space (dc_LogsToken cfg) \<noteq> []
     \<and> trim_space (hr_Authorization r) = ''Bearer '' @ trim_space (dc_LogsToken cfg)"

lemma handleWebhook_changes:
  "snd (handleWebhook cfg H dgroups r s) = s \<or> signedWebhook H r"
  by (auto simp: handleWebhook_def signedWebhook_def readBody_def maxWebhookBodyBytes_def split: sum.splits option.splits)

lemma handleLogs_denied:
  assumes "\<not> (hr_Method r = ''GET'' \<and> authorizeLogsRequest cfg r)"
  shows "handleLogs cfg (map_option f store) values r = handleLogs cfg store values r"
    "snd (handleLogs cfg store values r) = None"
  using assms by (auto simp: handleLogs_def split: option.splits)

lemma tokenRequest_iff:
  "hr_Path r = ''/logs'' \<Longrightarrow> tokenRequest cfg r \<longleftrightarrow> hr_Method r = ''GET'' \<and> authorizeLogsRequest cfg r"
  using authorized_iff [of cfg r] by (auto simp: tokenRequest_def)

lemma serve_cases:
  obtains (quiet) out where "\<And>store'. serve cfg H dgroups d store' values r s = (out, s)"
  | (logs) "hr_Path r = ''/logs''"
      "\<And>store'. serve cfg H dgroups d store' values r s = map_prod Handled id (runRoute cfg H dgroups d store' values r s LogsRoute)"
  | (webhook) "\<And>store'. serve cfg H dgroups d store' values r s = map_prod Handled id (handleWebhook cfg H dgroups r s)"
proof (cases "hr_Path r = ''*'' \<or> hr_Method r \<noteq> ''CONNECT'' \<and> muxPath (hr_Path r) \<noteq> hr_Path r")
  case True
  show thesis
  proof (rule quiet)
    show "serve cfg H dgroups d store' values r s =
        (if hr_Path r = ''*'' then Handled (if hr_Method r = ''OPTIONS'' then 200 else 400, [])
         else MovedPermanently (muxPath (hr_Path r)), s)" for store'
      using True by (auto simp: serve_def)
  qed
next
  case False
  then have served: "serve cfg H dgroups d store' values r s =
      (case muxRoute (hr_Path r) of
         None \<Rightarrow> (Handled (404, ''404 page not found''), s)
       | Some rt \<Rightarrow> map_prod Handled id (runRoute cfg H dgroups d store' values r s rt))" for store'
    by (auto simp: serve_def)
  show thesis
  proof (cases "muxRoute (hr_Path r)")
    case None
    with served show thesis by (intro quiet) simp
  next
    case (Some rt)
    with served have "\<And>store'. serve cfg H dgroups d store' values r s
        = map_prod Handled id (runRoute cfg H dgroups d store' values r s rt)" by simp
    then show thesis
      using Some by (cases rt) (auto simp: runRoute_def muxRoute_cases split: if_splits intro: quiet logs webhook)
  qed
qed

text \<open>C19. The server is closed to strangers.  Only a POST to the root with a readable body of at most a
  mebibyte and a valid signature changes the state of the daemon (its demand, its scheduled actions,
  its status, its log), except that a token request whose answer cannot be encoded is logged.  And only
  a GET of \<open>/logs\<close> with the configured token, which must not be empty, reads the log: the answer to any
  other request, on whatever path, is the same whatever the log contains.\<close>

theorem server_guarded:
  "(snd (serve cfg H dgroups d store values r s) = s
     \<or> signedWebhook H r
     \<or> tokenRequest cfg r \<and> (\<exists>attrs. snd (serve cfg H dgroups d store values r s)
                                  = addLog LevelError ''failed to encode log response'' attrs s))
   \<and> (tokenRequest cfg r
     \<or> (\<forall>entries. serve cfg H dgroups d (map_option (\<lambda>st. st\<lparr>ls_Entries := entries\<rparr>) store) values r s
                 = serve cfg H dgroups d store values r s))"
proof (rule serve_cases [of cfg H dgroups d "values" r s])
  fix out
  assume quiet: "\<And>store'. serve cfg H dgroups d store' values r s = (out, s)"
  then show ?thesis by simp
next
  assume "\<And>store'. serve cfg H dgroups d store' values r s = map_prod Handled id (handleWebhook cfg H dgroups r s)"
  then show ?thesis using handleWebhook_changes [of cfg H dgroups r s] by auto
next
  assume logs: "hr_Path r = ''/logs''"
    "\<And>store'. serve cfg H dgroups d store' values r s = map_prod Handled id (runRoute cfg H dgroups d store' values r s LogsRoute)"
  show ?thesis
  proof (cases "tokenRequest cfg r")
    case True
    then show ?thesis using logs(2) by (auto simp: runRoute_def split: prod.splits option.splits)
  next
    case False
    then have "\<not> (hr_Method r = ''GET'' \<and> authorizeLogsRequest cfg r)" using tokenRequest_iff [OF logs(1)] by simp
    note denied = handleLogs_denied [OF this]
    obtain resp where "handleLogs cfg store values r = (resp, None)"
      using denied(2) [of store "values"] by (cases "handleLogs cfg store values r") auto
    then have "runRoute cfg H dgroups d store values r s LogsRoute = (resp, s)"
      "runRoute cfg H dgroups d (map_option f store) values r s LogsRoute = (resp, s)" for f
      by (simp_all add: runRoute_def denied(1))
    then show ?thesis using logs(2) by simp
  qed
qed

text \<open>A stranger that asks for the log, or sends a webhook with a bad signature.\<close>

lemma strangers_rejected:
  "serve logsConfig (sampleHook EventJobQueued) sampleGroups newLoop (Some sampleLogs) []
     (logsRequest\<lparr>hr_Authorization := ''Bearer guess''\<rparr>) sampleState = (Handled (401, ''unauthorized''), sampleState)"
  "serve logsConfig (sampleHook EventJobQueued) sampleGroups newLoop (Some sampleLogs) []
     (sampleRequest\<lparr>hr_Signature := ''forged''\<rparr>) sampleState = (Handled (401, ''invalid signature''), sampleState)"
  "serve logsConfig (sampleHook EventJobQueued) sampleGroups newLoop (Some sampleLogs) []
     (sampleRequest\<lparr>hr_Path := ''//logs/../''\<rparr>) sampleState = (MovedPermanently ''/'', sampleState)"
  by code_simp+

end
