(* ===== verification/Lxd_Pass.thy ===== *)
theory Lxd_Pass
  imports Reconciler_Claims Lxd_Cache
begin

text \<open>
  A reconcile pass on an LXD server: the calls of \<open>Reconciler\<close> are answered by the runtime and the cache
  manager of \<open>provider/lxd\<close>, on one server that others may change between the calls.  \<open>runtimeRun\<close> says
  that the trace of a pass is such a run.

  \<open>foreign_instance_untouched\<close>: instances outside the prefix of the group are left alone.
  \<open>server_capacity\<close>: the limit on auto-scaled containers holds for the instances the server has at every
  moment, up to those that others add and those that clones leave whose error looks like a conflict.
\<close>

section \<open>A run of calls on a server\<close>

fun runtimeStep :: "'s lxdServer \<Rightarrow> lxdRuntime \<Rightarrow> cacheManager \<Rightarrow> 's \<Rightarrow> event \<Rightarrow> 's \<Rightarrow> bool" where
  "runtimeStep srv rt cm s (EvClone n res) s' \<longleftrightarrow> Lxd_Runtime.CloneFromTemplate srv rt n s = Some (res, s')"
| "runtimeStep srv rt cm s (EvStart n res) s' \<longleftrightarrow> lxdStartContainer srv n s = (res, s')"
| "runtimeStep srv rt cm s (EvStop n res) s' \<longleftrightarrow> lxdStopContainer srv n s = (res, s')"
| "runtimeStep srv rt cm s (EvDelete n res) s' \<longleftrightarrow> lxdDeleteContainer srv n s = (res, s')"
| "runtimeStep srv rt cm s (EvExec n cmd res) s' \<longleftrightarrow>
     (\<exists>out err. lxdExecCommand srv n cmd s = ((out, err), s') \<and> res = (case err of None \<Rightarrow> Inr out | Some e \<Rightarrow> Inl e))"
| "runtimeStep srv rt cm s (EvWaitReady n chk timeout res) s' \<longleftrightarrow>
     (\<exists>ctx rounds t. lxdWaitForReady srv n chk timeout ctx rounds s = Some (res, t, s'))"
| "runtimeStep srv rt cm s (EvListContainers p res) s' \<longleftrightarrow> s' = s \<and> res = lxdListContainers srv p s"
| "runtimeStep srv rt cm s (EvStatus n res) s' \<longleftrightarrow>
     s' = s \<and> res = (case lxdGetContainerStatus srv n s of (st, None) \<Rightarrow> Inr st | (st, Some err) \<Rightarrow> Inl err)"
| "runtimeStep srv rt cm s (EvAttachCache n res) s' \<longleftrightarrow> lxdAttachCache srv cm n s = (res, s')"
| "runtimeStep srv rt cm s (EvCacheSymlinks n res) s' \<longleftrightarrow> lxdSetupCacheSymlinks srv cm n s = (res, s')"
| "runtimeStep srv rt cm s (EvPruneCache n policy res) s' \<longleftrightarrow> lxdPruneCache srv n policy s = (res, s')"
| "runtimeStep srv rt cm s e s' \<longleftrightarrow> s' = s"

text \<open>\<open>drift\<close> is what others may do to the server between two calls.\<close>

inductive runtimeRun :: "('s \<Rightarrow> 's \<Rightarrow> bool) \<Rightarrow> 's lxdServer \<Rightarrow> lxdRuntime \<Rightarrow> cacheManager \<Rightarrow> 's \<Rightarrow> trace \<Rightarrow> 's \<Rightarrow> bool"
  for drift srv rt cm where
  runtimeRun_Nil: "runtimeRun drift srv rt cm s [] s"
| runtimeRun_drift: "drift s s1 \<Longrightarrow> runtimeRun drift srv rt cm s1 es s' \<Longrightarrow> runtimeRun drift srv rt cm s es s'"
| runtimeRun_call: "runtimeStep srv rt cm s e s1 \<Longrightarrow> runtimeRun drift srv rt cm s1 es s' \<Longrightarrow> runtimeRun drift srv rt cm s (e # es) s'"

text \<open>A relation that every step has, and that is reflexive and transitive, holds over a run.\<close>

lemma runtimeRun_relates:
  assumes "runtimeRun drift srv rt cm s es s'"
    and "\<And>s. R s s" and "\<And>a b c. R a b \<Longrightarrow> R b c \<Longrightarrow> R a c"
    and "\<And>a b. drift a b \<Longrightarrow> R a b"
    and "\<And>e a b. e \<in> set es \<Longrightarrow> runtimeStep srv rt cm a e b \<Longrightarrow> R a b"
  shows "R s s'"
  using assms(1,5)
proof induction
  case (runtimeRun_drift s s1 es s')
  then have "R s1 s'" by blast
  with assms(3,4) runtimeRun_drift.hyps(1) show ?case by blast
next
  case (runtimeRun_call s e s1 es s')
  have "R s1 s'" by (rule runtimeRun_call.IH) (meson list.set_intros(2) runtimeRun_call.prems)
  moreover have "R s s1" using runtimeRun_call.hyps(1) runtimeRun_call.prems by (meson list.set_intros(1))
  ultimately show ?case using assms(3) by blast
qed (rule assms(2))

lemma runtimeRun_append:
  assumes "runtimeRun drift srv rt cm s (xs @ ys) s'"
  obtains s1 where "runtimeRun drift srv rt cm s xs s1" "runtimeRun drift srv rt cm s1 ys s'"
proof -
  have "\<exists>s1. runtimeRun drift srv rt cm s xs s1 \<and> runtimeRun drift srv rt cm s1 ys s'"
    using assms
  proof (induction s "xs @ ys" s' arbitrary: xs rule: runtimeRun.induct)
    case (runtimeRun_drift s s1 s')
    then show ?case by (meson runtimeRun.runtimeRun_drift)
  next
    case (runtimeRun_call s e s1 es s')
    show ?case
    proof (cases xs)
      case Nil
      with runtimeRun_call show ?thesis
        by (metis append_Nil runtimeRun.runtimeRun_Nil runtimeRun.runtimeRun_call)
    next
      case (Cons x zs)
      with runtimeRun_call show ?thesis by (metis append_Cons list.inject runtimeRun.runtimeRun_call)
    qed
  qed (auto intro: runtimeRun.runtimeRun_Nil)
  then show thesis using that by blast
qed

section \<open>Calls on one instance\<close>

text \<open>The container whose instance a call may change.\<close>

fun subject :: "event \<Rightarrow> string option" where
  "subject (EvClone n res) = Some n"
| "subject (EvStart n res) = Some n"
| "subject (EvStop n res) = Some n"
| "subject (EvDelete n res) = Some n"
| "subject (EvExec n cmd res) = Some n"
| "subject (EvWaitReady n chk timeout res) = Some n"
| "subject (EvAttachCache n res) = Some n"
| "subject (EvCacheSymlinks n res) = Some n"
| "subject (EvPruneCache n policy res) = Some n"
| "subject e = None"

text \<open>\<open>stable srv n R\<close>: the requests about the instance \<open>n\<close>, the copy to it apart, relate the states
  of the server by \<open>R\<close>, a reflexive and transitive relation.\<close>

definition stable :: "'s lxdServer \<Rightarrow> string \<Rightarrow> ('s \<Rightarrow> 's \<Rightarrow> bool) \<Rightarrow> bool" where
  "stable srv n R \<longleftrightarrow>
     (\<forall>s. R s s) \<and> (\<forall>a b c. R a b \<longrightarrow> R b c \<longrightarrow> R a c)
     \<and> (\<forall>inst etag s. R s (snd (sv_UpdateInstance srv n inst etag s)))
     \<and> (\<forall>action force s. R s (snd (sv_UpdateInstanceState srv n action force s)))
     \<and> (\<forall>s. R s (snd (sv_DeleteInstance srv n s)))
     \<and> (\<forall>cmd s. R s (snd (sv_ExecInstance srv n cmd s)))"

lemma stableD:
  assumes "stable srv n R"
  shows "R s s" "R a b \<Longrightarrow> R b c \<Longrightarrow> R a c"
    "sv_UpdateInstance srv n inst etag s = (opn, s') \<Longrightarrow> R s s'"
    "sv_UpdateInstanceState srv n action force s = (opn, s') \<Longrightarrow> R s s'"
    "sv_DeleteInstance srv n s = (opn, s') \<Longrightarrow> R s s'"
    "sv_ExecInstance srv n cmd s = (ex, s') \<Longrightarrow> R s s'"
  using assms unfolding stable_def by (metis snd_conv)+

lemma exec_stable:
  assumes "stable srv n R" and "lxdExecCommand srv n cmd s = (res, s')"
  shows "R s s'"
proof -
  obtain ex s1 where "sv_ExecInstance srv n cmd s = (ex, s1)" by fastforce
  moreover from this have "s' = s1"
    using assms(2) by (auto simp: lxdExecCommand_def split: execution.splits option.splits if_splits)
  ultimately show ?thesis using stableD(6) [OF assms(1)] by blast
qed

lemma wait_stable:
  "stable srv n R \<Longrightarrow> waitLoop srv n chk timeout ctx rounds now tickAt s = Some (res, t, s') \<Longrightarrow> R s s'"
proof (induction srv n chk timeout ctx rounds now tickAt s rule: waitLoop.induct)
  case (2 srv n chk timeout ctx choice took rounds now tickAt s)
  note stable = "2.prems"(1)
  let ?t = "selectTime timeout ctx tickAt now"
  obtain c where c: "chosenCase choice (readyCases timeout ctx tickAt ?t) = c" by blast
  obtain out err s1 where run: "lxdExecCommand srv n chk s = ((out, err), s1)" by (metis prod.collapse)
  with stable have one: "R s s1" by (rule exec_stable)
  show ?case
  proof (cases "c = Tick")
    case tick: True
    show ?thesis
    proof (cases "err = None")
      case True
      then show ?thesis using "2.prems"(2) one tick run by (simp add: c Let_def)
    next
      case False
      then have "waitLoop srv n chk timeout ctx rounds (?t + took) (nextTick ?t) s1 = Some (res, t, s')"
        using "2.prems"(2) tick run by (auto simp: c Let_def)
      then have "R s1 s'" using "2.IH" [OF refl c [unfolded tick] run [symmetric] refl False stable] by simp
      with one show ?thesis by (rule stableD(2) [OF stable])
    qed
  next
    case False
    then have "s' = s" using "2.prems"(2) by (cases c) (auto simp: c Let_def)
    then show ?thesis using stableD(1) [OF stable] by simp
  qed
qed simp

lemma update_stable:
  assumes "stable srv n R" and "lxdAttachCache srv cm n s = (res, s')"
  shows "R s s'"
proof (cases "sv_GetInstance srv n s")
  case (Inl err)
  with assms show ?thesis by (simp add: lxdAttachCache_def stableD(1))
next
  case (Inr x)
  then obtain inst etag opn where "sv_UpdateInstance srv n inst etag s = (opn, s')"
    using assms(2) by (auto simp: lxdAttachCache_def Let_def split: prod.splits)
  with assms(1) show ?thesis by (rule stableD(3))
qed

lemma prune_stable:
  assumes "stable srv n R" and "lxdPruneCache srv n policy s = (res, s')"
  shows "R s s'"
proof -
  obtain out err s1 where run: "lxdExecCommand srv n [''bash'', ''-c'', cachePruneScript policy] s = ((out, err), s1)"
    by (metis prod.collapse)
  then have "R s s1" by (rule exec_stable [OF assms(1)])
  moreover have "s' = s \<or> s' = s1" using assms(2) run by (cases err) (auto simp: lxdPruneCache_def split: if_splits)
  ultimately show ?thesis using stableD(1) [OF assms(1)] by blast
qed

lemma symlinks_stable:
  assumes "stable srv n R" and "lxdSetupCacheSymlinks srv cm n s = (res, s')"
  shows "R s s'"
proof -
  obtain out err s1 where run: "lxdExecCommand srv n [''bash'', ''-c'', cacheSetupScript (cm_symlinks cm)] s = ((out, err), s1)"
    by (metis prod.collapse)
  obtain out2 err2 s2 where run2:
    "lxdExecCommand srv n [''bash'', ''-c'', runnerEnvScript (toolCacheDir (cm_symlinks cm))] s1 = ((out2, err2), s2)"
    by (metis prod.collapse)
  have "R s s1" "R s1 s2" using run run2 by (auto intro: exec_stable [OF assms(1)])
  moreover have "s' = s1 \<or> s' = s2"
    using assms(2) run run2 by (cases err; cases err2) (auto simp: lxdSetupCacheSymlinks_def)
  ultimately show ?thesis using stableD(2) [OF assms(1)] by blast
qed

lemma clone_stable:
  assumes "stable srv n R" and "\<And>src s. R s (snd (sv_CopyInstance srv src n s))"
    and "Lxd_Runtime.CloneFromTemplate srv rt n s = Some (res, s')"
  shows "R s s'"
proof (cases "sv_GetInstance srv (rt_template rt) s")
  case (Inl err)
  with assms show ?thesis by (simp add: CloneFromTemplate_def stableD(1))
next
  case (Inr x)
  obtain opn s1 where copy: "sv_CopyInstance srv (fst x) n s = (opn, s1)" by fastforce
  then have "R s s1" using assms(2) [of s "fst x"] by simp
  moreover have "s' = s1 \<or> (\<exists>inst etag u. sv_UpdateInstance srv n inst etag s1 = (u, s'))"
    using assms(3) Inr copy
    by (auto simp: CloneFromTemplate_def split: prod.splits operation.splits sum.splits option.splits if_splits)
  ultimately show ?thesis using stableD(2,3) [OF assms(1)] by blast
qed

lemma step_stable:
  assumes "stable srv n R" and "subject e = Some n" and "runtimeStep srv rt cm s e s'"
    and "isClone e \<Longrightarrow> \<forall>src s. R s (snd (sv_CopyInstance srv src n s))"
  shows "R s s'"
proof (cases e)
  case (EvClone m res)
  with assms show ?thesis by (auto intro: clone_stable)
next
  case (EvExec m cmd res)
  with assms show ?thesis by (auto intro: exec_stable)
next
  case (EvWaitReady m chk timeout res)
  with assms show ?thesis by (auto simp: lxdWaitForReady_def intro: wait_stable)
next
  case (EvAttachCache m res)
  with assms show ?thesis by (auto intro: update_stable)
next
  case (EvCacheSymlinks m res)
  with assms show ?thesis by (auto intro: symlinks_stable)
next
  case (EvPruneCache m policy res)
  with assms show ?thesis by (auto intro: prune_stable)
next
  case (EvStart m res)
  with assms show ?thesis by (auto simp: lxdStartContainer_def intro: stableD(4) split: prod.splits)
next
  case (EvStop m res)
  with assms show ?thesis by (auto simp: lxdStopContainer_def intro: stableD(4) split: prod.splits)
next
  case (EvDelete m res)
  with assms show ?thesis by (auto simp: lxdDeleteContainer_def intro: stableD(5) split: prod.splits)
qed (use assms(2) in auto)

lemma step_unsubject: "subject e = None \<Longrightarrow> runtimeStep srv rt cm s e s' \<Longrightarrow> s' = s"
  by (cases e) auto

section \<open>The containers a pass touches\<close>

definition touchesOnly :: "(string \<Rightarrow> bool) \<Rightarrow> event \<Rightarrow> bool" where
  "touchesOnly P e \<longleftrightarrow> (case subject e of None \<Rightarrow> True | Some n \<Rightarrow> P n)"

lemma touchesOnly_None [simp]: "subject e = None \<Longrightarrow> touchesOnly P e"
  by (simp add: touchesOnly_def)

lemma touchesOnly_events:
  "bringUpEvent n e \<Longrightarrow> P n \<Longrightarrow> touchesOnly P e" "tearDownEvent rs n e \<Longrightarrow> P n \<Longrightarrow> touchesOnly P e"
  "statusEvent e \<Longrightarrow> touchesOnly P e" "toggle e \<Longrightarrow> touchesOnly P e" "listingEvent p e \<Longrightarrow> touchesOnly P e"
  "baselineEvent rs n e \<Longrightarrow> P n \<Longrightarrow> touchesOnly P e"
  by (cases e; auto simp: touchesOnly_def)+

lemma cloneEvent_confined: "cloneEvent p e \<Longrightarrow> (\<And>n. has_prefix n p \<Longrightarrow> P n) \<Longrightarrow> touchesOnly P e"
  by (cases e) (auto simp: touchesOnly_def)

lemma scaleDown_confined:
  assumes "P n"
  shows "emits (touchesOnly P) (scaleDown E r n rs p)"
proof -
  have step: "tearDownEvent rs' n e \<Longrightarrow> touchesOnly P e" for rs' e using assms touchesOnly_events(2) by blast
  have own: "touchesOnly P (EvStop n x)" "touchesOnly P (EvDelete n x)" for x using assms by (simp_all add: touchesOnly_def)
  show ?thesis
    unfolding scaleDown_def suspendRunnerInventoryCache_def resumeRunnerInventoryCache_def
    by (intro trace_rules stopServiceStep_emits [THEN emits_mono] deregisterStep_emits [THEN emits_mono]
        apiDeleteStep_emits [THEN emits_mono]) (auto intro: step own)
qed

lemma passLoop_confined: "\<forall>c\<in>set cs. P (c_Name c) \<Longrightarrow> emits (touchesOnly P) (passLoop E r rs k now cs st)"
proof (induction cs arbitrary: st)
  case Nil
  show ?case by (simp add: trace_rules)
next
  case (Cons c cs)
  have "emits (touchesOnly P) (passStep E r rs k now c st)"
    unfolding passStep_def containerCase_def handleScaleDown_def lastActiveOrInit_def refreshContainerStatus_def
    by (intro trace_rules scaleDown_confined) (use Cons.prems in \<open>simp_all add: touchesOnly_def\<close>)
  moreover have "emits (touchesOnly P) (passLoop E r rs k now cs st)" for st using Cons by simp
  ultimately show ?case unfolding passLoop.simps by (intro trace_rules)
qed

lemma scaleUp_confined:
  assumes "\<And>n. has_prefix n (rc_Prefix (cfg r)) \<Longrightarrow> P n"
  shows "emits (touchesOnly P) (scaleUp E r existing)"
proof -
  have attempts: "yields (cloneAttempts E r k snapshot)
     (\<lambda>res es. list_all (touchesOnly P) es \<and> (case res of Inl err \<Rightarrow> True | Inr n \<Rightarrow> P n))" for k snapshot
  proof (rule yields_mono [OF cloneAttempts_spec], elim conjE)
    fix res es
    assume ev: "list_all (cloneEvent (rc_Prefix (cfg r))) es"
      and res: "case res of Inl err \<Rightarrow> filter cloneOk es = [] | Inr n \<Rightarrow> filter cloneOk es = [EvClone n None]"
    have "has_prefix n (rc_Prefix (cfg r))" if "res = Inr n" for n
      using that res ev cloneOk_in_filter [of es n] by (force simp: list_all_iff)
    with ev assms show "list_all (touchesOnly P) es \<and> (case res of Inl err \<Rightarrow> True | Inr n \<Rightarrow> P n)"
      by (auto simp: list_all_iff cloneEvent_confined split: sum.split)
  qed
  have config: "P n \<Longrightarrow> yields (configureClonedRunner E r n token eph) (\<lambda>_ es. list_all (touchesOnly P) es)" for n token eph
    by (rule yields_emits [OF emits_mono [OF configureClonedRunner_emits]]) (auto intro: touchesOnly_events(1))
  show ?thesis
    unfolding emits_def scaleUp_def cloneWithFreshName_def
    by (intro yields_rules suspend_yields resume_yields attempts [THEN yields_mono] config [THEN yields_mono])
       (auto simp: touchesOnly_def)
qed

lemma scaleUpLoop_confined:
  "(\<And>n. has_prefix n (rc_Prefix (cfg r)) \<Longrightarrow> P n) \<Longrightarrow> emits (touchesOnly P) (scaleUpLoop E r d rm cs needed auto)"
proof (induction E r d rm cs needed auto rule: scaleUpLoop.induct)
  case (1 E r d rm cs needed auto)
  show ?case
    by (subst scaleUpLoop.simps, intro trace_rules scaleUp_confined) (use 1 in auto)
qed

text \<open>A pass touches containers with the prefix and the baseline only, as long as the listing gives
  containers with the prefix.\<close>

definition ownContainer :: "reconciler \<Rightarrow> string \<Rightarrow> bool" where
  "ownContainer r n \<longleftrightarrow> has_prefix n (rc_Prefix (cfg r)) \<or> (rc_Baseline (cfg r) \<and> n = rc_BaselineName (cfg r))"

fun honestListing :: "string \<Rightarrow> event \<Rightarrow> bool" where
  "honestListing p (EvListContainers q r) \<longleftrightarrow>
     (case r of Inl err \<Rightarrow> True | Inr cs \<Rightarrow> q = p \<longrightarrow> (\<forall>c\<in>set cs. has_prefix (c_Name c) p))"
| "honestListing p e \<longleftrightarrow> True"

lemma scalePass_confined:
  assumes "\<forall>c\<in>set cs. P (c_Name c)" and "\<And>n. has_prefix n (rc_Prefix (cfg r)) \<Longrightarrow> P n"
  shows "yields (scalePass E r d rs k b cs) (\<lambda>_ es. list_all (touchesOnly P) es)"
proof -
  have names: "\<forall>c\<in>set cs'. P (c_Name c)" if "map c_Name cs' = map c_Name cs" for cs'
    using that assms(1) by (metis (no_types, lifting) in_set_conv_nth length_map nth_map nth_mem)
  have refresh: "yields (if k = 0 then refreshContainerStatuses E cs else ret cs)
    (\<lambda>cs' es. list_all (touchesOnly P) es \<and> (\<forall>c\<in>set cs'. P (c_Name c)))"
    by (intro yields_if refreshContainerStatuses_spec [THEN yields_mono] yields_return)
       (use names assms(1) in \<open>auto simp: list_all_iff touchesOnly_events\<close>)
  have loop: "\<forall>c\<in>set cs'. P (c_Name c) \<Longrightarrow>
    yields (passLoop E r rs k now cs' st) (\<lambda>_ es. list_all (touchesOnly P) es)" for cs' now st
    by (rule yields_emits [OF passLoop_confined])
  have up: "yields (scaleUpLoop E r d rm cs' needed auto) (\<lambda>_ es. list_all (touchesOnly P) es)" for rm cs' needed auto
    by (rule yields_emits [OF scaleUpLoop_confined]) (rule assms(2))
  show ?thesis
    unfolding scalePass_def
    by (intro yields_rules refresh [THEN yields_mono] loop [THEN yields_mono] up [THEN yields_mono])
       auto
qed

lemma ReconcileDemand_confined:
  "yields (ReconcileDemand E r demand)
     (\<lambda>_ es. list_all (honestListing (rc_Prefix (cfg r))) es \<longrightarrow> list_all (touchesOnly (ownContainer r)) es)"
proof -
  have base: "yields (baselineStep E r rs) (\<lambda>_ es. list_all (touchesOnly (ownContainer r)) es)" for rs
    unfolding baselineStep_def
    by (intro yields_rules ensureBaseline_spec [THEN yields_mono])
       (auto simp: list_all_iff ownContainer_def intro: touchesOnly_events(6))
  have pass: "yields (scalePass E r demand rs k b cs)
      (\<lambda>_ es. (\<forall>c\<in>set cs. has_prefix (c_Name c) (rc_Prefix (cfg r))) \<longrightarrow> list_all (touchesOnly (ownContainer r)) es)" for rs k b cs
  proof (cases "\<forall>c\<in>set cs. has_prefix (c_Name c) (rc_Prefix (cfg r))")
    case True
    then show ?thesis by (intro yields_mono [OF scalePass_confined [where P = "ownContainer r"]]) (auto simp: ownContainer_def)
  next
    case False
    then show ?thesis by (intro yields_mono [OF scalePass_confined [where P = "\<lambda>_. True"]]) auto
  qed
  show ?thesis
    unfolding ReconcileDemand_def
    by (intro yields_rules base [THEN yields_mono] pass [THEN yields_mono]) auto
qed

section \<open>Foreign instances\<close>

text \<open>What the code relies on: a request about one instance leaves the other ones alone.\<close>

definition localServer :: "'s lxdServer \<Rightarrow> bool" where
  "localServer srv \<longleftrightarrow> (\<forall>n m. n \<noteq> m \<longrightarrow>
     stable srv n (\<lambda>s s'. sv_GetInstance srv m s' = sv_GetInstance srv m s)
     \<and> (\<forall>src s. sv_GetInstance srv m (snd (sv_CopyInstance srv src n s)) = sv_GetInstance srv m s))"

lemma runtimeRun_step:
  "runtimeRun drift srv rt cm s es s' \<Longrightarrow> e \<in> set es \<Longrightarrow> \<exists>a b. runtimeStep srv rt cm a e b"
  by (induction rule: runtimeRun.induct) auto

lemma listing_prefix: "lxdListContainers srv p s = Inr cs \<Longrightarrow> c \<in> set cs \<Longrightarrow> has_prefix (c_Name c) p"
  by (auto simp: lxdListContainers_def toContainer_def split: sum.splits)

lemma runtimeRun_honest:
  assumes "runtimeRun drift srv rt cm s es s'"
  shows "list_all (honestListing p) es"
proof -
  have "honestListing p e" if e: "e \<in> set es" for e
  proof -
    obtain a b where "runtimeStep srv rt cm a e b" using runtimeRun_step [OF assms e] by blast
    then show ?thesis by (cases e) (auto split: sum.split dest: listing_prefix)
  qed
  then show ?thesis by (simp add: list_all_iff)
qed

text \<open>C7. A pass on an LXD server leaves every instance alone whose name has not the prefix of the group
  and is not its baseline: the template, the containers of other groups and all that is not the
  scaler's, whatever fails and whatever else happens on the server in the meantime.\<close>

theorem foreign_instance_untouched:
  assumes "localServer srv" and "run_state (ReconcileDemand E r demand) [] = (res, es)"
    and "runtimeRun drift srv rt cm s es s'" and "\<not> ownContainer r m"
    and "\<forall>a b. drift a b \<longrightarrow> sv_GetInstance srv m b = sv_GetInstance srv m a"
  shows "sv_GetInstance srv m s' = sv_GetInstance srv m s"
proof -
  have "list_all (touchesOnly (ownContainer r)) es"
    using yields_run [OF ReconcileDemand_confined assms(2)] runtimeRun_honest [OF assms(3)] by blast
  then have own: "subject e \<noteq> Some m" if "e \<in> set es" for e
    using assms(4) that by (auto simp: list_all_iff touchesOnly_def split: option.splits)
  let ?R = "\<lambda>s s'. sv_GetInstance srv m s' = sv_GetInstance srv m s"
  show ?thesis
  proof (rule runtimeRun_relates [OF assms(3), where R = ?R])
    fix e a b
    assume e: "e \<in> set es" "runtimeStep srv rt cm a e b"
    show "?R a b"
    proof (cases "subject e")
      case None
      then show ?thesis using e(2) step_unsubject by metis
    next
      case (Some n)
      with own e(1) have "n \<noteq> m" by auto
      with assms(1) have "stable srv n ?R" "\<forall>src s. ?R s (snd (sv_CopyInstance srv src n s))"
        unfolding localServer_def by blast+
      with Some e(2) show ?thesis by (intro step_stable [of srv n ?R e])
    qed
  qed (use assms(5) in auto)
qed

section \<open>The capacity of a server\<close>

text \<open>What the code relies on, \<open>names\<close> being the names of the instances a server has: they are listed
  once each, only a copy adds one, and a deletion that is done removes one that was there.\<close>

definition instanceServer :: "'s lxdServer \<Rightarrow> ('s \<Rightarrow> string set) \<Rightarrow> bool" where
  "instanceServer srv names \<longleftrightarrow>
     (\<forall>s. finite (names s))
     \<and> (\<forall>s insts. sv_GetInstances srv s = Inr insts \<longrightarrow> distinct (map in_Name insts) \<and> in_Name ` set insts = names s)
     \<and> (\<forall>n. stable srv n (\<lambda>s s'. names s' \<subseteq> names s))
     \<and> (\<forall>src n s. names (snd (sv_CopyInstance srv src n s)) \<subseteq> insert n (names s))
     \<and> (\<forall>n s s'. sv_DeleteInstance srv n s = (OpDone, s') \<longrightarrow> n \<in> names s \<and> n \<notin> names s')"

text \<open>The message of an error of a clone has the name of the container in it, so a prefix such as
  \<open>conflict\<close> makes every failure look like a conflict of names, and the clone is tried again.\<close>

lemma prefix_taken_for_conflict:
  "map_option fst (Lxd_Runtime.CloneFromTemplate
     ((memServer None)\<lparr>sv_CopyInstance := \<lambda>src name s. (OpFailed ''no space left'', s)\<rparr>) sampleRuntime ''conflict-1'' sampleInstances)
     = Some (Some ''waiting for copy of conflict-1: no space left'')"
  "isContainerNameConflict (Some ''waiting for copy of conflict-1: no space left'')"
  "\<not> isContainerNameConflict (Some ''waiting for copy of ci-1: no space left'')"
  by code_simp+

definition managed :: "('s \<Rightarrow> string set) \<Rightarrow> string \<Rightarrow> 's \<Rightarrow> string set" where
  "managed names p s = {n \<in> names s. has_prefix n p}"

lemma instanceServerD:
  assumes "instanceServer srv names"
  shows "finite (managed names p s)"
    "sv_GetInstances srv s = Inr insts \<Longrightarrow> distinct (map in_Name insts) \<and> in_Name ` set insts = names s"
    "stable srv n (\<lambda>s s'. names s' \<subseteq> names s)"
    "names (snd (sv_CopyInstance srv src n s)) \<subseteq> insert n (names s)"
    "sv_DeleteInstance srv n s = (OpDone, s') \<Longrightarrow> n \<in> names s \<and> n \<notin> names s'"
  using assms unfolding instanceServer_def managed_def by (simp, blast+)

lemma clone_adds_one:
  assumes "instanceServer srv names" and "Lxd_Runtime.CloneFromTemplate srv rt n s = Some (res, s')"
  shows "names s' \<subseteq> insert n (names s)"
proof (rule clone_stable [OF _ _ assms(2), where R = "\<lambda>s s'. names s' \<subseteq> insert n (names s)"])
  show "stable srv n (\<lambda>s s'. names s' \<subseteq> insert n (names s))"
    using instanceServerD(3) [OF assms(1), of n] unfolding stable_def by blast
  show "names (snd (sv_CopyInstance srv src n s)) \<subseteq> insert n (names s)" for src s
    by (rule instanceServerD(4) [OF assms(1)])
qed

text \<open>How many instances with the prefix a change of the server adds.\<close>

definition added :: "('s \<Rightarrow> string set) \<Rightarrow> string \<Rightarrow> 's \<Rightarrow> 's \<Rightarrow> nat" where
  "added names p s s' = card (managed names p s' - managed names p s)"

definition conflictClone :: "event \<Rightarrow> bool" where
  "conflictClone e \<longleftrightarrow> (case e of EvClone n res \<Rightarrow> isContainerNameConflict res | _ \<Rightarrow> False)"

text \<open>A run with the number of instances that others add, and that clones add whose error the code takes
  for a conflict of names.\<close>

inductive countedRun ::
  "('s \<Rightarrow> 's \<Rightarrow> bool) \<Rightarrow> 's lxdServer \<Rightarrow> lxdRuntime \<Rightarrow> cacheManager \<Rightarrow> ('s \<Rightarrow> string set) \<Rightarrow> string \<Rightarrow> 's \<Rightarrow> trace \<Rightarrow> 's \<Rightarrow> nat \<Rightarrow> bool"
  for drift srv rt cm names p where
  countedRun_Nil: "countedRun drift srv rt cm names p s [] s 0"
| countedRun_drift: "drift s s1 \<Longrightarrow> countedRun drift srv rt cm names p s1 es s' k \<Longrightarrow>
    countedRun drift srv rt cm names p s es s' (added names p s s1 + k)"
| countedRun_call: "runtimeStep srv rt cm s e s1 \<Longrightarrow> countedRun drift srv rt cm names p s1 es s' k \<Longrightarrow>
    countedRun drift srv rt cm names p s (e # es) s' ((if conflictClone e then added names p s s1 else 0) + k)"

lemma runtimeRun_counted:
  "runtimeRun drift srv rt cm s es s' \<longleftrightarrow> (\<exists>k. countedRun drift srv rt cm names p s es s' k)"
proof
  show "runtimeRun drift srv rt cm s es s' \<Longrightarrow> \<exists>k. countedRun drift srv rt cm names p s es s' k"
    by (induction rule: runtimeRun.induct) (blast intro: countedRun.intros)+
next
  assume "\<exists>k. countedRun drift srv rt cm names p s es s' k"
  then obtain k where "countedRun drift srv rt cm names p s es s' k" ..
  then show "runtimeRun drift srv rt cm s es s'"
    by (induction rule: countedRun.induct) (auto intro: runtimeRun.intros)
qed

lemma countedRun_append:
  assumes "countedRun drift srv rt cm names p s (xs @ ys) s' k"
  obtains s1 k1 k2 where "countedRun drift srv rt cm names p s xs s1 k1" "countedRun drift srv rt cm names p s1 ys s' k2" "k = k1 + k2"
proof -
  have "\<exists>s1 k1 k2. countedRun drift srv rt cm names p s xs s1 k1 \<and> countedRun drift srv rt cm names p s1 ys s' k2 \<and> k = k1 + k2"
    using assms
  proof (induction s "xs @ ys" s' k arbitrary: xs rule: countedRun.induct)
    case (countedRun_drift s s1 s' k)
    then show ?case by (metis countedRun.countedRun_drift add.assoc)
  next
    case (countedRun_call s e s1 es s' k)
    show ?case
    proof (cases xs)
      case Nil
      then have "countedRun drift srv rt cm names p s ys s' ((if conflictClone e then added names p s s1 else 0) + k)"
        using countedRun_call countedRun.countedRun_call by fastforce
      then show ?thesis using Nil countedRun.countedRun_Nil by (metis add_0)
    next
      case (Cons x zs)
      then have x: "x = e" "es = zs @ ys" using countedRun_call.hyps(4) by auto
      obtain s2 k1 k2 where "countedRun drift srv rt cm names p s1 zs s2 k1" "countedRun drift srv rt cm names p s2 ys s' k2" "k = k1 + k2"
        using countedRun_call.hyps(3) [OF x(2)] by blast
      then show ?thesis using countedRun.countedRun_call [OF countedRun_call.hyps(1)] Cons x(1) by (metis add.assoc)
    qed
  qed (auto intro: countedRun.countedRun_Nil)
  then show thesis using that by blast
qed

lemma managed_grows:
  assumes "instanceServer srv names"
  shows "card (managed names p s') \<le> card (managed names p s) + added names p s s'"
proof -
  have fin: "finite (managed names p x)" for x by (rule instanceServerD(1) [OF assms])
  have "card (managed names p s') \<le> card (managed names p s \<union> (managed names p s' - managed names p s))"
    by (rule card_mono) (use fin in auto)
  also have "\<dots> \<le> card (managed names p s) + card (managed names p s' - managed names p s)" by (rule card_Un_le)
  finally show ?thesis by (simp add: added_def)
qed

lemma step_count:
  assumes "instanceServer srv names" and "\<forall>n\<in>N. has_prefix n p"
    and "runtimeStep srv rt cm s e s'"
  shows "int (card (managed names p s')) + (if deleteOk N e then 1 else 0)
    \<le> int (card (managed names p s)) + (if autoCloneMay p e then 1 else 0) + (if conflictClone e then int (added names p s s') else 0)"
proof -
  note fin = instanceServerD(1) [OF assms(1)]
  have fewer: "card (managed names p s') \<le> card (managed names p s)" if "names s' \<subseteq> names s"
    using that by (intro card_mono fin) (auto simp: managed_def)
  have grows: "card (managed names p s') \<le> card (managed names p s) + added names p s s'"
    by (rule managed_grows [OF assms(1)])
  show ?thesis
  proof (cases "isClone e")
    case True
    then obtain n res where e: "e = EvClone n res" by (auto elim: isClone.elims)
    with assms(3) have clone: "Lxd_Runtime.CloneFromTemplate srv rt n s = Some (res, s')" by simp
    show ?thesis
    proof (cases "isContainerNameConflict res")
      case True
      then show ?thesis using grows e by (simp add: conflictClone_def)
    next
      case False
      from clone_adds_one [OF assms(1) clone] have names: "names s' \<subseteq> insert n (names s)" .
      show ?thesis
      proof (cases "has_prefix n p")
        case True
        with names have "managed names p s' \<subseteq> insert n (managed names p s)" by (auto simp: managed_def)
        then have "card (managed names p s') \<le> card (insert n (managed names p s))" by (intro card_mono) (simp_all add: fin)
        also have "\<dots> \<le> Suc (card (managed names p s))" by (simp add: card_insert_if fin)
        finally show ?thesis using False True e by simp
      next
        case prefix: False
        with names have "managed names p s' \<subseteq> managed names p s" by (auto simp: managed_def)
        then have "card (managed names p s') \<le> card (managed names p s)" by (intro card_mono fin)
        then show ?thesis using prefix e by simp
      qed
    qed
  next
    case False
    have sub: "names s' \<subseteq> names s"
    proof (cases "subject e")
      case None
      then show ?thesis using step_unsubject [OF None assms(3)] by simp
    next
      case (Some n)
      then show ?thesis using step_stable [OF instanceServerD(3) [OF assms(1)] Some assms(3)] False by blast
    qed
    show ?thesis
    proof (cases "deleteOk N e")
      case True
      then obtain n where e: "e = EvDelete n None" "n \<in> N" by (auto elim: deleteOk.elims)
      with assms(3) have "sv_DeleteInstance srv n s = (OpDone, s')"
        by (auto simp: lxdDeleteContainer_def waitOperation_def split: prod.splits operation.splits)
      then have gone: "n \<in> names s \<and> n \<notin> names s'" by (rule instanceServerD(5) [OF assms(1)])
      with sub e(2) assms(2) have "managed names p s' \<subset> managed names p s" by (auto simp: managed_def)
      then have "card (managed names p s') < card (managed names p s)" by (intro psubset_card_mono fin)
      then show ?thesis using e by simp
    next
      case no: False
      then show ?thesis using fewer [OF sub] by simp
    qed
  qed
qed

lemma run_count:
  assumes "countedRun drift srv rt cm names p s xs s' k"
    and "instanceServer srv names" and "\<forall>n\<in>N. has_prefix n p"
  shows "int (card (managed names p s')) + count (deleteOk N) xs
    \<le> int (card (managed names p s)) + count (autoCloneMay p) xs + int k"
  using assms(1)
proof induction
  case (countedRun_drift s s1 es s' k)
  have "card (managed names p s1) \<le> card (managed names p s) + added names p s s1"
    by (rule managed_grows [OF assms(2)])
  with countedRun_drift.IH show ?case by simp
next
  case (countedRun_call s e s1 es s' k)
  with step_count [OF assms(2,3) countedRun_call.hyps(1)] show ?case by (simp split: if_splits)
qed simp

lemma listed_count:
  assumes "instanceServer srv names" and "lxdListContainers srv p s = Inr cs"
  shows "length cs = card (managed names p s)" and "c_Name ` set cs = managed names p s"
proof -
  obtain insts where insts: "sv_GetInstances srv s = Inr insts"
    "cs = map toContainer (filter (\<lambda>inst. has_prefix (in_Name inst) p) insts)"
    using assms(2) by (auto simp: lxdListContainers_def split: sum.splits)
  note d = instanceServerD(2) [OF assms(1) insts(1)]
  show names: "c_Name ` set cs = managed names p s"
  proof -
    have "c_Name ` set cs = {n \<in> in_Name ` set insts. has_prefix n p}" by (auto simp: insts(2) toContainer_def image_image)
    then show ?thesis using d by (simp add: managed_def)
  qed
  have "map c_Name cs = map in_Name (filter (\<lambda>inst. has_prefix (in_Name inst) p) insts)"
    by (simp add: insts(2) toContainer_def)
  then have "distinct (map c_Name cs)" using d by (simp add: distinct_map_filter)
  then have "length cs = card (c_Name ` set cs)" using distinct_card [of "map c_Name cs"] by simp
  then show "length cs = card (managed names p s)" by (simp only: names)
qed

text \<open>The moment of a listing, between what others did before and after it.\<close>

lemma listing_moment:
  "countedRun drift srv rt cm names p s [EvListContainers q (Inr cs)] s' k \<Longrightarrow>
   \<exists>sl k1 k2. lxdListContainers srv q sl = Inr cs \<and> countedRun drift srv rt cm names p s [] sl k1 \<and>
     countedRun drift srv rt cm names p sl [] s' k2 \<and> k = k1 + k2"
proof (induction s "[EvListContainers q (Inr cs)]" s' k rule: countedRun.induct)
  case (countedRun_drift s s1 s' k)
  then show ?case by (metis countedRun.countedRun_drift add.assoc)
next
  case (countedRun_call s s1 s' k)
  then have "s1 = s" "lxdListContainers srv q s = Inr cs" by simp_all
  moreover have "\<not> conflictClone (EvListContainers q (Inr cs))" by (simp add: conflictClone_def)
  ultimately show ?case using countedRun_call.hyps(2) countedRun.countedRun_Nil by (metis add_0)
qed

lemma listedAuto_split:
  "\<forall>e\<in>set a. \<not> listsAuto p e \<Longrightarrow> listedAuto p (a @ EvListContainers p (Inr cs) # b) = cs"
proof (induction a)
  case (Cons e a)
  then show ?case by (cases e) (auto split: sum.splits)
qed simp

text \<open>Before the containers are listed a pass touches none of them.\<close>

lemma quiet_before:
  assumes "baselineApart r"
    and "list_all (\<lambda>e. listingEvent p e \<or> (rc_Baseline (cfg r) \<and> baselineEvent rs (rc_BaselineName (cfg r)) e)) es"
    and "p = rc_Prefix (cfg r)" and "\<forall>n\<in>N. has_prefix n p"
  shows "count (autoCloneMay p) es = 0" and "count (deleteOk N) es = 0"
proof -
  have "\<not> autoCloneMay p e \<and> \<not> deleteOk N e"
    if "listingEvent p e \<or> (rc_Baseline (cfg r) \<and> baselineEvent rs (rc_BaselineName (cfg r)) e)" for e
    using that assms(1,3,4) by (cases e) (auto simp: baselineApart_def)
  then show "count (autoCloneMay p) es = 0" "count (deleteOk N) es = 0"
    using assms(2) by (auto intro!: count_none simp: list_all_iff)
qed

lemma first_listing:
  obtains "\<forall>e\<in>set es. \<not> listsAuto p e"
  | a cs b where "es = a @ EvListContainers p (Inr cs) # b" "\<forall>e\<in>set a. \<not> listsAuto p e"
proof (cases "\<forall>e\<in>set es. \<not> listsAuto p e")
  case False
  then obtain a l b where l: "es = a @ l # b" "listsAuto p l" "\<forall>e\<in>set a. \<not> listsAuto p e"
    using split_list_first_prop [of es "listsAuto p"] by blast
  then obtain cs where "l = EvListContainers p (Inr cs)" by (cases l) (auto split: sum.splits)
  with l show thesis using that(2) by simp
qed (rule that(1))

text \<open>The instances of the server from a listing on.\<close>

lemma listed_run_count:
  assumes "countedRun drift srv rt cm names p s (a @ EvListContainers p (Inr cs) # b) s' k"
    and "instanceServer srv names" and "count (autoCloneMay p) a = 0"
  obtains ka kb where "k = ka + kb" "\<forall>n\<in>c_Name ` set cs. has_prefix n p" "int (length cs) \<le> int (card (managed names p s)) + int ka"
    "int (card (managed names p s')) + count (deleteOk (c_Name ` set cs)) b \<le> int (length cs) + count (autoCloneMay p) b + int kb"
proof -
  obtain s1 k1 k2 where s1: "countedRun drift srv rt cm names p s a s1 k1"
    "countedRun drift srv rt cm names p s1 ([EvListContainers p (Inr cs)] @ b) s' k2" "k = k1 + k2"
    using countedRun_append [OF assms(1)] by auto
  obtain s2 k3 k4 where s2: "countedRun drift srv rt cm names p s1 [EvListContainers p (Inr cs)] s2 k3"
    "countedRun drift srv rt cm names p s2 b s' k4" "k2 = k3 + k4"
    using s1(2) by (rule countedRun_append)
  obtain sl k5 k6 where sl: "lxdListContainers srv p sl = Inr cs"
    "countedRun drift srv rt cm names p s1 [] sl k5" "countedRun drift srv rt cm names p sl [] s2 k6" "k3 = k5 + k6"
    using listing_moment [OF s2(1)] by blast
  have prefixes: "\<forall>n\<in>c_Name ` set cs. has_prefix n p" using listing_prefix [OF sl(1)] by blast
  note before = run_count [OF _ assms(2), where N = "{}"]
  note counts = run_count [OF _ assms(2) prefixes]
  have listed: "int (card (managed names p sl)) = int (length cs)" using listed_count [OF assms(2) sl(1)] by simp
  have "int (length cs) \<le> int (card (managed names p s)) + int (k1 + k5)"
    using before [OF s1(1)] before [OF sl(2)] assms(3) count_nonneg [of "deleteOk {}" a]
    by (simp add: listed del: count_nonneg)
  moreover have "int (card (managed names p s')) + count (deleteOk (c_Name ` set cs)) b
      \<le> int (length cs) + count (autoCloneMay p) b + int (k6 + k4)"
    using counts [OF sl(3)] counts [OF s2(2)] by (simp add: listed)
  moreover have "k = (k1 + k5) + (k6 + k4)" using s1(3) s2(3) sl(4) by simp
  ultimately show thesis using that prefixes by blast
qed

text \<open>C6. On an LXD server the number of instances with the prefix of the group is at every moment of a
  pass at most the larger of \<open>MaxAutoRunners\<close> and the number at its start, apart from the \<open>k\<close> instances
  that others add to the server with this prefix in the meantime, and that clones leave behind whose
  error the code takes for a conflict of names. It holds whatever calls fail and whenever the pass
  ends, and it counts the instances themselves: also a half-made clone that was reported as
  another error, and one whose deletion was not noticed.\<close>

theorem server_capacity:
  assumes "baselineApart r" and "0 < rc_IdleTimeout (cfg r)"
    and "run_state (ReconcileDemand E r demand) [] = (res, es)" and "prefix xs es"
    and "countedRun drift srv rt cm names (rc_Prefix (cfg r)) s xs s' k"
    and "instanceServer srv names"
  shows "int (card (managed names (rc_Prefix (cfg r)) s'))
     \<le> max (int (card (managed names (rc_Prefix (cfg r)) s))) (rc_MaxAutoRunners (cfg r)) + int k"
proof -
  let ?p = "rc_Prefix (cfg r)"
  note safe = pass_safe [OF assms(1-3), unfolded safePass_def Let_def]
  let ?quiet = "\<lambda>e. listingEvent ?p e \<or> (rc_Baseline (cfg r) \<and> baselineEvent (listedRunners es) (rc_BaselineName (cfg r)) e)"
  obtain zs where es: "es = xs @ zs" using assms(4) by (auto simp: prefix_def)
  have quiet: "count (autoCloneMay ?p) a = 0 \<and> (\<forall>N. (\<forall>n\<in>N. has_prefix n ?p) \<longrightarrow> count (deleteOk N) a = 0)"
    if a: "es = a @ b" "\<forall>e\<in>set a. \<not> listsAuto ?p e" for a b
  proof -
    have "list_all ?quiet a" using safe a by (simp add: takeWhile_append2 list_all_iff)
    then show ?thesis using quiet_before [OF assms(1) _ refl] by (metis empty_iff)
  qed
  show ?thesis
  proof (cases rule: first_listing [of xs ?p])
    case 1
    with quiet es have "count (autoCloneMay ?p) xs = 0" by blast
    then show ?thesis using run_count [OF assms(5,6), of "{}"] count_nonneg [of "deleteOk {}" xs]
      by (simp del: count_nonneg)
  next
    case (2 a cs b)
    with quiet [of a] es have qa: "count (autoCloneMay ?p) a = 0"
      "\<And>N. \<forall>n\<in>N. has_prefix n ?p \<Longrightarrow> count (deleteOk N) a = 0" by auto
    obtain ka kb where run: "k = ka + kb" "\<forall>n\<in>c_Name ` set cs. has_prefix n ?p"
        "int (length cs) \<le> int (card (managed names ?p s)) + int ka"
        "int (card (managed names ?p s')) + count (deleteOk (c_Name ` set cs)) b \<le> int (length cs) + count (autoCloneMay ?p) b + int kb"
      by (rule listed_run_count [OF assms(5) [unfolded 2(1)] assms(6) qa(1)])
    have listed: "listedAuto ?p es = cs" unfolding es 2(1) using 2(2) by (simp add: listedAuto_split)
    have "int (length cs) - count (deleteOk (c_Name ` set cs)) xs + count (autoCloneMay ?p) xs
        \<le> max (int (length cs)) (rc_MaxAutoRunners (cfg r))"
      using safe assms(4) unfolding boundedBy_def listed by blast
    then show ?thesis using run(1,3,4) qa(1) qa(2) [OF run(2)] unfolding 2(1) by simp
  qed
qed

section \<open>A concrete server\<close>

text \<open>The server in memory of \<open>Lxd_Runtime\<close>, made strict: names are not used twice, and what is not there
  cannot be deleted.\<close>

definition lxdMemory :: "(string \<times> lxdInstance) list lxdServer" where
  "lxdMemory = (memServer (Some (ExitFloat 0)))
     \<lparr>sv_CopyInstance := (\<lambda>src name s. if map_of s name = None then (OpDone, AList.update name (src\<lparr>in_Name := name\<rparr>) s)
                                      else (Refused ''already exists'', s)),
      sv_DeleteInstance := (\<lambda>name s. if map_of s name = None then (Refused ''not found'', s) else (OpDone, AList.delete name s)),
      sv_GetInstances := (\<lambda>s. if distinct (map fst s) \<and> list_all (\<lambda>(n, inst). in_Name inst = n) s
                             then Inr (map snd s) else Inl ''corrupt'')\<rparr>"

lemma keys_delete: "fst ` set (AList.delete k al) = fst ` set al - {k}"
  by (force simp: AList.delete_eq)

lemma lxdMemory_local: "localServer lxdMemory"
  unfolding localServer_def stable_def
  by (auto simp: lxdMemory_def memServer_def memUpdate_def update_conv' delete_conv' split: option.split)

lemma lxdMemory_instances: "instanceServer lxdMemory (\<lambda>s. fst ` set s)"
proof -
  have "stable lxdMemory n (\<lambda>s s'. fst ` set s' \<subseteq> fst ` set s)" for n
    unfolding stable_def lxdMemory_def memServer_def memUpdate_def
    by (auto simp: dom_update keys_delete dest!: map_of_SomeD split: option.split) force+
  moreover have "distinct (map in_Name insts) \<and> in_Name ` set insts = fst ` set s"
    if "sv_GetInstances lxdMemory s = Inr insts" for s insts
  proof -
    from that have s: "distinct (map fst s)" "list_all (\<lambda>(n, inst). in_Name inst = n) s" "insts = map snd s"
      by (auto simp: lxdMemory_def split: if_splits)
    have "map in_Name insts = map fst s" using s(2,3) by (induction s arbitrary: insts) auto
    with s(1) show ?thesis by (metis list.set_map)
  qed
  ultimately show ?thesis
    unfolding instanceServer_def
    by (auto simp: lxdMemory_def dom_update keys_delete map_of_eq_None_iff split: if_splits)
qed

text \<open>A run without interference, computed; the readiness check is run once.\<close>

fun answered :: "'a \<times> 's \<Rightarrow> 'a \<Rightarrow> 's option" where
  "answered (res', s') res = (if res' = res then Some s' else None)"

lemma answered_Some [simp]: "answered x res = Some s' \<longleftrightarrow> x = (res, s')"
  by (cases x) auto

fun instanceCall :: "'s lxdServer \<Rightarrow> lxdRuntime \<Rightarrow> 's \<Rightarrow> event \<Rightarrow> 's option" where
  "instanceCall srv rt s (EvClone n res) = Option.bind (Lxd_Runtime.CloneFromTemplate srv rt n s) (\<lambda>x. answered x res)"
| "instanceCall srv rt s (EvStart n res) = answered (lxdStartContainer srv n s) res"
| "instanceCall srv rt s (EvExec n cmd res) =
     (case lxdExecCommand srv n cmd s of ((out, err), s') \<Rightarrow>
        answered (case err of None \<Rightarrow> Inr out | Some e \<Rightarrow> Inl e, s') res)"
| "instanceCall srv rt s (EvWaitReady n chk timeout res) =
     Option.bind (lxdWaitForReady srv n chk timeout None [(0, 0)] s) (\<lambda>(err, t, s'). answered (err, s') res)"
| "instanceCall srv rt s (EvListContainers p res) = answered (lxdListContainers srv p s, s) res"
| "instanceCall srv rt s (EvStatus n res) = None"
| "instanceCall srv rt s e = (if subject e = None then Some s else None)"

fun replay :: "'s lxdServer \<Rightarrow> lxdRuntime \<Rightarrow> 's \<Rightarrow> trace \<Rightarrow> 's option" where
  "replay srv rt s [] = Some s"
| "replay srv rt s (e # es) = Option.bind (instanceCall srv rt s e) (\<lambda>s1. replay srv rt s1 es)"

lemma instanceCall_step: "instanceCall srv rt s e = Some s' \<Longrightarrow> runtimeStep srv rt cm s e s'"
proof (cases e)
  case (EvWaitReady n chk timeout res)
  moreover assume "instanceCall srv rt s e = Some s'"
  ultimately obtain t where "lxdWaitForReady srv n chk timeout None [(0, 0)] s = Some (res, t, s')"
    by (auto simp: bind_eq_Some_conv split: prod.splits if_splits)
  with EvWaitReady show ?thesis by auto
qed (auto simp: bind_eq_Some_conv split: prod.splits option.splits if_splits)

lemma replay_run: "replay srv rt s es = Some s' \<Longrightarrow> runtimeRun drift srv rt cm s es s'"
  by (induction es arbitrary: s)
     (auto simp: bind_eq_Some_conv intro: runtimeRun.intros instanceCall_step)

text \<open>Two queued jobs and no runner: a pass that makes one container after the other.\<close>

definition lxdEnv :: env where
  "lxdEnv = Reconciler_Claims.sampleEnv\<lparr>e_ListRunners := \<lambda>_. Inr [], e_ListContainers := \<lambda>_ _. Inr []\<rparr>"

definition lxdDemand :: capacityDemand where
  "lxdDemand = \<lparr>d_QueuedJobs = 2, d_OldestAge = 0\<rparr>"

definition lxdTrace :: trace where
  "lxdTrace = snd (run_state (ReconcileDemand lxdEnv sampleReconciler lxdDemand) [])"

definition lxdAfter :: "(string \<times> lxdInstance) list" where
  "lxdAfter = the (replay lxdMemory sampleRuntime sampleInstances lxdTrace)"

lemma lxd_sample:
  "run_state (ReconcileDemand lxdEnv sampleReconciler lxdDemand) [] = (None, lxdTrace)"
  "replay lxdMemory sampleRuntime sampleInstances lxdTrace = Some lxdAfter"
  "map fst lxdAfter = [''tmpl'', ''ci-1'', ''ci-2'']"
  by code_simp+

text \<open>Nobody else adds an instance to the server, and no clone fails.\<close>

lemma replay_counted:
  "replay srv rt s es = Some s' \<Longrightarrow> \<forall>e \<in> set es. \<not> conflictClone e \<Longrightarrow> countedRun drift srv rt cm names p s es s' 0"
proof (induction es arbitrary: s)
  case (Cons e es)
  then obtain s1 where s1: "instanceCall srv rt s e = Some s1" "replay srv rt s1 es = Some s'"
    by (auto simp: bind_eq_Some_conv)
  have "countedRun drift srv rt cm names p s1 es s' 0" using Cons s1(2) by simp
  from countedRun_call [OF instanceCall_step [OF s1(1)] this] show ?case using Cons.prems(2) by simp
qed (auto intro: countedRun_Nil)

lemma lxd_sample_counted: "countedRun (=) lxdMemory sampleRuntime cm names p sampleInstances lxdTrace lxdAfter 0"
proof (rule replay_counted [OF lxd_sample(2)])
  have "list_all (\<lambda>e. \<not> conflictClone e) lxdTrace" by code_simp
  then show "\<forall>e \<in> set lxdTrace. \<not> conflictClone e" by (simp add: list_all_iff)
qed

lemma lxd_sample_run: "runtimeRun (=) lxdMemory sampleRuntime cm sampleInstances lxdTrace lxdAfter"
  by (rule replay_run) (rule lxd_sample)

theorem foreign_instance_untouched_witness: "map_of lxdAfter ''tmpl'' = map_of sampleInstances ''tmpl''"
proof -
  have "\<not> ownContainer sampleReconciler ''tmpl''" by code_simp
  then have "sv_GetInstance lxdMemory ''tmpl'' lxdAfter = sv_GetInstance lxdMemory ''tmpl'' sampleInstances"
    by (rule foreign_instance_untouched [OF lxdMemory_local lxd_sample(1) lxd_sample_run]) simp
  then show ?thesis
    by (simp add: lxdMemory_def memServer_def split: option.splits)
qed

theorem server_capacity_witness:
  "card (managed (\<lambda>s. fst ` set s) ''ci'' lxdAfter) = 2 \<and> rc_MaxAutoRunners (cfg sampleReconciler) = 2
   \<and> int (card (managed (\<lambda>s. fst ` set s) ''ci'' lxdAfter)) \<le> 2"
proof -
  let ?names = "\<lambda>s :: (string \<times> lxdInstance) list. fst ` set s"
  have after: "?names lxdAfter = {''tmpl'', ''ci-1'', ''ci-2''}"
    using lxd_sample(3) by (metis list.set_map list.simps(15) empty_set)
  have "managed ?names ''ci'' sampleInstances = {}" "managed ?names ''ci'' lxdAfter = {''ci-1'', ''ci-2''}"
    and config: "rc_Prefix (cfg sampleReconciler) = ''ci''" "rc_MaxAutoRunners (cfg sampleReconciler) = 2"
    by (auto simp: managed_def after sampleInstances_def has_prefix_def sampleReconciler_def)
  moreover have "int (card (managed ?names (rc_Prefix (cfg sampleReconciler)) lxdAfter))
      \<le> max (int (card (managed ?names (rc_Prefix (cfg sampleReconciler)) sampleInstances))) (rc_MaxAutoRunners (cfg sampleReconciler)) + int 0"
    by (rule server_capacity [OF sample_config lxd_sample(1) _ lxd_sample_counted lxdMemory_instances]) auto
  ultimately show ?thesis by (simp add: config)
qed

end
