(* ===== verification/Duration_Roundtrip.thy ===== *)
theory Duration_Roundtrip
  imports Go_Duration Time_Roundtrip
begin

text \<open>
  The durations of the configuration: \<open>MarshalText\<close> and \<open>UnmarshalText\<close> of \<open>internal/config/config.go\<close>.

  \<open>duration_text_roundtrip\<close>: every duration is read back as it was written; the floating-point numbers in
  between are exact.
\<close>

definition MarshalText :: "duration \<Rightarrow> string result" where
  "MarshalText d = Inr (durationString d)"

definition UnmarshalText :: "string \<Rightarrow> duration result" where
  "UnmarshalText txt = parseDuration txt"

section \<open>Exact floating-point numbers\<close>

lemma roundEven_int [simp]: "roundEven (of_int n) = n"
  by (simp add: roundEven_def)

lemma binaryExponent_nat:
  assumes "m < 2 ^ 53" shows "binaryExponent (of_nat m) \<le> 52"
proof -
  have "quotient_of (of_nat m) = (int m, 1)" using quotient_of_int [of "int m"] by (simp add: Rat.of_int_def)
  moreover have "floorlog 2 m \<le> 53" using assms by (intro floorlog_leI) simp_all
  moreover have "floorlog 2 1 = 1" by (simp add: floorlog_def)
  ultimately show ?thesis by (simp add: binaryExponent_def Let_def)
qed

lemma float64_nat:
  assumes "m < 2 ^ 53" shows "float64 (of_nat m) = of_nat m"
proof -
  define j where "j = nat (52 - binaryExponent (of_nat m))"
  then have "binaryExponent (of_nat m) - 52 = - int j" using binaryExponent_nat [OF assms] by simp
  then have ulp: "2 powi (binaryExponent (of_nat m) - 52) = (1 / 2 ^ j :: rat)"
    by (simp add: power_int_minus divide_inverse)
  have "of_nat m / (1 / 2 ^ j) = (of_int (int m * 2 ^ j) :: rat)" by simp
  then have "roundEven (of_nat m / (1 / 2 ^ j)) = int m * 2 ^ j" by (simp only: roundEven_int)
  then show ?thesis unfolding float64_def Let_def ulp by simp
qed

lemma pow10_bound: "k \<le> 15 \<Longrightarrow> (10 :: nat) ^ k < 2 ^ 53"
  using power_increasing [of k 15 "10 :: nat"] by simp

lemma float64_pow10: "k \<le> 15 \<Longrightarrow> float64 (10 ^ k) = 10 ^ k"
  using float64_nat [OF pow10_bound, of k] by simp

section \<open>Numbers\<close>

lemma digit_step:
  "isDigit c \<Longrightarrow> parse_digits x (c # s) = parse_digits (x * 10 + digitValue c) s"
  by (simp add: isDigit_def digitValue_def Let_def)

lemma parse_digits_ge: "parse_digits x s = Some n \<Longrightarrow> x \<le> n"
proof (induction s arbitrary: x)
  case (Cons c s)
  then have "x * 10 + (of_char c - 48) \<le> n" by (auto simp: Let_def split: if_splits)
  then show ?case by simp
qed simp

lemma leadingInt_digits:
  assumes "list_all isDigit ds" and "parse_digits x ds = Some n" and "n \<le> 2 ^ 63" and "s = [] \<or> \<not> isDigit (hd s)"
  shows "leadingInt x (ds @ s) = Some (n, s)"
  using assms(1,2)
proof (induction ds arbitrary: x)
  case Nil
  then show ?case using assms(4) by (cases s) auto
next
  case (Cons c ds)
  then have step: "parse_digits (x * 10 + digitValue c) ds = Some n" by (simp add: digit_step del: parse_digits.simps)
  then have "x * 10 + digitValue c \<le> 2 ^ 63" using parse_digits_ge assms(3) le_trans by blast
  then show ?case using Cons.IH [OF _ step] Cons.prems(1) by (simp add: Let_def)
qed

lemma leadingFraction_digits:
  assumes "list_all isDigit ds" and "parse_digits x ds = Some n" and "s = [] \<or> \<not> isDigit (hd s)"
    and "x < 10 ^ k" and "k + length ds \<le> 15"
  shows "leadingFraction x (10 ^ k) False (ds @ s) = (n, 10 ^ (k + length ds), s)"
  using assms(1,2,4,5)
proof (induction ds arbitrary: x k)
  case Nil
  then show ?case using assms(3) by (cases s) auto
next
  case (Cons c ds)
  let ?y = "x * 10 + digitValue c"
  from Cons.prems have step: "parse_digits ?y ds = Some n" by (simp add: digit_step del: parse_digits.simps)
  have "of_char c \<le> (57 :: nat)" using Cons.prems(1) by (simp add: isDigit_def Let_def)
  then have "digitValue c \<le> 9" by (simp add: digitValue_def)
  then have y: "?y < 10 ^ Suc k" using Cons.prems(3) by simp
  have "10 ^ Suc k \<le> (10 :: nat) ^ 15" using Cons.prems(4) by (intro power_increasing) simp_all
  then have small: "x \<le> (2 ^ 63 - 1) div 10" "?y \<le> 2 ^ 63" using y by simp_all
  have "float64 (10 ^ k * 10) = 10 ^ Suc k" using float64_pow10 [of "Suc k"] Cons.prems(4) by (simp add: mult.commute)
  moreover have "leadingFraction ?y (10 ^ Suc k) False (ds @ s) = (n, 10 ^ (Suc k + length ds), s)"
    using Cons.IH [OF _ step y] Cons.prems(1,4) by simp
  ultimately show ?case using small Cons.prems(1) by (simp add: Let_def)
qed

text \<open>The fraction that is printed: the digits of the value without trailing zeros.\<close>

lemma decimals_digits:
  assumes "0 < p" and "0 \<le> u" and "u mod 10 ^ p \<noteq> 0"
  obtains ds k f where "decimals p u = CHR ''.'' # ds" "ds \<noteq> []" "list_all isDigit ds" "length ds + k = p"
    "parse_digits 0 ds = Some f" "f * 10 ^ k = nat (u mod 10 ^ p)"
proof -
  let ?v = "u mod 10 ^ p"
  define ds where "ds = rev (dropWhile (\<lambda>c. c = CHR ''0'') (rev (pad p ?v)))"
  obtain k where k: "pad p ?v = ds @ replicate k (CHR ''0'')"
    using dropWhile_rev_replicate [of "pad p ?v" "CHR ''0''"] unfolding ds_def by blast
  have "0 \<le> ?v" "?v < 10 ^ p" by simp_all
  note pad = pad_props [OF this assms(1)]
  have digits: "list_all isDigit ds" using pad(3) unfolding k by (simp add: list_all_iff)
  obtain f where f: "parse_digits 0 ds = Some f" "parse_digits f (replicate k (CHR ''0'')) = Some (nat ?v)"
    using pad(2) unfolding k by (auto simp: parse_digits_append bind_eq_Some_conv)
  have zeros: "parse_digits x (replicate k (CHR ''0'')) = Some (x * 10 ^ k)" for x
    by (induction k arbitrary: x) (simp_all add: Let_def)
  have number: "f * 10 ^ k = nat ?v" using f(2) unfolding zeros by simp
  have "ds \<noteq> []"
  proof
    assume "ds = []"
    with f(1) number have "nat ?v = 0" by simp
    with \<open>0 \<le> ?v\<close> assms(3) show False by linarith
  qed
  moreover have "decimals p u = CHR ''.'' # ds" using assms(3) by (simp add: decimals_def ds_def)
  moreover have "length ds + k = p" using pad(1) unfolding k by simp
  ultimately show thesis using that digits f(1) number by blast
qed

section \<open>Terms\<close>

definition unitName :: "string \<Rightarrow> bool" where
  "unitName us \<longleftrightarrow> us \<noteq> [] \<and> list_all (\<lambda>c. \<not> unitEnd c) us"

lemma unitName_hd: "unitName us \<Longrightarrow> \<not> unitEnd (hd (us @ s))"
  by (cases us) (auto simp: unitName_def)

lemma unitName_take:
  assumes "unitName us" and "s = [] \<or> isDigit (hd s)"
  shows "takeWhile (\<lambda>c. \<not> unitEnd c) (us @ s) = us"
  using assms by (cases s) (auto simp: unitName_def unitEnd_def list_all_iff takeWhile_append2)

lemma nat_dec_all: "list_all isDigit (nat_dec n)"
  using nat_dec_digits by (auto simp: list_all_iff isDigit_def)

lemma termValue_plain:
  assumes "unitName us" and "unitMap us = Some unit" and "0 < unit" and "s = [] \<or> isDigit (hd s)"
    and "n * nat unit \<le> 2 ^ 63"
  shows "termValue orig n 0 scale (us @ s) = Inr (n * nat unit, s)"
proof -
  have "n \<le> 2 ^ 63 div nat unit" using assms(3,5) by (simp add: less_eq_div_iff_mult_less_eq)
  then show ?thesis
    using assms(1,2,5) unitName_take [OF assms(1,4)] by (simp add: termValue_def unitName_def)
qed

lemma termValue_fraction:
  assumes "unitName us" and "unitMap us = Some (10 ^ p)" and "s = [] \<or> isDigit (hd s)"
    and "0 < f" and "l + k = p" and "p \<le> 9" and "f * 10 ^ k < 10 ^ p" and "n * 10 ^ p + f * 10 ^ k \<le> 2 ^ 63"
  shows "termValue orig n f (10 ^ l) (us @ s) = Inr (n * 10 ^ p + f * 10 ^ k, s)"
proof -
  have "(10 ^ p :: rat) / 10 ^ l = 10 ^ k" using assms(5) by (auto simp: power_add)
  then have scale: "float64 (of_int (10 ^ p) / 10 ^ l) = 10 ^ k" using float64_pow10 [of k] assms(5,6) by simp
  have "f * 10 ^ k < 2 ^ 53" using pow10_bound [of p] assms(6,7) by linarith
  moreover from this have "f < 2 ^ 53" using le_less_trans [of f "f * 10 ^ k"] by simp
  ultimately have "float64 (of_nat f) = of_nat f" "float64 (of_nat f * 10 ^ k) = of_nat (f * 10 ^ k)"
    using float64_nat [of f] float64_nat [of "f * 10 ^ k"] by simp_all
  then have nanos: "nat \<lfloor>float64 (float64 (of_nat f) * float64 (of_int (10 ^ p) / 10 ^ l))\<rfloor> = f * 10 ^ k"
    unfolding scale by (simp only: floor_of_nat nat_int)
  have ten: "nat (10 ^ p) = 10 ^ p" by (simp add: nat_power_eq)
  have "n \<le> 2 ^ 63 div nat (10 ^ p)"
    unfolding ten using assms(8) by (simp add: less_eq_div_iff_mult_less_eq)
  then show ?thesis
    using assms(1,2,4,8) unitName_take [OF assms(1,3)] nanos
    by (simp add: termValue_def unitName_def Let_def nat_power_eq)
qed

lemma durationTerm_number:
  assumes "s = [] \<or> \<not> unitEnd (hd s)" and "n \<le> 2 ^ 63"
  shows "durationTerm orig (nat_dec n @ s) = termValue orig n 0 1 s"
proof -
  have "leadingInt 0 (nat_dec n @ s) = Some (n, s)"
    by (rule leadingInt_digits [OF nat_dec_all parse_digits_nat_dec assms(2)]) (use assms(1) in \<open>auto simp: unitEnd_def\<close>)
  moreover have "unitEnd (hd (nat_dec n @ s))"
    using nat_dec_all [of n] by (cases "nat_dec n") (auto simp: unitEnd_def)
  moreover have "\<not> (s \<noteq> [] \<and> hd s = CHR ''.'')" using assms(1) by (auto simp: unitEnd_def)
  ultimately show ?thesis by (auto simp: durationTerm_def)
qed

lemma durationTerm_fraction:
  assumes "s = [] \<or> \<not> isDigit (hd s)" and "n \<le> 2 ^ 63"
    and "list_all isDigit ds" and "parse_digits 0 ds = Some f" and "length ds \<le> 15"
  shows "durationTerm orig (nat_dec n @ CHR ''.'' # ds @ s) = termValue orig n f (10 ^ length ds) s"
proof -
  have "leadingInt 0 (nat_dec n @ CHR ''.'' # ds @ s) = Some (n, CHR ''.'' # ds @ s)"
    by (rule leadingInt_digits [OF nat_dec_all parse_digits_nat_dec assms(2)]) (simp add: isDigit_def)
  moreover have "leadingFraction 0 1 False (ds @ s) = (f, 10 ^ length ds, s)"
    using leadingFraction_digits [OF assms(3,4,1), of 0] assms(5) by simp
  moreover have "unitEnd (hd (nat_dec n @ CHR ''.'' # ds @ s))"
    using nat_dec_all [of n] by (cases "nat_dec n") (auto simp: unitEnd_def)
  ultimately show ?thesis by (simp add: durationTerm_def)
qed

text \<open>A number with a fraction of a unit, as it is printed.\<close>

lemma durationTerm_decimals:
  assumes "unitName us" and "unitMap us = Some (10 ^ p)" and "s = [] \<or> isDigit (hd s)" and "0 \<le> u"
    and "0 < p" and "p \<le> 9" and "n * 10 ^ p + nat (u mod 10 ^ p) \<le> 2 ^ 63"
  shows "durationTerm orig (nat_dec n @ decimals p u @ us @ s) = Inr (n * 10 ^ p + nat (u mod 10 ^ p), s)"
proof -
  have "n \<le> n * 10 ^ p" by simp
  then have n: "n \<le> 2 ^ 63" using assms(7) by linarith
  have us: "us @ s = [] \<or> \<not> unitEnd (hd (us @ s))" using unitName_hd [OF assms(1)] by blast
  show ?thesis
  proof (cases "u mod 10 ^ p = 0")
    case True
    have "durationTerm orig (nat_dec n @ us @ s) = Inr (n * nat (10 ^ p), s)"
      unfolding durationTerm_number [OF us n]
      by (rule termValue_plain [OF assms(1,2) _ assms(3)]) (use True assms(7) in \<open>simp_all add: nat_power_eq\<close>)
    with True show ?thesis by (simp add: decimals_def nat_power_eq)
  next
    case False
    then obtain ds k f where ds: "decimals p u = CHR ''.'' # ds" "list_all isDigit ds" "length ds + k = p"
      "parse_digits 0 ds = Some f" and f: "f * 10 ^ k = nat (u mod 10 ^ p)"
      using decimals_digits [OF assms(5,4)] by metis
    have v: "0 \<le> u mod 10 ^ p" "u mod 10 ^ p < 10 ^ p" by simp_all
    then have "0 < nat (u mod 10 ^ p)" using False by linarith
    moreover have "nat (u mod 10 ^ p) < nat (10 ^ p)" using v by (subst nat_less_eq_zless) simp_all
    ultimately have small: "0 < f" "f * 10 ^ k < 10 ^ p"
      unfolding f [symmetric] by (auto simp: nat_power_eq intro: gr0I)
    have "us @ s = [] \<or> \<not> isDigit (hd (us @ s))" using us by (auto simp: unitEnd_def)
    from durationTerm_fraction [OF this n ds(2,4)] ds(3) assms(6)
    have "durationTerm orig (nat_dec n @ decimals p u @ us @ s) = termValue orig n f (10 ^ length ds) (us @ s)"
      by (simp add: ds(1))
    also have "\<dots> = Inr (n * 10 ^ p + f * 10 ^ k, s)"
      by (rule termValue_fraction [OF assms(1-3) small(1) ds(3) assms(6) small(2)]) (use assms(7) f in simp)
    finally show ?thesis using f by simp
  qed
qed

lemma durationTerms_step:
  assumes "durationTerm orig t = Inr (v, s)" and "d + v \<le> 2 ^ 63"
  shows "durationTerms orig d t = durationTerms orig (d + v) s"
proof -
  have "t \<noteq> []" using assms(1) by (auto simp: durationTerm_def)
  moreover have "(d + v) mod 2 ^ 64 = d + v" using assms(2) by simp
  ultimately show ?thesis using assms by (subst durationTerms.simps) simp
qed

section \<open>Durations\<close>

lemma units:
  "unitName ''s''" "unitName ''m''" "unitName ''h''" "unitName ''ns''" "unitName ''ms''" "unitName (microSign @ ''s'')"
  "unitMap ''s'' = Some (10 ^ 9)" "unitMap ''m'' = Some minute" "unitMap ''h'' = Some hour" "unitMap ''ns'' = Some 1"
  "unitMap ''ms'' = Some (10 ^ 6)" "unitMap (microSign @ ''s'') = Some (10 ^ 3)"
  by code_simp+

lemma itoa_nat: "0 \<le> i \<Longrightarrow> itoa i = nat_dec (nat i)"
  by (simp add: itoa_def)

lemma itoa_digit: "0 \<le> i \<Longrightarrow> isDigit (hd (itoa i @ s))"
  using nat_dec_all [of "nat i"] by (cases "nat_dec (nat i)") (auto simp: itoa_def)

text \<open>A whole number of a unit before the rest of the terms.\<close>

lemma plain_step:
  assumes "unitName us" and "unitMap us = Some unit" and "0 < unit" and "0 \<le> i" and "s = [] \<or> isDigit (hd s)"
    and "d + nat i * nat unit \<le> 2 ^ 63"
  shows "durationTerms orig d (itoa i @ us @ s) = durationTerms orig (d + nat i * nat unit) s"
proof (rule durationTerms_step [OF _ assms(6)])
  have "1 \<le> nat unit" using assms(3) by simp
  then have "nat i \<le> nat i * nat unit" by simp
  then have "nat i \<le> 2 ^ 63" using assms(6) by linarith
  moreover have "us @ s = [] \<or> \<not> unitEnd (hd (us @ s))" using unitName_hd [OF assms(1)] by blast
  ultimately have "durationTerm orig (itoa i @ us @ s) = termValue orig (nat i) 0 1 (us @ s)"
    unfolding itoa_nat [OF assms(4)] by (intro durationTerm_number)
  also have "\<dots> = Inr (nat i * nat unit, s)" by (rule termValue_plain) (use assms in auto)
  finally show "durationTerm orig (itoa i @ us @ s) = Inr (nat i * nat unit, s)" .
qed

lemma decimals_step:
  assumes "unitName us" and "unitMap us = Some (10 ^ p)" and "0 \<le> i" and "0 \<le> u" and "0 < p" and "p \<le> 9"
    and "d + (nat i * 10 ^ p + nat (u mod 10 ^ p)) \<le> 2 ^ 63"
  shows "durationTerms orig d (itoa i @ decimals p u @ us) = Inr (d + (nat i * 10 ^ p + nat (u mod 10 ^ p)))"
proof -
  have "durationTerm orig (nat_dec (nat i) @ decimals p u @ us @ []) = Inr (nat i * 10 ^ p + nat (u mod 10 ^ p), [])"
    using assms by (intro durationTerm_decimals) auto
  then have "durationTerm orig (itoa i @ decimals p u @ us) = Inr (nat i * 10 ^ p + nat (u mod 10 ^ p), [])"
    by (simp add: itoa_nat assms(3))
  from durationTerms_step [OF this assms(7)] show ?thesis by (simp add: durationTerms.simps)
qed

lemma nat_parts:
  assumes "0 \<le> u" and "(b :: int) = 10 ^ p"
  shows "nat (u div b) * 10 ^ p + nat (u mod b) = nat u"
proof -
  have "nat u = nat (u div b * b + u mod b)" by simp
  also have "\<dots> = nat (u div b) * nat b + nat (u mod b)"
    using assms by (simp add: nat_add_distrib nat_mult_distrib pos_imp_zdiv_nonneg_iff)
  finally show ?thesis by (simp add: assms(2) nat_power_eq)
qed

text \<open>Below a second there is one term.\<close>

lemma short_terms:
  assumes "0 < u" and "u < second"
  shows "durationTerms orig 0 (durationString u) = Inr (nat u)"
proof -
  have small: "nat u \<le> 2 ^ 63" using assms by (simp add: second_def)
  consider "u < 1000" | "1000 \<le> u" "u < 1000000" | "1000000 \<le> u" by linarith
  then show ?thesis
  proof cases
    case 1
    then have "durationString u = itoa u @ ''ns'' @ []" using assms(1) by (simp add: durationString_def)
    moreover have "durationTerms orig 0 (itoa u @ ''ns'' @ []) = durationTerms orig (0 + nat u * nat 1) []"
      by (rule plain_step [OF units(4,10)]) (use assms(1) small in simp_all)
    ultimately show ?thesis by (simp add: durationTerms.simps)
  next
    case 2
    then have "durationString u = itoa (u div 10 ^ 3) @ decimals 3 u @ microSign @ ''s''"
      using assms(1) by (simp add: durationString_def)
    moreover have "durationTerms orig 0 (itoa (u div 10 ^ 3) @ decimals 3 u @ microSign @ ''s'')
        = Inr (0 + (nat (u div 10 ^ 3) * 10 ^ 3 + nat (u mod 10 ^ 3)))"
      by (rule decimals_step [OF units(6,12)])
         (use assms(1) small nat_parts [of u "10 ^ 3" 3] in \<open>simp_all add: pos_imp_zdiv_nonneg_iff\<close>)
    ultimately show ?thesis using nat_parts [of u "10 ^ 3" 3] assms(1) by simp
  next
    case 3
    then have "durationString u = itoa (u div 10 ^ 6) @ decimals 6 u @ ''ms''"
      using assms by (simp add: durationString_def)
    moreover have "durationTerms orig 0 (itoa (u div 10 ^ 6) @ decimals 6 u @ ''ms'')
        = Inr (0 + (nat (u div 10 ^ 6) * 10 ^ 6 + nat (u mod 10 ^ 6)))"
      by (rule decimals_step [OF units(5,11)])
         (use assms(1) small nat_parts [of u "10 ^ 6" 6] in \<open>simp_all add: pos_imp_zdiv_nonneg_iff\<close>)
    ultimately show ?thesis using nat_parts [of u "10 ^ 6" 6] assms(1) by simp
  qed
qed

lemma long_parts:
  assumes "0 \<le> u" and "w = u div second" and "m = w div 60" and "h = m div 60"
  shows "nat h * nat hour + nat (m mod 60) * nat minute + (nat (w mod 60) * 10 ^ 9 + nat (u mod 10 ^ 9)) = nat u"
proof -
  have nonneg: "0 \<le> w" "0 \<le> m" "0 \<le> h" using assms by (simp_all add: pos_imp_zdiv_nonneg_iff second_def)
  have "u = w * 1000000000 + u mod 1000000000" "w = m * 60 + w mod 60" "m = h * 60 + m mod 60"
    using assms(2-4) by (simp_all only: second_def div_mult_mod_eq)
  then have sum: "h * 3600000000000 + m mod 60 * 60000000000 + (w mod 60 * 1000000000 + u mod 1000000000) = u"
    by linarith
  have units: "nat hour = 3600000000000" "nat minute = 60000000000" "(10 :: nat) ^ 9 = 1000000000" "(10 :: int) ^ 9 = 1000000000"
    by (simp_all add: hour_def minute_def second_def)
  obtain a where a: "h = int a" using nonneg(3) by (rule nonneg_int_cases)
  obtain b where b: "m mod 60 = int b" by (rule nonneg_int_cases [of "m mod 60"]) simp_all
  obtain c where c: "w mod 60 = int c" by (rule nonneg_int_cases [of "w mod 60"]) simp_all
  obtain d where d: "u mod 1000000000 = int d" by (rule nonneg_int_cases [of "u mod 1000000000"]) simp_all
  have "int (a * 3600000000000 + b * 60000000000 + (c * 1000000000 + d)) = u"
    using sum unfolding a b c d by simp
  then show ?thesis unfolding units a b c d nat_int by linarith
qed

lemma long_terms:
  assumes "second \<le> u" and "u \<le> 2 ^ 63"
  shows "durationTerms orig 0 (durationString u) = Inr (nat u)"
proof -
  define w where "w = u div second"
  define m where "m = w div 60"
  define h where "h = m div 60"
  define H M S where "H = nat h * nat hour" and "M = nat (m mod 60) * nat minute"
    and "S = nat (w mod 60) * 10 ^ 9 + nat (u mod 10 ^ 9)"
  have pos: "0 \<le> u" "0 < u" using assms(1) by (simp_all add: second_def)
  then have nonneg: "0 \<le> w" "0 \<le> m" "0 \<le> h" by (simp_all add: w_def m_def h_def pos_imp_zdiv_nonneg_iff second_def)
  have total: "H + M + S = nat u"
    unfolding H_def M_def S_def by (rule long_parts [OF pos(1) w_def m_def h_def])
  have bound: "nat u \<le> 2 ^ 63" using assms(2) by simp
  have units_pos: "0 < hour" "0 < minute" by (simp_all add: hour_def minute_def second_def)
  let ?s = "itoa (w mod 60) @ decimals 9 u @ ''s''"
  have "\<not> u = 0" "\<not> u < 1000" "\<not> u < 1000000" "\<not> u < second" using assms(1) by (simp_all add: second_def)
  then have printed: "durationString u =
      (if m > 0 then (if h > 0 then itoa h @ ''h'' else []) @ itoa (m mod 60) @ ''m'' else []) @ ?s"
    using pos(2) by (simp add: durationString_def Let_def w_def m_def h_def)
  have digit: "isDigit (hd ?s)" "isDigit (hd (itoa (m mod 60) @ ''m'' @ ?s))" by (rule itoa_digit, simp)+
  have s: "durationTerms orig d ?s = Inr (d + S)" if "d + S \<le> 2 ^ 63" for d
    unfolding S_def by (rule decimals_step [OF units(1,7) _ pos(1)]) (use that [unfolded S_def] in simp_all)
  have ms: "durationTerms orig d (itoa (m mod 60) @ ''m'' @ ?s) = Inr (d + M + S)" if "d + M + S \<le> 2 ^ 63" for d
  proof -
    have "d + M \<le> 2 ^ 63" using that by linarith
    then have "durationTerms orig d (itoa (m mod 60) @ ''m'' @ ?s) = durationTerms orig (d + M) ?s"
      unfolding M_def using digit(1) by (intro plain_step [OF units(2,8) units_pos(2)]) simp_all
    then show ?thesis using s [OF that] by (simp only:)
  qed
  have fits: "S \<le> 2 ^ 63" "M + S \<le> 2 ^ 63" "0 + H \<le> 2 ^ 63" "H + M + S \<le> 2 ^ 63" using total bound by linarith+
  consider "m = 0" | "0 < m" "h = 0" | "0 < m" "0 < h" using nonneg by linarith
  then show ?thesis
  proof cases
    case 1
    then have "H = 0" "M = 0" by (simp_all add: H_def M_def h_def)
    then have "durationTerms orig 0 ?s = Inr (nat u)" using s [of 0] fits(1) by (simp flip: total)
    moreover have "durationString u = ?s" unfolding printed using 1 by (simp only: if_False less_irrefl append_Nil)
    ultimately show ?thesis by (simp only:)
  next
    case 2
    then have "H = 0" by (simp add: H_def)
    then have "durationTerms orig 0 (itoa (m mod 60) @ ''m'' @ ?s) = Inr (nat u)"
      using ms [of 0] fits(2) by (simp flip: total)
    moreover have "durationString u = itoa (m mod 60) @ ''m'' @ ?s"
      unfolding printed using 2 by (simp only: if_True if_False less_irrefl append_Nil append_assoc)
    ultimately show ?thesis by (simp only:)
  next
    case 3
    from fits(3) have "durationTerms orig 0 (itoa h @ ''h'' @ itoa (m mod 60) @ ''m'' @ ?s)
        = durationTerms orig (0 + H) (itoa (m mod 60) @ ''m'' @ ?s)"
      unfolding H_def using digit(2) nonneg(3) by (intro plain_step [OF units(3,9) units_pos(1)]) simp_all
    also have "\<dots> = Inr (nat u)" using ms [OF fits(4)] by (simp flip: total)
    moreover have "durationString u = itoa h @ ''h'' @ itoa (m mod 60) @ ''m'' @ ?s"
      unfolding printed using 3 by (simp only: if_True append_assoc)
    ultimately show ?thesis by (simp only:)
  qed
qed

lemma durationString_terms: "0 < u \<Longrightarrow> u \<le> 2 ^ 63 \<Longrightarrow> durationTerms orig 0 (durationString u) = Inr (nat u)"
  using short_terms long_terms by (cases "u < second") auto

lemma durationString_neg: "d < 0 \<Longrightarrow> durationString d = CHR ''-'' # durationString (- d)"
  by (simp add: durationString_def Let_def)

text \<open>What a text that is read as terms looks like.\<close>

lemma terms_text:
  assumes "durationTerms orig 0 t = Inr n" and "0 < n"
  shows "t \<noteq> []" "unitEnd (hd t)" "t \<noteq> ''0''"
proof -
  show "t \<noteq> []" using assms by (auto simp: durationTerms.simps)
  then show "unitEnd (hd t)" using assms(1) by (auto simp: durationTerms.simps durationTerm_def split: if_splits)
  show "t \<noteq> ''0''"
  proof
    have "durationTerms orig 0 ''0'' = Inl (''time: missing unit in duration '' @ timeQuote orig)"
      by (simp add: durationTerms.simps durationTerm_def termValue_def unitEnd_def isDigit_def digitValue_def)
    moreover assume "t = ''0''"
    ultimately show False using assms(1) by simp
  qed
qed

lemma parseDuration_unsigned:
  assumes "durationTerms t 0 t = Inr n" and "0 < n" and "n \<le> 2 ^ 63 - 1"
  shows "parseDuration t = Inr (int n)"
proof -
  note t = terms_text [OF assms(1,2)]
  then obtain c s where cs: "t = c # s" "unitEnd c" by (cases t) auto
  then have "c \<noteq> CHR ''-''" "c \<noteq> CHR ''+''" by (auto simp: unitEnd_def isDigit_def)
  with cs t(3) assms(1,3) show ?thesis by (auto simp: parseDuration_def)
qed

lemma parseDuration_negative:
  assumes "durationTerms (CHR ''-'' # t) 0 t = Inr n" and "0 < n"
  shows "parseDuration (CHR ''-'' # t) = Inr (- int n)"
  using assms(1) terms_text [OF assms] by (simp add: parseDuration_def)

text \<open>A duration of 64 bits that is written to the configuration is read back as it was.\<close>

theorem duration_text_roundtrip:
  assumes "- (2 ^ 63) \<le> d" and "d < 2 ^ 63" and "MarshalText d = Inr str"
  shows "UnmarshalText str = Inr d"
proof -
  have written: "str = durationString d" using assms(3) by (simp add: MarshalText_def)
  consider "d = 0" | "0 < d" | "d < 0" by linarith
  then have "parseDuration (durationString d) = Inr d"
  proof cases
    case 1
    have "parseDuration (durationString 0) = Inr 0" by code_simp
    with 1 show ?thesis by (simp only:)
  next
    case 2
    have "durationTerms orig 0 (durationString d) = Inr (nat d)" for orig
      using durationString_terms 2 assms(2) by (meson less_imp_le)
    moreover have "0 < nat d" "int (nat d) = d" using 2 by simp_all
    moreover from this have "nat d \<le> 2 ^ 63 - 1" using assms(2) by simp
    ultimately show ?thesis using parseDuration_unsigned by metis
  next
    case 3
    then have "0 < - d" "- d \<le> 2 ^ 63" using assms(1) by linarith+
    then have "durationTerms orig 0 (durationString (- d)) = Inr (nat (- d))" for orig
      by (rule durationString_terms)
    moreover have "0 < nat (- d)" "- int (nat (- d)) = d" using 3 by simp_all
    ultimately show ?thesis unfolding durationString_neg [OF 3] using parseDuration_negative by metis
  qed
  then show ?thesis by (simp only: UnmarshalText_def written)
qed

theorem duration_text_roundtrip_witness:
  "UnmarshalText ''-1h0m0.25s'' = Inr (-3600250000000)"
proof -
  have "MarshalText (-3600250000000) = Inr ''-1h0m0.25s''" by code_simp
  then show ?thesis by (rule duration_text_roundtrip [rotated 2]) simp_all
qed

end
