(* ===== verification/Load_Digest.thy ===== *)
theory Load_Digest
  imports Github_Webhook Go_Paths "HOL-Library.Multiset" "HOL-Library.Char_ord" "HOL-Library.List_Lexorder"
begin

text \<open>
  The workload of the load test (\<open>loadtest/repo-template/workload/digest.go\<close>): the SHA-256 of the files of
  a directory.  \<open>sha256\<close>, the listing of a directory (names, and whether they are directories) and the
  contents of a file, or the error of opening or reading it, are parameters.

  \<open>digest_of_files\<close>: the digest is that of the files in the order of their names, whatever the order in which
  they are listed.
\<close>

fun digestFiles :: "(string \<Rightarrow> string result) \<Rightarrow> string \<Rightarrow> string \<Rightarrow> string list \<Rightarrow> string result" where
  "digestFiles readFile base hashed [] = Inr hashed"
| "digestFiles readFile base hashed (name # names) =
     (case readFile (joinPath [base, name]) of
        Inl err \<Rightarrow> Inl err
      | Inr data \<Rightarrow> digestFiles readFile base (hashed @ data) names)"

definition DigestDir ::
  "(string \<Rightarrow> string) \<Rightarrow> (string \<Rightarrow> (string \<times> bool) list result) \<Rightarrow> (string \<Rightarrow> string result) \<Rightarrow> string \<Rightarrow> string result" where
  "DigestDir sha256 readDir readFile base =
     (case readDir base of
        Inl err \<Rightarrow> Inl err
      | Inr entries \<Rightarrow>
          (case digestFiles readFile base [] (sort (map fst (filter (\<lambda>(name, dir). \<not> dir) entries))) of
             Inl err \<Rightarrow> Inl err
           | Inr hashed \<Rightarrow> Inr (hexEncode (sha256 hashed))))"

lemma digestFiles_contents:
  assumes "\<And>n. n \<in> set names \<Longrightarrow> readFile (joinPath [base, n]) = Inr (content n)"
  shows "digestFiles readFile base hashed names = Inr (hashed @ concat (map content names))"
  using assms by (induction names arbitrary: hashed) simp_all

lemma digestFiles_error:
  assumes "digestFiles readFile base hashed names = Inl err"
  shows "\<exists>n \<in> set names. readFile (joinPath [base, n]) = Inl err"
  using assms by (induction names arbitrary: hashed) (auto split: sum.splits)

text \<open>The digest is that of the contents of the files in the order of their names.\<close>

theorem digest_of_files:
  assumes "readDir base = Inr entries" and "mset entries = mset entries'"
    and "\<And>n. (n, False) \<in> set entries' \<Longrightarrow> readFile (joinPath [base, n]) = Inr (content n)"
  shows "DigestDir sha256 readDir readFile base
    = Inr (hexEncode (sha256 (concat (map content (sort (map fst (filter (\<lambda>(n, dir). \<not> dir) entries')))))))"
proof -
  let ?names = "\<lambda>es. map fst (filter (\<lambda>(n, dir). \<not> dir) es)"
  have "mset (?names entries) = mset (?names entries')" using assms(2) by (simp add: mset_map mset_filter)
  then have "sort (?names entries) = sort (?names entries')" by (metis properties_for_sort sorted_sort mset_sort)
  moreover have "digestFiles readFile base [] (sort (?names entries')) = Inr ([] @ concat (map content (sort (?names entries'))))"
    using assms(3) by (intro digestFiles_contents) auto
  ultimately show ?thesis using assms(1) by (simp add: DigestDir_def)
qed

text \<open>Neither the names nor the borders of the files are hashed.\<close>

lemma digest_ignores_borders:
  "DigestDir sha256 (\<lambda>_. Inr [(''a'', False), (''b'', False)]) (\<lambda>p. if p = ''d/a'' then Inr ''xy'' else Inr []) ''d''
     = DigestDir sha256 (\<lambda>_. Inr [(''b'', False), (''sub'', True), (''a'', False)])
         (\<lambda>p. if p = ''d/a'' then Inr ''x'' else Inr ''y'') ''d''"
proof -
  have "joinPath [''d'', ''a''] = ''d/a''" "joinPath [''d'', ''b''] = ''d/b''" by code_simp+
  then show ?thesis by (simp add: DigestDir_def)
qed

end
