(* ===== verification/Spec2Isabelle.thy ===== *)
theory Spec2Isabelle
  imports Reconciler_Claims Fs_State Demand_Tracker Seen_Cache Github_Inventory Github_Provider
    Github_Webhook Webhook Debouncer Daemon_Loop Daemon_Passes Log_Query Log_Handler Issue_Delivery Daemon_Metrics
    Config Cache_Scripts Lxd_Cache Loki_Push Wiring Daemon_Run Activity Github_Target Daemon_Server
    Lxd_Pass Duration_Roundtrip Load_Digest
begin

text \<open>
  A verification development for gh-runner-scaler, a daemon that keeps self-hosted GitHub Actions
  runners in LXD containers: it clones a container for every waiting job, registers a runner in
  it, and removes it when its job is done or it has been idle too long.

  \<^bold>\<open>How the program is put together.\<close>  \<open>cmd/scaler/main.go\<close> loads the configuration, opens the log store and
  wires, for every runner class, a connection to LXD, a cache manager, a GitHub provider, a state
  store and a reconciler into a runner group.  The daemon (\<open>internal/daemon\<close>) gets the groups.
  Webhooks say which jobs wait and run; the demand tracker (\<open>internal/demand\<close>) counts the waiting
  ones on disk; triggers wake the reconcile loop, which lets the reconciler
  (\<open>internal/engine\<close>) of every selected group make one pass with the demand of its group.  A second
  loop reports metrics to Loki, among them some derived from the daemon's own log, a third one
  replaces the demand by an audit of the queued jobs.

  \<^bold>\<open>Conventions.\<close>  Definitions bear the names of the code where HOL leaves them free; a record has the
  fields of its struct behind a prefix.  A Go \<open>error\<close> is its text, a fallible call a sum
  (\<open>Inl\<close> the error) or an optional error, a panic \<open>None\<close> of an outer option.  Strings are lists of bytes,
  a time counts nanoseconds since Go's zero time without bound, \<open>time_sub\<close> saturates as \<open>Time.Sub\<close> does, and
  counters that wrap are \<open>64 word\<close>.  A Go map is an association list with distinct keys or a function.
  What other packages and machines answer is a parameter: an environment of the answers to each
  call, which may depend on everything that happened before.

  \<^bold>\<open>Foundations.\<close>  \<open>Go_Prelude\<close> (strings, numbers), \<open>Go_Time\<close> and \<open>Time_Roundtrip\<close> (RFC 3339), \<open>Go_Duration\<close> (durations as text),
  \<open>Go_Paths\<close> (\<open>path/filepath\<close>, \<open>net/url\<close>), \<open>Go_Json\<close>, \<open>Json_Indent\<close> and \<open>Go_Unmarshal\<close> (\<open>encoding/json\<close>: values and
  their text, indented text, decoding into Go values), \<open>File_System\<close> (directories, torn and
  atomic writes, Go maps) and \<open>Shell\<close> (the tokens a POSIX shell reads and what it would expand) model what
  the code uses of the standard library and the shell.  \<open>Scaler_Domain\<close> and \<open>Metric_Domain\<close> are the types of
  \<open>internal/domain/types.go\<close>.

  \<^bold>\<open>The reconciler\<close> (\<open>internal/engine/reconciler.go\<close>, \<open>internal/runnerobs\<close>).  \<open>Effects\<close> gives programs over
  the trace of their calls, in the state monad of the library, with rules to prove what a program
  \<open>yields\<close> in every environment.  \<open>Runner_Labels\<close> and \<open>Runner_Obs\<close> model the pure helpers and the log
  bootstrapper, \<open>Reconciler\<close> every method of the engine, call by call.  \<open>Reconciler_Safety\<close> describes the
  events of every step, \<open>Reconciler_Pass\<close> those of a pass, and \<open>Reconciler_Claims\<close> concludes: the bound on
  containers and clones at every moment of a pass, the reasons a teardown needs, the guard of the
  inventory around mutations, the order of a scale-up, and that a pass whose calls succeed meets
  the demand.  \<open>Activity\<close> runs a pass on the file store of \<open>Fs_State\<close>: recorded activity protects a
  container until the idle timeout, or the grace period while no runner of its name is registered, up to
  the second that is rounded off.

  \<^bold>\<open>State on disk.\<close>  \<open>Fs_State\<close> (\<open>provider/fsstate\<close>), \<open>Demand_Tracker\<close> and \<open>Seen_Cache\<close> (\<open>seen_cache.go\<close>) state their
  interfaces as the locales \<open>state_store\<close>, \<open>demand_store\<close> and \<open>delivery_log\<close> and interpret them on the code's
  operations: a store remembers the last update, the tracker refines a set of waiting jobs and is
  restored by a restart, a delivery log delivers nothing twice.  The files of the last two are the bytes
  of their JSON text; \<open>Demand_State\<close> is that of the tracker, with every field of a job.  \<open>Log_Entry\<close>, \<open>Log_Store\<close>, \<open>Log_Query\<close> and
  \<open>Log_Handler\<close> are \<open>logs.go\<close>: what survives a write that is cut at any byte, what a query and \<open>/logs\<close>
  return.

  \<^bold>\<open>The daemon.\<close>  \<open>Webhook\<close> and \<open>Github_Webhook\<close>: authentication, dispatch, the demand that job events leave, and
  the cache sync script.  \<open>Daemon_Server\<close> puts the handlers behind the mux of the server: who can change the
  daemon through it, and who can read its log.  \<open>Debouncer\<close> and \<open>Daemon_Loop\<close> are step relations over the atomic steps of the code,
  with callers, timers and the loop interleaved; their theorems hold in every reachable state.  The
  locale \<open>pass_progress\<close> carries the argument that a trigger leads to a pass, for two kinds of
  daemon.  \<open>Daemon_Passes\<close> composes loop, tracker and reconciler.  \<open>Daemon_Metrics\<close>, \<open>Analytics\<close> and
  \<open>Issue_Delivery\<close> are the metrics, those of the log and their delivery over restarts of the daemon, which
  reloads the delivery log from its file, \<open>Loki_Push\<close> the backend of
  \<open>provider/loki\<close> with its streams and retries.

  \<^bold>\<open>Providers and configuration.\<close>  \<open>Github_Inventory\<close> and \<open>Github_Provider\<close> (\<open>provider/github\<close>): the shared runner
  inventory as a step relation of fetches and mutations, tokens, pagination, audits.  \<open>Github_Target\<close> adds the endpoints behind them: a provider of a
  repository depends on nothing but that repository.
  \<open>Lxd_Runtime\<close> and \<open>Lxd_Cache\<close> (\<open>provider/lxd\<close>): clones on the managed network, named remotes, cache volume, and
  the readiness wait with its timer, ticker and context over time; \<open>Cache_Scripts\<close> are the shell scripts as the
  shell reads them, with what each command of the cleanup can remove.  \<open>Lxd_Pass\<close> answers the calls of a pass
  by these operations on one server that others change in the meantime: the limit on containers holds for the
  instances the server has, but for those that others add and that clones leave whose error the code takes for
  a conflict of names (both are counted), and instances of others are left alone.  \<open>Config\<close> is \<open>config.go\<close>:
  what a configuration that loads guarantees; \<open>Duration_Roundtrip\<close> adds the text form of its durations, which are read back
  as they were written.  \<open>Wiring\<close> and \<open>Daemon_Run\<close> are
  \<open>main.go\<close> and the start of the daemon: the guarantees of the configuration become what the theorems
  on the reconciler ask for.

  \<^bold>\<open>Bounds and fuel.\<close>  There is no fuel.  Loops of the code that end are recursions on data or, as the
  retries of the preflight, the scale-up and \<open>nextName\<close>, functions with a measure.  Pagination ends only if
  GitHub says so and is a partial function; the readiness wait is a function of its rounds, each with the
  choice of \<open>select\<close> among the cases that are ready at that time and the time a check takes, and is proved to
  end soon after its timeout when no check hangs and \<open>select\<close> is fair.  The only bounds are those of the code: 20000 log entries and
  delivered keys, 1000 entries of a query, three clone attempts, two delays of a push.

  \<^bold>\<open>Not modelled.\<close>  The client libraries for GitHub and LXD, TOML decoding, HMAC-SHA256 and the HTTP client
  are parameters with the behaviour the code relies on.  Of the HTTP server the mux is modelled, for
  paths without escapes, not its connections.  Floats are exact rationals whose decimal form is given, but for
  \<open>ParseDuration\<close>, where each operation rounds to 53 bits.  Goroutines are the interleavings of the step
  relations; data races are not modelled, as the code holds its locks at the modelled steps.
  JSON texts with characters beyond ASCII, which the encoder checks for valid UTF-8, are outside the round trips.
  Flags, signals, the tickers of the daemon and the terminal output are left out, as are the interfaces of \<open>internal/iface\<close>, which
  have no code.  Of \<open>loadtest\<close> only the digest of \<open>digest.go\<close> is modelled, in \<open>Load_Digest\<close>; it stands apart from the scaler.
\<close>

end
